(* ===== verification/Prelude.thy ===== *)
theory Prelude
  imports Main "HOL-Library.Multiset" "HOL-Library.Word" "HOL-Library.While_Combinator"
begin

text \<open>
  What the component theories share: the result type of fallible operations, counting
  loops written as folds over index intervals and their invariant rule, array updates and
  swaps, the byte order helpers of the socket code, and the collections that carry the
  automation (\<open>arr\<close> for array facts, \<open>wire\<close> for encoders and decoders).
\<close>

named_theorems arr "facts on arrays updated by index"
named_theorems wire "facts on byte sequences and their readers"

type_synonym byte = "8 word"
type_synonym bytes = "8 word list"

section \<open>Counting loops\<close>

text \<open>\<open>for (i = m; i < n; i++) s = f i s\<close> is \<open>fold f [m..<n] s\<close>; its invariant rule:\<close>

lemma fold_upt_invariant:
  assumes "m \<le> n" "P m s"
    and step: "\<And>k s. m \<le> k \<Longrightarrow> k < n \<Longrightarrow> P k s \<Longrightarrow> P (Suc k) (f k s)"
  shows "P n (fold f [m..<n] s)"
  using assms(1,2) step
proof (induction n)
  case 0 then show ?case by simp
next
  case (Suc n)
  show ?case
  proof (cases "m \<le> n")
    case True
    with Suc have "P n (fold f [m..<n] s)" by simp
    with True Suc.prems(3) show ?thesis by simp
  next
    case False
    with Suc.prems have "m = Suc n" by simp
    with Suc.prems(2) show ?thesis by simp
  qed
qed

lemma fold_rev_upt_invariant:
  assumes "m \<le> n" "P n s"
    and step: "\<And>k s. m \<le> k \<Longrightarrow> k < n \<Longrightarrow> P (Suc k) s \<Longrightarrow> P k (f k s)"
  shows "P m (fold f (rev [m..<n]) s)"
  using assms(1,2) step
proof (induction n arbitrary: s)
  case 0 then show ?case by simp
next
  case (Suc n)
  show ?case
  proof (cases "m \<le> n")
    case True
    with Suc.prems have "P n (f n s)" by simp
    with True Suc.IH [of "f n s"] Suc.prems(3) show ?thesis by simp
  next
    case False
    with Suc.prems have "m = Suc n" by simp
    with Suc.prems(2) show ?thesis by simp
  qed
qed

lemma fold_invariant_set:
  assumes "P s" and "\<And>x s. x \<in> set xs \<Longrightarrow> P s \<Longrightarrow> P (f x s)"
  shows "P (fold f xs s)"
  using assms by (induction xs arbitrary: s) auto

text \<open>A loop whose invariant keeps its condition true never returns.\<close>

lemma while_option_diverges:
  assumes "I s" and keep: "\<And>s. I s \<Longrightarrow> b s \<and> I (c s)"
  shows "while_option b c s = None"
proof -
  have "I ((c ^^ k) s)" for k using assms by (induction k) auto
  then show ?thesis using keep by (auto simp: while_option_def)
qed

section \<open>Arrays\<close>

definition swap_at :: "'a list \<Rightarrow> nat \<Rightarrow> nat \<Rightarrow> 'a list" where
  "swap_at a i j = a[i := a ! j, j := a ! i]"

lemma length_swap_at [simp]: "length (swap_at a i j) = length a"
  by (simp add: swap_at_def)

lemma mset_swap_at [arr]:
  "i < length a \<Longrightarrow> j < length a \<Longrightarrow> mset (swap_at a i j) = mset a"
  by (simp add: swap_at_def mset_swap)

lemma nth_swap_at [arr]:
  "i < length a \<Longrightarrow> j < length a \<Longrightarrow> k < length a \<Longrightarrow>
   swap_at a i j ! k = (if k = j then a ! i else if k = i then a ! j else a ! k)"
  by (simp add: swap_at_def nth_list_update)

lemma mset_update_hole [arr]:
  "k < length a \<Longrightarrow> mset (a[k := y]) + {# a ! k #} = mset a + {# y #}"
proof -
  assume k: "k < length a"
  then have "{# a ! k #} \<subseteq># mset a" by simp
  then have "mset a - {# a ! k #} + {# a ! k #} = mset a" by simp
  with k show ?thesis by (simp add: mset_update)
qed

lemma sorted_iff_adjacent:
  "sorted a \<longleftrightarrow> (\<forall>i. i + 1 < length a \<longrightarrow> a ! i \<le> a ! (i + 1))"
  by (simp add: sorted_iff_nth_Suc)

lemma mset_eq_prefix_le:
  fixes a b :: "'a::linorder list"
  assumes "mset a = mset b" "sorted b" "0 < length b" "x \<in> set a"
  shows "hd b \<le> x"
proof -
  have "x \<in> set b" using assms(1,4) by (metis set_mset_mset)
  then show ?thesis using assms(2,3) by (cases b) auto
qed

section \<open>Text\<close>

text \<open>A string literal as bytes, and the decimal digits of a number.\<close>

definition ascii :: "string \<Rightarrow> bytes" where
  "ascii s = map of_char s"

fun dec :: "nat \<Rightarrow> bytes" where
  "dec n = (if n < 10 then [of_nat (48 + n)] else dec (n div 10) @ [of_nat (48 + n mod 10)])"

declare dec.simps [simp del]

text \<open>The number a digit string denotes; \<open>None\<close> when it is empty or has another character.\<close>

fun parse_digits :: "bytes \<Rightarrow> nat \<Rightarrow> nat option" where
  "parse_digits [] acc = Some acc"
| "parse_digits (c # cs) acc =
     (if 48 \<le> c \<and> c \<le> 57 then parse_digits cs (10 * acc + (unat c - 48)) else None)"

definition parse_dec :: "bytes \<Rightarrow> nat option" where
  "parse_dec cs = (if cs = [] then None else parse_digits cs 0)"

lemma digit_word:
  assumes "d < 10"
  shows "(48 :: 8 word) \<le> of_nat (48 + d)" "of_nat (48 + d) \<le> (57 :: 8 word)"
    "unat (of_nat (48 + d) :: 8 word) = 48 + d"
proof -
  show u: "unat (of_nat (48 + d) :: 8 word) = 48 + d"
    using assms by (simp add: unsigned_of_nat take_bit_nat_eq_self del: of_nat_add)
  show "(48 :: 8 word) \<le> of_nat (48 + d)" "of_nat (48 + d) \<le> (57 :: 8 word)"
    using assms u by (simp_all add: word_le_nat_alt del: of_nat_add)
qed

lemma parse_digits_append:
  "parse_digits (xs @ ys) acc = (case parse_digits xs acc of None \<Rightarrow> None | Some a \<Rightarrow> parse_digits ys a)"
  by (induction xs acc rule: parse_digits.induct) auto

lemma parse_digits_snoc:
  assumes "parse_digits xs 0 = Some m" "d < 10"
  shows "parse_digits (xs @ [of_nat (48 + d)]) 0 = Some (10 * m + d)"
  using assms digit_word [OF assms(2)] by (simp add: parse_digits_append del: of_nat_add)

lemma dec_not_empty [simp]: "dec n \<noteq> []"
  by (subst dec.simps) simp

lemma parse_dec_dec [simp]: "parse_dec (dec n) = Some n"
proof -
  have "parse_digits (dec n) 0 = Some n"
  proof (induction n rule: dec.induct)
    case (1 n)
    show ?case
    proof (cases "n < 10")
      case True
      then show ?thesis using parse_digits_snoc [of "[]" 0 n] by (subst dec.simps) simp
    next
      case False
      with 1 have "parse_digits (dec (n div 10)) 0 = Some (n div 10)" by simp
      from parse_digits_snoc [OF this, of "n mod 10"] False show ?thesis
        by (subst dec.simps) (simp del: of_nat_add)
    qed
  qed
  then show ?thesis by (simp add: parse_dec_def)
qed

lemma dec_digits: "c \<in> set (dec n) \<Longrightarrow> 48 \<le> c \<and> c \<le> 57"
proof (induction n rule: dec.induct)
  case (1 n)
  show ?case
  proof (cases "n < 10")
    case True
    with 1(2) digit_word [OF True] show ?thesis by (subst (asm) dec.simps) (simp del: of_nat_add)
  next
    case False
    have "n mod 10 < 10" by simp
    with 1 digit_word [OF this] False show ?thesis by (subst (asm) (2) dec.simps) (auto simp del: of_nat_add)
  qed
qed

end
