(* ===== verification/AmqpTable.thy ===== *)
theory AmqpTable
  imports Prelude "HOL-Library.List_Lexorder"
begin

unbundle bit_operations_syntax

text \<open>
  \<open>SimpleAmqpClient\<close>: \<open>Table.cpp\<close>, \<open>Table.h\<close>, \<open>TableImpl.cpp\<close>, \<open>TableImpl.h\<close>.  A \<open>TableValue\<close>
  owns its \<open>boost::variant\<close>, so it is a value of the datatype \<open>tvalue\<close> (constructors in the order of
  the variant and of \<open>ValueType\<close>); a \<open>std::map\<close> is its list of entries in key order; floats are
  their IEEE bit patterns.  The wire side \<open>amqp_field_value_t\<close> is \<open>afield\<close>.  The memory pool of
  rabbitmq-c is a parameter \<open>avail\<close>: whether an allocation of a size succeeds after the
  allocations made so far; \<open>amqp.h\<close> documents that one of size 0 returns \<open>NULL\<close>.
\<close>

section \<open>The two sides: table values and AMQP field values\<close>

datatype tvalue =
    VT_void | VT_bool bool | VT_int8 "8 word" | VT_int16 "16 word" | VT_int32 "32 word"
  | VT_int64 "64 word" | VT_float "32 word" | VT_double "64 word" | VT_string bytes
  | VT_array "tvalue list" | VT_table "(bytes \<times> tvalue) list"
  | VT_uint8 "8 word" | VT_uint16 "16 word" | VT_uint32 "32 word" | VT_uint64 "64 word"

type_synonym table = "(bytes \<times> tvalue) list"

datatype afield =
    F_VOID | F_BOOLEAN "32 word" | F_I8 "8 word" | F_U8 "8 word" | F_I16 "16 word" | F_U16 "16 word"
  | F_I32 "32 word" | F_U32 "32 word" | F_I64 "64 word" | F_U64 "64 word" | F_F32 "32 word"
  | F_F64 "64 word" | F_DECIMAL "8 word" "32 word" | F_UTF8 bytes | F_BYTES bytes
  | F_TIMESTAMP "64 word" | F_ARRAY "afield list" | F_TABLE "(bytes \<times> afield) list"
  | F_OTHER "8 word"

type_synonym atable = "(bytes \<times> afield) list"

text \<open>What the operations throw; \<open>Null_write\<close> stands for a write through a \<open>NULL\<close> pointer.\<close>

datatype table_exn = Bad_alloc | Bad_get | Overflow_error | Null_write

section \<open>Construction, assignment and the typed getters\<close>

text \<open>The overloads of the constructors and of \<open>Set\<close>, by the type of their argument.\<close>

datatype overload =
    A_none | A_bool bool | A_uint8 "8 word" | A_int8 "8 word" | A_uint16 "16 word"
  | A_int16 "16 word" | A_uint32 "32 word" | A_int32 "32 word" | A_uint64 "64 word"
  | A_int64 "64 word" | A_float "32 word" | A_double "64 word" | A_cstr bytes | A_string bytes
  | A_array "tvalue list" | A_table table

text \<open>\<open>std::string(const char *)\<close> stops at the first NUL.\<close>

definition c_str :: "bytes \<Rightarrow> bytes" where
  "c_str s = takeWhile (\<lambda>c. c \<noteq> 0) s"

fun TableValue :: "overload \<Rightarrow> tvalue" where
  "TableValue A_none = VT_void"
| "TableValue (A_bool b) = VT_bool b"
| "TableValue (A_uint8 w) = VT_uint8 w"
| "TableValue (A_int8 w) = VT_int8 w"
| "TableValue (A_uint16 w) = VT_uint16 w"
| "TableValue (A_int16 w) = VT_int16 w"
| "TableValue (A_uint32 w) = VT_uint32 w"
| "TableValue (A_int32 w) = VT_int32 w"
| "TableValue (A_uint64 w) = VT_uint64 w"
| "TableValue (A_int64 w) = VT_int64 w"
| "TableValue (A_float w) = VT_float w"
| "TableValue (A_double w) = VT_double w"
| "TableValue (A_cstr s) = VT_string (c_str s)"
| "TableValue (A_string s) = VT_string s"
| "TableValue (A_array xs) = VT_array xs"
| "TableValue (A_table t) = VT_table t"

text \<open>\<open>Set\<close> assigns the variant; the previous value is dropped.\<close>

fun Set_value :: "overload \<Rightarrow> tvalue \<Rightarrow> tvalue" where
  "Set_value A_none v = VT_void"
| "Set_value (A_bool b) v = VT_bool b"
| "Set_value (A_uint8 w) v = VT_uint8 w"
| "Set_value (A_int8 w) v = VT_int8 w"
| "Set_value (A_uint16 w) v = VT_uint16 w"
| "Set_value (A_int16 w) v = VT_int16 w"
| "Set_value (A_uint32 w) v = VT_uint32 w"
| "Set_value (A_int32 w) v = VT_int32 w"
| "Set_value (A_uint64 w) v = VT_uint64 w"
| "Set_value (A_int64 w) v = VT_int64 w"
| "Set_value (A_float w) v = VT_float w"
| "Set_value (A_double w) v = VT_double w"
| "Set_value (A_cstr s) v = VT_string (c_str s)"
| "Set_value (A_string s) v = VT_string s"
| "Set_value (A_array xs) v = VT_array xs"
| "Set_value (A_table t) v = VT_table t"

fun GetType :: "tvalue \<Rightarrow> nat" where
  "GetType VT_void = 0" | "GetType (VT_bool _) = 1" | "GetType (VT_int8 _) = 2"
| "GetType (VT_int16 _) = 3" | "GetType (VT_int32 _) = 4" | "GetType (VT_int64 _) = 5"
| "GetType (VT_float _) = 6" | "GetType (VT_double _) = 7" | "GetType (VT_string _) = 8"
| "GetType (VT_array _) = 9" | "GetType (VT_table _) = 10" | "GetType (VT_uint8 _) = 11"
| "GetType (VT_uint16 _) = 12" | "GetType (VT_uint32 _) = 13" | "GetType (VT_uint64 _) = 14"

definition GetBool :: "tvalue \<Rightarrow> table_exn + bool" where
  "GetBool v = (case v of VT_bool b \<Rightarrow> Inr b | _ \<Rightarrow> Inl Bad_get)"
definition GetUint8 :: "tvalue \<Rightarrow> table_exn + 8 word" where
  "GetUint8 v = (case v of VT_uint8 w \<Rightarrow> Inr w | _ \<Rightarrow> Inl Bad_get)"
definition GetInt8 :: "tvalue \<Rightarrow> table_exn + 8 word" where
  "GetInt8 v = (case v of VT_int8 w \<Rightarrow> Inr w | _ \<Rightarrow> Inl Bad_get)"
definition GetUint16 :: "tvalue \<Rightarrow> table_exn + 16 word" where
  "GetUint16 v = (case v of VT_uint16 w \<Rightarrow> Inr w | _ \<Rightarrow> Inl Bad_get)"
definition GetInt16 :: "tvalue \<Rightarrow> table_exn + 16 word" where
  "GetInt16 v = (case v of VT_int16 w \<Rightarrow> Inr w | _ \<Rightarrow> Inl Bad_get)"
definition GetUint32 :: "tvalue \<Rightarrow> table_exn + 32 word" where
  "GetUint32 v = (case v of VT_uint32 w \<Rightarrow> Inr w | _ \<Rightarrow> Inl Bad_get)"
definition GetInt32 :: "tvalue \<Rightarrow> table_exn + 32 word" where
  "GetInt32 v = (case v of VT_int32 w \<Rightarrow> Inr w | _ \<Rightarrow> Inl Bad_get)"
definition GetUint64 :: "tvalue \<Rightarrow> table_exn + 64 word" where
  "GetUint64 v = (case v of VT_uint64 w \<Rightarrow> Inr w | _ \<Rightarrow> Inl Bad_get)"
definition GetInt64 :: "tvalue \<Rightarrow> table_exn + 64 word" where
  "GetInt64 v = (case v of VT_int64 w \<Rightarrow> Inr w | _ \<Rightarrow> Inl Bad_get)"

text \<open>The widening conversions to \<open>int64_t\<close> keep the value; \<open>uint64_t\<close> is compared with
  \<open>INT64_MAX\<close> first (an unsigned comparison).\<close>

definition GetInteger :: "tvalue \<Rightarrow> table_exn + 64 word" where
  "GetInteger v = (case v of
     VT_uint8 w \<Rightarrow> Inr (ucast w)
   | VT_int8 w \<Rightarrow> Inr (scast w)
   | VT_uint16 w \<Rightarrow> Inr (ucast w)
   | VT_int16 w \<Rightarrow> Inr (scast w)
   | VT_uint32 w \<Rightarrow> Inr (ucast w)
   | VT_int32 w \<Rightarrow> Inr (scast w)
   | VT_uint64 w \<Rightarrow> if 0x7FFFFFFFFFFFFFFF < w then Inl Overflow_error else Inr w
   | VT_int64 w \<Rightarrow> Inr w
   | _ \<Rightarrow> Inl Bad_get)"

definition GetFloat :: "tvalue \<Rightarrow> table_exn + 32 word" where
  "GetFloat v = (case v of VT_float w \<Rightarrow> Inr w | _ \<Rightarrow> Inl Bad_get)"
definition GetDouble :: "tvalue \<Rightarrow> table_exn + 64 word" where
  "GetDouble v = (case v of VT_double w \<Rightarrow> Inr w | _ \<Rightarrow> Inl Bad_get)"

text \<open>The exact widening of a binary32 pattern to binary64; a subnormal is normalised first.\<close>

fun normalise32 :: "nat \<Rightarrow> nat \<Rightarrow> 64 word \<Rightarrow> nat \<times> 64 word" where
  "normalise32 0 e m = (e, m)"
| "normalise32 (Suc n) e m = (if bit m 23 then (e, m) else normalise32 n (e - 1) (push_bit 1 m))"

definition float_to_double :: "32 word \<Rightarrow> 64 word" where
  "float_to_double w =
     (let s = push_bit 63 (ucast (drop_bit 31 w)) :: 64 word;
          e = unat (drop_bit 23 w AND 0xFF);
          m = ucast (w AND 0x7FFFFF) :: 64 word
      in if e = 255 then s OR push_bit 52 0x7FF OR push_bit 29 m
         else if e \<noteq> 0 then s OR push_bit 52 (of_nat (e + 896)) OR push_bit 29 m
         else if m = 0 then s
         else (let (e', m') = normalise32 23 897 m
               in s OR push_bit 52 (of_nat e') OR push_bit 29 (m' AND 0x7FFFFF)))"

definition GetReal :: "tvalue \<Rightarrow> table_exn + 64 word" where
  "GetReal v = (case v of
     VT_float w \<Rightarrow> Inr (float_to_double w) | VT_double w \<Rightarrow> Inr w | _ \<Rightarrow> Inl Bad_get)"

definition GetString :: "tvalue \<Rightarrow> table_exn + bytes" where
  "GetString v = (case v of VT_string s \<Rightarrow> Inr s | _ \<Rightarrow> Inl Bad_get)"
definition GetArray :: "tvalue \<Rightarrow> table_exn + tvalue list" where
  "GetArray v = (case v of VT_array xs \<Rightarrow> Inr xs | _ \<Rightarrow> Inl Bad_get)"
definition GetTable :: "tvalue \<Rightarrow> table_exn + table" where
  "GetTable v = (case v of VT_table t \<Rightarrow> Inr t | _ \<Rightarrow> Inl Bad_get)"

section \<open>Equality\<close>

text \<open>IEEE equality on bit patterns: NaN equals nothing, the two zeros are equal.\<close>

definition nan32 :: "32 word \<Rightarrow> bool" where
  "nan32 w \<longleftrightarrow> 0x7F800000 < w AND 0x7FFFFFFF"
definition nan64 :: "64 word \<Rightarrow> bool" where
  "nan64 w \<longleftrightarrow> 0x7FF0000000000000 < w AND 0x7FFFFFFFFFFFFFFF"
definition feq32 :: "32 word \<Rightarrow> 32 word \<Rightarrow> bool" where
  "feq32 a b \<longleftrightarrow> \<not> nan32 a \<and> \<not> nan32 b \<and> (a = b \<or> (a OR b) AND 0x7FFFFFFF = 0)"
definition feq64 :: "64 word \<Rightarrow> 64 word \<Rightarrow> bool" where
  "feq64 a b \<longleftrightarrow> \<not> nan64 a \<and> \<not> nan64 b \<and> (a = b \<or> (a OR b) AND 0x7FFFFFFFFFFFFFFF = 0)"

text \<open>The comparison of two variants, and of two arrays and two tables (\<open>std::equal\<close> after the
  size test; elements of different containers are different objects).\<close>

function variant_eq :: "tvalue \<Rightarrow> tvalue \<Rightarrow> bool"
  and array_eq :: "tvalue list \<Rightarrow> tvalue list \<Rightarrow> bool"
  and table_eq :: "table \<Rightarrow> table \<Rightarrow> bool" where
  "variant_eq v w = (case (v, w) of
     (VT_float a, VT_float b) \<Rightarrow> feq32 a b
   | (VT_double a, VT_double b) \<Rightarrow> feq64 a b
   | (VT_array xs, VT_array ys) \<Rightarrow> length xs = length ys \<and> array_eq xs ys
   | (VT_table t, VT_table u) \<Rightarrow> length t = length u \<and> table_eq t u
   | _ \<Rightarrow> v = w)"
| "array_eq (x # xs) (y # ys) \<longleftrightarrow> variant_eq x y \<and> array_eq xs ys"
| "array_eq [] ys \<longleftrightarrow> True"
| "array_eq (x # xs) [] \<longleftrightarrow> False"
| "table_eq ((k, x) # t) ((l, y) # u) \<longleftrightarrow> k = l \<and> variant_eq x y \<and> table_eq t u"
| "table_eq [] u \<longleftrightarrow> True"
| "table_eq (e # t) [] \<longleftrightarrow> False"
  by pat_completeness auto
termination
  by (relation "measure (case_sum (\<lambda>(v, w). size v)
       (case_sum (\<lambda>(xs, ys). size_list size xs) (\<lambda>(t, u). size_list (size_prod (\<lambda>_. 0) size) t)))")
     auto

text \<open>\<open>same\<close>: both operands are the same object.\<close>

definition tv_eq :: "bool \<Rightarrow> tvalue \<Rightarrow> tvalue \<Rightarrow> bool" where
  "tv_eq same v w \<longleftrightarrow> (if same then True else variant_eq v w)"

definition tv_neq :: "bool \<Rightarrow> tvalue \<Rightarrow> tvalue \<Rightarrow> bool" where
  "tv_neq same v w \<longleftrightarrow> (if same then False else \<not> variant_eq v w)"

declare variant_eq.simps [simp del]

section \<open>Getters\<close>

definition int_value :: "tvalue \<Rightarrow> int option" where
  "int_value v = (case v of
     VT_uint8 w \<Rightarrow> Some (uint w) | VT_int8 w \<Rightarrow> Some (sint w)
   | VT_uint16 w \<Rightarrow> Some (uint w) | VT_int16 w \<Rightarrow> Some (sint w)
   | VT_uint32 w \<Rightarrow> Some (uint w) | VT_int32 w \<Rightarrow> Some (sint w)
   | VT_uint64 w \<Rightarrow> Some (uint w) | VT_int64 w \<Rightarrow> Some (sint w)
   | _ \<Rightarrow> None)"

lemma sint_of_int_eq:
  "- (2 ^ (LENGTH('b::len) - 1)) \<le> i \<Longrightarrow> i < 2 ^ (LENGTH('b) - 1) \<Longrightarrow> sint (word_of_int i :: 'b word) = i"
  by (simp add: signed_of_int signed_take_bit_int_eq_self)

lemma sint_ucast_widen:
  assumes "LENGTH('a::len) < LENGTH('b::len)"
  shows "sint (ucast (w :: 'a word) :: 'b word) = uint w"
proof -
  have "uint w < 2 ^ LENGTH('a)" by (rule uint_lt2p)
  also have "(2::int) ^ LENGTH('a) \<le> 2 ^ (LENGTH('b) - 1)" using assms by (intro power_increasing) auto
  finally have lt: "uint w < 2 ^ (LENGTH('b) - 1)" .
  then have "sint (word_of_int (uint w) :: 'b word) = uint w"
    by (intro sint_of_int_eq) (auto intro: order_trans [OF _ uint_ge_0])
  then show ?thesis by (metis ucast_eq)
qed

lemma sint_scast_widen:
  assumes "LENGTH('a::len) \<le> LENGTH('b::len)"
  shows "sint (scast (w :: 'a word) :: 'b word) = sint w"
proof -
  have le: "(2::int) ^ (LENGTH('a) - 1) \<le> 2 ^ (LENGTH('b) - 1)" using assms by (intro power_increasing) auto
  have "sint (word_of_int (sint w) :: 'b word) = sint w"
    using sint_ge [of w] sint_lt [of w] le by (intro sint_of_int_eq) linarith+
  then show ?thesis by (metis scast_eq)
qed

lemma sint_small_u64: "uint (w :: 64 word) < 0x8000000000000000 \<Longrightarrow> sint w = uint w"
proof -
  assume "uint w < 0x8000000000000000"
  then have "sint (word_of_int (uint w) :: 64 word) = uint w"
    by (intro sint_of_int_eq) (auto intro: order_trans [OF _ uint_ge_0])
  then show ?thesis by simp
qed

lemma uint_small: "LENGTH('a::len) < 64 \<Longrightarrow> uint (w :: 'a word) < 0x8000000000000000"
  using less_le_trans [OF uint_lt2p [of w], of "2 ^ 63"] power_increasing [of "LENGTH('a)" 63 "2 :: int"]
  by simp

lemma sint_small: "LENGTH('a::len) \<le> 64 \<Longrightarrow> sint (w :: 'a word) < 0x8000000000000000"
  using less_le_trans [OF sint_lt [of w], of "2 ^ 63"] power_increasing [of "LENGTH('a) - 1" 63 "2 :: int"]
  by simp

text \<open>\<open>GetInteger\<close> returns the mathematical value of any integer variant that fits in
  \<open>int64_t\<close>, throws \<open>overflow_error\<close> for the \<open>uint64_t\<close> values above \<open>INT64_MAX\<close>, and
  \<open>bad_get\<close> for every other type.\<close>
theorem GetInteger_value:
  "case int_value v of
     None \<Rightarrow> GetInteger v = Inl Bad_get
   | Some i \<Rightarrow> (if i < 2 ^ 63 then \<exists>w. GetInteger v = Inr w \<and> sint w = i
               else GetInteger v = Inl Overflow_error)"
  by (cases v) (simp_all add: int_value_def GetInteger_def sint_ucast_widen sint_scast_widen
      uint_small sint_small sint_small_u64 word_less_def not_less)

section \<open>Equality\<close>

fun no_nan :: "tvalue \<Rightarrow> bool" where
  "no_nan (VT_float w) \<longleftrightarrow> \<not> nan32 w"
| "no_nan (VT_double w) \<longleftrightarrow> \<not> nan64 w"
| "no_nan (VT_array xs) \<longleftrightarrow> list_all no_nan xs"
| "no_nan (VT_table t) \<longleftrightarrow> list_all (\<lambda>e. no_nan (snd e)) t"
| "no_nan _ \<longleftrightarrow> True"

lemma eq_copy:
  "v = w \<Longrightarrow> variant_eq v w \<longleftrightarrow> no_nan v"
  "xs = ys \<Longrightarrow> array_eq xs ys \<longleftrightarrow> list_all no_nan xs"
  "t = u \<Longrightarrow> table_eq t u \<longleftrightarrow> list_all (\<lambda>e. no_nan (snd e)) t"
  by (induction v w and xs ys and t u rule: variant_eq_array_eq_table_eq.induct)
     (auto simp: variant_eq.simps feq32_def feq64_def split: tvalue.split)

text \<open>A table value compares equal to itself always, but to a copy of itself exactly when it
  holds no NaN; \<open>!=\<close> is the negation of \<open>==\<close> in both cases.\<close>
theorem tv_eq_copy:
  "tv_eq True v v \<and> (tv_eq False v v \<longleftrightarrow> no_nan v) \<and> (tv_neq same v w \<longleftrightarrow> \<not> tv_eq same v w)"
  by (simp add: tv_eq_def tv_neq_def eq_copy)

end
