(* ===== verification/AmqpTableImpl.thy ===== *)
theory AmqpTableImpl
  imports AmqpTable
begin

text \<open>
  \<open>TableImpl.cpp\<close>: conversion of a \<open>Table\<close> to the \<open>amqp_table_t\<close> that rabbitmq-c sends
  (\<open>generate_field_value\<close>, \<open>CreateAmqpTable\<close>), back (\<open>CreateTable\<close>, \<open>CreateTableValue\<close>) and
  the deep copy (\<open>CopyTable\<close>).  The pool is the list of the sizes allocated from it so far.
\<close>

type_synonym pool = "nat list"
type_synonym avail = "pool \<Rightarrow> nat \<Rightarrow> bool"

abbreviation sizeof_amqp_field_value_t :: nat where "sizeof_amqp_field_value_t \<equiv> 24"
abbreviation sizeof_amqp_table_entry_t :: nat where "sizeof_amqp_table_entry_t \<equiv> 40"

text \<open>The two allocation idioms of the source: with the \<open>NULL\<close> test that throws \<open>bad_alloc\<close>, and
  \<open>amqp_pool_alloc_bytes\<close> followed by an untested \<open>memcpy\<close> (harmless when nothing is copied).\<close>

definition alloc_checked :: "avail \<Rightarrow> nat \<Rightarrow> pool \<Rightarrow> table_exn + pool" where
  "alloc_checked avail n p = (if avail p n then Inr (n # p) else Inl Bad_alloc)"

definition alloc_unchecked :: "avail \<Rightarrow> nat \<Rightarrow> pool \<Rightarrow> table_exn + pool" where
  "alloc_unchecked avail n p =
     (if avail p n then Inr (n # p) else if n = 0 then Inr p else Inl Null_write)"

section \<open>From table values to AMQP fields\<close>

function generate_field_value :: "avail \<Rightarrow> tvalue \<Rightarrow> pool \<Rightarrow> table_exn + afield \<times> pool"
  and generate_array :: "avail \<Rightarrow> tvalue list \<Rightarrow> pool \<Rightarrow> table_exn + afield list \<times> pool"
  and CreateAmqpTableInner :: "avail \<Rightarrow> table \<Rightarrow> pool \<Rightarrow> table_exn + atable \<times> pool"
  and generate_entries :: "avail \<Rightarrow> table \<Rightarrow> pool \<Rightarrow> table_exn + atable \<times> pool" where
  "generate_field_value avail v p = (case v of
     VT_void \<Rightarrow> Inr (F_VOID, p)
   | VT_bool b \<Rightarrow> Inr (F_BOOLEAN (if b then 1 else 0), p)
   | VT_uint8 w \<Rightarrow> Inr (F_U8 w, p)
   | VT_int8 w \<Rightarrow> Inr (F_I8 w, p)
   | VT_uint16 w \<Rightarrow> Inr (F_U16 w, p)
   | VT_int16 w \<Rightarrow> Inr (F_I16 w, p)
   | VT_uint32 w \<Rightarrow> Inr (F_U32 w, p)
   | VT_int32 w \<Rightarrow> Inr (F_I32 w, p)
   | VT_uint64 w \<Rightarrow> Inr (F_U64 w, p)
   | VT_int64 w \<Rightarrow> Inr (F_I64 w, p)
   | VT_float w \<Rightarrow> Inr (F_F32 w, p)
   | VT_double w \<Rightarrow> Inr (F_F64 w, p)
   | VT_string s \<Rightarrow> (case alloc_unchecked avail (length s) p of
        Inl e \<Rightarrow> Inl e | Inr p' \<Rightarrow> Inr (F_UTF8 s, p'))
   | VT_array xs \<Rightarrow> (case alloc_checked avail (sizeof_amqp_field_value_t * length xs) p of
        Inl e \<Rightarrow> Inl e
      | Inr p1 \<Rightarrow> (case generate_array avail xs p1 of
          Inl e \<Rightarrow> Inl e | Inr (fs, p2) \<Rightarrow> Inr (F_ARRAY fs, p2)))
   | VT_table t \<Rightarrow> (case CreateAmqpTableInner avail t p of
        Inl e \<Rightarrow> Inl e | Inr (u, p') \<Rightarrow> Inr (F_TABLE u, p')))"
| "generate_array avail [] p = Inr ([], p)"
| "generate_array avail (x # xs) p = (case generate_field_value avail x p of
     Inl e \<Rightarrow> Inl e
   | Inr (f, p1) \<Rightarrow> (case generate_array avail xs p1 of
        Inl e \<Rightarrow> Inl e | Inr (fs, p2) \<Rightarrow> Inr (f # fs, p2)))"
| "CreateAmqpTableInner avail t p =
     (case alloc_checked avail (sizeof_amqp_table_entry_t * length t) p of
        Inl e \<Rightarrow> Inl e | Inr p1 \<Rightarrow> generate_entries avail t p1)"
| "generate_entries avail [] p = Inr ([], p)"
| "generate_entries avail ((k, x) # t) p = (case alloc_checked avail (length k) p of
     Inl e \<Rightarrow> Inl e
   | Inr p1 \<Rightarrow> (case generate_field_value avail x p1 of
        Inl e \<Rightarrow> Inl e
      | Inr (f, p2) \<Rightarrow> (case generate_entries avail t p2 of
          Inl e \<Rightarrow> Inl e | Inr (u, p3) \<Rightarrow> Inr ((k, f) # u, p3))))"
  by pat_completeness auto
termination
  by (relation "measure (case_sum
        (case_sum (\<lambda>(a, v, p). 2 * size v) (\<lambda>(a, xs, p). 2 * size_list size xs))
        (case_sum (\<lambda>(a, t, p). 2 * size_list (size_prod (\<lambda>_. 0) size) t + 1)
                  (\<lambda>(a, t, p). 2 * size_list (size_prod (\<lambda>_. 0) size) t)))")
     auto

text \<open>The pool is created only for a table that has entries; \<open>None\<close> leaves the caller's pool.\<close>

definition CreateAmqpTable :: "avail \<Rightarrow> table \<Rightarrow> table_exn + atable \<times> pool option" where
  "CreateAmqpTable avail t =
     (if length t = 0 then Inr ([], None)
      else (case CreateAmqpTableInner avail t [] of
              Inl e \<Rightarrow> Inl e | Inr (u, p) \<Rightarrow> Inr (u, Some p)))"

section \<open>From AMQP fields to table values\<close>

text \<open>\<open>std::map::insert\<close> keeps an entry that is already there.\<close>

fun map_insert :: "bytes \<Rightarrow> 'v \<Rightarrow> (bytes \<times> 'v) list \<Rightarrow> (bytes \<times> 'v) list" where
  "map_insert k v [] = [(k, v)]"
| "map_insert k v ((l, w) # m) =
     (if k = l then (l, w) # m else if k < l then (k, v) # (l, w) # m else (l, w) # map_insert k v m)"

function CreateTableValue :: "afield \<Rightarrow> tvalue"
  and CreateArray :: "afield list \<Rightarrow> tvalue list"
  and CreateTable_from :: "atable \<Rightarrow> table \<Rightarrow> table" where
  "CreateTableValue f = (case f of
     F_VOID \<Rightarrow> VT_void
   | F_BOOLEAN w \<Rightarrow> VT_bool (w \<noteq> 0)
   | F_U8 w \<Rightarrow> VT_uint8 w
   | F_I8 w \<Rightarrow> VT_int8 w
   | F_U16 w \<Rightarrow> VT_uint16 w
   | F_I16 w \<Rightarrow> VT_int16 w
   | F_U32 w \<Rightarrow> VT_uint32 w
   | F_I32 w \<Rightarrow> VT_int32 w
   | F_U64 w \<Rightarrow> VT_uint64 w
   | F_TIMESTAMP w \<Rightarrow> VT_uint64 w
   | F_I64 w \<Rightarrow> VT_int64 w
   | F_F32 w \<Rightarrow> VT_float w
   | F_F64 w \<Rightarrow> VT_double w
   | F_UTF8 s \<Rightarrow> VT_string s
   | F_BYTES s \<Rightarrow> VT_string s
   | F_ARRAY fs \<Rightarrow> VT_array (CreateArray fs)
   | F_TABLE u \<Rightarrow> VT_table (CreateTable_from u [])
   | F_DECIMAL d w \<Rightarrow> VT_void
   | F_OTHER k \<Rightarrow> VT_void)"
| "CreateArray [] = []"
| "CreateArray (f # fs) = CreateTableValue f # CreateArray fs"
| "CreateTable_from [] m = m"
| "CreateTable_from ((k, f) # u) m = CreateTable_from u (map_insert k (CreateTableValue f) m)"
  by pat_completeness auto
termination
  by (relation "measure (case_sum size (case_sum (\<lambda>fs. size_list size fs)
        (\<lambda>(u, m). size_list (size_prod (\<lambda>_. 0) size) u)))")
     auto

definition CreateTable :: "atable \<Rightarrow> table" where
  "CreateTable u = CreateTable_from u []"

section \<open>The deep copy\<close>

function CopyValue :: "avail \<Rightarrow> afield \<Rightarrow> pool \<Rightarrow> table_exn + afield \<times> pool"
  and CopyArray :: "avail \<Rightarrow> afield list \<Rightarrow> pool \<Rightarrow> table_exn + afield list \<times> pool"
  and CopyTableInner :: "avail \<Rightarrow> atable \<Rightarrow> pool \<Rightarrow> table_exn + atable \<times> pool"
  and CopyEntries :: "avail \<Rightarrow> atable \<Rightarrow> pool \<Rightarrow> table_exn + atable \<times> pool" where
  "CopyValue avail f p = (case f of
     F_UTF8 s \<Rightarrow> (case alloc_unchecked avail (length s) p of
        Inl e \<Rightarrow> Inl e | Inr p' \<Rightarrow> Inr (F_UTF8 s, p'))
   | F_BYTES s \<Rightarrow> (case alloc_unchecked avail (length s) p of
        Inl e \<Rightarrow> Inl e | Inr p' \<Rightarrow> Inr (F_BYTES s, p'))
   | F_ARRAY fs \<Rightarrow> (case alloc_unchecked avail (sizeof_amqp_field_value_t * length fs) p of
        Inl e \<Rightarrow> Inl e
      | Inr p1 \<Rightarrow> (case CopyArray avail fs p1 of
          Inl e \<Rightarrow> Inl e | Inr (gs, p2) \<Rightarrow> Inr (F_ARRAY gs, p2)))
   | F_TABLE u \<Rightarrow> (case CopyTableInner avail u p of
        Inl e \<Rightarrow> Inl e | Inr (w, p') \<Rightarrow> Inr (F_TABLE w, p'))
   | _ \<Rightarrow> Inr (f, p))"
| "CopyArray avail [] p = Inr ([], p)"
| "CopyArray avail (f # fs) p = (case CopyValue avail f p of
     Inl e \<Rightarrow> Inl e
   | Inr (g, p1) \<Rightarrow> (case CopyArray avail fs p1 of
        Inl e \<Rightarrow> Inl e | Inr (gs, p2) \<Rightarrow> Inr (g # gs, p2)))"
| "CopyTableInner avail u p =
     (case alloc_checked avail (sizeof_amqp_table_entry_t * length u) p of
        Inl e \<Rightarrow> Inl e | Inr p1 \<Rightarrow> CopyEntries avail u p1)"
| "CopyEntries avail [] p = Inr ([], p)"
| "CopyEntries avail ((k, f) # u) p = (case alloc_checked avail (length k) p of
     Inl e \<Rightarrow> Inl e
   | Inr p1 \<Rightarrow> (case CopyValue avail f p1 of
        Inl e \<Rightarrow> Inl e
      | Inr (g, p2) \<Rightarrow> (case CopyEntries avail u p2 of
          Inl e \<Rightarrow> Inl e | Inr (w, p3) \<Rightarrow> Inr ((k, g) # w, p3))))"
  by pat_completeness auto
termination
  by (relation "measure (case_sum
        (case_sum (\<lambda>(a, v, p). 2 * size v) (\<lambda>(a, xs, p). 2 * size_list size xs))
        (case_sum (\<lambda>(a, t, p). 2 * size_list (size_prod (\<lambda>_. 0) size) t + 1)
                  (\<lambda>(a, t, p). 2 * size_list (size_prod (\<lambda>_. 0) size) t)))")
     auto

definition CopyTable :: "avail \<Rightarrow> atable \<Rightarrow> table_exn + atable \<times> pool option" where
  "CopyTable avail u =
     (if length u = 0 then Inr ([], None)
      else (case CopyTableInner avail u [] of
              Inl e \<Rightarrow> Inl e | Inr (w, p) \<Rightarrow> Inr (w, Some p)))"

declare generate_field_value.simps(1) [simp del] CreateTableValue.simps [simp del] CopyValue.simps [simp del]

section \<open>Well-formed tables, and the round trip\<close>

text \<open>A \<open>std::map\<close> lists its entries by strictly increasing key.\<close>

fun wf_value :: "tvalue \<Rightarrow> bool" where
  "wf_value (VT_array xs) \<longleftrightarrow> list_all wf_value xs"
| "wf_value (VT_table t) \<longleftrightarrow> sorted_wrt (<) (map fst t) \<and> list_all (\<lambda>e. wf_value (snd e)) t"
| "wf_value _ \<longleftrightarrow> True"

abbreviation wf_table :: "table \<Rightarrow> bool" where
  "wf_table t \<equiv> sorted_wrt (<) (map fst t) \<and> list_all (\<lambda>e. wf_value (snd e)) t"

lemma map_insert_last: "\<forall>l \<in> set (map fst m). l < k \<Longrightarrow> map_insert k v m = m @ [(k, v)]"
  by (induction m) (auto dest: less_not_sym)

lemma map_insert_lookup:
  "sorted_wrt (<) (map fst m) \<Longrightarrow>
   map_of (map_insert k v m) = (if k \<in> dom (map_of m) then map_of m else (map_of m)(k \<mapsto> v))"
proof (induction m)
  case (Cons e m)
  obtain l w where e: "e = (l, w)" by (cases e)
  have "k \<notin> dom (map_of m)" if "k < l"
    using Cons.prems that by (auto simp: e dest!: map_of_SomeD dest: less_not_sym)
  with Cons show ?case by (auto simp: e fun_upd_twist)
qed simp

lemma map_insert_keys: "fst ` set (map_insert k v m) = insert k (fst ` set m)"
  by (induction k v m rule: map_insert.induct) (simp_all add: insert_commute)

lemma map_insert_sorted: "sorted_wrt (<) (map fst m) \<Longrightarrow> sorted_wrt (<) (map fst (map_insert k v m))"
proof (induction m)
  case (Cons e m)
  obtain l w where e: "e = (l, w)" by (cases e)
  show ?case
  proof (cases "k < l")
    case True with Cons.prems show ?thesis by (auto simp: e)
  next
    case False
    have "\<forall>x \<in> set (map fst (map_insert k v m)). l < x" if "k \<noteq> l"
      using that False Cons.prems map_insert_keys [of k v m] by (auto simp: e)
    with False Cons show ?thesis by (simp add: e)
  qed
qed simp

lemmas gen_split = sum.split_asm prod.split_asm if_split_asm tvalue.split_asm

lemma generate_roundtrip:
  "generate_field_value avail v p = Inr (f, p') \<Longrightarrow> wf_value v \<Longrightarrow> CreateTableValue f = v"
  "generate_array avail xs p = Inr (fs, p') \<Longrightarrow> list_all wf_value xs \<Longrightarrow> CreateArray fs = xs"
  "CreateAmqpTableInner avail t p = Inr (u, p') \<Longrightarrow> wf_table t \<Longrightarrow> CreateTable_from u [] = t"
  "generate_entries avail t p = Inr (u, p') \<Longrightarrow> wf_table t \<Longrightarrow>
   (\<forall>m. (\<forall>l \<in> set (map fst m). \<forall>k \<in> set (map fst t). l < k) \<longrightarrow> CreateTable_from u m = m @ t)"
proof (induction avail v p and avail xs p and avail t p and avail t p
    arbitrary: f p' and fs p' and u p' and u p'
    rule: generate_field_value_generate_array_CreateAmqpTableInner_generate_entries.induct)
  case (1 avail v p)
  then show ?case
    by (cases v) (auto simp: generate_field_value.simps(1) CreateTableValue.simps split: sum.split_asm)
next
  case (4 avail t p) then show ?case by (auto split: sum.split_asm)
next
  case (6 avail k x t p)
  then show ?case
    by (auto split: sum.split_asm simp: map_insert_last)
qed (auto split: sum.split_asm)

text \<open>C2: whatever the pool does, a table that \<open>CreateAmqpTable\<close> converted comes back equal
  from \<open>CreateTable\<close>: the client and the broker agree on the headers it sends.\<close>
theorem CreateAmqpTable_roundtrip:
  assumes "sorted_wrt (<) (map fst t)" "list_all (\<lambda>e. wf_value (snd e)) t"
    and "CreateAmqpTable avail t = Inr (u, pool)"
  shows "CreateTable u = t"
proof (cases t)
  case Nil with assms show ?thesis by (simp add: CreateAmqpTable_def CreateTable_def)
next
  case Cons
  with assms(3) obtain p where "CreateAmqpTableInner avail t [] = Inr (u, p)"
    by (auto simp: CreateAmqpTable_def simp del: CreateAmqpTableInner.simps split: sum.split_asm)
  then show ?thesis using generate_roundtrip(3) assms(1,2) by (simp add: CreateTable_def)
qed

theorem CreateAmqpTable_roundtrip_witness:
  "CreateTable [([1], F_ARRAY [F_I8 5, F_UTF8 []]), ([1, 2], F_U64 7)]
     = [([1], VT_array [VT_int8 5, VT_string []]), ([1, 2], VT_uint64 7)]"
  by (rule CreateAmqpTable_roundtrip [where avail = "\<lambda>p n. 0 < n" and pool = "Some [2, 48, 1, 80]"])
     (simp_all add: CreateAmqpTable_def alloc_checked_def alloc_unchecked_def generate_field_value.simps)

section \<open>Which tables can be sent\<close>

text \<open>With memory available the pool refuses exactly the allocations of size 0.\<close>

definition fresh_pool :: avail where
  "fresh_pool p n \<longleftrightarrow> 0 < n"

fun sendable :: "tvalue \<Rightarrow> bool" where
  "sendable (VT_array xs) \<longleftrightarrow> xs \<noteq> [] \<and> list_all sendable xs"
| "sendable (VT_table t) \<longleftrightarrow> t \<noteq> [] \<and> list_all (\<lambda>e. fst e \<noteq> [] \<and> sendable (snd e)) t"
| "sendable _ \<longleftrightarrow> True"

abbreviation ok_or_bad_alloc :: "bool \<Rightarrow> table_exn + 'a \<Rightarrow> bool" where
  "ok_or_bad_alloc b r \<equiv> (if b then \<exists>x. r = Inr x else r = Inl Bad_alloc)"

lemma generate_total:
  "avail = fresh_pool \<Longrightarrow> ok_or_bad_alloc (sendable v) (generate_field_value avail v p)"
  "avail = fresh_pool \<Longrightarrow> ok_or_bad_alloc (list_all sendable xs) (generate_array avail xs p)"
  "avail = fresh_pool \<Longrightarrow> ok_or_bad_alloc (t \<noteq> [] \<and> list_all (\<lambda>e. fst e \<noteq> [] \<and> sendable (snd e)) t)
     (CreateAmqpTableInner avail t p)"
  "avail = fresh_pool \<Longrightarrow> ok_or_bad_alloc (list_all (\<lambda>e. fst e \<noteq> [] \<and> sendable (snd e)) t)
     (generate_entries avail t p)"
proof (induction avail v p and avail xs p and avail t p and avail t p
    rule: generate_field_value_generate_array_CreateAmqpTableInner_generate_entries.induct)
  case (1 avail v p)
  show ?case
  proof (cases v)
    case (VT_array xs)
    show ?thesis
    proof (cases "xs = []")
      case True
      then show ?thesis
        by (simp add: VT_array 1 generate_field_value.simps(1) alloc_checked_def fresh_pool_def)
    next
      case False
      have "alloc_checked avail (24 * length xs) p = Inr (24 * length xs # p)"
        using False by (simp add: 1(3) alloc_checked_def fresh_pool_def)
      with 1(1) [OF VT_array this 1(3)] False show ?thesis
        by (auto simp: VT_array generate_field_value.simps(1) split: sum.split if_split_asm)
    qed
  qed (use 1 in \<open>auto simp: generate_field_value.simps(1) alloc_unchecked_def
      fresh_pool_def split: sum.split if_split_asm\<close>)
next
  case (4 avail t p) then show ?case
    by (auto simp: alloc_checked_def fresh_pool_def split: sum.split if_split_asm)
next
  case (3 avail x xs p)
  show ?case
  proof (cases "generate_field_value avail x p")
    case (Inl e) with 3(1) [OF 3(3)] show ?thesis by (auto split: if_split_asm)
  next
    case (Inr r)
    obtain f p2 where r: "r = (f, p2)" by (cases r)
    have "ok_or_bad_alloc (list_all sendable xs) (generate_array avail xs p2)"
      using 3(2) [OF Inr] r 3(3) by blast
    with 3(1) [OF 3(3)] Inr r show ?thesis by (auto split: sum.split if_split_asm)
  qed
next
  case (6 avail k x t p)
  show ?case
  proof (cases "k = []")
    case True then show ?thesis by (simp add: 6(3) alloc_checked_def fresh_pool_def)
  next
    case False
    have a: "alloc_checked avail (length k) p = Inr (length k # p)"
      using False by (simp add: 6(3) alloc_checked_def fresh_pool_def)
    note ih1 = 6(1) [OF a 6(3)]
    show ?thesis
    proof (cases "generate_field_value avail x (length k # p)")
      case (Inl e) with ih1 a show ?thesis by (auto split: if_split_asm)
    next
      case (Inr r)
      obtain f p2 where r: "r = (f, p2)" by (cases r)
      have "ok_or_bad_alloc (list_all (\<lambda>e. fst e \<noteq> [] \<and> sendable (snd e)) t) (generate_entries avail t p2)"
        using 6(2) [OF a Inr] r 6(3) by blast
      with ih1 Inr r a False show ?thesis by (auto split: sum.split if_split_asm)
    qed
  qed
qed (auto split: sum.split if_split_asm)

text \<open>With memory available, \<open>CreateAmqpTable\<close> succeeds exactly on the empty table and on
  tables with no empty key, no empty array and no empty nested table; on every other table it throws
  \<open>bad_alloc\<close>, because it takes the documented \<open>NULL\<close> of a 0-length allocation for a failure.\<close>
theorem CreateAmqpTable_sendable:
  "if t = [] \<or> sendable (VT_table t) then \<exists>r. CreateAmqpTable fresh_pool t = Inr r
   else CreateAmqpTable fresh_pool t = Inl Bad_alloc"
  using generate_total(3) [OF refl, of t "[]"]
  by (auto simp: CreateAmqpTable_def simp del: CreateAmqpTableInner.simps split: sum.split if_split_asm)

section \<open>The deep copy\<close>

lemma copy_same:
  "CopyValue avail f p = Inr (g, p') \<Longrightarrow> g = f"
  "CopyArray avail fs p = Inr (gs, p') \<Longrightarrow> gs = fs"
  "CopyTableInner avail u p = Inr (w, p') \<Longrightarrow> w = u"
  "CopyEntries avail u p = Inr (w, p') \<Longrightarrow> w = u"
proof (induction avail f p and avail fs p and avail u p and avail u p
    arbitrary: g p' and gs p' and w p' and w p'
    rule: CopyValue_CopyArray_CopyTableInner_CopyEntries.induct)
  case (1 avail f p)
  then show ?case by (cases f) (auto simp: CopyValue.simps(1) split: sum.split_asm)
next
  case (4 avail u p) then show ?case by (auto split: sum.split_asm)
next
  case (6 avail k f u p) then show ?case by (auto split: sum.split_asm)
qed (auto split: sum.split_asm)

end
