(* ===== verification/AmqpMessage.thy ===== *)
theory AmqpMessage
  imports AmqpTableImpl
begin

text \<open>
  \<open>BasicMessage.cpp\<close>: a message is its \<open>amqp_basic_properties_t\<close>, its body and its table pool,
  together with the heap its buffers live in.  The ten \<open>amqp_bytes_t\<close> members of the properties
  are one record field indexed by \<open>strprop\<close>; presence is a bit of \<open>_flags\<close>.
  \<open>amqp_bytes_malloc_dup\<close> and \<open>amqp_bytes_free\<close> are taken as \<open>amqp.h\<close> documents them, relative to
  the address \<open>fresh h\<close> that the allocator returns (a parameter; memory is not exhausted).
  A free of a buffer that is not live, or a read of one, is undefined behaviour: the error
  \<open>Bad_free\<close> or \<open>Bad_read\<close>.
\<close>

section \<open>State\<close>

datatype strprop = Content_type | Content_encoding | Correlation_id | Reply_to | Expiration_p
  | Message_id | Type_p | User_id | App_id | Cluster_id

datatype mprop = S strprop | Headers | Delivery_mode | Priority_p | Timestamp_p

fun flag_bit :: "mprop \<Rightarrow> nat" where
  "flag_bit (S Content_type) = 15"
| "flag_bit (S Content_encoding) = 14"
| "flag_bit Headers = 13"
| "flag_bit Delivery_mode = 12"
| "flag_bit Priority_p = 11"
| "flag_bit (S Correlation_id) = 10"
| "flag_bit (S Reply_to) = 9"
| "flag_bit (S Expiration_p) = 8"
| "flag_bit (S Message_id) = 7"
| "flag_bit Timestamp_p = 6"
| "flag_bit (S Type_p) = 5"
| "flag_bit (S User_id) = 4"
| "flag_bit (S App_id) = 3"
| "flag_bit (S Cluster_id) = 2"

definition AMQP_FLAG :: "mprop \<Rightarrow> 32 word" where
  "AMQP_FLAG p = push_bit (flag_bit p) 1"

type_synonym addr = nat
type_synonym heap = "(addr \<times> bytes) list"
type_synonym alloc = "heap \<Rightarrow> addr"

text \<open>\<open>amqp_bytes_t\<close>: the pointer (\<open>None\<close> is \<open>NULL\<close>) and the length.\<close>

datatype abytes = ABytes (ptr: "addr option") (len: nat)

record message =
  m_body :: abytes
  p_flags :: "32 word"
  p_bytes :: "strprop \<Rightarrow> abytes"
  p_delivery_mode :: "8 word"
  p_priority :: "8 word"
  p_timestamp :: "64 word"
  p_headers :: atable
  m_table_pool :: "pool option"

type_synonym mstate = "message \<times> heap"

datatype mem_exn = Bad_free | Bad_read | Table_exn table_exn

section \<open>The buffer functions of rabbitmq-c, as documented\<close>

definition amqp_bytes_malloc_dup :: "alloc \<Rightarrow> bytes \<Rightarrow> heap \<Rightarrow> abytes \<times> heap" where
  "amqp_bytes_malloc_dup fresh s h = (ABytes (Some (fresh h)) (length s), (fresh h, s) # h)"

definition amqp_bytes_free :: "abytes \<Rightarrow> heap \<Rightarrow> mem_exn + heap" where
  "amqp_bytes_free b h = (case ptr b of
     None \<Rightarrow> Inr h
   | Some a \<Rightarrow> if a \<in> fst ` set h then Inr (filter (\<lambda>e. fst e \<noteq> a) h) else Inl Bad_free)"

text \<open>\<open>std::string(ptr, len)\<close>.\<close>

definition read_bytes :: "abytes \<Rightarrow> heap \<Rightarrow> mem_exn + bytes" where
  "read_bytes b h = (case ptr b of
     None \<Rightarrow> if len b = 0 then Inr [] else Inl Bad_read
   | Some a \<Rightarrow> (case map_of h a of
        None \<Rightarrow> Inl Bad_read
      | Some s \<Rightarrow> if len b \<le> length s then Inr (take (len b) s) else Inl Bad_read))"

section \<open>Flags and the generic property operations\<close>

definition IsSet :: "mprop \<Rightarrow> message \<Rightarrow> bool" where
  "IsSet p m \<longleftrightarrow> AMQP_FLAG p = p_flags m AND AMQP_FLAG p"

definition mark :: "mprop \<Rightarrow> message \<Rightarrow> message" where
  "mark p m = m\<lparr>p_flags := p_flags m OR AMQP_FLAG p\<rparr>"

definition unmark :: "mprop \<Rightarrow> message \<Rightarrow> message" where
  "unmark p m = m\<lparr>p_flags := p_flags m AND NOT (AMQP_FLAG p)\<rparr>"

definition free_if_set :: "strprop \<Rightarrow> mstate \<Rightarrow> mem_exn + heap" where
  "free_if_set p s = (case s of (m, h) \<Rightarrow>
     if IsSet (S p) m then amqp_bytes_free (p_bytes m p) h else Inr h)"

definition get_str :: "strprop \<Rightarrow> mstate \<Rightarrow> mem_exn + bytes" where
  "get_str p s = (case s of (m, h) \<Rightarrow> if IsSet (S p) m then read_bytes (p_bytes m p) h else Inr [])"

definition set_str :: "strprop \<Rightarrow> alloc \<Rightarrow> bytes \<Rightarrow> mstate \<Rightarrow> mem_exn + mstate" where
  "set_str p fresh v s = (case free_if_set p s of
     Inl e \<Rightarrow> Inl e
   | Inr h \<Rightarrow> (let (b, h') = amqp_bytes_malloc_dup fresh (c_str v) h;
                  m = fst s
              in Inr (mark (S p) (m\<lparr>p_bytes := (p_bytes m)(p := b)\<rparr>), h')))"

definition clear_str :: "strprop \<Rightarrow> mstate \<Rightarrow> mem_exn + mstate" where
  "clear_str p s = (case free_if_set p s of
     Inl e \<Rightarrow> Inl e | Inr h \<Rightarrow> Inr (unmark (S p) (fst s), h))"

section \<open>The accessors of the class\<close>

definition ContentType :: "mstate \<Rightarrow> mem_exn + bytes" where "ContentType = get_str Content_type"
definition ContentType_set :: "alloc \<Rightarrow> bytes \<Rightarrow> mstate \<Rightarrow> mem_exn + mstate" where "ContentType_set = set_str Content_type"
definition ContentTypeIsSet :: "mstate \<Rightarrow> bool" where "ContentTypeIsSet s = IsSet (S Content_type) (fst s)"
definition ContentTypeClear :: "mstate \<Rightarrow> mem_exn + mstate" where "ContentTypeClear = clear_str Content_type"

definition ContentEncoding :: "mstate \<Rightarrow> mem_exn + bytes" where "ContentEncoding = get_str Content_encoding"
definition ContentEncoding_set :: "alloc \<Rightarrow> bytes \<Rightarrow> mstate \<Rightarrow> mem_exn + mstate" where "ContentEncoding_set = set_str Content_encoding"
definition ContentEncodingIsSet :: "mstate \<Rightarrow> bool" where "ContentEncodingIsSet s = IsSet (S Content_encoding) (fst s)"
definition ContentEncodingClear :: "mstate \<Rightarrow> mem_exn + mstate" where "ContentEncodingClear = clear_str Content_encoding"

definition CorrelationId :: "mstate \<Rightarrow> mem_exn + bytes" where "CorrelationId = get_str Correlation_id"
definition CorrelationId_set :: "alloc \<Rightarrow> bytes \<Rightarrow> mstate \<Rightarrow> mem_exn + mstate" where "CorrelationId_set = set_str Correlation_id"
definition CorrelationIdIsSet :: "mstate \<Rightarrow> bool" where "CorrelationIdIsSet s = IsSet (S Correlation_id) (fst s)"
definition CorrelationIdClear :: "mstate \<Rightarrow> mem_exn + mstate" where "CorrelationIdClear = clear_str Correlation_id"

definition ReplyTo :: "mstate \<Rightarrow> mem_exn + bytes" where "ReplyTo = get_str Reply_to"
definition ReplyTo_set :: "alloc \<Rightarrow> bytes \<Rightarrow> mstate \<Rightarrow> mem_exn + mstate" where "ReplyTo_set = set_str Reply_to"
definition ReplyToIsSet :: "mstate \<Rightarrow> bool" where "ReplyToIsSet s = IsSet (S Reply_to) (fst s)"
definition ReplyToClear :: "mstate \<Rightarrow> mem_exn + mstate" where "ReplyToClear = clear_str Reply_to"

definition Expiration :: "mstate \<Rightarrow> mem_exn + bytes" where "Expiration = get_str Expiration_p"
definition Expiration_set :: "alloc \<Rightarrow> bytes \<Rightarrow> mstate \<Rightarrow> mem_exn + mstate" where "Expiration_set = set_str Expiration_p"
definition ExpirationIsSet :: "mstate \<Rightarrow> bool" where "ExpirationIsSet s = IsSet (S Expiration_p) (fst s)"
definition ExpirationClear :: "mstate \<Rightarrow> mem_exn + mstate" where "ExpirationClear = clear_str Expiration_p"

definition MessageId :: "mstate \<Rightarrow> mem_exn + bytes" where "MessageId = get_str Message_id"
definition MessageId_set :: "alloc \<Rightarrow> bytes \<Rightarrow> mstate \<Rightarrow> mem_exn + mstate" where "MessageId_set = set_str Message_id"
definition MessageIdIsSet :: "mstate \<Rightarrow> bool" where "MessageIdIsSet s = IsSet (S Message_id) (fst s)"
definition MessageIdClear :: "mstate \<Rightarrow> mem_exn + mstate" where "MessageIdClear = clear_str Message_id"

definition Type :: "mstate \<Rightarrow> mem_exn + bytes" where "Type = get_str Type_p"
definition Type_set :: "alloc \<Rightarrow> bytes \<Rightarrow> mstate \<Rightarrow> mem_exn + mstate" where "Type_set = set_str Type_p"
definition TypeIsSet :: "mstate \<Rightarrow> bool" where "TypeIsSet s = IsSet (S Type_p) (fst s)"
definition TypeClear :: "mstate \<Rightarrow> mem_exn + mstate" where "TypeClear = clear_str Type_p"

definition UserId :: "mstate \<Rightarrow> mem_exn + bytes" where "UserId = get_str User_id"
definition UserId_set :: "alloc \<Rightarrow> bytes \<Rightarrow> mstate \<Rightarrow> mem_exn + mstate" where "UserId_set = set_str User_id"
definition UserIdIsSet :: "mstate \<Rightarrow> bool" where "UserIdIsSet s = IsSet (S User_id) (fst s)"
definition UserIdClear :: "mstate \<Rightarrow> mem_exn + mstate" where "UserIdClear = clear_str User_id"

definition AppId :: "mstate \<Rightarrow> mem_exn + bytes" where "AppId = get_str App_id"
definition AppId_set :: "alloc \<Rightarrow> bytes \<Rightarrow> mstate \<Rightarrow> mem_exn + mstate" where "AppId_set = set_str App_id"
definition AppIdIsSet :: "mstate \<Rightarrow> bool" where "AppIdIsSet s = IsSet (S App_id) (fst s)"
definition AppIdClear :: "mstate \<Rightarrow> mem_exn + mstate" where "AppIdClear = clear_str App_id"

definition ClusterId :: "mstate \<Rightarrow> mem_exn + bytes" where "ClusterId = get_str Cluster_id"
definition ClusterId_set :: "alloc \<Rightarrow> bytes \<Rightarrow> mstate \<Rightarrow> mem_exn + mstate" where "ClusterId_set = set_str Cluster_id"
definition ClusterIdIsSet :: "mstate \<Rightarrow> bool" where "ClusterIdIsSet s = IsSet (S Cluster_id) (fst s)"
definition ClusterIdClear :: "mstate \<Rightarrow> mem_exn + mstate" where "ClusterIdClear = clear_str Cluster_id"

definition DeliveryMode :: "mstate \<Rightarrow> 8 word" where
  "DeliveryMode s = (if IsSet Delivery_mode (fst s) then p_delivery_mode (fst s) else 0)"
definition DeliveryMode_set :: "8 word \<Rightarrow> mstate \<Rightarrow> mstate" where
  "DeliveryMode_set v s = (mark Delivery_mode ((fst s)\<lparr>p_delivery_mode := v\<rparr>), snd s)"
definition DeliveryModeIsSet :: "mstate \<Rightarrow> bool" where
  "DeliveryModeIsSet s = IsSet Delivery_mode (fst s)"
definition DeliveryModeClear :: "mstate \<Rightarrow> mstate" where
  "DeliveryModeClear s = (unmark Delivery_mode (fst s), snd s)"

definition Priority :: "mstate \<Rightarrow> 8 word" where
  "Priority s = (if IsSet Priority_p (fst s) then p_priority (fst s) else 0)"
definition Priority_set :: "8 word \<Rightarrow> mstate \<Rightarrow> mstate" where
  "Priority_set v s = (mark Priority_p ((fst s)\<lparr>p_priority := v\<rparr>), snd s)"
definition PriorityIsSet :: "mstate \<Rightarrow> bool" where
  "PriorityIsSet s = IsSet Priority_p (fst s)"
definition PriorityClear :: "mstate \<Rightarrow> mstate" where
  "PriorityClear s = (unmark Priority_p (fst s), snd s)"

definition Timestamp :: "mstate \<Rightarrow> 64 word" where
  "Timestamp s = (if IsSet Timestamp_p (fst s) then p_timestamp (fst s) else 0)"
definition Timestamp_set :: "64 word \<Rightarrow> mstate \<Rightarrow> mstate" where
  "Timestamp_set v s = (mark Timestamp_p ((fst s)\<lparr>p_timestamp := v\<rparr>), snd s)"
definition TimestampIsSet :: "mstate \<Rightarrow> bool" where
  "TimestampIsSet s = IsSet Timestamp_p (fst s)"
definition TimestampClear :: "mstate \<Rightarrow> mstate" where
  "TimestampClear s = (unmark Timestamp_p (fst s), snd s)"

definition HeaderTable :: "mstate \<Rightarrow> table" where
  "HeaderTable s = (if IsSet Headers (fst s) then CreateTable (p_headers (fst s)) else [])"

text \<open>An exception of \<open>CreateAmqpTable\<close> leaves the message as it was, except that the new pool
  already replaced the old one: the headers then point into a freed pool.\<close>

definition HeaderTable_set :: "avail \<Rightarrow> table \<Rightarrow> mstate \<Rightarrow> mem_exn + mstate" where
  "HeaderTable_set avail t s = (case CreateAmqpTable avail t of
     Inl e \<Rightarrow> Inl (Table_exn e)
   | Inr (u, pl) \<Rightarrow>
       let m = fst s;
           m' = m\<lparr>p_headers := u, m_table_pool := (if pl = None then m_table_pool m else pl)\<rparr>
       in Inr (mark Headers m', snd s))"
definition HeaderTableIsSet :: "mstate \<Rightarrow> bool" where
  "HeaderTableIsSet s = IsSet Headers (fst s)"
definition HeaderTableClear :: "mstate \<Rightarrow> mstate" where
  "HeaderTableClear s =
     (let m = fst s;
          m' = (if IsSet Headers m then m\<lparr>m_table_pool := None, p_headers := []\<rparr> else m)
      in (unmark Headers m', snd s))"

section \<open>Body, construction and destruction\<close>

definition Body :: "mstate \<Rightarrow> mem_exn + bytes" where
  "Body s = (case s of (m, h) \<Rightarrow> if ptr (m_body m) = None then Inr [] else read_bytes (m_body m) h)"

definition Body_set :: "alloc \<Rightarrow> bytes \<Rightarrow> mstate \<Rightarrow> mem_exn + mstate" where
  "Body_set fresh v s = (case s of (m, h) \<Rightarrow>
     case (if ptr (m_body m) \<noteq> None then amqp_bytes_free (m_body m) h else Inr h) of
       Inl e \<Rightarrow> Inl e
     | Inr h1 \<Rightarrow> (let (b, h2) = amqp_bytes_malloc_dup fresh v h1 in Inr (m\<lparr>m_body := b\<rparr>, h2)))"

definition zero_message :: message where
  "zero_message = \<lparr>m_body = ABytes None 0, p_flags = 0, p_bytes = (\<lambda>_. ABytes None 0),
     p_delivery_mode = 0, p_priority = 0, p_timestamp = 0, p_headers = [], m_table_pool = None\<rparr>"

definition BasicMessage :: "heap \<Rightarrow> mstate" where
  "BasicMessage h = (zero_message\<lparr>m_body := ABytes None 0, p_flags := 0\<rparr>, h)"

definition BasicMessage_body :: "alloc \<Rightarrow> bytes \<Rightarrow> heap \<Rightarrow> mem_exn + mstate" where
  "BasicMessage_body fresh v h = (case Body_set fresh v (zero_message, h) of
     Inl e \<Rightarrow> Inl e | Inr (m, h') \<Rightarrow> Inr (m\<lparr>p_flags := 0\<rparr>, h'))"

text \<open>What the broker hands over: the properties with the contents of their byte fields.\<close>

record wire_props =
  w_flags :: "32 word"
  w_bytes :: "strprop \<Rightarrow> bytes"
  w_delivery_mode :: "8 word"
  w_priority :: "8 word"
  w_timestamp :: "64 word"
  w_headers :: atable

definition strprops :: "strprop list" where
  "strprops = [Content_type, Content_encoding, Correlation_id, Reply_to, Expiration_p,
     Message_id, Type_p, User_id, App_id, Cluster_id]"

definition dup_if_set :: "alloc \<Rightarrow> wire_props \<Rightarrow> strprop \<Rightarrow> mstate \<Rightarrow> mstate" where
  "dup_if_set fresh w p s = (case s of (m, h) \<Rightarrow>
     if IsSet (S p) m
     then (let (b, h') = amqp_bytes_malloc_dup fresh (w_bytes w p) h
           in (m\<lparr>p_bytes := (p_bytes m)(p := b)\<rparr>, h'))
     else (m, h))"

text \<open>The constructor from a received body and properties: it takes the body over and duplicates
  every property that is set.\<close>

definition BasicMessage_recv :: "alloc \<Rightarrow> avail \<Rightarrow> abytes \<Rightarrow> wire_props \<Rightarrow> heap \<Rightarrow> mem_exn + mstate" where
  "BasicMessage_recv fresh avail body w h =
     (let m0 = zero_message\<lparr>m_body := body, p_flags := w_flags w,
                 p_delivery_mode := w_delivery_mode w, p_priority := w_priority w,
                 p_timestamp := w_timestamp w, p_headers := w_headers w\<rparr>;
          (m1, h1) = fold (dup_if_set fresh w) strprops (m0, h)
      in if IsSet Headers m1
         then (case CopyTable avail (p_headers m1) of
                 Inl e \<Rightarrow> Inl (Table_exn e)
               | Inr (u, pl) \<Rightarrow> Inr (m1\<lparr>p_headers := u, m_table_pool := pl\<rparr>, h1))
         else Inr (m1, h1))"

fun free_props :: "strprop list \<Rightarrow> message \<Rightarrow> heap \<Rightarrow> mem_exn + heap" where
  "free_props [] m h = Inr h"
| "free_props (p # ps) m h = (case free_if_set p (m, h) of
     Inl e \<Rightarrow> Inl e | Inr h' \<Rightarrow> free_props ps m h')"

definition BasicMessage_dtor :: "mstate \<Rightarrow> mem_exn + heap" where
  "BasicMessage_dtor s = (case s of (m, h) \<Rightarrow>
     case amqp_bytes_free (m_body m) h of
       Inl e \<Rightarrow> Inl e | Inr h' \<Rightarrow> free_props strprops m h')"

end
