(* ===== verification/AmqpMessageProps.thy ===== *)
theory AmqpMessageProps
  imports AmqpMessage
begin

text \<open>
  What \<open>BasicMessage\<close> promises.  A message with its heap stands for a partial map from its slots (the
  body and the ten string properties) to their contents (\<open>contents\<close>); the setters and clears are
  updates of that map.  Each slot that is set owns one live buffer, no two share one, and no
  operation touches a buffer it does not own (\<open>owns\<close>, \<open>foreign\<close>), so any sequence of operations
  and the destructor free every buffer exactly once.
\<close>

section \<open>The flag word is a set of properties\<close>

lemma flag_bit_inj: "flag_bit p = flag_bit q \<longleftrightarrow> p = q"
  by (induction p rule: flag_bit.induct; induction q rule: flag_bit.induct) simp_all

lemma flag_bit_less: "flag_bit p < 32"
  by (induction p rule: flag_bit.induct) simp_all

lemma bit_AMQP_FLAG: "bit (AMQP_FLAG p) n \<longleftrightarrow> n = flag_bit p"
  using flag_bit_less [of p] by (auto simp: AMQP_FLAG_def bit_exp_iff)

lemma IsSet_bit: "IsSet p m \<longleftrightarrow> bit (p_flags m) (flag_bit p)"
proof
  assume "IsSet p m"
  then have "bit (AMQP_FLAG p) (flag_bit p) = bit (p_flags m AND AMQP_FLAG p) (flag_bit p)"
    unfolding IsSet_def by (rule arg_cong)
  then show "bit (p_flags m) (flag_bit p)" by (simp add: bit_and_iff bit_AMQP_FLAG)
next
  assume "bit (p_flags m) (flag_bit p)"
  then have "bit (AMQP_FLAG p) n = bit (p_flags m AND AMQP_FLAG p) n" for n
    unfolding bit_and_iff bit_AMQP_FLAG by metis
  then show "IsSet p m" unfolding IsSet_def by (intro bit_word_eqI)
qed

named_theorems flagsimps "presence of a property after an update"

lemma IsSet_mark [flagsimps]: "IsSet q (mark p m) \<longleftrightarrow> q = p \<or> IsSet q m"
  by (auto simp: IsSet_bit mark_def bit_or_iff bit_AMQP_FLAG flag_bit_inj)

lemma IsSet_unmark [flagsimps]: "IsSet q (unmark p m) \<longleftrightarrow> q \<noteq> p \<and> IsSet q m"
  using flag_bit_less [of q]
  by (auto simp: IsSet_bit unmark_def bit_and_iff bit_not_iff bit_AMQP_FLAG flag_bit_inj)

lemma IsSet_fields [flagsimps]:
  "IsSet q (m\<lparr>m_body := b\<rparr>) = IsSet q m" "IsSet q (m\<lparr>p_bytes := f\<rparr>) = IsSet q m"
  "IsSet q (m\<lparr>p_delivery_mode := d\<rparr>) = IsSet q m" "IsSet q (m\<lparr>p_priority := d\<rparr>) = IsSet q m"
  "IsSet q (m\<lparr>p_timestamp := t\<rparr>) = IsSet q m" "IsSet q (m\<lparr>p_headers := u\<rparr>) = IsSet q m"
  "IsSet q (m\<lparr>m_table_pool := pl\<rparr>) = IsSet q m"
  by (simp_all add: IsSet_def)

lemma mark_fields [flagsimps]:
  "m_body (mark p m) = m_body m" "p_bytes (mark p m) = p_bytes m"
  "m_body (unmark p m) = m_body m" "p_bytes (unmark p m) = p_bytes m"
  by (simp_all add: mark_def unmark_def)

section \<open>Slots, ownership and contents\<close>

text \<open>Slot \<open>None\<close> is the body, slot \<open>Some p\<close> the property \<open>p\<close>.\<close>

definition holds :: "message \<Rightarrow> strprop option \<Rightarrow> abytes option" where
  "holds m i = (case i of
     None \<Rightarrow> if ptr (m_body m) = None then None else Some (m_body m)
   | Some p \<Rightarrow> if IsSet (S p) m then Some (p_bytes m p) else None)"

definition wf_msg :: "mstate \<Rightarrow> bool" where
  "wf_msg s = (case s of (m, h) \<Rightarrow> distinct (map fst h) \<and>
     (\<forall>i b. holds m i = Some b \<longrightarrow> (\<exists>a v. b = ABytes (Some a) (length v) \<and> map_of h a = Some v)) \<and>
     (\<forall>i j b c. holds m i = Some b \<longrightarrow> holds m j = Some c \<longrightarrow> ptr b = ptr c \<longrightarrow> i = j))"

definition owns :: "message \<Rightarrow> addr \<Rightarrow> bool" where
  "owns m a \<longleftrightarrow> (\<exists>i b. holds m i = Some b \<and> ptr b = Some a)"

definition foreign :: "mstate \<Rightarrow> (addr \<times> bytes) set" where
  "foreign s = {e \<in> set (snd s). \<not> owns (fst s) (fst e)}"

definition contents :: "mstate \<Rightarrow> strprop option \<Rightarrow> bytes option" where
  "contents s i = (case holds (fst s) i of
     None \<Rightarrow> None | Some b \<Rightarrow> (case ptr b of None \<Rightarrow> None | Some a \<Rightarrow> map_of (snd s) a))"

lemma map_of_filter_other: "a \<noteq> x \<Longrightarrow> map_of (filter (\<lambda>e. fst e \<noteq> x) h) a = map_of h a"
  by (induction h) auto

lemma distinct_filter_keys: "distinct (map fst h) \<Longrightarrow> distinct (map fst (filter P h))"
  by (induction h) auto

lemma wf_live:
  "wf_msg (m, h) \<Longrightarrow> holds m j = Some c \<Longrightarrow>
   \<exists>a v. c = ABytes (Some a) (length v) \<and> map_of h a = Some v"
  by (simp add: wf_msg_def del: map_of_eq_Some_iff)

lemma free_live:
  assumes "wf_msg (m, h)" "holds m i = Some b"
  shows "\<exists>a. ptr b = Some a \<and> amqp_bytes_free b h = Inr (filter (\<lambda>e. fst e \<noteq> a) h)"
  using assms by (auto simp: wf_msg_def amqp_bytes_free_def dest!: map_of_SomeD) force

text \<open>Giving up slot \<open>i\<close>: its buffer goes, every other slot and foreign buffer stays.\<close>

definition without :: "abytes option \<Rightarrow> heap \<Rightarrow> heap" where
  "without ob h = (case ob of None \<Rightarrow> h | Some b \<Rightarrow>
     (case ptr b of None \<Rightarrow> h | Some a \<Rightarrow> filter (\<lambda>e. fst e \<noteq> a) h))"

lemma drop_slot:
  assumes wf: "wf_msg (m, h)" and new: "holds m' = (holds m)(i := None)"
  shows "wf_msg (m', without (holds m i) h) \<and> foreign (m', without (holds m i) h) = foreign (m, h) \<and>
         contents (m', without (holds m i) h) = (contents (m, h))(i := None)"
proof (cases "holds m i")
  case None
  then have "holds m' = holds m" using new by (simp add: fun_upd_idem)
  with None wf show ?thesis
    by (auto simp: without_def wf_msg_def foreign_def owns_def contents_def fun_eq_iff split: option.split)
next
  case (Some b)
  then obtain a v where b: "b = ABytes (Some a) (length v)" "map_of h a = Some v"
    using wf_live [OF wf] by blast
  have other: "x \<noteq> a" if "holds m j = Some c" "j \<noteq> i" "ptr c = Some x" for j c x
    using wf Some that b unfolding wf_msg_def by (metis (mono_tags, lifting) abytes.sel(1) case_prod_conv)
  have h': "without (holds m i) h = filter (\<lambda>e. fst e \<noteq> a) h" by (simp add: Some without_def b)
  have live: "\<exists>x w. c = ABytes (Some x) (length w) \<and> map_of h x = Some w" if "holds m j = Some c" for j c
    using wf_live [OF wf that] .
  have "wf_msg (m', filter (\<lambda>e. fst e \<noteq> a) h)"
    unfolding wf_msg_def prod.case
  proof (intro conjI allI impI)
    show "distinct (map fst (filter (\<lambda>e. fst e \<noteq> a) h))"
      using wf by (intro distinct_filter_keys) (simp add: wf_msg_def)
    fix j c assume j: "holds m' j = Some c"
    then have j': "holds m j = Some c" "j \<noteq> i" by (auto simp: new split: if_splits)
    with live obtain x w where "c = ABytes (Some x) (length w)" "map_of h x = Some w" by blast
    with other [OF j'] show "\<exists>x w. c = ABytes (Some x) (length w) \<and> map_of (filter (\<lambda>e. fst e \<noteq> a) h) x = Some w"
      by (auto simp: map_of_filter_other)
  next
    fix j k c d assume "holds m' j = Some c" "holds m' k = Some d" "ptr c = ptr d"
    with wf show "j = k" by (auto simp: new wf_msg_def split: if_splits)
  qed
  moreover have "foreign (m', filter (\<lambda>e. fst e \<noteq> a) h) = foreign (m, h)"
  proof -
    have "owns m' x \<longleftrightarrow> owns m x \<and> x \<noteq> a" for x
    proof
      assume "owns m' x"
      then obtain j c where "holds m j = Some c" "j \<noteq> i" "ptr c = Some x"
        by (auto simp: owns_def new split: if_splits)
      with other show "owns m x \<and> x \<noteq> a" by (auto simp: owns_def)
    next
      assume x: "owns m x \<and> x \<noteq> a"
      then obtain j c where j: "holds m j = Some c" "ptr c = Some x" by (auto simp: owns_def)
      with x Some b have "j \<noteq> i" by auto
      with j show "owns m' x" by (auto simp: owns_def new)
    qed
    moreover have "owns m a"
      unfolding owns_def using Some b by (intro exI [of _ i] exI [of _ b]) simp
    ultimately show ?thesis by (auto simp: foreign_def)
  qed
  moreover have "contents (m', filter (\<lambda>e. fst e \<noteq> a) h) = (contents (m, h))(i := None)"
  proof
    fix j show "contents (m', filter (\<lambda>e. fst e \<noteq> a) h) j = ((contents (m, h))(i := None)) j"
      using other [of j] by (auto simp: contents_def new map_of_filter_other split: option.split)
  qed
  ultimately show ?thesis by (simp add: h')
qed

text \<open>Filling an empty slot with a freshly allocated buffer.\<close>

lemma put_slot:
  assumes wf: "wf_msg (m, h)" and empty: "holds m i = None" and fresh: "x \<notin> fst ` set h"
    and new: "holds m' = (holds m)(i := Some (ABytes (Some x) (length v)))"
  shows "wf_msg (m', (x, v) # h) \<and> foreign (m', (x, v) # h) = foreign (m, h) \<and>
         contents (m', (x, v) # h) = (contents (m, h))(i := Some v)"
proof -
  have live: "\<exists>a w. c = ABytes (Some a) (length w) \<and> map_of h a = Some w \<and> a \<noteq> x" if "holds m j = Some c" for j c
    using wf_live [OF wf that] fresh by (metis fst_conv image_eqI map_of_SomeD)
  have "wf_msg (m', (x, v) # h)"
    unfolding wf_msg_def prod.case
  proof (intro conjI allI impI)
    show "distinct (map fst ((x, v) # h))" using wf fresh by (simp add: wf_msg_def)
    fix j c assume "holds m' j = Some c"
    then show "\<exists>a w. c = ABytes (Some a) (length w) \<and> map_of ((x, v) # h) a = Some w"
      using live [of j c] by (cases "j = i") (auto simp: new)
  next
    fix j k c d assume "holds m' j = Some c" "holds m' k = Some d" "ptr c = ptr d"
    then show "j = k" using wf live [of j c] live [of k d]
      by (cases "j = i"; cases "k = i") (auto simp: new wf_msg_def)
  qed
  moreover have "foreign (m', (x, v) # h) = foreign (m, h)"
    using fresh empty by (auto simp: foreign_def owns_def new)
  moreover have "contents (m', (x, v) # h) = (contents (m, h))(i := Some v)"
  proof
    fix j show "contents (m', (x, v) # h) j = ((contents (m, h))(i := Some v)) j"
      using live [of j] by (cases "j = i") (fastforce simp: contents_def new split: option.split)+
  qed
  ultimately show ?thesis by simp
qed

section \<open>Each operation is an update of one slot\<close>

text \<open>What an allocator must promise: the address it returns is not in use.\<close>

definition alloc_ok :: "alloc \<Rightarrow> bool" where
  "alloc_ok fresh \<longleftrightarrow> (\<forall>h. fresh h \<notin> fst ` set h)"

lemma holds_free_if_set:
  assumes "wf_msg (m, h)"
  shows "free_if_set p (m, h) = Inr (without (holds m (Some p)) h)"
proof (cases "IsSet (S p) m")
  case True
  then have "holds m (Some p) = Some (p_bytes m p)" by (simp add: holds_def)
  with free_live [OF assms this] True show ?thesis
    by (auto simp: free_if_set_def without_def)
qed (simp add: free_if_set_def holds_def without_def)

lemma holds_unmark: "holds (unmark (S p) m) = (holds m)(Some p := None)"
  by (auto simp: holds_def fun_eq_iff flagsimps split: option.split)

lemma holds_set:
  "holds (mark (S p) (m\<lparr>p_bytes := (p_bytes m)(p := b)\<rparr>)) = (holds m)(Some p := Some b)"
  by (auto simp: holds_def fun_eq_iff flagsimps split: option.split)

lemma holds_body:
  "ptr b \<noteq> None \<Longrightarrow> holds (m\<lparr>m_body := b\<rparr>) = (holds m)(None := Some b)"
  "holds (m\<lparr>m_body := ABytes None n\<rparr>) = (holds m)(None := None)"
  by (auto simp: holds_def fun_eq_iff flagsimps split: option.split)

lemma clear_str_spec:
  assumes "wf_msg s"
  shows "\<exists>s'. clear_str p s = Inr s' \<and> wf_msg s' \<and> foreign s' = foreign s \<and>
    contents s' = (contents s)(Some p := None)"
  using assms drop_slot [of "fst s" "snd s" "unmark (S p) (fst s)" "Some p"]
  by (cases s) (simp add: clear_str_def holds_free_if_set holds_unmark)

lemma set_str_spec:
  assumes "alloc_ok fresh" "wf_msg s"
  shows "\<exists>s'. set_str p fresh v s = Inr s' \<and> wf_msg s' \<and> foreign s' = foreign s \<and>
    contents s' = (contents s)(Some p := Some (c_str v))"
proof -
  obtain m h where s: "s = (m, h)" by (cases s)
  let ?h = "without (holds m (Some p)) h"
  let ?b = "ABytes (Some (fresh ?h)) (length (c_str v))"
  note d = drop_slot [OF assms(2) [unfolded s] holds_unmark [of p m]]
  have "set_str p fresh v s =
      Inr (mark (S p) (m\<lparr>p_bytes := (p_bytes m)(p := ?b)\<rparr>), (fresh ?h, c_str v) # ?h)"
    using assms(2) by (simp add: s set_str_def holds_free_if_set amqp_bytes_malloc_dup_def)
  moreover have "holds (mark (S p) (m\<lparr>p_bytes := (p_bytes m)(p := ?b)\<rparr>)) =
      (holds (unmark (S p) m))(Some p := Some ?b)"
    by (simp add: holds_set holds_unmark)
  moreover have "fresh ?h \<notin> fst ` set ?h" using assms(1) by (simp add: alloc_ok_def)
  ultimately show ?thesis
    using d put_slot [of "unmark (S p) m" ?h "Some p" "fresh ?h" _ "c_str v"]
    by (auto simp: s holds_unmark)
qed

lemma Body_set_spec:
  assumes "alloc_ok fresh" "wf_msg s"
  shows "\<exists>s'. Body_set fresh v s = Inr s' \<and> wf_msg s' \<and> foreign s' = foreign s \<and>
    contents s' = (contents s)(None := Some v)"
proof -
  obtain m h where s: "s = (m, h)" by (cases s)
  let ?h = "without (holds m None) h"
  let ?b = "ABytes (Some (fresh ?h)) (length v)"
  note d = drop_slot [OF assms(2) [unfolded s] holds_body(2) [where m = m and n = 0]]
  have free: "(if ptr (m_body m) \<noteq> None then amqp_bytes_free (m_body m) h else Inr h) = Inr ?h"
    using free_live [OF assms(2) [unfolded s], of None] by (auto simp: holds_def without_def)
  have "Body_set fresh v s = Inr (m\<lparr>m_body := ?b\<rparr>, (fresh ?h, v) # ?h)"
    unfolding Body_set_def s prod.case free by (simp add: amqp_bytes_malloc_dup_def)
  moreover have "holds (m\<lparr>m_body := ?b\<rparr>) = (holds (m\<lparr>m_body := ABytes None 0\<rparr>))(None := Some ?b)"
    by (simp add: holds_body)
  moreover have "fresh ?h \<notin> fst ` set ?h" using assms(1) by (simp add: alloc_ok_def)
  ultimately show ?thesis
    using d put_slot [of "m\<lparr>m_body := ABytes None 0\<rparr>" ?h None "fresh ?h" _ v]
    by (auto simp: s holds_body)
qed

lemma get_contents:
  assumes "wf_msg s"
  shows "get_str p s = Inr (case contents s (Some p) of None \<Rightarrow> [] | Some v \<Rightarrow> v)"
    "Body s = Inr (case contents s None of None \<Rightarrow> [] | Some v \<Rightarrow> v)"
proof -
  obtain m h where s: "s = (m, h)" by (cases s)
  show "get_str p s = Inr (case contents s (Some p) of None \<Rightarrow> [] | Some v \<Rightarrow> v)"
    using wf_live [OF assms [unfolded s], of "Some p"]
    by (auto simp: s get_str_def holds_def contents_def read_bytes_def simp del: map_of_eq_Some_iff
             split: option.split)
  show "Body s = Inr (case contents s None of None \<Rightarrow> [] | Some v \<Rightarrow> v)"
    using wf_live [OF assms [unfolded s], of None]
    by (auto simp: s Body_def holds_def contents_def read_bytes_def simp del: map_of_eq_Some_iff
             split: option.split)
qed

section \<open>The destructor\<close>

text \<open>\<open>release is m h\<close>: the heap after the buffers of the slots \<open>is\<close> are gone.\<close>

definition release :: "strprop option list \<Rightarrow> message \<Rightarrow> heap \<Rightarrow> heap" where
  "release is m h = filter (\<lambda>e. \<forall>i \<in> set is. \<forall>b. holds m i = Some b \<longrightarrow> ptr b \<noteq> Some (fst e)) h"

lemma release_step:
  assumes wf: "wf_msg (m, h)" and i: "i \<notin> set is" and b: "holds m i = Some b"
  shows "amqp_bytes_free b (release is m h) = Inr (release (i # is) m h)"
proof -
  obtain a v where a: "b = ABytes (Some a) (length v)" "map_of h a = Some v"
    using wf_live [OF wf b] by blast
  have "\<forall>j \<in> set is. \<forall>c. holds m j = Some c \<longrightarrow> ptr c \<noteq> Some a"
    using wf b a(1) i unfolding wf_msg_def by fastforce
  then have "a \<in> fst ` set (release is m h)"
    using map_of_SomeD [OF a(2)] by (force simp: release_def)
  then show ?thesis
    using b a(1) by (auto simp: amqp_bytes_free_def release_def intro!: filter_cong)
qed

lemma free_props_release:
  assumes wf: "wf_msg (m, h)"
  shows "distinct ps \<Longrightarrow> set (map Some ps) \<inter> set is = {} \<Longrightarrow>
    free_props ps m (release is m h) = Inr (release (rev (map Some ps) @ is) m h)"
proof (induction ps arbitrary: "is")
  case (Cons p ps)
  have step: "free_if_set p (m, release is m h) = Inr (release (Some p # is) m h)"
  proof (cases "IsSet (S p) m")
    case True
    then have "holds m (Some p) = Some (p_bytes m p)" by (simp add: holds_def)
    with release_step [OF wf _ this, of "is"] True Cons.prems show ?thesis by (simp add: free_if_set_def)
  next
    case False
    then have "holds m (Some p) = None" by (simp add: holds_def)
    with False show ?thesis by (simp add: free_if_set_def release_def)
  qed
  have "set (map Some ps) \<inter> set (Some p # is) = {}" using Cons.prems by auto
  with Cons step show ?case by simp
qed simp

lemma strprops_all: "p \<in> set strprops" "distinct strprops"
  by (cases p) (simp_all add: strprops_def)

lemma dtor_spec:
  assumes wf: "wf_msg s"
  shows "\<exists>h. BasicMessage_dtor s = Inr h \<and> set h = foreign s"
proof -
  obtain m h where s: "s = (m, h)" by (cases s)
  have nil: "release [] m h = h" by (simp add: release_def)
  have body: "amqp_bytes_free (m_body m) h = Inr (release [None] m h)"
  proof (cases "ptr (m_body m)")
    case None
    then show ?thesis by (simp add: amqp_bytes_free_def release_def holds_def)
  next
    case (Some a)
    then show ?thesis using release_step [OF wf [unfolded s], of None "[]" "m_body m"]
      by (simp add: nil holds_def)
  qed
  have "BasicMessage_dtor s = Inr (release (rev (map Some strprops) @ [None]) m h)"
    using body free_props_release [OF wf [unfolded s] strprops_all(2), of "[None]"]
    by (auto simp: BasicMessage_dtor_def s)
  moreover have "set (rev (map Some strprops) @ [None]) = UNIV"
  proof -
    have "i \<in> set (rev (map Some strprops) @ [None])" for i
      using strprops_all(1) by (cases i) auto
    then show ?thesis by blast
  qed
  then have "set (release (rev (map Some strprops) @ [None]) m h) = foreign s"
    unfolding release_def by (auto simp: foreign_def owns_def s)
  ultimately show ?thesis by blast
qed

section \<open>Sequences of operations\<close>

text \<open>A machine whose steps keep an invariant and a frame, and fail only harmlessly.\<close>

locale owner_machine =
  fixes inv :: "'s \<Rightarrow> bool" and frame :: "'s \<Rightarrow> 'f" and step :: "'op \<Rightarrow> 's \<Rightarrow> 'e + 's"
    and bad :: "'e \<Rightarrow> bool"
  assumes step_safe: "inv s \<Longrightarrow> (case step a s of Inl e \<Rightarrow> \<not> bad e
    | Inr s' \<Rightarrow> inv s' \<and> frame s' = frame s)"
begin

primrec run :: "'op list \<Rightarrow> 's \<Rightarrow> 'e + 's" where
  "run [] s = Inr s"
| "run (a # as) s = (case step a s of Inl e \<Rightarrow> Inl e | Inr s' \<Rightarrow> run as s')"

lemma run_safe:
  "inv s \<Longrightarrow> (case run as s of Inl e \<Rightarrow> \<not> bad e | Inr s' \<Rightarrow> inv s' \<and> frame s' = frame s)"
proof (induction as arbitrary: s)
  case (Cons a as)
  show ?case
  proof (cases "step a s")
    case (Inl e) with step_safe [OF Cons.prems, of a] show ?thesis by simp
  next
    case (Inr s') with step_safe [OF Cons.prems, of a] Cons.IH [of s'] show ?thesis by (auto split: sum.splits)
  qed
qed simp

end

datatype msg_op = Op_set strprop bytes | Op_clear strprop | Op_body bytes
  | Op_delivery_mode "8 word" | Op_delivery_mode_clear | Op_priority "8 word" | Op_priority_clear
  | Op_timestamp "64 word" | Op_timestamp_clear | Op_headers table | Op_headers_clear

fun msg_step :: "alloc \<Rightarrow> avail \<Rightarrow> msg_op \<Rightarrow> mstate \<Rightarrow> mem_exn + mstate" where
  "msg_step fresh avail (Op_set p v) s = set_str p fresh v s"
| "msg_step fresh avail (Op_clear p) s = clear_str p s"
| "msg_step fresh avail (Op_body v) s = Body_set fresh v s"
| "msg_step fresh avail (Op_delivery_mode w) s = Inr (DeliveryMode_set w s)"
| "msg_step fresh avail Op_delivery_mode_clear s = Inr (DeliveryModeClear s)"
| "msg_step fresh avail (Op_priority w) s = Inr (Priority_set w s)"
| "msg_step fresh avail Op_priority_clear s = Inr (PriorityClear s)"
| "msg_step fresh avail (Op_timestamp w) s = Inr (Timestamp_set w s)"
| "msg_step fresh avail Op_timestamp_clear s = Inr (TimestampClear s)"
| "msg_step fresh avail (Op_headers t) s = HeaderTable_set avail t s"
| "msg_step fresh avail Op_headers_clear s = Inr (HeaderTableClear s)"

primrec msg_run :: "alloc \<Rightarrow> avail \<Rightarrow> msg_op list \<Rightarrow> mstate \<Rightarrow> mem_exn + mstate" where
  "msg_run fresh avail [] s = Inr s"
| "msg_run fresh avail (a # as) s =
     (case msg_step fresh avail a s of Inl e \<Rightarrow> Inl e | Inr s' \<Rightarrow> msg_run fresh avail as s')"

definition bad_mem :: "mem_exn \<Rightarrow> bool" where
  "bad_mem e \<longleftrightarrow> e = Bad_free \<or> e = Bad_read"

lemma same_slots:
  assumes "holds m' = holds m"
  shows "wf_msg (m', h) = wf_msg (m, h)" "foreign (m', h) = foreign (m, h)"
    "contents (m', h) = contents (m, h)"
  subgoal using assms by (simp add: wf_msg_def)
  subgoal using assms by (simp add: foreign_def owns_def)
  subgoal by (rule ext) (simp add: contents_def assms split: option.split)
  done

lemma holds_scalar:
  "holds (mark Delivery_mode (m\<lparr>p_delivery_mode := w\<rparr>)) = holds m"
  "holds (unmark Delivery_mode m) = holds m"
  "holds (mark Priority_p (m\<lparr>p_priority := w\<rparr>)) = holds m"
  "holds (unmark Priority_p m) = holds m"
  "holds (mark Timestamp_p (m\<lparr>p_timestamp := t\<rparr>)) = holds m"
  "holds (unmark Timestamp_p m) = holds m"
  "holds (mark Headers (m\<lparr>p_headers := u, m_table_pool := pl\<rparr>)) = holds m"
  "holds (unmark Headers m) = holds m"
  "holds (m\<lparr>m_table_pool := pl, p_headers := u\<rparr>) = holds m"
  by (auto simp: holds_def fun_eq_iff flagsimps split: option.split)

lemma msg_step_safe:
  assumes "alloc_ok fresh" "wf_msg s"
  shows "case msg_step fresh avail a s of Inl e \<Rightarrow> \<not> bad_mem e
    | Inr s' \<Rightarrow> wf_msg s' \<and> foreign s' = foreign s"
proof (cases a)
  case (Op_set p v) with set_str_spec [OF assms, of p v] show ?thesis by auto
next
  case (Op_clear p) with clear_str_spec [OF assms(2), of p] show ?thesis by auto
next
  case (Op_body v) with Body_set_spec [OF assms, of v] show ?thesis by auto
next
  case (Op_headers t)
  with assms(2) show ?thesis
    by (cases s) (auto simp: HeaderTable_set_def bad_mem_def Let_def holds_scalar
      same_slots [OF holds_scalar(7)] split: sum.split)
next
  case Op_headers_clear
  with assms(2) show ?thesis
    by (cases s) (auto simp: HeaderTableClear_def Let_def same_slots [OF holds_scalar(8)]
      same_slots [OF holds_scalar(9)])
qed (use assms(2) in \<open>cases s, simp add: DeliveryMode_set_def DeliveryModeClear_def Priority_set_def
  PriorityClear_def Timestamp_set_def TimestampClear_def same_slots [OF holds_scalar(1)]
  same_slots [OF holds_scalar(2)] same_slots [OF holds_scalar(3)] same_slots [OF holds_scalar(4)]
  same_slots [OF holds_scalar(5)] same_slots [OF holds_scalar(6)]\<close>)+

interpretation msg: owner_machine "\<lambda>s. alloc_ok fresh \<and> wf_msg s" foreign "msg_step fresh avail" bad_mem
  for fresh :: alloc and avail :: avail
proof unfold_locales
  fix s a assume "alloc_ok fresh \<and> wf_msg s"
  then show "case msg_step fresh avail a s of Inl e \<Rightarrow> \<not> bad_mem e
    | Inr s' \<Rightarrow> (alloc_ok fresh \<and> wf_msg s') \<and> foreign s' = foreign s"
    using msg_step_safe [of fresh s avail a] by (cases "msg_step fresh avail a s") simp_all
qed

lemma msg_run_run: "msg_run fresh avail as s = msg.run fresh avail as s"
  by (induction as arbitrary: s) (auto split: sum.split)

lemma BasicMessage_wf: "distinct (map fst h) \<Longrightarrow> wf_msg (BasicMessage h) \<and> foreign (BasicMessage h) = set h"
proof -
  have "holds (zero_message\<lparr>m_body := ABytes None 0, p_flags := 0\<rparr>) = (\<lambda>_. None)"
    by (rule ext) (simp add: holds_def IsSet_bit zero_message_def split: option.split)
  then show "distinct (map fst h) \<Longrightarrow> ?thesis"
    by (simp add: BasicMessage_def wf_msg_def foreign_def owns_def)
qed

section \<open>The constructor from a received message\<close>

definition unmark_all :: "strprop list \<Rightarrow> message \<Rightarrow> message" where
  "unmark_all ps m = fold (\<lambda>p. unmark (S p)) ps m"

lemma holds_unmark_all:
  "holds (unmark_all ps m) i = (if i \<in> Some ` set ps then None else holds m i)"
  by (induction ps arbitrary: m) (auto simp: unmark_all_def holds_unmark)

lemma IsSet_unmark_all: "IsSet q (unmark_all ps m) \<longleftrightarrow> q \<notin> S ` set ps \<and> IsSet q m"
  by (induction ps arbitrary: m) (auto simp: unmark_all_def flagsimps)

text \<open>The duplications fill the slots of the list one by one; the slots still to come count as
  empty, although their flag is already set.\<close>

lemma fold_dup_spec:
  assumes "alloc_ok fresh"
  shows "distinct ps \<Longrightarrow> wf_msg (unmark_all ps m, h) \<Longrightarrow> fold (dup_if_set fresh w) ps (m, h) = (m', h') \<Longrightarrow>
    wf_msg (m', h') \<and> foreign (m', h') = foreign (unmark_all ps m, h) \<and> p_flags m' = p_flags m \<and>
    p_headers m' = p_headers m \<and>
    contents (m', h') = (\<lambda>i. case i of
      Some p \<Rightarrow> if p \<in> set ps \<and> IsSet (S p) m then Some (w_bytes w p) else contents (unmark_all ps m, h) i
    | None \<Rightarrow> contents (unmark_all ps m, h) i)"
proof (induction ps arbitrary: m h)
  case Nil
  then show ?case by (auto simp: unmark_all_def fun_eq_iff split: option.split)
next
  case (Cons p ps)
  show ?case
  proof (cases "IsSet (S p) m")
    case False
    then have "holds m (Some p) = None" by (simp add: holds_def)
    then have same: "holds (unmark_all (p # ps) m) = holds (unmark_all ps m)"
      by (auto simp: fun_eq_iff holds_unmark_all)
    have "dup_if_set fresh w p (m, h) = (m, h)" using False by (simp add: dup_if_set_def)
    then have "fold (dup_if_set fresh w) ps (m, h) = (m', h')" using Cons.prems(3) by simp
    with Cons.IH [of m h] Cons.prems(1,2) False show ?thesis
      by (auto simp: same_slots [OF same] fun_eq_iff split: option.split)
  next
    case True
    let ?b = "ABytes (Some (fresh h)) (length (w_bytes w p))"
    let ?m = "m\<lparr>p_bytes := (p_bytes m)(p := ?b)\<rparr>" let ?h = "(fresh h, w_bytes w p) # h"
    have "holds ?m = (holds m)(Some p := Some ?b)"
      using True by (auto simp: fun_eq_iff holds_def flagsimps split: option.split)
    then have slots: "holds (unmark_all ps ?m) = (holds (unmark_all (p # ps) m))(Some p := Some ?b)"
      using Cons.prems(1) by (auto simp: fun_eq_iff holds_unmark_all)
    have put: "wf_msg (unmark_all ps ?m, ?h) \<and> foreign (unmark_all ps ?m, ?h) = foreign (unmark_all (p # ps) m, h) \<and>
       contents (unmark_all ps ?m, ?h) = (contents (unmark_all (p # ps) m, h))(Some p := Some (w_bytes w p))"
      using Cons.prems(2) assms
      by (intro put_slot [OF _ _ _ slots]) (auto simp: holds_unmark_all alloc_ok_def)
    have "dup_if_set fresh w p (m, h) = (?m, ?h)"
      using True by (simp add: dup_if_set_def amqp_bytes_malloc_dup_def)
    then have "fold (dup_if_set fresh w) ps (?m, ?h) = (m', h')" using Cons.prems(3) by simp
    with Cons.IH [of ?m ?h] Cons.prems(1) put True show ?thesis
      by (auto simp: fun_eq_iff flagsimps split: option.split)
  qed
qed

lemma recv_spec:
  assumes "alloc_ok fresh" "distinct (map fst h)" "map_of h a = Some v"
  shows "case BasicMessage_recv fresh avail (ABytes (Some a) (length v)) w h of
     Inl e \<Rightarrow> \<not> bad_mem e
   | Inr s \<Rightarrow> wf_msg s \<and> contents s None = Some v \<and> p_headers (fst s) = w_headers w \<and>
       (\<forall>p. contents s (Some p) = (if bit (w_flags w) (flag_bit (S p)) then Some (w_bytes w p) else None)) \<and>
       foreign s = {e \<in> set h. fst e \<noteq> a}"
proof -
  let ?m0 = "zero_message\<lparr>m_body := ABytes (Some a) (length v), p_flags := w_flags w,
    p_delivery_mode := w_delivery_mode w, p_priority := w_priority w,
    p_timestamp := w_timestamp w, p_headers := w_headers w\<rparr>"
  obtain m1 h1 where f: "fold (dup_if_set fresh w) strprops (?m0, h) = (m1, h1)" by (metis surj_pair)
  have slots: "holds (unmark_all strprops ?m0) = (\<lambda>i. if i = None then Some (ABytes (Some a) (length v)) else None)"
  proof
    fix i
    have "holds ?m0 None = Some (ABytes (Some a) (length v))" by (simp add: holds_def)
    then show "holds (unmark_all strprops ?m0) i = (if i = None then Some (ABytes (Some a) (length v)) else None)"
      using strprops_all(1) by (cases i) (auto simp: holds_unmark_all)
  qed
  have wf: "wf_msg (unmark_all strprops ?m0, h)"
    using assms(2,3) by (auto simp: wf_msg_def slots simp del: map_of_eq_Some_iff split: if_splits)
  have for0: "foreign (unmark_all strprops ?m0, h) = {e \<in> set h. fst e \<noteq> a}"
    by (auto simp: foreign_def owns_def slots split: if_splits)
  have con0: "contents (unmark_all strprops ?m0, h) = (\<lambda>i. if i = None then Some v else None)"
    using assms(3) by (auto simp: contents_def slots fun_eq_iff simp del: map_of_eq_Some_iff)
  note r = fold_dup_spec [OF assms(1) strprops_all(2) wf f]
  have isset: "IsSet (S p) ?m0 \<longleftrightarrow> bit (w_flags w) (flag_bit (S p))" for p by (simp add: IsSet_bit)
  have con: "contents (m1, h1) None = Some v"
    "\<And>p. contents (m1, h1) (Some p) = (if bit (w_flags w) (flag_bit (S p)) then Some (w_bytes w p) else None)"
    using r con0 strprops_all(1) isset by auto
  have fin: "wf_msg (m1, h1)" "foreign (m1, h1) = {e \<in> set h. fst e \<noteq> a}" "p_headers m1 = w_headers w"
    using r for0 by auto
  show ?thesis
  proof (cases "IsSet Headers m1")
    case False
    then show ?thesis using f con fin by (simp add: BasicMessage_recv_def Let_def)
  next
    case True
    show ?thesis
    proof (cases "CopyTable avail (w_headers w)")
      case (Inl e)
      then show ?thesis using f True fin by (simp add: BasicMessage_recv_def Let_def bad_mem_def)
    next
      case (Inr r2)
      obtain u pl where r2: "r2 = (u, pl)" by (cases r2)
      have "u = w_headers w"
        using Inr r2 copy_same(3) by (auto simp: CopyTable_def simp del: CopyTableInner.simps
            split: if_split_asm sum.split_asm)
      then have copied: "CopyTable avail (w_headers w) = Inr (w_headers w, pl)" using Inr r2 by simp
      have same: "holds (m1\<lparr>p_headers := w_headers w, m_table_pool := pl\<rparr>) = holds m1"
        by (auto simp: fun_eq_iff holds_def flagsimps split: option.split)
      show ?thesis
        using f True con fin copied
        by (simp add: BasicMessage_recv_def Let_def same_slots [OF same])
    qed
  qed
qed

section \<open>Properties\<close>

definition next_addr :: alloc where
  "next_addr h = Suc (sum_list (map fst h))"

lemma next_addr_ok: "alloc_ok next_addr"
proof -
  have "x \<in> fst ` set h \<Longrightarrow> x \<le> sum_list (map fst h)" for x and h :: heap
    using member_le_sum_list [of x "map fst h"] by auto
  then show ?thesis unfolding alloc_ok_def next_addr_def by (metis Suc_n_not_le_n)
qed

text \<open>Setting a string property of a message succeeds, is read back up to its first NUL,
  changes no other property and not the body, and clearing it takes it away again.\<close>
theorem message_set_get_clear:
  assumes "alloc_ok fresh" "wf_msg s"
  shows "\<exists>s' t. set_str p fresh v s = Inr s' \<and> get_str p s' = Inr (c_str v) \<and>
     (\<forall>q. q \<noteq> p \<longrightarrow> get_str q s' = get_str q s) \<and> Body s' = Body s \<and>
     clear_str p s' = Inr t \<and> get_str p t = Inr [] \<and>
     (\<forall>q. q \<noteq> p \<longrightarrow> get_str q t = get_str q s) \<and> Body t = Body s"
proof -
  obtain s' where s': "set_str p fresh v s = Inr s'" "wf_msg s'"
    "contents s' = (contents s)(Some p := Some (c_str v))" using set_str_spec [OF assms] by blast
  moreover obtain t where t: "clear_str p s' = Inr t" "wf_msg t" "contents t = (contents s')(Some p := None)"
    using clear_str_spec [OF s'(2)] by blast
  ultimately show ?thesis using assms(2)
    by (intro exI [of _ s'] exI [of _ t]) (simp add: get_contents)
qed

theorem message_set_get_clear_witness:
  "\<exists>s' t. set_str Reply_to next_addr [65, 0, 66] (BasicMessage [(7, [1])]) = Inr s' \<and>
     get_str Reply_to s' = Inr [65] \<and> clear_str Reply_to s' = Inr t \<and> get_str Reply_to t = Inr []"
  using message_set_get_clear [OF next_addr_ok, of "BasicMessage [(7, [1])]" Reply_to "[65, 0, 66]"]
    BasicMessage_wf [of "[(7, [1])]"] by (auto simp: c_str_def)



text \<open>A message built from a received body and properties owns the body, holds a copy of exactly
  the string properties whose flag the broker set, and shows the broker's headers; nothing else on
  the heap is touched.\<close>
theorem message_received:
  assumes "alloc_ok fresh" "distinct (map fst h)" "map_of h a = Some v"
    and "BasicMessage_recv fresh avail (ABytes (Some a) (length v)) w h = Inr s"
  shows "Body s = Inr v \<and>
     (\<forall>p. get_str p s = Inr (if bit (w_flags w) (flag_bit (S p)) then w_bytes w p else [])) \<and>
     p_headers (fst s) = w_headers w \<and>
     (\<exists>h'. BasicMessage_dtor s = Inr h' \<and> set h' = {e \<in> set h. fst e \<noteq> a})"
  using recv_spec [OF assms(1-3), where avail = avail and w = w] assms(4) dtor_spec [of s]
  by (simp add: get_contents)

theorem message_received_witness:
  "Body (let w = \<lparr>w_flags = AMQP_FLAG (S Type_p), w_bytes = \<lambda>_. [5], w_delivery_mode = 0,
            w_priority = 0, w_timestamp = 0, w_headers = []\<rparr>
         in projr (BasicMessage_recv next_addr fresh_pool (ABytes (Some 3) 2) w [(3, [1, 2])])) = Inr [1, 2]"
proof -
  let ?w = "\<lparr>w_flags = AMQP_FLAG (S Type_p), w_bytes = \<lambda>_. [5], w_delivery_mode = 0,
            w_priority = 0, w_timestamp = 0, w_headers = []\<rparr> :: wire_props"
  have "\<not> isl (BasicMessage_recv next_addr fresh_pool (ABytes (Some 3) 2) ?w [(3, [1, 2])])"
    by code_simp
  then obtain s where "BasicMessage_recv next_addr fresh_pool (ABytes (Some 3) 2) ?w [(3, [1, 2])] = Inr s"
    by (cases "BasicMessage_recv next_addr fresh_pool (ABytes (Some 3) 2) ?w [(3, [1, 2])]") simp_all
  with message_received [OF next_addr_ok, of "[(3, [1, 2])]" 3 "[1, 2]" fresh_pool ?w s]
  show ?thesis by (simp add: numeral_2_eq_2)
qed

end
