(* ===== verification/AmqpFrames.thy ===== *)
theory AmqpFrames
  imports AmqpMessage
begin

text \<open>
  What passes between the client and the broker, and what the client throws:
  method and frame types with the method numbers of \<open>amqp_framing.h\<close>, \<open>AmqpException.cpp\<close>,
  \<open>AmqpLibraryException.cpp\<close>, \<open>AmqpResponseLibraryException.cpp\<close>, \<open>MessageReturnedException.cpp\<close>
  and \<open>Envelope.cpp\<close>.  The names and error texts that rabbitmq-c supplies
  (\<open>amqp_method_name\<close>, \<open>amqp_error_string2\<close>) are parameters.
\<close>

section \<open>Method numbers\<close>

abbreviation "AMQP_CONNECTION_CLOSE_METHOD \<equiv> 0x000A0032 :: 32 word"
abbreviation "AMQP_CHANNEL_OPEN_OK_METHOD \<equiv> 0x0014000B :: 32 word"
abbreviation "AMQP_CHANNEL_CLOSE_METHOD \<equiv> 0x00140028 :: 32 word"
abbreviation "AMQP_EXCHANGE_DECLARE_OK_METHOD \<equiv> 0x0028000B :: 32 word"
abbreviation "AMQP_EXCHANGE_DELETE_OK_METHOD \<equiv> 0x00280015 :: 32 word"
abbreviation "AMQP_EXCHANGE_BIND_OK_METHOD \<equiv> 0x0028001F :: 32 word"
abbreviation "AMQP_EXCHANGE_UNBIND_OK_METHOD \<equiv> 0x00280033 :: 32 word"
abbreviation "AMQP_QUEUE_DECLARE_OK_METHOD \<equiv> 0x0032000B :: 32 word"
abbreviation "AMQP_QUEUE_BIND_OK_METHOD \<equiv> 0x00320015 :: 32 word"
abbreviation "AMQP_QUEUE_PURGE_OK_METHOD \<equiv> 0x0032001F :: 32 word"
abbreviation "AMQP_QUEUE_DELETE_OK_METHOD \<equiv> 0x00320029 :: 32 word"
abbreviation "AMQP_QUEUE_UNBIND_OK_METHOD \<equiv> 0x00320033 :: 32 word"
abbreviation "AMQP_BASIC_QOS_OK_METHOD \<equiv> 0x003C000B :: 32 word"
abbreviation "AMQP_BASIC_CONSUME_OK_METHOD \<equiv> 0x003C0015 :: 32 word"
abbreviation "AMQP_BASIC_CANCEL_METHOD \<equiv> 0x003C001E :: 32 word"
abbreviation "AMQP_BASIC_CANCEL_OK_METHOD \<equiv> 0x003C001F :: 32 word"
abbreviation "AMQP_BASIC_RETURN_METHOD \<equiv> 0x003C0032 :: 32 word"
abbreviation "AMQP_BASIC_DELIVER_METHOD \<equiv> 0x003C003C :: 32 word"
abbreviation "AMQP_BASIC_GET_OK_METHOD \<equiv> 0x003C0047 :: 32 word"
abbreviation "AMQP_BASIC_GET_EMPTY_METHOD \<equiv> 0x003C0048 :: 32 word"
abbreviation "AMQP_BASIC_ACK_METHOD \<equiv> 0x003C0050 :: 32 word"
abbreviation "AMQP_BASIC_RECOVER_OK_METHOD \<equiv> 0x003C006F :: 32 word"
abbreviation "AMQP_CONFIRM_SELECT_OK_METHOD \<equiv> 0x0055000B :: 32 word"

section \<open>Frames received\<close>

text \<open>\<open>amqp_channel_close_t\<close> and \<open>amqp_connection_close_t\<close> have the same members.\<close>

record close_args =
  reply_code :: "16 word"
  reply_text :: "bytes option"
  class_id :: "16 word"
  method_id :: "16 word"

text \<open>The decoded methods whose members the client reads; any other method is its number.\<close>

datatype in_method =
    M_channel_close close_args
  | M_connection_close close_args
  | M_deliver bytes "64 word" bool bytes bytes
  | M_cancel bytes
  | M_return "16 word" bytes bytes bytes
  | M_get_ok "64 word" bool bytes bytes
  | M_declare_ok bytes "32 word" "32 word"
  | M_consume_ok bytes
  | M_other "32 word"

fun method_number :: "in_method \<Rightarrow> 32 word" where
  "method_number (M_channel_close _) = AMQP_CHANNEL_CLOSE_METHOD"
| "method_number (M_connection_close _) = AMQP_CONNECTION_CLOSE_METHOD"
| "method_number (M_deliver _ _ _ _ _) = AMQP_BASIC_DELIVER_METHOD"
| "method_number (M_cancel _) = AMQP_BASIC_CANCEL_METHOD"
| "method_number (M_return _ _ _ _) = AMQP_BASIC_RETURN_METHOD"
| "method_number (M_get_ok _ _ _ _) = AMQP_BASIC_GET_OK_METHOD"
| "method_number (M_declare_ok _ _ _) = AMQP_QUEUE_DECLARE_OK_METHOD"
| "method_number (M_consume_ok _) = AMQP_BASIC_CONSUME_OK_METHOD"
| "method_number (M_other n) = n"

text \<open>\<open>frame_type\<close> and its union: method, content header with its properties and body size,
  content body, or another type.\<close>

datatype payload = P_method in_method | P_header wire_props "64 word" | P_body bytes | P_other "8 word"

record frame =
  f_channel :: nat
  f_payload :: payload

definition is_on_channel :: "frame \<Rightarrow> nat \<Rightarrow> bool" where
  "is_on_channel f channel \<longleftrightarrow> channel = f_channel f"

fun frame_type :: "payload \<Rightarrow> 8 word" where
  "frame_type (P_method _) = 1"
| "frame_type (P_header _ _) = 2"
| "frame_type (P_body _) = 3"
| "frame_type (P_other t) = t"

definition is_frame_type_on_channel :: "frame \<Rightarrow> 8 word \<Rightarrow> nat \<Rightarrow> bool" where
  "is_frame_type_on_channel f t channel \<longleftrightarrow> frame_type (f_payload f) = t \<and> f_channel f = channel"

definition is_method_on_channel :: "frame \<Rightarrow> 32 word \<Rightarrow> nat \<Rightarrow> bool" where
  "is_method_on_channel f m channel \<longleftrightarrow> f_channel f = channel \<and>
     (case f_payload f of P_method x \<Rightarrow> method_number x = m | _ \<Rightarrow> False)"

definition is_expected_method_on_channel :: "frame \<Rightarrow> nat list \<Rightarrow> 32 word list \<Rightarrow> bool" where
  "is_expected_method_on_channel f channels expected \<longleftrightarrow> f_channel f \<in> set channels \<and>
     (case f_payload f of P_method x \<Rightarrow> method_number x \<in> set expected | _ \<Rightarrow> False)"

section \<open>Messages and envelopes\<close>

text \<open>What \<open>BasicMessage::Create(body, properties)\<close> is given; \<open>BasicMessage_recv\<close> in
  \<open>AmqpMessage\<close> is that constructor.\<close>

record content =
  c_props :: wire_props
  c_body :: bytes

record envelope =
  m_message :: content
  m_consumerTag :: bytes
  m_deliveryTag :: "64 word"
  m_exchange :: bytes
  m_redelivered :: bool
  m_routingKey :: bytes
  m_deliveryChannel :: nat

definition Envelope ::
  "content \<Rightarrow> bytes \<Rightarrow> 64 word \<Rightarrow> bytes \<Rightarrow> bool \<Rightarrow> bytes \<Rightarrow> nat \<Rightarrow> envelope" where
  "Envelope message consumer_tag delivery_tag exchange redelivered routing_key delivery_channel =
     \<lparr>m_message = message, m_consumerTag = consumer_tag, m_deliveryTag = delivery_tag,
      m_exchange = exchange, m_redelivered = redelivered, m_routingKey = routing_key,
      m_deliveryChannel = delivery_channel\<rparr>"

record DeliveryInfo =
  delivery_tag :: "64 word"
  delivery_channel :: nat

definition GetDeliveryInfo :: "envelope \<Rightarrow> DeliveryInfo" where
  "GetDeliveryInfo e = \<lparr>delivery_tag = m_deliveryTag e, delivery_channel = m_deliveryChannel e\<rparr>"

section \<open>Exceptions\<close>

datatype exn_kind =
    ContentTooLarge | NoRoute | NoConsumers | AccessRefused | NotFound | ResourceLocked
  | PreconditionFailed | ConnectionForced | InvalidPath | FrameError | SyntaxError | CommandInvalid
  | ChannelError | UnexpectedFrame | ResourceError | NotAllowed | NotImplemented | InternalError

fun REPLY_CODE :: "exn_kind \<Rightarrow> 16 word" where
  "REPLY_CODE ContentTooLarge = 311"
| "REPLY_CODE NoRoute = 312"
| "REPLY_CODE NoConsumers = 313"
| "REPLY_CODE AccessRefused = 403"
| "REPLY_CODE NotFound = 404"
| "REPLY_CODE ResourceLocked = 405"
| "REPLY_CODE PreconditionFailed = 406"
| "REPLY_CODE ConnectionForced = 320"
| "REPLY_CODE InvalidPath = 402"
| "REPLY_CODE FrameError = 501"
| "REPLY_CODE SyntaxError = 502"
| "REPLY_CODE CommandInvalid = 503"
| "REPLY_CODE ChannelError = 504"
| "REPLY_CODE UnexpectedFrame = 505"
| "REPLY_CODE ResourceError = 506"
| "REPLY_CODE NotAllowed = 530"
| "REPLY_CODE NotImplemented = 540"
| "REPLY_CODE InternalError = 541"

record amqp_exception =
  e_kind :: exn_kind
  e_what :: bytes
  e_reply_text :: bytes
  e_class_id :: "16 word"
  e_method_id :: "16 word"

definition AmqpException :: "exn_kind \<Rightarrow> bytes \<Rightarrow> bytes \<Rightarrow> 16 word \<Rightarrow> 16 word \<Rightarrow> amqp_exception" where
  "AmqpException k what text cls meth =
     \<lparr>e_kind = k, e_what = what, e_reply_text = text, e_class_id = cls, e_method_id = meth\<rparr>"

datatype chan_exn =
    X_amqp amqp_exception
  | X_logic_error bytes
  | X_library int bytes
  | X_response_library bytes
  | X_connection_closed
  | X_consumer_tag_not_found
  | X_consumer_cancelled bytes
  | X_message_returned content "32 word" bytes bytes bytes
  | X_runtime_error bytes
  | X_out_of_range
  | X_bad_lexical_cast
  | X_bad_uri
  | X_table table_exn
  \<comment> \<open>not exceptions of the source: a read of an uninitialised frame, a write past the body
     buffer, a wait that never returns, and the model's fuel\<close>
  | X_uninitialised | X_heap_overflow | X_blocked | X_out_of_fuel

definition close_text :: "close_args \<Rightarrow> bytes" where
  "close_text c = (case reply_text c of None \<Rightarrow> [] | Some t \<Rightarrow> t)"

definition close_what :: "bytes \<Rightarrow> (32 word \<Rightarrow> bytes option) \<Rightarrow> close_args \<Rightarrow> bytes" where
  "close_what prefix name c =
     (case name (push_bit 16 (ucast (class_id c)) OR ucast (method_id c)) of
        Some n \<Rightarrow> prefix @ dec (unat (reply_code c)) @ ascii '': '' @ n @ ascii '' caused: '' @ close_text c
      | None \<Rightarrow> prefix @ dec (unat (reply_code c)) @ ascii '': '' @ close_text c)"

definition throw_kind :: "exn_kind \<Rightarrow> bytes \<Rightarrow> close_args \<Rightarrow> chan_exn" where
  "throw_kind k what c = X_amqp (AmqpException k what (close_text c) (class_id c) (method_id c))"

definition Throw_channel_close :: "(32 word \<Rightarrow> bytes option) \<Rightarrow> close_args \<Rightarrow> chan_exn" where
  "Throw_channel_close name c =
     (let what = close_what (ascii ''channel error: '') name c; code = reply_code c in
      if code = REPLY_CODE ContentTooLarge then throw_kind ContentTooLarge what c
      else if code = REPLY_CODE NoRoute then throw_kind NoRoute what c
      else if code = REPLY_CODE NoConsumers then throw_kind NoConsumers what c
      else if code = REPLY_CODE AccessRefused then throw_kind AccessRefused what c
      else if code = REPLY_CODE NotFound then throw_kind NotFound what c
      else if code = REPLY_CODE ResourceLocked then throw_kind ResourceLocked what c
      else if code = REPLY_CODE PreconditionFailed then throw_kind PreconditionFailed what c
      else X_logic_error (ascii ''Programming error: unknown channel reply code: '' @ dec (unat code)))"

definition Throw_connection_close :: "(32 word \<Rightarrow> bytes option) \<Rightarrow> close_args \<Rightarrow> chan_exn" where
  "Throw_connection_close name c =
     (let what = close_what (ascii ''connection error: '') name c; code = reply_code c in
      if code = REPLY_CODE ConnectionForced then throw_kind ConnectionForced what c
      else if code = REPLY_CODE InvalidPath then throw_kind InvalidPath what c
      else if code = REPLY_CODE FrameError then throw_kind FrameError what c
      else if code = REPLY_CODE SyntaxError then throw_kind SyntaxError what c
      else if code = REPLY_CODE CommandInvalid then throw_kind CommandInvalid what c
      else if code = REPLY_CODE ChannelError then throw_kind ChannelError what c
      else if code = REPLY_CODE UnexpectedFrame then throw_kind UnexpectedFrame what c
      else if code = REPLY_CODE ResourceError then throw_kind ResourceError what c
      else if code = REPLY_CODE NotAllowed then throw_kind NotAllowed what c
      else if code = REPLY_CODE NotImplemented then throw_kind NotImplemented what c
      else if code = REPLY_CODE InternalError then throw_kind InternalError what c
      else if code = REPLY_CODE AccessRefused then throw_kind AccessRefused what c
      else X_logic_error (ascii ''Programming error: unknown connection reply code: '' @ dec (unat code)))"

text \<open>\<open>amqp_rpc_reply_t\<close>.\<close>

datatype rpc_reply = R_none | R_normal | R_library_exception int | R_server_exception in_method

text \<open>The \<open>assert\<close> that guards the function is off in release builds; a reply without a method
  then reads the number 0.\<close>

definition Throw_reply :: "(32 word \<Rightarrow> bytes option) \<Rightarrow> rpc_reply \<Rightarrow> chan_exn" where
  "Throw_reply name r =
     (let unknown = (\<lambda>n. X_logic_error
            (ascii ''Programming error: unknown server exception class/method'' @ dec (unat (n :: 32 word))))
      in case r of
           R_server_exception (M_connection_close c) \<Rightarrow> Throw_connection_close name c
         | R_server_exception (M_channel_close c) \<Rightarrow> Throw_channel_close name c
         | R_server_exception m \<Rightarrow> unknown (method_number m)
         | _ \<Rightarrow> unknown 0)"

definition AmqpLibraryException :: "(int \<Rightarrow> bytes) \<Rightarrow> int \<Rightarrow> chan_exn" where
  "AmqpLibraryException err code = X_library code (err code)"

definition AmqpLibraryException_context :: "(int \<Rightarrow> bytes) \<Rightarrow> int \<Rightarrow> bytes \<Rightarrow> chan_exn" where
  "AmqpLibraryException_context err code context = X_library code (context @ ascii '': '' @ err code)"

definition AmqpResponseLibraryException :: "(int \<Rightarrow> bytes) \<Rightarrow> int \<Rightarrow> bytes \<Rightarrow> chan_exn" where
  "AmqpResponseLibraryException err code context = X_response_library (context @ ascii '': '' @ err code)"

definition MessageReturned_what :: "32 word \<Rightarrow> bytes \<Rightarrow> bytes" where
  "MessageReturned_what code text = ascii ''Message returned. Reply code: '' @ dec (unat code) @ ascii '' '' @ text"

section \<open>Classification of broker errors\<close>

definition channel_kinds :: "exn_kind list" where
  "channel_kinds = [ContentTooLarge, NoRoute, NoConsumers, AccessRefused, NotFound, ResourceLocked,
     PreconditionFailed]"

text \<open>A channel's error is soft, a connection's is not.\<close>

definition is_soft_error :: "amqp_exception \<Rightarrow> bool" where
  "is_soft_error e \<longleftrightarrow> e_kind e \<in> set channel_kinds"

text \<open>\<open>what()\<close> of the exceptions that carry a message.\<close>

fun exn_what :: "chan_exn \<Rightarrow> bytes option" where
  "exn_what (X_amqp e) = Some (e_what e)"
| "exn_what (X_logic_error t) = Some t"
| "exn_what (X_runtime_error t) = Some t"
| "exn_what (X_library code t) = Some t"
| "exn_what (X_response_library t) = Some t"
| "exn_what X_connection_closed = Some (ascii ''Connection is closed'')"
| "exn_what (X_consumer_cancelled tag) = Some (ascii ''Consumer was cancelled: '' @ tag)"
| "exn_what (X_message_returned c code t ex key) = Some (MessageReturned_what code t)"
| "exn_what _ = None"

definition connection_kinds :: "exn_kind list" where
  "connection_kinds = [ConnectionForced, InvalidPath, FrameError, SyntaxError, CommandInvalid,
     ChannelError, UnexpectedFrame, ResourceError, NotAllowed, NotImplemented, InternalError, AccessRefused]"

text \<open>A close method from the broker becomes the exception whose class has its reply code, with
  the broker's text, class and method; a code outside the classes of a channel (of a connection)
  becomes \<open>logic_error\<close>.\<close>
theorem broker_error_classified:
  "(k \<in> set channel_kinds \<and> reply_code c = REPLY_CODE k \<longrightarrow>
      Throw_channel_close name c =
        X_amqp (AmqpException k (close_what (ascii ''channel error: '') name c) (close_text c) (class_id c) (method_id c))) \<and>
   (reply_code c \<notin> REPLY_CODE ` set channel_kinds \<longrightarrow>
      (\<exists>text. Throw_channel_close name c = X_logic_error text)) \<and>
   (k \<in> set connection_kinds \<and> reply_code c = REPLY_CODE k \<longrightarrow>
      Throw_connection_close name c =
        X_amqp (AmqpException k (close_what (ascii ''connection error: '') name c) (close_text c) (class_id c) (method_id c))) \<and>
   (reply_code c \<notin> REPLY_CODE ` set connection_kinds \<longrightarrow>
      (\<exists>text. Throw_connection_close name c = X_logic_error text))"
  by (cases k) (simp_all add: channel_kinds_def connection_kinds_def Throw_channel_close_def
    Throw_connection_close_def Let_def throw_kind_def)

theorem broker_error_classified_witness:
  "Throw_channel_close (\<lambda>_. None) \<lparr>reply_code = 404, reply_text = Some [110, 111], class_id = 50, method_id = 10\<rparr>
     = X_amqp (AmqpException NotFound (ascii ''channel error: 404: no'') [110, 111] 50 10)"
proof -
  let ?c = "\<lparr>reply_code = 404, reply_text = Some [110, 111], class_id = 50, method_id = 10\<rparr>"
  have "close_what (ascii ''channel error: '') (\<lambda>_. None) ?c = ascii ''channel error: 404: no''"
    by (simp add: close_what_def close_text_def ascii_def dec.simps)
  then show ?thesis
    using broker_error_classified [of NotFound ?c "\<lambda>_. None"]
    by (simp add: channel_kinds_def close_text_def)
qed

end
