(* ===== verification/AmqpChannelImpl.thy ===== *)
theory AmqpChannelImpl
  imports AmqpFrames
begin

text \<open>
  \<open>ChannelImpl.h\<close>, \<open>ChannelImpl.cpp\<close>: the multiplexer of one AMQP connection.  The state
  \<open>chan\<close> has the members of \<open>ChannelImpl\<close>; \<open>m_connection\<close> stands for the rabbitmq-c connection,
  code that is not part of the repository: what it will deliver (\<open>inbox\<close>: one entry per
  \<open>amqp_simple_wait_frame_noblock\<close>, with the time that passes), what its send functions return
  (\<open>send_ret\<close>; when used up they succeed), its constants, and a log of what it was asked.
  An operation is a function of the state to a result or an exception and the state it leaves.
  The frame loops and the message assembly call each other; they carry fuel, and
  \<open>AmqpChannelProps\<close> shows that the fuel every public operation starts with is never used up.
\<close>

section \<open>State\<close>

datatype wait = W_frame frame | W_timeout | W_error int

datatype out_method =
    O_channel_open | O_confirm_select | O_channel_close_ok | O_connection_close_ok
  | O_exchange_declare bytes bytes bool bool bool bool bool atable
  | O_exchange_delete bytes bool bool
  | O_exchange_bind bytes bytes bytes bool atable
  | O_exchange_unbind bytes bytes bytes bool atable
  | O_queue_declare bytes bool bool bool bool bool atable
  | O_queue_delete bytes bool bool bool
  | O_queue_bind bytes bytes bytes bool atable
  | O_queue_unbind bytes bytes bytes atable
  | O_queue_purge bytes bool
  | O_ack "64 word" bool
  | O_nack "64 word" bool bool
  | O_publish bytes bytes bool bool content
  | O_get bytes bool
  | O_recover bool
  | O_qos "32 word" "16 word" bool
  | O_consume bytes bytes bool bool bool bool atable
  | O_cancel bytes bool

record conn =
  inbox :: "(nat \<times> wait) list"
  send_ret :: "int list"
  sent :: "(nat \<times> out_method) list"
  waits :: "(nat \<times> nat) option list"
  released :: "nat list"
  now :: nat
  channel_max :: nat
  server_properties :: atable
  method_name :: "32 word \<Rightarrow> bytes option"
  error_string :: "int \<Rightarrow> bytes"
  pool_avail :: avail

datatype channel_state = CS_Closed | CS_Open | CS_Used

record chan =
  m_connection :: conn
  m_frame_queue :: "frame list"
  m_delivered_messages :: "envelope list"
  m_consumer_channel_map :: "(bytes \<times> nat) list"
  m_channels :: "channel_state list"
  m_brokerVersion :: "32 word"
  m_last_used_channel :: nat
  m_is_connected :: bool

section \<open>State and exceptions\<close>

type_synonym 'a M = "chan \<Rightarrow> (chan_exn + 'a) \<times> chan"

definition ret :: "'a \<Rightarrow> 'a M" where
  "ret x s = (Inr x, s)"

definition throw :: "chan_exn \<Rightarrow> 'a M" where
  "throw e s = (Inl e, s)"

definition bindM :: "'a M \<Rightarrow> ('a \<Rightarrow> 'b M) \<Rightarrow> 'b M" where
  "bindM m f s = (case m s of (Inl e, s') \<Rightarrow> (Inl e, s') | (Inr x, s') \<Rightarrow> f x s')"

abbreviation thenM :: "'a M \<Rightarrow> 'b M \<Rightarrow> 'b M" where
  "thenM m k \<equiv> bindM m (\<lambda>_. k)"

definition modify :: "(chan \<Rightarrow> chan) \<Rightarrow> unit M" where
  "modify f s = (Inr (), f s)"

definition gets :: "(chan \<Rightarrow> 'a) \<Rightarrow> 'a M" where
  "gets f s = (Inr (f s), s)"

definition whenM :: "bool \<Rightarrow> unit M \<Rightarrow> unit M" where
  "whenM b m = (if b then m else ret ())"

section \<open>The connection\<close>

definition amqp_send_method :: "nat \<Rightarrow> out_method \<Rightarrow> int M" where
  "amqp_send_method channel m s =
     (let c = m_connection s;
          r = (case send_ret c of [] \<Rightarrow> 0 | x # _ \<Rightarrow> x)
      in (Inr r, s\<lparr>m_connection := c\<lparr>send_ret := tl (send_ret c), sent := sent c @ [(channel, m)]\<rparr>\<rparr>))"

definition amqp_maybe_release_buffers_on_channel :: "nat \<Rightarrow> unit M" where
  "amqp_maybe_release_buffers_on_channel channel =
     modify (\<lambda>s. s\<lparr>m_connection := (m_connection s)\<lparr>released := released (m_connection s) @ [channel]\<rparr>\<rparr>)"

text \<open>An empty inbox is a wait that does not return.\<close>

definition amqp_simple_wait_frame_noblock :: "(nat \<times> nat) option \<Rightarrow> wait M" where
  "amqp_simple_wait_frame_noblock tv s =
     (let c = m_connection s in
      case inbox c of
        [] \<Rightarrow> (Inl X_blocked, s\<lparr>m_connection := c\<lparr>waits := waits c @ [tv]\<rparr>\<rparr>)
      | (dt, w) # rest \<Rightarrow>
          (Inr w, s\<lparr>m_connection := c\<lparr>inbox := rest, waits := waits c @ [tv], now := now c + dt\<rparr>\<rparr>))"

section \<open>Construction, errors and channel numbers\<close>

definition ChannelImpl :: "conn \<Rightarrow> chan" where
  "ChannelImpl c = \<lparr>m_connection = c, m_frame_queue = [], m_delivered_messages = [],
     m_consumer_channel_map = [], m_channels = [CS_Used], m_brokerVersion = 0,
     m_last_used_channel = 0, m_is_connected = False\<rparr>"

definition SetIsConnected :: "bool \<Rightarrow> unit M" where
  "SetIsConnected b = modify (\<lambda>s. s\<lparr>m_is_connected := b\<rparr>)"

definition CheckIsConnected :: "unit M" where
  "CheckIsConnected = bindM (gets m_is_connected) (\<lambda>b. if \<not> b then throw X_connection_closed else ret ())"

definition CheckForError :: "int \<Rightarrow> unit M" where
  "CheckForError r = (if r < 0
     then bindM (gets (\<lambda>s. error_string (m_connection s))) (\<lambda>err. throw (AmqpLibraryException err r))
     else ret ())"

text \<open>\<open>m_channels.at(channel) = v\<close>.\<close>

definition set_channel :: "nat \<Rightarrow> channel_state \<Rightarrow> unit M" where
  "set_channel channel v = bindM (gets m_channels) (\<lambda>cs.
     if channel < length cs then modify (\<lambda>s. s\<lparr>m_channels := (m_channels s)[channel := v]\<rparr>)
     else throw X_out_of_range)"

definition ReturnChannel :: "nat \<Rightarrow> unit M" where
  "ReturnChannel channel =
     thenM (set_channel channel CS_Open) (modify (\<lambda>s. s\<lparr>m_last_used_channel := channel\<rparr>))"

definition IsChannelOpen :: "nat \<Rightarrow> bool M" where
  "IsChannelOpen channel = bindM (gets m_channels) (\<lambda>cs.
     if channel < length cs then ret (cs ! channel \<noteq> CS_Closed) else throw X_out_of_range)"

definition FinishCloseChannel :: "nat \<Rightarrow> unit M" where
  "FinishCloseChannel channel =
     thenM (set_channel channel CS_Closed)
       (bindM (amqp_send_method channel O_channel_close_ok) CheckForError)"

definition FinishCloseConnection :: "unit M" where
  "FinishCloseConnection =
     thenM (SetIsConnected False)
       (bindM (amqp_send_method 0 O_connection_close_ok) (\<lambda>_. ret ()))"

definition throw_channel_close :: "close_args \<Rightarrow> 'a M" where
  "throw_channel_close c = bindM (gets (\<lambda>s. method_name (m_connection s))) (\<lambda>n. throw (Throw_channel_close n c))"

definition throw_connection_close :: "close_args \<Rightarrow> 'a M" where
  "throw_connection_close c =
     bindM (gets (\<lambda>s. method_name (m_connection s))) (\<lambda>n. throw (Throw_connection_close n c))"

definition CheckRpcReply :: "nat \<Rightarrow> rpc_reply \<Rightarrow> unit M" where
  "CheckRpcReply channel r = (case r of
     R_normal \<Rightarrow> ret ()
   | R_library_exception code \<Rightarrow>
       bindM (gets (\<lambda>s. error_string (m_connection s))) (\<lambda>err. throw (AmqpResponseLibraryException err code []))
   | R_server_exception m \<Rightarrow>
       thenM (if method_number m = AMQP_CHANNEL_CLOSE_METHOD then FinishCloseChannel channel
              else if method_number m = AMQP_CONNECTION_CLOSE_METHOD then FinishCloseConnection
              else ret ())
         (bindM (gets (\<lambda>s. method_name (m_connection s))) (\<lambda>n. throw (Throw_reply n r)))
   | R_none \<Rightarrow> bindM (gets (\<lambda>s. method_name (m_connection s))) (\<lambda>n. throw (Throw_reply n r)))"

text \<open>\<open>std::find\<close> on the channel states.\<close>

fun find_state :: "channel_state \<Rightarrow> channel_state list \<Rightarrow> nat option" where
  "find_state v [] = None"
| "find_state v (c # cs) = (if c = v then Some 0 else map_option Suc (find_state v cs))"

definition GetNextChannelId :: "nat M" where
  "GetNextChannelId = bindM (gets m_channels) (\<lambda>cs.
     case find_state CS_Closed cs of
       Some i \<Rightarrow> ret i
     | None \<Rightarrow> bindM (gets (\<lambda>s. channel_max (m_connection s))) (\<lambda>mc.
         if (if mc = 0 then 65535 else mc) < length cs
         then throw (X_runtime_error (ascii ''Too many channels open''))
         else thenM (modify (\<lambda>s. s\<lparr>m_channels := m_channels s @ [CS_Closed]\<rparr>)) (ret (length cs))))"

section \<open>Consumers\<close>

definition AddConsumer :: "bytes \<Rightarrow> nat \<Rightarrow> unit M" where
  "AddConsumer tag channel =
     modify (\<lambda>s. s\<lparr>m_consumer_channel_map := map_insert tag channel (m_consumer_channel_map s)\<rparr>)"

definition RemoveConsumer :: "bytes \<Rightarrow> nat M" where
  "RemoveConsumer tag = bindM (gets m_consumer_channel_map) (\<lambda>m.
     case map_of m tag of
       None \<Rightarrow> throw X_consumer_tag_not_found
     | Some channel \<Rightarrow>
         thenM (modify (\<lambda>s. s\<lparr>m_consumer_channel_map := filter (\<lambda>e. fst e \<noteq> tag) (m_consumer_channel_map s)\<rparr>))
           (ret channel))"

definition GetConsumerChannel :: "bytes \<Rightarrow> nat M" where
  "GetConsumerChannel tag = bindM (gets m_consumer_channel_map) (\<lambda>m.
     case map_of m tag of None \<Rightarrow> throw X_consumer_tag_not_found | Some channel \<Rightarrow> ret channel)"

definition GetAllConsumerChannels :: "nat list M" where
  "GetAllConsumerChannels = gets (\<lambda>s. map snd (m_consumer_channel_map s))"

section \<open>The frame queue\<close>

text \<open>\<open>std::find_if\<close> and \<open>erase\<close>: the first element with the property, and the list without it.\<close>

fun take_first :: "('a \<Rightarrow> bool) \<Rightarrow> 'a list \<Rightarrow> ('a \<times> 'a list) option" where
  "take_first P [] = None"
| "take_first P (x # xs) =
     (if P x then Some (x, xs) else map_option (\<lambda>(y, ys). (y, x # ys)) (take_first P xs))"

definition MaybeReleaseBuffersOnChannel :: "nat \<Rightarrow> unit M" where
  "MaybeReleaseBuffersOnChannel channel = bindM (gets m_frame_queue) (\<lambda>q.
     if list_ex (\<lambda>f. is_on_channel f channel) q then ret ()
     else amqp_maybe_release_buffers_on_channel channel)"

text \<open>The loop over the body frames of \<open>CheckForQueuedMessageOnChannel\<close>, on the frames of the
  channel after the header; \<open>uint64_t\<close> arithmetic wraps.\<close>

fun queued_body :: "64 word \<Rightarrow> 64 word \<Rightarrow> payload list \<Rightarrow> chan_exn + bool" where
  "queued_body body_length received ps =
     (if received < body_length
      then (case ps of
              [] \<Rightarrow> Inr False
            | P_body b # rest \<Rightarrow> queued_body body_length (received + of_nat (length b)) rest
            | _ # _ \<Rightarrow> Inl (X_runtime_error (ascii ''Protocol error'')))
      else Inr True)"

declare queued_body.simps [simp del]

definition payloads_on :: "nat \<Rightarrow> frame list \<Rightarrow> payload list" where
  "payloads_on channel q = map f_payload (filter (\<lambda>f. is_on_channel f channel) q)"

fun after_deliver :: "payload list \<Rightarrow> payload list option" where
  "after_deliver [] = None"
| "after_deliver (P_method m # ps) =
     (if method_number m = AMQP_BASIC_DELIVER_METHOD then Some ps else after_deliver ps)"
| "after_deliver (_ # ps) = after_deliver ps"

text \<open>The three searches of the source each look for the next frame of the channel, so they are
  written on the sequence of that channel's frames.\<close>

definition CheckForQueuedMessageOnChannel :: "nat \<Rightarrow> frame list \<Rightarrow> chan_exn + bool" where
  "CheckForQueuedMessageOnChannel channel q =
     (case after_deliver (payloads_on channel q) of
        None \<Rightarrow> Inr False
      | Some [] \<Rightarrow> Inr False
      | Some (P_header _ body_length # ps) \<Rightarrow> queued_body body_length 0 ps
      | Some (_ # _) \<Rightarrow> Inl (X_runtime_error (ascii ''Protocol error'')))"

text \<open>Microseconds to the \<open>timeval\<close> passed to the library; \<open>None\<close> is \<open>microseconds::max()\<close>.\<close>

definition GetNextFrameFromBroker :: "nat option \<Rightarrow> frame option M" where
  "GetNextFrameFromBroker timeout =
     bindM (amqp_simple_wait_frame_noblock (map_option (\<lambda>t. (t div 1000000, t mod 1000000)) timeout)) (\<lambda>w.
       case w of
         W_timeout \<Rightarrow> ret None
       | W_error r \<Rightarrow> thenM (CheckForError r) (throw X_uninitialised)
       | W_frame f \<Rightarrow> ret (Some f))"

section \<open>The frame loops\<close>

abbreviation deliver_or_cancel :: "32 word list" where
  "deliver_or_cancel \<equiv> [AMQP_BASIC_DELIVER_METHOD, AMQP_BASIC_CANCEL_METHOD]"

text \<open>The tail of both loops: \<open>true\<close> when the deadline has passed, and otherwise the time left.\<close>

definition deadline_check :: "nat option \<Rightarrow> (bool \<times> nat option) M" where
  "deadline_check end_point = (case end_point of
     None \<Rightarrow> ret (False, None)
   | Some e \<Rightarrow> bindM (gets (\<lambda>s. now (m_connection s))) (\<lambda>t.
       if e \<le> t then ret (True, None) else ret (False, Some (e - t))))"

definition end_point_of :: "nat option \<Rightarrow> nat option M" where
  "end_point_of timeout = (case timeout of
     None \<Rightarrow> ret None | Some t \<Rightarrow> gets (\<lambda>s. Some (now (m_connection s) + t)))"

text \<open>The close of a channel found by \<open>GetMethodOnChannel\<close>.\<close>

definition close_and_throw :: "nat \<Rightarrow> close_args \<Rightarrow> 'a M" where
  "close_and_throw channel c =
     thenM (FinishCloseChannel channel)
       (thenM (MaybeReleaseBuffersOnChannel channel) (throw_channel_close c))"

text \<open>A negative timeout (milliseconds) waits for ever.\<close>

definition real_timeout :: "int \<Rightarrow> nat option" where
  "real_timeout timeout = (if 0 \<le> timeout then Some (nat timeout * 1000) else None)"

definition push_frame :: "frame \<Rightarrow> unit M" where
  "push_frame f = modify (\<lambda>s. s\<lparr>m_frame_queue := m_frame_queue s @ [f]\<rparr>)"

definition set_queue :: "frame list \<Rightarrow> unit M" where
  "set_queue q = modify (\<lambda>s. s\<lparr>m_frame_queue := q\<rparr>)"

text \<open>The constructor of a received message copies the header table, which may throw.\<close>

definition Create_received :: "bytes \<Rightarrow> wire_props \<Rightarrow> content M" where
  "Create_received body props =
     (if bit (w_flags props) (flag_bit Headers)
      then bindM (gets (\<lambda>s. pool_avail (m_connection s))) (\<lambda>avail.
             case CopyTable avail (w_headers props) of
               Inl e \<Rightarrow> throw (X_table e)
             | Inr _ \<Rightarrow> ret \<lparr>c_props = props, c_body = body\<rparr>)
      else ret \<lparr>c_props = props, c_body = body\<rparr>)"

definition unexpected_header :: chan_exn where
  "unexpected_header = X_runtime_error (ascii ''Channel::BasicConsumeMessage: received unexpected frame type (was expected AMQP_FRAME_HEADER)'')"

definition unexpected_body :: chan_exn where
  "unexpected_body = X_runtime_error (ascii ''Channel::BasicConsumeMessage: received unexpected frame type (was expecting AMQP_FRAME_BODY)'')"

text \<open>The functions call each other (a frame for another channel may complete a message, which is
  then assembled on the spot).  Each body below is written over the functions it may call,
  \<open>calls\<close>, which \<open>engine\<close> ties together with one unit of fuel for each call.\<close>

record calls =
  c_broker_loop :: "nat list \<Rightarrow> nat option \<Rightarrow> nat option \<Rightarrow> frame option M"
  c_AddToFrameQueue :: "frame \<Rightarrow> unit M"
  c_ConsumeInner :: "nat list \<Rightarrow> int \<Rightarrow> envelope option M"
  c_GetMethod :: "nat list \<Rightarrow> 32 word list \<Rightarrow> nat option \<Rightarrow> frame option M"
  c_method_loop :: "nat list \<Rightarrow> 32 word list \<Rightarrow> nat option \<Rightarrow> nat option \<Rightarrow> frame option M"
  c_FromBroker :: "nat list \<Rightarrow> nat option \<Rightarrow> frame option M"
  c_NextFrame :: "nat \<Rightarrow> nat option \<Rightarrow> frame option M"
  c_ReadContent :: "nat \<Rightarrow> content M"
  c_read_body :: "nat \<Rightarrow> nat \<Rightarrow> bytes \<Rightarrow> bytes M"

definition broker_loop :: "calls \<Rightarrow> nat list \<Rightarrow> nat option \<Rightarrow> nat option \<Rightarrow> frame option M" where
  "broker_loop k channels end_point left =
     bindM (GetNextFrameFromBroker left) (\<lambda>r. case r of
       None \<Rightarrow> ret None
     | Some f \<Rightarrow>
         if f_channel f \<in> set channels then ret (Some f)
         else thenM
           (if f_channel f = 0
            then (case f_payload f of
                    P_method (M_connection_close c) \<Rightarrow>
                      thenM FinishCloseConnection (throw_connection_close c)
                  | _ \<Rightarrow> ret ())
            else c_AddToFrameQueue k f)
           (bindM (deadline_check end_point) (\<lambda>(over, left').
              if over then ret None else c_broker_loop k channels end_point left')))"

definition GetNextFrameFromBrokerOnChannel :: "calls \<Rightarrow> nat list \<Rightarrow> nat option \<Rightarrow> frame option M" where
  "GetNextFrameFromBrokerOnChannel k channels timeout =
     bindM (end_point_of timeout) (\<lambda>e. c_broker_loop k channels e timeout)"

definition AddToFrameQueue :: "calls \<Rightarrow> frame \<Rightarrow> unit M" where
  "AddToFrameQueue k f =
     thenM (push_frame f)
       (bindM (gets m_frame_queue) (\<lambda>q.
          case CheckForQueuedMessageOnChannel (f_channel f) q of
            Inl e \<Rightarrow> throw e
          | Inr b \<Rightarrow> if \<not> b then ret ()
              else bindM (c_ConsumeInner k [f_channel f] (-1)) (\<lambda>r. case r of
                None \<Rightarrow> throw (X_logic_error (ascii ''ConsumeMessageOnChannelInner returned false unexpectedly''))
              | Some envelope \<Rightarrow>
                  modify (\<lambda>s. s\<lparr>m_delivered_messages := m_delivered_messages s @ [envelope]\<rparr>))))"

definition ConsumeMessageOnChannelInner :: "calls \<Rightarrow> nat list \<Rightarrow> int \<Rightarrow> envelope option M" where
  "ConsumeMessageOnChannelInner k channels timeout =
     bindM (c_GetMethod k channels deliver_or_cancel (real_timeout timeout)) (\<lambda>r.
       case r of
         None \<Rightarrow> ret None
       | Some f \<Rightarrow> (case f_payload f of
           P_method (M_cancel tag) \<Rightarrow>
             thenM (bindM (RemoveConsumer tag) (\<lambda>_. ret ()))
               (thenM (ReturnChannel (f_channel f))
                 (thenM (MaybeReleaseBuffersOnChannel (f_channel f)) (throw (X_consumer_cancelled tag))))
         | P_method (M_deliver tag dtag redelivered exchange routing_key) \<Rightarrow>
             thenM (MaybeReleaseBuffersOnChannel (f_channel f))
               (bindM (c_ReadContent k (f_channel f)) (\<lambda>content.
                  thenM (MaybeReleaseBuffersOnChannel (f_channel f))
                    (ret (Some (Envelope content tag dtag exchange redelivered routing_key (f_channel f))))))
         | _ \<Rightarrow> throw X_uninitialised))"

definition GetMethodOnChannel :: "calls \<Rightarrow> nat list \<Rightarrow> 32 word list \<Rightarrow> nat option \<Rightarrow> frame option M" where
  "GetMethodOnChannel k channels expected timeout =
     bindM (gets m_frame_queue) (\<lambda>q.
       case take_first (\<lambda>f. is_expected_method_on_channel f channels expected) q of
         Some (f, q') \<Rightarrow> thenM (set_queue q') (ret (Some f))
       | None \<Rightarrow> bindM (end_point_of timeout) (\<lambda>e. c_method_loop k channels expected e timeout))"

definition method_loop ::
  "calls \<Rightarrow> nat list \<Rightarrow> 32 word list \<Rightarrow> nat option \<Rightarrow> nat option \<Rightarrow> frame option M" where
  "method_loop k channels expected end_point left =
     bindM (c_FromBroker k channels left) (\<lambda>r. case r of
       None \<Rightarrow> ret None
     | Some f \<Rightarrow>
         if is_expected_method_on_channel f channels expected then ret (Some f)
         else (case f_payload f of
           P_method (M_channel_close c) \<Rightarrow> close_and_throw (f_channel f) c
         | _ \<Rightarrow> thenM (push_frame f)
             (bindM (deadline_check end_point) (\<lambda>(over, left').
                if over then ret None else c_method_loop k channels expected end_point left'))))"

definition GetNextFrameOnChannel :: "calls \<Rightarrow> nat \<Rightarrow> nat option \<Rightarrow> frame option M" where
  "GetNextFrameOnChannel k channel timeout =
     bindM (gets m_frame_queue) (\<lambda>q.
       case take_first (\<lambda>f. is_on_channel f channel) q of
         Some (f, q') \<Rightarrow> thenM (set_queue q')
           (case f_payload f of
              P_method (M_channel_close c) \<Rightarrow> thenM (FinishCloseChannel channel) (throw_channel_close c)
            | _ \<Rightarrow> ret (Some f))
       | None \<Rightarrow> c_FromBroker k [channel] timeout)"

definition ReadContent :: "calls \<Rightarrow> nat \<Rightarrow> content M" where
  "ReadContent k channel =
     bindM (c_NextFrame k channel None) (\<lambda>r. case r of
       None \<Rightarrow> throw X_uninitialised
     | Some f \<Rightarrow> (case f_payload f of
         P_header props body_size \<Rightarrow>
           bindM (c_read_body k channel (unat body_size) []) (\<lambda>body. Create_received body props)
       | _ \<Rightarrow> throw unexpected_header))"

definition read_body :: "calls \<Rightarrow> nat \<Rightarrow> nat \<Rightarrow> bytes \<Rightarrow> bytes M" where
  "read_body k channel body_size received =
     (if length received < body_size
      then bindM (c_NextFrame k channel None) (\<lambda>r. case r of
        None \<Rightarrow> throw X_uninitialised
      | Some f \<Rightarrow> (case f_payload f of
          P_body fragment \<Rightarrow>
            if body_size < length received + length fragment then throw X_heap_overflow
            else c_read_body k channel body_size (received @ fragment)
        | _ \<Rightarrow> throw unexpected_body))
      else ret received)"

primrec engine :: "nat \<Rightarrow> calls" where
  "engine 0 = \<lparr>c_broker_loop = (\<lambda>_ _ _. throw X_out_of_fuel), c_AddToFrameQueue = (\<lambda>_. throw X_out_of_fuel),
     c_ConsumeInner = (\<lambda>_ _. throw X_out_of_fuel), c_GetMethod = (\<lambda>_ _ _. throw X_out_of_fuel),
     c_method_loop = (\<lambda>_ _ _ _. throw X_out_of_fuel), c_FromBroker = (\<lambda>_ _. throw X_out_of_fuel),
     c_NextFrame = (\<lambda>_ _. throw X_out_of_fuel), c_ReadContent = (\<lambda>_. throw X_out_of_fuel),
     c_read_body = (\<lambda>_ _ _. throw X_out_of_fuel)\<rparr>"
| "engine (Suc n) = (let k = engine n in
    \<lparr>c_broker_loop = broker_loop k, c_AddToFrameQueue = AddToFrameQueue k,
     c_ConsumeInner = ConsumeMessageOnChannelInner k, c_GetMethod = GetMethodOnChannel k,
     c_method_loop = method_loop k, c_FromBroker = GetNextFrameFromBrokerOnChannel k,
     c_NextFrame = GetNextFrameOnChannel k, c_ReadContent = ReadContent k,
     c_read_body = read_body k\<rparr>)"

section \<open>Fuel\<close>

text \<open>A frame still to arrive is worth eight calls, a queued frame one.\<close>

definition work :: "chan \<Rightarrow> nat" where
  "work s = 8 * length (inbox (m_connection s)) + length (m_frame_queue s)"

definition fueled :: "(calls \<Rightarrow> 'a M) \<Rightarrow> 'a M" where
  "fueled m s = m (engine (work s + 10)) s"

section \<open>Remote procedure calls and channel allocation\<close>

definition DoRpcOnChannel :: "nat \<Rightarrow> out_method \<Rightarrow> 32 word list \<Rightarrow> frame option M" where
  "DoRpcOnChannel channel m expected =
     thenM (bindM (amqp_send_method channel m) CheckForError)
       (fueled (\<lambda>k. GetMethodOnChannel k [channel] expected None))"

definition CreateNewChannel :: "nat M" where
  "CreateNewChannel = bindM GetNextChannelId (\<lambda>new_channel.
     thenM (bindM (DoRpcOnChannel new_channel O_channel_open [AMQP_CHANNEL_OPEN_OK_METHOD]) (\<lambda>_. ret ()))
       (thenM (bindM (DoRpcOnChannel new_channel O_confirm_select [AMQP_CONFIRM_SELECT_OK_METHOD]) (\<lambda>_. ret ()))
         (thenM (set_channel new_channel CS_Open) (ret new_channel))))"

definition GetChannel :: "nat M" where
  "GetChannel = bindM (gets (\<lambda>s. (m_channels s, m_last_used_channel s))) (\<lambda>(cs, last).
     if length cs \<le> last then throw X_out_of_range
     else if cs ! last = CS_Open
     then thenM (modify (\<lambda>s. s\<lparr>m_channels := (m_channels s)[last := CS_Used]\<rparr>)) (ret last)
     else (case find_state CS_Open cs of
             None \<Rightarrow> bindM CreateNewChannel (\<lambda>c. thenM (set_channel c CS_Used) (ret c))
           | Some i \<Rightarrow> thenM (modify (\<lambda>s. s\<lparr>m_channels := (m_channels s)[i := CS_Used]\<rparr>)) (ret i)))"

definition DoRpc :: "out_method \<Rightarrow> 32 word list \<Rightarrow> frame option M" where
  "DoRpc m expected = bindM GetChannel (\<lambda>channel.
     bindM (DoRpcOnChannel channel m expected) (\<lambda>r.
       thenM (ReturnChannel channel) (ret r)))"

definition CreateMessageReturnedException :: "16 word \<Rightarrow> bytes \<Rightarrow> bytes \<Rightarrow> bytes \<Rightarrow> nat \<Rightarrow> chan_exn M" where
  "CreateMessageReturnedException code text exchange routing_key channel =
     bindM (fueled (\<lambda>k. ReadContent k channel)) (\<lambda>content.
       ret (X_message_returned content (ucast code) text exchange routing_key))"

text \<open>\<open>CheckFrameForClose\<close>, which no caller uses.\<close>

definition CheckFrameForClose :: "frame \<Rightarrow> nat \<Rightarrow> unit M" where
  "CheckFrameForClose f channel = (case f_payload f of
     P_method (M_channel_close c) \<Rightarrow> thenM (FinishCloseChannel channel) (throw_channel_close c)
   | P_method (M_connection_close c) \<Rightarrow> thenM FinishCloseConnection (throw_connection_close c)
   | _ \<Rightarrow> ret ())"

definition ConsumeMessageOnChannel :: "nat list \<Rightarrow> int \<Rightarrow> envelope option M" where
  "ConsumeMessageOnChannel channels timeout = bindM (gets m_delivered_messages) (\<lambda>d.
     case take_first (\<lambda>e. m_deliveryChannel e \<in> set channels) d of
       Some (e, d') \<Rightarrow> thenM (modify (\<lambda>s. s\<lparr>m_delivered_messages := d'\<rparr>)) (ret (Some e))
     | None \<Rightarrow> fueled (\<lambda>k. ConsumeMessageOnChannelInner k channels timeout))"

section \<open>Login and the broker version\<close>

text \<open>\<open>boost::split\<close> at every dot, empty components included.\<close>

fun split_dots :: "bytes \<Rightarrow> bytes list" where
  "split_dots [] = [[]]"
| "split_dots (c # cs) = (if c = 46 then [] # split_dots cs
     else (case split_dots cs of [] \<Rightarrow> [[c]] | w # ws \<Rightarrow> (c # w) # ws))"

text \<open>\<open>boost::lexical_cast<uint32_t>\<close>: an optional sign, then digits, in range; a minus sign negates
  modulo \<open>2^32\<close>.\<close>

definition lexical_cast_u32 :: "bytes \<Rightarrow> nat option" where
  "lexical_cast_u32 cs =
     (let (neg, ds) = (case cs of c # t \<Rightarrow> if c = 45 then (True, t) else if c = 43 then (False, t) else (False, cs)
                                | [] \<Rightarrow> (False, cs))
      in case parse_dec ds of
           None \<Rightarrow> None
         | Some n \<Rightarrow> if 2 ^ 32 \<le> n then None else Some (if neg then (2 ^ 32 - n) mod 2 ^ 32 else n))"

fun field_bytes :: "afield \<Rightarrow> bytes option" where
  "field_bytes (F_UTF8 s) = Some s"
| "field_bytes (F_BYTES s) = Some s"
| "field_bytes _ = None"

text \<open>\<open>Inl\<close>: \<open>bad_lexical_cast\<close>, or the member of the union that was not set.\<close>

definition ComputeBrokerVersion :: "atable \<Rightarrow> chan_exn + 32 word" where
  "ComputeBrokerVersion properties = (case map_of properties (ascii ''version'') of
     None \<Rightarrow> Inr 0
   | Some f \<Rightarrow> (case field_bytes f of
       None \<Rightarrow> Inl X_uninitialised
     | Some s \<Rightarrow> (case split_dots s of
         [a, b, c] \<Rightarrow> (case (lexical_cast_u32 a, lexical_cast_u32 b, lexical_cast_u32 c) of
             (Some x, Some y, Some z) \<Rightarrow>
               Inr (push_bit 16 (of_nat x AND 0xFF) OR push_bit 8 (of_nat y AND 0xFF) OR (of_nat z AND 0xFF))
           | _ \<Rightarrow> Inl X_bad_lexical_cast)
       | _ \<Rightarrow> Inr 0)))"

definition BrokerHasNewQosBehavior :: "chan \<Rightarrow> bool" where
  "BrokerHasNewQosBehavior s \<longleftrightarrow> 0x030300 \<le> m_brokerVersion s"

text \<open>The login itself is the library's: \<open>reply\<close> is what it returns for the client properties.\<close>

definition client_properties :: atable where
  "client_properties = [(ascii ''capabilities'', F_TABLE [(ascii ''consumer_cancel_notify'', F_BOOLEAN 1)])]"

definition DoLogin :: "(bytes \<Rightarrow> bytes \<Rightarrow> bytes \<Rightarrow> int \<Rightarrow> atable \<Rightarrow> rpc_reply) \<Rightarrow> bytes \<Rightarrow> bytes \<Rightarrow> bytes \<Rightarrow> int \<Rightarrow> unit M" where
  "DoLogin login username password vhost frame_max =
     thenM (CheckRpcReply 0 (login (c_str vhost) (c_str username) (c_str password) frame_max client_properties))
       (bindM (gets (\<lambda>s. server_properties (m_connection s))) (\<lambda>props.
          case ComputeBrokerVersion props of
            Inl e \<Rightarrow> throw e
          | Inr v \<Rightarrow> modify (\<lambda>s. s\<lparr>m_brokerVersion := v\<rparr>)))"

end
