(* ===== verification/AmqpChannel.thy ===== *)
theory AmqpChannel
  imports AmqpChannelImpl
begin

text \<open>
  \<open>Channel.cpp\<close>: the public operations of the AMQP client, each over the state of
  \<open>AmqpChannelImpl\<close>.  C strings passed on are cut at their first NUL (\<open>c_str\<close>).  A default
  \<open>Table\<close> argument is the empty list.  Connecting uses the library's URL parser, sockets and
  login, which are parameters.
\<close>

section \<open>Connecting\<close>

record connection_info =
  ci_host :: bytes
  ci_port :: int
  ci_user :: bytes
  ci_password :: bytes
  ci_vhost :: bytes
  ci_ssl :: bool

text \<open>\<open>new_conn\<close>: \<open>amqp_new_connection\<close>; \<open>sock\<close>: opening a TCP socket to host and port;
  \<open>login\<close>: \<open>amqp_login_with_properties\<close>.  On any exception the connection is destroyed, so only the
  exception is left.\<close>

definition Channel_ctor ::
  "conn option \<Rightarrow> (bytes \<Rightarrow> int \<Rightarrow> int) \<Rightarrow> (bytes \<Rightarrow> bytes \<Rightarrow> bytes \<Rightarrow> int \<Rightarrow> atable \<Rightarrow> rpc_reply) \<Rightarrow>
   bytes \<Rightarrow> int \<Rightarrow> bytes \<Rightarrow> bytes \<Rightarrow> bytes \<Rightarrow> int \<Rightarrow> chan_exn + chan" where
  "Channel_ctor new_conn sock login host port username password vhost frame_max = (case new_conn of
     None \<Rightarrow> Inl (X_table Bad_alloc)
   | Some c \<Rightarrow>
       (case thenM (CheckForError (sock (c_str host) port))
               (thenM (DoLogin login username password vhost frame_max) (SetIsConnected True))
               (ChannelImpl c) of
          (Inl e, _) \<Rightarrow> Inl e
        | (Inr _, s) \<Rightarrow> Inr s))"

text \<open>\<open>parse\<close>: \<open>amqp_parse_url\<close> on the default connection info, \<open>None\<close> when it fails.\<close>

definition CreateFromUri ::
  "(bytes \<Rightarrow> connection_info option) \<Rightarrow> (bytes \<Rightarrow> int \<Rightarrow> bytes \<Rightarrow> bytes \<Rightarrow> bytes \<Rightarrow> int \<Rightarrow> chan_exn + chan) \<Rightarrow>
   bytes \<Rightarrow> int \<Rightarrow> chan_exn + chan" where
  "CreateFromUri parse create uri frame_max = (case parse (c_str uri) of
     None \<Rightarrow> Inl X_bad_uri
   | Some i \<Rightarrow> create (ci_host i) (ci_port i) (ci_user i) (ci_password i) (ci_vhost i) frame_max)"

definition CreateSecureFromUri ::
  "(bytes \<Rightarrow> connection_info option) \<Rightarrow>
   (bytes \<Rightarrow> bytes \<Rightarrow> bytes \<Rightarrow> bytes \<Rightarrow> int \<Rightarrow> bytes \<Rightarrow> bytes \<Rightarrow> bytes \<Rightarrow> int \<Rightarrow> bool \<Rightarrow> chan_exn + chan) \<Rightarrow>
   bytes \<Rightarrow> bytes \<Rightarrow> bytes \<Rightarrow> bytes \<Rightarrow> bool \<Rightarrow> int \<Rightarrow> chan_exn + chan" where
  "CreateSecureFromUri parse create uri ca_cert client_key client_cert verify_hostname frame_max =
     (case parse (c_str uri) of
        None \<Rightarrow> Inl X_bad_uri
      | Some i \<Rightarrow> if ci_ssl i
          then create ca_cert (ci_host i) client_key client_cert (ci_port i) (ci_user i) (ci_password i)
                 (ci_vhost i) frame_max verify_hostname
          else Inl (X_runtime_error (ascii ''CreateSecureFromUri only supports SSL-enabled URIs.'')))"

text \<open>The SSL constructor: \<open>cacert\<close>, \<open>key\<close> and \<open>sock\<close> are the library's set-up calls, and
  \<open>socket\<close> says whether the SSL socket could be made.  A status that is not 0 is an error.\<close>

definition Channel_ssl_ctor ::
  "conn option \<Rightarrow> bool \<Rightarrow> (bytes \<Rightarrow> int) \<Rightarrow> (bytes \<Rightarrow> bytes \<Rightarrow> int) \<Rightarrow> (bytes \<Rightarrow> int \<Rightarrow> int) \<Rightarrow>
   (bytes \<Rightarrow> bytes \<Rightarrow> bytes \<Rightarrow> int \<Rightarrow> atable \<Rightarrow> rpc_reply) \<Rightarrow>
   bytes \<Rightarrow> int \<Rightarrow> bytes \<Rightarrow> bytes \<Rightarrow> bytes \<Rightarrow> int \<Rightarrow> bytes \<Rightarrow> bytes \<Rightarrow> bytes \<Rightarrow> chan_exn + chan" where
  "Channel_ssl_ctor new_conn socket cacert key sock login host port username password vhost frame_max
      ca_cert client_key client_cert = (case new_conn of
     None \<Rightarrow> Inl (X_table Bad_alloc)
   | Some c \<Rightarrow> if \<not> socket then Inl (X_table Bad_alloc) else
      (let s1 = cacert (c_str ca_cert); s2 = key (c_str client_cert) (c_str client_key);
           s3 = sock (c_str host) port in
       if s1 \<noteq> 0
       then Inl (AmqpLibraryException_context (error_string c) s1 (ascii ''Error setting CA certificate for socket''))
       else if client_key \<noteq> [] \<and> client_cert \<noteq> [] \<and> s2 \<noteq> 0
       then Inl (AmqpLibraryException_context (error_string c) s2 (ascii ''Error setting client certificate for socket''))
       else if s3 \<noteq> 0
       then Inl (AmqpLibraryException_context (error_string c) s3 (ascii ''Error setting client certificate for socket''))
       else (case thenM (DoLogin login username password vhost frame_max) (SetIsConnected True) (ChannelImpl c) of
               (Inl e, _) \<Rightarrow> Inl e
             | (Inr _, s) \<Rightarrow> Inr s)))"

section \<open>Exchanges and queues\<close>

definition with_table :: "table \<Rightarrow> (atable \<Rightarrow> 'a M) \<Rightarrow> 'a M" where
  "with_table arguments k = bindM (gets (\<lambda>s. pool_avail (m_connection s))) (\<lambda>avail.
     case CreateAmqpTable avail arguments of Inl e \<Rightarrow> throw (X_table e) | Inr (u, _) \<Rightarrow> k u)"

text \<open>An \<open>amqp_frame_t\<close> that no call filled in is read: uninitialised.\<close>

definition some_frame :: "frame option \<Rightarrow> frame M" where
  "some_frame r = (case r of None \<Rightarrow> throw X_uninitialised | Some f \<Rightarrow> ret f)"

definition rpc_and_release :: "out_method \<Rightarrow> 32 word \<Rightarrow> unit M" where
  "rpc_and_release m ok = bindM (DoRpc m [ok]) (\<lambda>r. bindM (some_frame r) (\<lambda>f.
     MaybeReleaseBuffersOnChannel (f_channel f)))"

definition DeclareExchange :: "bytes \<Rightarrow> bytes \<Rightarrow> bool \<Rightarrow> bool \<Rightarrow> bool \<Rightarrow> table \<Rightarrow> unit M" where
  "DeclareExchange exchange_name exchange_type passive durable auto_delete arguments =
     thenM CheckIsConnected (with_table arguments (\<lambda>u.
       rpc_and_release (O_exchange_declare (c_str exchange_name) (c_str exchange_type) passive durable
           auto_delete False False u) AMQP_EXCHANGE_DECLARE_OK_METHOD))"

definition DeleteExchange :: "bytes \<Rightarrow> bool \<Rightarrow> unit M" where
  "DeleteExchange exchange_name if_unused =
     thenM CheckIsConnected
       (rpc_and_release (O_exchange_delete (c_str exchange_name) if_unused False) AMQP_EXCHANGE_DELETE_OK_METHOD)"

definition BindExchange :: "bytes \<Rightarrow> bytes \<Rightarrow> bytes \<Rightarrow> table \<Rightarrow> unit M" where
  "BindExchange destination source routing_key arguments =
     thenM CheckIsConnected (with_table arguments (\<lambda>u.
       rpc_and_release (O_exchange_bind (c_str destination) (c_str source) (c_str routing_key) False u)
         AMQP_EXCHANGE_BIND_OK_METHOD))"

definition UnbindExchange :: "bytes \<Rightarrow> bytes \<Rightarrow> bytes \<Rightarrow> table \<Rightarrow> unit M" where
  "UnbindExchange destination source routing_key arguments =
     thenM CheckIsConnected (with_table arguments (\<lambda>u.
       rpc_and_release (O_exchange_unbind (c_str destination) (c_str source) (c_str routing_key) False u)
         AMQP_EXCHANGE_UNBIND_OK_METHOD))"

text \<open>The result is the queue's name with its message and consumer counts.\<close>

definition DeclareQueueWithCounts ::
  "bytes \<Rightarrow> bool \<Rightarrow> bool \<Rightarrow> bool \<Rightarrow> bool \<Rightarrow> table \<Rightarrow> (bytes \<times> 32 word \<times> 32 word) M" where
  "DeclareQueueWithCounts queue_name passive durable exclusive auto_delete arguments =
     thenM CheckIsConnected (with_table arguments (\<lambda>u.
       bindM (DoRpc (O_queue_declare (c_str queue_name) passive durable exclusive auto_delete False u)
                [AMQP_QUEUE_DECLARE_OK_METHOD]) (\<lambda>r.
         bindM (some_frame r) (\<lambda>f. case f_payload f of
           P_method (M_declare_ok name messages consumers) \<Rightarrow>
             thenM (MaybeReleaseBuffersOnChannel (f_channel f)) (ret (name, messages, consumers))
         | _ \<Rightarrow> throw X_uninitialised))))"

definition DeclareQueue :: "bytes \<Rightarrow> bool \<Rightarrow> bool \<Rightarrow> bool \<Rightarrow> bool \<Rightarrow> table \<Rightarrow> bytes M" where
  "DeclareQueue queue_name passive durable exclusive auto_delete arguments =
     bindM (DeclareQueueWithCounts queue_name passive durable exclusive auto_delete arguments)
       (\<lambda>(name, messages, consumers). ret name)"

definition DeleteQueue :: "bytes \<Rightarrow> bool \<Rightarrow> bool \<Rightarrow> unit M" where
  "DeleteQueue queue_name if_unused if_empty =
     thenM CheckIsConnected
       (rpc_and_release (O_queue_delete (c_str queue_name) if_unused if_empty False) AMQP_QUEUE_DELETE_OK_METHOD)"

definition BindQueue :: "bytes \<Rightarrow> bytes \<Rightarrow> bytes \<Rightarrow> table \<Rightarrow> unit M" where
  "BindQueue queue_name exchange_name routing_key arguments =
     thenM CheckIsConnected (with_table arguments (\<lambda>u.
       rpc_and_release (O_queue_bind (c_str queue_name) (c_str exchange_name) (c_str routing_key) False u)
         AMQP_QUEUE_BIND_OK_METHOD))"

definition UnbindQueue :: "bytes \<Rightarrow> bytes \<Rightarrow> bytes \<Rightarrow> table \<Rightarrow> unit M" where
  "UnbindQueue queue_name exchange_name routing_key arguments =
     thenM CheckIsConnected (with_table arguments (\<lambda>u.
       rpc_and_release (O_queue_unbind (c_str queue_name) (c_str exchange_name) (c_str routing_key) u)
         AMQP_QUEUE_UNBIND_OK_METHOD))"

definition PurgeQueue :: "bytes \<Rightarrow> unit M" where
  "PurgeQueue queue_name =
     thenM CheckIsConnected
       (rpc_and_release (O_queue_purge (c_str queue_name) False) AMQP_QUEUE_PURGE_OK_METHOD)"

section \<open>Acknowledging\<close>

definition closed_delivery_channel :: chan_exn where
  "closed_delivery_channel = X_runtime_error (ascii ''The channel that the message was delivered on has been closed'')"

definition on_delivery_channel :: "DeliveryInfo \<Rightarrow> out_method \<Rightarrow> unit M" where
  "on_delivery_channel info m =
     thenM CheckIsConnected
       (bindM (IsChannelOpen (delivery_channel info)) (\<lambda>is_open.
          if \<not> is_open then throw closed_delivery_channel
          else bindM (amqp_send_method (delivery_channel info) m) CheckForError))"

definition BasicAck :: "DeliveryInfo \<Rightarrow> bool \<Rightarrow> unit M" where
  "BasicAck info multiple = on_delivery_channel info (O_ack (delivery_tag info) multiple)"

definition BasicReject :: "DeliveryInfo \<Rightarrow> bool \<Rightarrow> bool \<Rightarrow> unit M" where
  "BasicReject info requeue multiple = on_delivery_channel info (O_nack (delivery_tag info) multiple requeue)"

section \<open>Publishing and getting\<close>

definition BasicPublish :: "bytes \<Rightarrow> bytes \<Rightarrow> content \<Rightarrow> bool \<Rightarrow> bool \<Rightarrow> unit M" where
  "BasicPublish exchange_name routing_key message mandatory immediate =
     thenM CheckIsConnected
       (bindM GetChannel (\<lambda>channel.
          thenM (bindM (amqp_send_method channel
                   (O_publish (c_str exchange_name) (c_str routing_key) mandatory immediate message)) CheckForError)
           (bindM (fueled (\<lambda>k. GetMethodOnChannel k [channel]
                      [AMQP_BASIC_ACK_METHOD, AMQP_BASIC_RETURN_METHOD] None)) (\<lambda>r.
            bindM (some_frame r) (\<lambda>f. case f_payload f of
              P_method (M_return code text exchange key) \<Rightarrow>
                bindM (CreateMessageReturnedException code text exchange key channel) (\<lambda>message_returned.
                  thenM (bindM (fueled (\<lambda>k. GetMethodOnChannel k [channel] [AMQP_BASIC_ACK_METHOD] None)) (\<lambda>_. ret ()))
                    (thenM (ReturnChannel channel)
                      (thenM (MaybeReleaseBuffersOnChannel channel) (throw message_returned))))
            | _ \<Rightarrow> thenM (ReturnChannel channel) (MaybeReleaseBuffersOnChannel channel))))))"

text \<open>\<open>None\<close> is \<open>false\<close>: the queue is empty.\<close>

definition BasicGet :: "bytes \<Rightarrow> bool \<Rightarrow> envelope option M" where
  "BasicGet queue no_ack =
     thenM CheckIsConnected
       (bindM GetChannel (\<lambda>channel.
          bindM (DoRpcOnChannel channel (O_get (c_str queue) no_ack)
                   [AMQP_BASIC_GET_OK_METHOD, AMQP_BASIC_GET_EMPTY_METHOD]) (\<lambda>r.
          bindM (some_frame r) (\<lambda>f. case f_payload f of
            P_method (M_get_ok dtag redelivered exchange routing_key) \<Rightarrow>
              bindM (fueled (\<lambda>k. ReadContent k channel)) (\<lambda>message.
                thenM (ReturnChannel channel)
                  (thenM (MaybeReleaseBuffersOnChannel channel)
                    (ret (Some (Envelope message [] dtag exchange redelivered routing_key channel)))))
          | P_method (M_other x) \<Rightarrow>
              if x = AMQP_BASIC_GET_EMPTY_METHOD
              then thenM (ReturnChannel channel) (thenM (MaybeReleaseBuffersOnChannel channel) (ret None))
              else throw X_uninitialised
          | _ \<Rightarrow> throw X_uninitialised))))"

section \<open>Consuming\<close>

definition BasicRecover :: "bytes \<Rightarrow> unit M" where
  "BasicRecover consumer =
     thenM CheckIsConnected
       (bindM (GetConsumerChannel consumer) (\<lambda>channel.
          thenM (bindM (DoRpcOnChannel channel (O_recover True) [AMQP_BASIC_RECOVER_OK_METHOD]) (\<lambda>_. ret ()))
            (MaybeReleaseBuffersOnChannel channel)))"

definition send_qos :: "nat \<Rightarrow> 16 word \<Rightarrow> unit M" where
  "send_qos channel prefetch = bindM (gets BrokerHasNewQosBehavior) (\<lambda>g.
     thenM (bindM (DoRpcOnChannel channel (O_qos 0 prefetch g) [AMQP_BASIC_QOS_OK_METHOD]) (\<lambda>_. ret ()))
       (MaybeReleaseBuffersOnChannel channel))"

definition BasicConsume ::
  "bytes \<Rightarrow> bytes \<Rightarrow> bool \<Rightarrow> bool \<Rightarrow> bool \<Rightarrow> 16 word \<Rightarrow> table \<Rightarrow> bytes M" where
  "BasicConsume queue consumer_tag no_local no_ack exclusive message_prefetch_count arguments =
     thenM CheckIsConnected
       (bindM GetChannel (\<lambda>channel.
          thenM (send_qos channel message_prefetch_count)
            (with_table arguments (\<lambda>u.
               bindM (DoRpcOnChannel channel (O_consume (c_str queue) (c_str consumer_tag) no_local no_ack
                        exclusive False u) [AMQP_BASIC_CONSUME_OK_METHOD]) (\<lambda>r.
               bindM (some_frame r) (\<lambda>f. case f_payload f of
                 P_method (M_consume_ok tag) \<Rightarrow>
                   thenM (MaybeReleaseBuffersOnChannel channel)
                     (thenM (AddConsumer tag channel) (ret tag))
               | _ \<Rightarrow> throw X_uninitialised))))))"

definition BasicQos :: "bytes \<Rightarrow> 16 word \<Rightarrow> unit M" where
  "BasicQos consumer_tag message_prefetch_count =
     thenM CheckIsConnected
       (bindM (GetConsumerChannel consumer_tag) (\<lambda>channel. send_qos channel message_prefetch_count))"

definition BasicCancel :: "bytes \<Rightarrow> unit M" where
  "BasicCancel consumer_tag =
     thenM CheckIsConnected
       (bindM (GetConsumerChannel consumer_tag) (\<lambda>channel.
          thenM (bindM (DoRpcOnChannel channel (O_cancel (c_str consumer_tag) False)
                   [AMQP_BASIC_CANCEL_OK_METHOD]) (\<lambda>_. ret ()))
            (thenM (bindM (RemoveConsumer consumer_tag) (\<lambda>_. ret ()))
              (thenM (ReturnChannel channel) (MaybeReleaseBuffersOnChannel channel)))))"

text \<open>The three overloads: one consumer, a list of consumers, every consumer.\<close>

definition BasicConsumeMessage :: "bytes \<Rightarrow> int \<Rightarrow> envelope option M" where
  "BasicConsumeMessage consumer_tag timeout =
     thenM CheckIsConnected
       (bindM (GetConsumerChannel consumer_tag) (\<lambda>channel. ConsumeMessageOnChannel [channel] timeout))"

primrec consumer_channels :: "bytes list \<Rightarrow> nat list M" where
  "consumer_channels [] = ret []"
| "consumer_channels (t # ts) = bindM (GetConsumerChannel t) (\<lambda>c.
     bindM (consumer_channels ts) (\<lambda>cs. ret (c # cs)))"

definition BasicConsumeMessage_tags :: "bytes list \<Rightarrow> int \<Rightarrow> envelope option M" where
  "BasicConsumeMessage_tags consumer_tags timeout =
     thenM CheckIsConnected
       (bindM (consumer_channels consumer_tags) (\<lambda>channels. ConsumeMessageOnChannel channels timeout))"

definition BasicConsumeMessage_all :: "int \<Rightarrow> envelope option M" where
  "BasicConsumeMessage_all timeout =
     thenM CheckIsConnected
       (bindM GetAllConsumerChannels (\<lambda>channels.
          if channels = [] then throw X_consumer_tag_not_found
          else ConsumeMessageOnChannel channels timeout))"

end
