(* ===== verification/AmqpChannelProps.thy ===== *)
theory AmqpChannelProps
  imports AmqpChannel
begin

text \<open>
  Invariants of the AMQP channel multiplexer: a logic of preservation (\<open>pres\<close>), the interface
  \<open>loop_invariant\<close> of the predicates the frame loops keep, and its two instances, the
  well-formedness of the channel pool and a bound on the channels in use.
\<close>

section \<open>Invariants through the monad\<close>

text \<open>\<open>pres I m Q\<close>: however \<open>m\<close> ends it leaves a state in \<open>I\<close>, and a result satisfies \<open>Q\<close>.\<close>

definition pres :: "(chan \<Rightarrow> bool) \<Rightarrow> 'a M \<Rightarrow> ('a \<Rightarrow> bool) \<Rightarrow> bool" where
  "pres I m Q \<longleftrightarrow> (\<forall>s. I s \<longrightarrow> (case m s of (r, s') \<Rightarrow> I s' \<and> (\<forall>x. r = Inr x \<longrightarrow> Q x)))"

abbreviation any :: "'a \<Rightarrow> bool" where "any \<equiv> (\<lambda>_. True)"

lemma pres_bind: "pres I m Q \<Longrightarrow> (\<And>x. Q x \<Longrightarrow> pres I (f x) R) \<Longrightarrow> pres I (bindM m f) R"
  by (fastforce simp: pres_def bindM_def split: sum.split prod.split)

lemma pres_bind_any: "pres I m any \<Longrightarrow> (\<And>x. pres I (f x) R) \<Longrightarrow> pres I (bindM m f) R"
  by (rule pres_bind)

lemma pres_simple: "Q x \<Longrightarrow> pres I (ret x) Q" "pres I (throw e) Q" "pres I (gets g) any"
  by (simp_all add: pres_def ret_def throw_def gets_def)

lemma pres_if: "(b \<Longrightarrow> pres I m Q) \<Longrightarrow> (\<not> b \<Longrightarrow> pres I n Q) \<Longrightarrow> pres I (if b then m else n) Q"
  by simp

lemma pres_weaken: "pres I m Q \<Longrightarrow> (\<And>x. Q x \<Longrightarrow> R x) \<Longrightarrow> pres I m R"
  by (auto simp: pres_def split: prod.splits)

lemma pres_any: "pres I m Q \<Longrightarrow> pres I m any"
  by (erule pres_weaken) simp

lemma pres_modify: "(\<And>s. I s \<Longrightarrow> I (f s)) \<Longrightarrow> pres I (modify f) any"
  by (simp add: pres_def modify_def)

lemma pres_fueled: "(\<And>n. pres I (m (engine n)) Q) \<Longrightarrow> pres I (fueled m) Q"
  by (simp add: pres_def fueled_def)

lemmas pres_rules = pres_bind_any pres_simple pres_if

text \<open>What the frame loops ask of an invariant: of the connection it may read the largest
  channel number only; it does not depend on the frame queue or the delivered messages, and it survives closing and returning a channel other than 0,
  removing a consumer, and disconnecting.\<close>

locale loop_invariant =
  fixes I :: "chan \<Rightarrow> bool"
  assumes conn: "I s \<Longrightarrow> channel_max cn = channel_max (m_connection s) \<Longrightarrow> I (s\<lparr>m_connection := cn\<rparr>)"
    and queue: "I s \<Longrightarrow> I (s\<lparr>m_frame_queue := q\<rparr>)"
    and delivered: "I s \<Longrightarrow> I (s\<lparr>m_delivered_messages := d\<rparr>)"
    and disconnected: "I s \<Longrightarrow> I (s\<lparr>m_is_connected := False\<rparr>)"
    and consumers: "I s \<Longrightarrow> I (s\<lparr>m_consumer_channel_map := filter P (m_consumer_channel_map s)\<rparr>)"
    and close: "I s \<Longrightarrow> c \<noteq> 0 \<Longrightarrow> c < length (m_channels s) \<Longrightarrow> I (s\<lparr>m_channels := (m_channels s)[c := CS_Closed]\<rparr>)"
    and give_back: "I s \<Longrightarrow> c \<noteq> 0 \<Longrightarrow> c < length (m_channels s) \<Longrightarrow>
      I (s\<lparr>m_channels := (m_channels s)[c := CS_Open], m_last_used_channel := c\<rparr>)"
begin

lemma pres_send: "pres I (amqp_send_method channel m) any"
  by (simp add: pres_def amqp_send_method_def Let_def conn)

lemma pres_release: "pres I (amqp_maybe_release_buffers_on_channel channel) any"
  unfolding amqp_maybe_release_buffers_on_channel_def by (rule pres_modify) (simp add: conn)

lemma pres_wait: "pres I (amqp_simple_wait_frame_noblock tv) any"
  by (simp add: pres_def amqp_simple_wait_frame_noblock_def Let_def conn split: list.split prod.split)

lemma pres_check: "pres I (CheckForError r) any"
  unfolding CheckForError_def by (intro pres_rules TrueI)

lemma pres_close: "channel \<noteq> 0 \<Longrightarrow> pres I (FinishCloseChannel channel) any"
  using close [of _ channel] conn
  by (simp add: pres_def FinishCloseChannel_def set_channel_def bindM_def gets_def modify_def throw_def
      amqp_send_method_def CheckForError_def ret_def Let_def)

lemma pres_close_connection: "pres I FinishCloseConnection any"
  unfolding FinishCloseConnection_def SetIsConnected_def
  by (intro pres_bind_any pres_send pres_modify disconnected pres_simple(1) TrueI)

lemma pres_return: "channel \<noteq> 0 \<Longrightarrow> pres I (ReturnChannel channel) any"
  using give_back [of _ channel]
  by (simp add: pres_def ReturnChannel_def set_channel_def bindM_def gets_def modify_def throw_def)

lemma pres_throws: "pres I (throw_channel_close c) Q" "pres I (throw_connection_close c) Q"
  by (simp_all add: pres_def throw_channel_close_def throw_connection_close_def bindM_def gets_def throw_def)

lemma pres_maybe_release: "pres I (MaybeReleaseBuffersOnChannel channel) any"
  unfolding MaybeReleaseBuffersOnChannel_def by (intro pres_rules TrueI pres_release)

lemma pres_remove: "pres I (RemoveConsumer tag) any"
  using consumers
  by (simp add: pres_def RemoveConsumer_def bindM_def gets_def throw_def modify_def ret_def split: option.split)

lemma pres_queue: "pres I (push_frame f) any" "pres I (set_queue q) any"
  unfolding push_frame_def set_queue_def by (intro pres_modify queue, assumption)+

lemma pres_deadline: "pres I (deadline_check e) any" "pres I (end_point_of t) any"
  by (simp_all add: pres_def deadline_check_def end_point_of_def bindM_def gets_def ret_def split: option.split)

lemma pres_from_broker: "pres I (GetNextFrameFromBroker t) any"
  unfolding GetNextFrameFromBroker_def
proof (rule pres_bind [OF pres_wait])
  fix w
  show "pres I (case w of W_timeout \<Rightarrow> ret None | W_error r \<Rightarrow> thenM (CheckForError r) (throw X_uninitialised)
     | W_frame f \<Rightarrow> ret (Some f)) any"
    by (cases w) (auto intro: pres_rules pres_bind [OF pres_check])
qed

lemma pres_close_and_throw: "channel \<noteq> 0 \<Longrightarrow> pres I (close_and_throw channel c) Q"
  unfolding close_and_throw_def
  by (rule pres_bind [OF pres_close], assumption) (rule pres_bind [OF pres_maybe_release], rule pres_throws)

lemma pres_create: "pres I (Create_received body props) any"
  by (simp add: pres_def Create_received_def bindM_def gets_def ret_def throw_def split: sum.split)

text \<open>The mutually recursive loops, for channels other than 0; a frame they return is on one of
  the channels asked for.\<close>

definition on :: "nat list \<Rightarrow> frame option \<Rightarrow> bool" where
  "on channels r \<longleftrightarrow> (\<forall>f. r = Some f \<longrightarrow> f_channel f \<in> set channels)"

lemma on_simps [simp]: "on cs None" "on cs (Some f) \<longleftrightarrow> f_channel f \<in> set cs"
  by (auto simp: on_def)

definition engine_ok :: "calls \<Rightarrow> bool" where
  "engine_ok k \<longleftrightarrow>
     (\<forall>cs e t. 0 \<notin> set cs \<longrightarrow> pres I (c_broker_loop k cs e t) (on cs)) \<and>
     (\<forall>f. f_channel f \<noteq> 0 \<longrightarrow> pres I (c_AddToFrameQueue k f) any) \<and>
     (\<forall>cs t. 0 \<notin> set cs \<longrightarrow> pres I (c_ConsumeInner k cs t) any) \<and>
     (\<forall>cs x t. 0 \<notin> set cs \<longrightarrow> pres I (c_GetMethod k cs x t) (on cs)) \<and>
     (\<forall>cs x e t. 0 \<notin> set cs \<longrightarrow> pres I (c_method_loop k cs x e t) (on cs)) \<and>
     (\<forall>cs t. 0 \<notin> set cs \<longrightarrow> pres I (c_FromBroker k cs t) (on cs)) \<and>
     (\<forall>c t. c \<noteq> 0 \<longrightarrow> pres I (c_NextFrame k c t) any) \<and>
     (\<forall>c. c \<noteq> 0 \<longrightarrow> pres I (c_ReadContent k c) any) \<and>
     (\<forall>c b r. c \<noteq> 0 \<longrightarrow> pres I (c_read_body k c b r) any)"

lemma broker_loop_pres:
  assumes k: "engine_ok k" and cs: "0 \<notin> set cs"
  shows "pres I (broker_loop k cs e t) (on cs)"
  unfolding broker_loop_def
proof (rule pres_bind [OF pres_from_broker])
  fix r :: "frame option"
  show "pres I (case r of None \<Rightarrow> ret None | Some f \<Rightarrow>
         if f_channel f \<in> set cs then ret (Some f)
         else thenM (if f_channel f = 0 then (case f_payload f of
                    P_method (M_connection_close c) \<Rightarrow> thenM FinishCloseConnection (throw_connection_close c)
                  | _ \<Rightarrow> ret ()) else c_AddToFrameQueue k f)
           (bindM (deadline_check e) (\<lambda>(over, left'). if over then ret None else c_broker_loop k cs e left'))) (on cs)"
  proof (cases r)
    case None then show ?thesis by (simp add: pres_simple)
  next
    case (Some f)
    have loop: "pres I (bindM (deadline_check e) (\<lambda>(over, left'). if over then ret None else c_broker_loop k cs e left')) (on cs)"
      using k cs by (intro pres_bind [OF pres_deadline(1)]) (auto simp: engine_ok_def pres_simple split: prod.split)
    have closing: "pres I (case f_payload f of P_method (M_connection_close c) \<Rightarrow>
        thenM FinishCloseConnection (throw_connection_close c) | _ \<Rightarrow> ret ()) any"
      by (auto split: payload.split in_method.split
               intro!: pres_simple pres_bind [OF pres_close_connection] pres_throws)
    have "pres I (if f_channel f = 0 then (case f_payload f of P_method (M_connection_close c) \<Rightarrow>
        thenM FinishCloseConnection (throw_connection_close c) | _ \<Rightarrow> ret ()) else c_AddToFrameQueue k f) any"
      using k closing by (simp add: engine_ok_def)
    from pres_bind [OF this loop] Some show ?thesis by (simp add: pres_simple)
  qed
qed

lemma AddToFrameQueue_pres:
  assumes k: "engine_ok k" and f: "f_channel f \<noteq> 0"
  shows "pres I (AddToFrameQueue k f) any"
  unfolding AddToFrameQueue_def
  using k f
  by (intro pres_bind [OF pres_queue(1)] pres_bind [OF pres_simple(3)])
     (auto simp: engine_ok_def intro!: pres_simple pres_bind_any pres_modify delivered split: sum.split option.split)

lemma ConsumeInner_pres:
  assumes k: "engine_ok k" and cs: "0 \<notin> set cs"
  shows "pres I (ConsumeMessageOnChannelInner k cs t) any"
  unfolding ConsumeMessageOnChannelInner_def
proof (rule pres_bind)
  show "pres I (c_GetMethod k cs deliver_or_cancel (real_timeout t)) (on cs)"
    using k cs by (simp add: engine_ok_def)
  fix r assume r: "on cs r"
  show "pres I (case r of None \<Rightarrow> ret None
       | Some f \<Rightarrow> (case f_payload f of
           P_method (M_cancel tag) \<Rightarrow>
             thenM (bindM (RemoveConsumer tag) (\<lambda>_. ret ()))
               (thenM (ReturnChannel (f_channel f))
                 (thenM (MaybeReleaseBuffersOnChannel (f_channel f)) (throw (X_consumer_cancelled tag))))
         | P_method (M_deliver tag dtag redelivered exchange routing_key) \<Rightarrow>
             thenM (MaybeReleaseBuffersOnChannel (f_channel f))
               (bindM (c_ReadContent k (f_channel f)) (\<lambda>content.
                  thenM (MaybeReleaseBuffersOnChannel (f_channel f))
                    (ret (Some (Envelope content tag dtag exchange redelivered routing_key (f_channel f))))))
         | _ \<Rightarrow> throw X_uninitialised)) any"
  proof (cases r)
    case None then show ?thesis by (simp add: pres_simple)
  next
    case (Some f)
    then have f: "f_channel f \<noteq> 0" using r cs by (metis on_simps(2))
    then have "pres I (c_ReadContent k (f_channel f)) any" using k by (simp add: engine_ok_def)
    then show ?thesis
      unfolding Some option.case
      by (auto split: payload.split in_method.split
        intro!: pres_simple pres_bind [OF pres_maybe_release] pres_bind [OF pres_return [OF f]]
          pres_bind [OF pres_remove] pres_bind_any)
  qed
qed

lemma take_first_sat: "take_first P xs = Some (x, ys) \<Longrightarrow> P x"
  by (induction xs arbitrary: ys) (auto split: if_splits)

lemma GetMethod_pres:
  assumes k: "engine_ok k" and cs: "0 \<notin> set cs"
  shows "pres I (GetMethodOnChannel k cs x t) (on cs)"
  unfolding GetMethodOnChannel_def
proof (rule pres_bind [OF pres_simple(3)])
  fix q
  show "pres I (case take_first (\<lambda>f. is_expected_method_on_channel f cs x) q of
         Some (f, q') \<Rightarrow> thenM (set_queue q') (ret (Some f))
       | None \<Rightarrow> bindM (end_point_of t) (\<lambda>e. c_method_loop k cs x e t)) (on cs)"
  proof (cases "take_first (\<lambda>f. is_expected_method_on_channel f cs x) q")
    case None
    with k cs show ?thesis by (auto simp: engine_ok_def intro: pres_bind [OF pres_deadline(2)])
  next
    case (Some p)
    then obtain f q' where p: "p = (f, q')" "is_expected_method_on_channel f cs x"
      by (cases p) (auto dest: take_first_sat)
    then have "on cs (Some f)" by (simp add: is_expected_method_on_channel_def)
    with Some p(1) show ?thesis by (auto intro!: pres_bind [OF pres_queue(2)] pres_simple(1))
  qed
qed

lemma method_loop_pres:
  assumes k: "engine_ok k" and cs: "0 \<notin> set cs"
  shows "pres I (method_loop k cs x e t) (on cs)"
  unfolding method_loop_def
proof (rule pres_bind)
  show "pres I (c_FromBroker k cs t) (on cs)" using k cs by (simp add: engine_ok_def)
  fix r assume r: "on cs r"
  have loop: "pres I (bindM (deadline_check e) (\<lambda>(over, left'). if over then ret None else c_method_loop k cs x e left')) (on cs)"
    using k cs by (intro pres_bind [OF pres_deadline(1)]) (auto simp: engine_ok_def pres_simple split: prod.split)
  show "pres I (case r of None \<Rightarrow> ret None
     | Some f \<Rightarrow> if is_expected_method_on_channel f cs x then ret (Some f)
         else (case f_payload f of P_method (M_channel_close c) \<Rightarrow> close_and_throw (f_channel f) c
         | _ \<Rightarrow> thenM (push_frame f)
             (bindM (deadline_check e) (\<lambda>(over, left'). if over then ret None else c_method_loop k cs x e left')))) (on cs)"
  proof (cases r)
    case None then show ?thesis by (simp add: pres_simple)
  next
    case (Some f)
    then have "f_channel f \<in> set cs" using r by simp
    then have f: "f_channel f \<noteq> 0" "f_channel f \<in> set cs" using cs by metis+
    then show ?thesis
      unfolding Some option.case
      by (auto split: payload.split in_method.split
          intro!: pres_simple pres_if pres_close_and_throw pres_bind [OF pres_queue(1) loop])
  qed
qed

lemma FromBroker_pres:
  assumes k: "engine_ok k" and cs: "0 \<notin> set cs"
  shows "pres I (GetNextFrameFromBrokerOnChannel k cs t) (on cs)"
  unfolding GetNextFrameFromBrokerOnChannel_def
  using k cs by (intro pres_bind [OF pres_deadline(2)]) (simp add: engine_ok_def)

lemma NextFrame_pres:
  assumes k: "engine_ok k" and c: "c \<noteq> 0"
  shows "pres I (GetNextFrameOnChannel k c t) any"
  unfolding GetNextFrameOnChannel_def
proof (rule pres_bind [OF pres_simple(3)])
  fix q
  have "pres I (c_FromBroker k [c] t) (on [c])" using k c by (simp add: engine_ok_def)
  then have "pres I (c_FromBroker k [c] t) any" by (rule pres_any)
  then show "pres I (case take_first (\<lambda>f. is_on_channel f c) q of
         Some (f, q') \<Rightarrow> thenM (set_queue q')
           (case f_payload f of P_method (M_channel_close cl) \<Rightarrow> thenM (FinishCloseChannel c) (throw_channel_close cl)
            | _ \<Rightarrow> ret (Some f))
       | None \<Rightarrow> c_FromBroker k [c] t) any"
    by (auto split: option.split payload.split in_method.split
        intro!: pres_bind [OF pres_queue(2)] pres_simple pres_bind [OF pres_close [OF c]] pres_throws)
qed

lemma ReadContent_pres:
  assumes k: "engine_ok k" and c: "c \<noteq> 0"
  shows "pres I (ReadContent k c) any" "pres I (read_body k c b r) any"
  unfolding ReadContent_def read_body_def
  using k c
  by (auto split: option.split payload.split simp: engine_ok_def
      intro!: pres_bind_any pres_simple pres_create pres_if)

lemma engine_ok_engine: "engine_ok (engine n)"
proof (induction n)
  case 0 show ?case by (simp add: engine_ok_def pres_simple)
next
  case (Suc n)
  then show ?case
    using broker_loop_pres [OF Suc] AddToFrameQueue_pres [OF Suc] ConsumeInner_pres [OF Suc]
      GetMethod_pres [OF Suc] method_loop_pres [OF Suc] FromBroker_pres [OF Suc] NextFrame_pres [OF Suc]
      ReadContent_pres [OF Suc]
    unfolding engine_ok_def [of "engine (Suc n)"] by (simp add: Let_def)
qed

lemmas loops_pres = GetMethod_pres [OF engine_ok_engine] ConsumeInner_pres [OF engine_ok_engine]
  ReadContent_pres [OF engine_ok_engine]

end

section \<open>The channel pool\<close>

definition max_channel :: "chan \<Rightarrow> nat" where
  "max_channel s = (let mc = channel_max (m_connection s) in if mc = 0 then 65535 else mc)"

definition pool_ok :: "chan \<Rightarrow> bool" where
  "pool_ok s \<longleftrightarrow> m_channels s \<noteq> [] \<and> m_channels s ! 0 = CS_Used \<and>
     m_last_used_channel s < length (m_channels s) \<and> length (m_channels s) \<le> max_channel s + 1 \<and>
     (\<forall>e \<in> set (m_consumer_channel_map s). snd e \<noteq> 0 \<and> snd e < length (m_channels s))"

definition used :: "chan \<Rightarrow> nat set" where
  "used s = {c. c < length (m_channels s) \<and> m_channels s ! c = CS_Used}"

interpretation pool: loop_invariant pool_ok
  by unfold_locales (auto simp: pool_ok_def max_channel_def Let_def)

interpretation pool_used: loop_invariant "\<lambda>s. pool_ok s \<and> used s \<subseteq> U"
  using pool.close pool.give_back
  by unfold_locales (auto simp: pool.conn pool.queue pool.delivered pool.disconnected pool.consumers
    used_def nth_list_update split: if_splits)

end
