(* ===== verification/AmqpFuel.thy ===== *)
theory AmqpFuel
  imports AmqpChannel
begin

text \<open>
  The fuel of the frame loops is enough.  \<open>work\<close> counts eight for a frame that is still to arrive
  and one for a queued frame; every cycle of calls uses up work, so a computation that starts with
  \<open>work s + 10\<close> units never meets \<open>X_out_of_fuel\<close>, whatever the broker sends.
\<close>

section \<open>A logic of work\<close>

definition does :: "(nat \<Rightarrow> bool) \<Rightarrow> 'a M \<Rightarrow> ('a \<Rightarrow> nat \<Rightarrow> bool) \<Rightarrow> bool" where
  "does P m Q \<longleftrightarrow> (\<forall>s. P (work s) \<longrightarrow>
     (case m s of (Inl e, _) \<Rightarrow> e \<noteq> X_out_of_fuel | (Inr x, s') \<Rightarrow> Q x (work s')))"

lemma does_bind: "does P m R \<Longrightarrow> (\<And>x. does (R x) (f x) Q) \<Longrightarrow> does P (bindM m f) Q"
  by (fastforce simp: does_def bindM_def split: prod.splits sum.splits)

lemma does_weaken: "does P m Q \<Longrightarrow> (\<And>w. P' w \<Longrightarrow> P w) \<Longrightarrow> (\<And>x w. Q x w \<Longrightarrow> Q' x w) \<Longrightarrow> does P' m Q'"
  by (fastforce simp: does_def split: prod.splits sum.splits)

lemma does_ret: "(\<And>w. P w \<Longrightarrow> Q x w) \<Longrightarrow> does P (ret x) Q"
  by (simp add: does_def ret_def)

lemma does_throw: "e \<noteq> X_out_of_fuel \<Longrightarrow> does P (throw e) Q"
  by (simp add: does_def throw_def)

lemma does_gets: "(\<And>x. does P (f x) Q) \<Longrightarrow> does P (bindM (gets g) f) Q"
  by (simp add: does_def bindM_def gets_def)

text \<open>Operations that leave the work as it is.\<close>

definition neutral :: "'a M \<Rightarrow> bool" where
  "neutral m \<longleftrightarrow> (\<forall>s. case m s of (Inl e, _) \<Rightarrow> e \<noteq> X_out_of_fuel | (Inr x, s') \<Rightarrow> work s' = work s)"

lemma does_neutral: "neutral m \<Longrightarrow> does P m (\<lambda>_. P)"
  by (fastforce simp: does_def neutral_def split: prod.splits sum.splits)

lemma neutral_then: "neutral m \<Longrightarrow> (\<And>x. does P (f x) Q) \<Longrightarrow> does P (bindM m f) Q"
  by (rule does_bind [OF does_neutral])

lemma neutral_bind: "neutral m \<Longrightarrow> (\<And>x. neutral (f x)) \<Longrightarrow> neutral (bindM m f)"
  by (fastforce simp: neutral_def bindM_def split: prod.splits sum.splits)

lemma neutral_simple: "neutral (ret x)" "e \<noteq> X_out_of_fuel \<Longrightarrow> neutral (throw e)" "neutral (gets g)"
  by (simp_all add: neutral_def ret_def throw_def gets_def)

lemma neutral_if: "(b \<Longrightarrow> neutral m) \<Longrightarrow> (\<not> b \<Longrightarrow> neutral n) \<Longrightarrow> neutral (if b then m else n)"
  by simp

lemma neutral_modify: "(\<And>s. work (f s) = work s) \<Longrightarrow> neutral (modify f)"
  by (simp add: neutral_def modify_def)

lemma neutral_send: "neutral (amqp_send_method channel m)"
  by (simp add: neutral_def amqp_send_method_def work_def Let_def)

lemma neutral_check: "neutral (CheckForError r)"
  unfolding CheckForError_def by (intro neutral_if neutral_bind neutral_simple) (simp add: AmqpLibraryException_def)

lemma neutral_set_channel: "neutral (set_channel c v)"
  unfolding set_channel_def
  by (intro neutral_bind neutral_simple neutral_if neutral_modify) (simp_all add: work_def)

lemma neutral_close: "neutral (FinishCloseChannel channel)"
  unfolding FinishCloseChannel_def by (intro neutral_bind neutral_set_channel neutral_send neutral_check)

lemma neutral_return: "neutral (ReturnChannel channel)"
  unfolding ReturnChannel_def by (intro neutral_bind neutral_set_channel neutral_modify) (simp add: work_def)

lemma neutral_close_connection: "neutral FinishCloseConnection"
  unfolding FinishCloseConnection_def SetIsConnected_def
  by (intro neutral_bind neutral_modify neutral_send neutral_simple) (simp add: work_def)

lemma neutral_throws: "neutral (throw_channel_close c)" "neutral (throw_connection_close c)"
  by (simp_all add: neutral_def throw_channel_close_def throw_connection_close_def bindM_def gets_def throw_def
      Throw_channel_close_def Throw_connection_close_def Let_def throw_kind_def)

lemma does_closes: "does P (throw_channel_close c) Q"
  by (simp add: does_def throw_channel_close_def bindM_def gets_def throw_def Throw_channel_close_def
      throw_kind_def Let_def)

lemma neutral_release: "neutral (MaybeReleaseBuffersOnChannel channel)"
  unfolding MaybeReleaseBuffersOnChannel_def amqp_maybe_release_buffers_on_channel_def
  by (intro neutral_bind neutral_simple neutral_if neutral_modify) (simp add: work_def)

lemma neutral_remove: "neutral (RemoveConsumer tag)"
  by (simp add: neutral_def RemoveConsumer_def bindM_def gets_def throw_def modify_def ret_def work_def
      split: option.split)

lemma neutral_deadline: "neutral (deadline_check e)" "neutral (end_point_of t)"
  by (simp_all add: neutral_def deadline_check_def end_point_of_def bindM_def gets_def ret_def split: option.split)

lemma neutral_close_and_throw: "neutral (close_and_throw channel c)"
  unfolding close_and_throw_def by (intro neutral_bind neutral_close neutral_release neutral_throws)

lemma does_close_and_throw: "does P (close_and_throw channel c) Q"
  unfolding close_and_throw_def
  by (rule neutral_then [OF neutral_close]) (rule neutral_then [OF neutral_release], rule does_closes)

lemma neutral_create: "neutral (Create_received body props)"
  by (simp add: neutral_def Create_received_def bindM_def gets_def ret_def throw_def split: sum.split)

section \<open>The loops\<close>

text \<open>A frame costs \<open>a\<close> units.\<close>

definition got :: "nat \<Rightarrow> nat \<Rightarrow> frame option \<Rightarrow> nat \<Rightarrow> bool" where
  "got a N r w \<longleftrightarrow> (case r of None \<Rightarrow> w \<le> N | Some f \<Rightarrow> w + a \<le> N)"

definition upto :: "nat \<Rightarrow> 'a \<Rightarrow> nat \<Rightarrow> bool" where
  "upto N x w \<longleftrightarrow> w \<le> N"

lemma from_broker_work: "does (\<lambda>w. w \<le> N) (GetNextFrameFromBroker t) (got 8 N)"
  by (simp add: does_def GetNextFrameFromBroker_def amqp_simple_wait_frame_noblock_def bindM_def ret_def
      throw_def Let_def CheckForError_def gets_def AmqpLibraryException_def got_def work_def
      split: list.split prod.split wait.split)

lemma push_work: "does (\<lambda>w. w + a \<le> N) (push_frame f) (\<lambda>_ w. w + a \<le> N + 1)"
  by (simp add: does_def push_frame_def modify_def work_def)

lemma take_first_length: "take_first P q = Some (f, q') \<Longrightarrow> length q = Suc (length q')"
  by (induction q arbitrary: q') (auto split: if_splits)

lemma from_queue_work:
  assumes "\<And>f. does (\<lambda>w. w + 1 \<le> N) (k f) Q" "does (\<lambda>w. w \<le> N) m Q"
  shows "does (\<lambda>w. w \<le> N) (bindM (gets m_frame_queue) (\<lambda>q. case take_first P q of
     Some (f, q') \<Rightarrow> thenM (set_queue q') (k f) | None \<Rightarrow> m)) Q"
  unfolding does_def
proof (intro allI impI)
  fix s assume s: "work s \<le> N"
  show "case bindM (gets m_frame_queue) (\<lambda>q. case take_first P q of
     Some (f, q') \<Rightarrow> thenM (set_queue q') (k f) | None \<Rightarrow> m) s of
     (Inl e, _) \<Rightarrow> e \<noteq> X_out_of_fuel | (Inr x, s') \<Rightarrow> Q x (work s')"
  proof (cases "take_first P (m_frame_queue s)")
    case None
    with assms(2) s show ?thesis by (simp add: does_def bindM_def gets_def)
  next
    case (Some p)
    obtain f q' where p: "p = (f, q')" by (cases p)
    have "work (s\<lparr>m_frame_queue := q'\<rparr>) + 1 \<le> N"
      using take_first_length [OF Some [unfolded p]] s by (simp add: work_def)
    with assms(1) [of f] Some p show ?thesis
      by (simp add: does_def bindM_def gets_def set_queue_def modify_def)
  qed
qed

lemma queued_body_no_fuel: "queued_body l r ps \<noteq> Inl X_out_of_fuel"
proof (induction l r ps rule: queued_body.induct)
  case (1 l r ps)
  then show ?case by (subst queued_body.simps) (auto split: list.split payload.split)
qed

lemma CheckForQueued_no_fuel: "CheckForQueuedMessageOnChannel c q \<noteq> Inl X_out_of_fuel"
  by (simp add: CheckForQueuedMessageOnChannel_def queued_body_no_fuel
      split: option.split list.split payload.split)

definition engine_fueled :: "nat \<Rightarrow> calls \<Rightarrow> bool" where
  "engine_fueled n k \<longleftrightarrow> (\<forall>N.
     (N + 1 \<le> n \<longrightarrow> (\<forall>cs e t. does (\<lambda>w. w \<le> N) (c_broker_loop k cs e t) (got 8 N))) \<and>
     (N + 2 \<le> n \<longrightarrow> (\<forall>cs t. does (\<lambda>w. w \<le> N) (c_FromBroker k cs t) (got 8 N))) \<and>
     (N + 3 \<le> n \<longrightarrow> (\<forall>cs x e t. does (\<lambda>w. w \<le> N) (c_method_loop k cs x e t) (got 1 N))) \<and>
     (N + 4 \<le> n \<longrightarrow> (\<forall>cs x t. does (\<lambda>w. w \<le> N) (c_GetMethod k cs x t) (got 1 N))) \<and>
     (N + 3 \<le> n \<longrightarrow> (\<forall>c t. does (\<lambda>w. w \<le> N) (c_NextFrame k c t) (got 1 N))) \<and>
     (N + 4 \<le> n \<longrightarrow> (\<forall>c b r. does (\<lambda>w. w \<le> N) (c_read_body k c b r) (upto N))) \<and>
     (N + 5 \<le> n \<longrightarrow> (\<forall>c. does (\<lambda>w. w \<le> N) (c_ReadContent k c) (upto N))) \<and>
     (N + 6 \<le> n \<longrightarrow> (\<forall>cs t. does (\<lambda>w. w \<le> N) (c_ConsumeInner k cs t) (upto N))) \<and>
     (N + 8 \<le> n \<longrightarrow> (\<forall>f. does (\<lambda>w. w \<le> N) (c_AddToFrameQueue k f) (upto (N + 1)))))"

lemma engine_fueledD:
  assumes "engine_fueled n k"
  shows "N + 1 \<le> n \<Longrightarrow> does (\<lambda>w. w \<le> N) (c_broker_loop k cs e t) (got 8 N)"
    "N + 2 \<le> n \<Longrightarrow> does (\<lambda>w. w \<le> N) (c_FromBroker k cs t) (got 8 N)"
    "N + 3 \<le> n \<Longrightarrow> does (\<lambda>w. w \<le> N) (c_method_loop k cs x e t) (got 1 N)"
    "N + 4 \<le> n \<Longrightarrow> does (\<lambda>w. w \<le> N) (c_GetMethod k cs x t) (got 1 N)"
    "N + 3 \<le> n \<Longrightarrow> does (\<lambda>w. w \<le> N) (c_NextFrame k c t) (got 1 N)"
    "N + 4 \<le> n \<Longrightarrow> does (\<lambda>w. w \<le> N) (c_read_body k c b r) (upto N)"
    "N + 5 \<le> n \<Longrightarrow> does (\<lambda>w. w \<le> N) (c_ReadContent k c) (upto N)"
    "N + 6 \<le> n \<Longrightarrow> does (\<lambda>w. w \<le> N) (c_ConsumeInner k cs i) (upto N)"
    "N + 8 \<le> n \<Longrightarrow> does (\<lambda>w. w \<le> N) (c_AddToFrameQueue k f) (upto (N + 1))"
  using assms by (simp_all add: engine_fueled_def)

lemma broker_loop_work:
  assumes k: "engine_fueled n k" and N: "N \<le> n"
  shows "does (\<lambda>w. w \<le> N) (broker_loop k cs e t) (got 8 N)"
  unfolding broker_loop_def
proof (rule does_bind [OF from_broker_work])
  fix r
  show "does (got 8 N r) (case r of None \<Rightarrow> ret None | Some f \<Rightarrow>
         if f_channel f \<in> set cs then ret (Some f)
         else thenM (if f_channel f = 0 then (case f_payload f of
                    P_method (M_connection_close c) \<Rightarrow> thenM FinishCloseConnection (throw_connection_close c)
                  | _ \<Rightarrow> ret ()) else c_AddToFrameQueue k f)
           (bindM (deadline_check e) (\<lambda>(over, left'). if over then ret None else c_broker_loop k cs e left'))) (got 8 N)"
  proof (cases r)
    case None then show ?thesis by (simp add: does_ret)
  next
    case (Some f)
    show ?thesis
    proof (cases "8 \<le> N")
      case False
      then have "\<not> got 8 N (Some f) w" for w by (simp add: got_def)
      then show ?thesis by (simp add: Some does_def)
    next
      case True
      have loop: "does (\<lambda>w. w \<le> N - 7) (bindM (deadline_check e)
          (\<lambda>(over, left'). if over then ret None else c_broker_loop k cs e left')) (got 8 N)"
      proof (rule neutral_then [OF neutral_deadline(1)], clarify)
        fix over left'
        have "does (\<lambda>w. w \<le> N - 7) (c_broker_loop k cs e left') (got 8 N)"
          by (rule does_weaken [OF engine_fueledD(1) [OF k, of "N - 7"]])
             (use N True in \<open>auto simp: got_def split: option.splits\<close>)
        then show "does (\<lambda>w. w \<le> N - 7) (if over then ret None else c_broker_loop k cs e left') (got 8 N)"
          by (auto intro: does_ret simp: got_def)
      qed
      have "neutral (case f_payload f of P_method (M_connection_close c) \<Rightarrow>
          thenM FinishCloseConnection (throw_connection_close c) | _ \<Rightarrow> ret ())"
        by (auto split: payload.split in_method.split
            intro: neutral_simple neutral_bind neutral_close_connection neutral_throws)
      then have zero: "does (got 8 N (Some f)) (case f_payload f of P_method (M_connection_close c) \<Rightarrow>
          thenM FinishCloseConnection (throw_connection_close c) | _ \<Rightarrow> ret ()) (\<lambda>_ w. w \<le> N - 7)"
        by (rule does_weaken [OF does_neutral]) (auto simp: got_def)
      have add: "does (got 8 N (Some f)) (c_AddToFrameQueue k f) (\<lambda>_ w. w \<le> N - 7)"
        by (rule does_weaken [OF engine_fueledD(9) [OF k, of "N - 8"]])
           (use N True in \<open>auto simp: got_def upto_def\<close>)
      have "does (got 8 N (Some f)) (if f_channel f = 0 then (case f_payload f of P_method (M_connection_close c) \<Rightarrow>
          thenM FinishCloseConnection (throw_connection_close c) | _ \<Rightarrow> ret ()) else c_AddToFrameQueue k f) (\<lambda>_ w. w \<le> N - 7)"
        using zero add by simp
      from does_bind [OF this loop] show ?thesis by (simp add: Some does_ret)
    qed
  qed
qed

lemma FromBroker_work:
  assumes k: "engine_fueled n k" and N: "N + 1 \<le> n"
  shows "does (\<lambda>w. w \<le> N) (GetNextFrameFromBrokerOnChannel k cs t) (got 8 N)"
  unfolding GetNextFrameFromBrokerOnChannel_def
  by (rule neutral_then [OF neutral_deadline(2)]) (rule engine_fueledD(1) [OF k N])

lemma method_loop_work:
  assumes k: "engine_fueled n k" and N: "N + 2 \<le> n"
  shows "does (\<lambda>w. w \<le> N) (method_loop k cs x e t) (got 1 N)"
  unfolding method_loop_def
proof (rule does_bind [OF engine_fueledD(2) [OF k N]])
  fix r
  show "does (got 8 N r) (case r of None \<Rightarrow> ret None
     | Some f \<Rightarrow> if is_expected_method_on_channel f cs x then ret (Some f)
         else (case f_payload f of P_method (M_channel_close c) \<Rightarrow> close_and_throw (f_channel f) c
         | _ \<Rightarrow> thenM (push_frame f)
             (bindM (deadline_check e) (\<lambda>(over, left'). if over then ret None else c_method_loop k cs x e left')))) (got 1 N)"
  proof (cases r)
    case None then show ?thesis by (auto intro!: does_ret simp: got_def)
  next
    case (Some f)
    have loop: "does (\<lambda>w. w + 8 \<le> N + 1) (bindM (deadline_check e)
        (\<lambda>(over, left'). if over then ret None else c_method_loop k cs x e left')) (got 1 N)"
    proof (rule neutral_then [OF neutral_deadline(1)], clarify)
      fix over left'
      have "does (\<lambda>w. w + 8 \<le> N + 1) (c_method_loop k cs x e left') (got 1 N)"
      proof (cases "7 \<le> N")
        case True
        show ?thesis
          by (rule does_weaken [OF engine_fueledD(3) [OF k, of "N - 7"]])
             (use N True in \<open>auto simp: got_def split: option.splits\<close>)
      next
        case False then show ?thesis by (simp add: does_def)
      qed
      then show "does (\<lambda>w. w + 8 \<le> N + 1) (if over then ret None else c_method_loop k cs x e left') (got 1 N)"
        by (auto intro: does_ret simp: got_def)
    qed
    have push: "does (got 8 N (Some f)) (thenM (push_frame f) (bindM (deadline_check e)
        (\<lambda>(over, left'). if over then ret None else c_method_loop k cs x e left'))) (got 1 N)"
      by (rule does_bind [OF does_weaken [OF push_work [of 8 N]]]) (use loop in \<open>auto simp: got_def\<close>)
    show ?thesis
      unfolding Some option.case
      by (split payload.split, intro conjI impI allI)
         (auto split: in_method.split intro: does_close_and_throw intro!: does_ret push simp: got_def
           simp del: One_nat_def)
  qed
qed

lemma GetMethod_work:
  assumes k: "engine_fueled n k" and N: "N + 3 \<le> n"
  shows "does (\<lambda>w. w \<le> N) (GetMethodOnChannel k cs x t) (got 1 N)"
  unfolding GetMethodOnChannel_def
  by (rule from_queue_work)
     (auto intro!: does_ret neutral_then [OF neutral_deadline(2)] engine_fueledD(3) [OF k N]
       simp: got_def simp del: One_nat_def)

lemma NextFrame_work:
  assumes k: "engine_fueled n k" and N: "N + 2 \<le> n"
  shows "does (\<lambda>w. w \<le> N) (GetNextFrameOnChannel k c t) (got 1 N)"
  unfolding GetNextFrameOnChannel_def
proof (rule from_queue_work)
  fix f
  show "does (\<lambda>w. w + 1 \<le> N) (case f_payload f of
      P_method (M_channel_close cl) \<Rightarrow> thenM (FinishCloseChannel c) (throw_channel_close cl)
    | _ \<Rightarrow> ret (Some f)) (got 1 N)"
    by (auto split: payload.split in_method.split simp: got_def
        intro!: does_ret neutral_then [OF neutral_close] does_closes)
next
  show "does (\<lambda>w. w \<le> N) (c_FromBroker k [c] t) (got 1 N)"
    by (rule does_weaken [OF engine_fueledD(2) [OF k N]]) (auto simp: got_def split: option.splits)
qed

lemma read_body_work:
  assumes k: "engine_fueled n k" and N: "N + 3 \<le> n"
  shows "does (\<lambda>w. w \<le> N) (read_body k c b r) (upto N)"
proof (cases "length r < b")
  case False
  then show ?thesis by (auto simp: read_body_def upto_def intro!: does_ret)
next
  case True
  have rest: "does (got 1 N (Some f)) (c_read_body k c b r') (upto N)" for f r'
  proof (cases "1 \<le> N")
    case True
    show ?thesis
      by (rule does_weaken [OF engine_fueledD(6) [OF k, of "N - 1"]])
         (use N True in \<open>auto simp: got_def upto_def\<close>)
  next
    case False then show ?thesis by (simp add: does_def got_def)
  qed
  show ?thesis
    unfolding read_body_def if_P [OF True]
  proof (rule does_bind [OF engine_fueledD(5) [OF k N]])
    fix x
    show "does (got 1 N x) (case x of None \<Rightarrow> throw X_uninitialised
      | Some f \<Rightarrow> (case f_payload f of
          P_body fragment \<Rightarrow>
            if b < length r + length fragment then throw X_heap_overflow
            else c_read_body k c b (r @ fragment)
        | _ \<Rightarrow> throw unexpected_body)) (upto N)"
      by (auto split: option.split payload.split intro!: does_throw rest simp: unexpected_body_def
          simp del: One_nat_def)
  qed
qed

lemma ReadContent_work:
  assumes k: "engine_fueled n k" and N: "N + 4 \<le> n"
  shows "does (\<lambda>w. w \<le> N) (ReadContent k c) (upto N)"
proof -
  have n: "N + 3 \<le> n" using N by simp
  have rest: "does (got 1 N (Some f)) (bindM (c_read_body k c b []) (\<lambda>body. Create_received body props)) (upto N)"
    for f b props
  proof (rule does_bind)
    show "does (got 1 N (Some f)) (c_read_body k c b []) (upto N)"
      by (rule does_weaken [OF engine_fueledD(6) [OF k N]]) (auto simp: got_def)
    show "does (upto N y) (Create_received y props) (upto N)" for y
      by (rule does_weaken [OF does_neutral [OF neutral_create]]) (auto simp: upto_def)
  qed
  show ?thesis
    unfolding ReadContent_def
    by (rule does_bind [OF engine_fueledD(5) [OF k n]])
       (auto split: option.split payload.split intro!: does_throw rest simp: unexpected_header_def
          simp del: One_nat_def)
qed

lemma ConsumeInner_work:
  assumes k: "engine_fueled n k" and N: "N + 5 \<le> n"
  shows "does (\<lambda>w. w \<le> N) (ConsumeMessageOnChannelInner k cs t) (upto N)"
proof -
  have n: "N + 4 \<le> n" using N by simp
  have read: "does (got 1 N (Some f)) (c_ReadContent k c) (upto N)" for f c
    by (rule does_weaken [OF engine_fueledD(7) [OF k N]]) (auto simp: got_def)
  have end_read: "does (upto N z) (thenM (MaybeReleaseBuffersOnChannel c) (ret v)) (upto N)" for c v z
    by (rule neutral_then [OF neutral_release], rule does_ret) (simp add: upto_def)
  have cancel: "does P (thenM (bindM (RemoveConsumer tag) (\<lambda>_. ret ())) (thenM (ReturnChannel c)
      (thenM (MaybeReleaseBuffersOnChannel c) (throw (X_consumer_cancelled tag))))) (upto N)" for P tag c
    by (intro neutral_then [OF neutral_bind] neutral_then [OF neutral_return] neutral_then [OF neutral_release]
        neutral_remove neutral_simple does_throw) simp
  show ?thesis
    unfolding ConsumeMessageOnChannelInner_def
    by (rule does_bind [OF engine_fueledD(4) [OF k n]])
       (auto split: option.split payload.split in_method.split intro!: does_throw does_ret cancel
          neutral_then [OF neutral_release] does_bind [OF read end_read] simp: got_def upto_def
          simp del: One_nat_def)
qed

lemma AddToFrameQueue_work:
  assumes k: "engine_fueled n k" and N: "N + 7 \<le> n"
  shows "does (\<lambda>w. w \<le> N) (AddToFrameQueue k f) (upto (N + 1))"
proof -
  have n: "N + 1 + 6 \<le> n" using N by simp
  have add: "neutral (modify (\<lambda>s. s\<lparr>m_delivered_messages := m_delivered_messages s @ [e]\<rparr>))" for e
    by (rule neutral_modify) (simp add: work_def)
  have more: "does (upto (N + 1) r) (case r of
      None \<Rightarrow> throw (X_logic_error t)
    | Some envelope \<Rightarrow> modify (\<lambda>s. s\<lparr>m_delivered_messages := m_delivered_messages s @ [envelope]\<rparr>)) (upto (N + 1))"
    for r t
    by (cases r) (auto intro: does_throw does_weaken [OF does_neutral [OF add]] simp: upto_def)
  have queued: "does (\<lambda>w. w \<le> N + 1) (case v of Inl e \<Rightarrow> throw e | Inr b \<Rightarrow> if \<not> b then ret ()
      else bindM (c_ConsumeInner k cs i) (\<lambda>r. case r of
         None \<Rightarrow> throw (X_logic_error t)
       | Some envelope \<Rightarrow> modify (\<lambda>s. s\<lparr>m_delivered_messages := m_delivered_messages s @ [envelope]\<rparr>)))
      (upto (N + 1))" if "v \<noteq> Inl X_out_of_fuel" for v cs i t
    using that does_bind [OF engine_fueledD(8) [OF k n] more]
    by (auto split: sum.split intro!: does_throw does_ret simp: upto_def)
  show ?thesis
    unfolding AddToFrameQueue_def
    by (rule does_bind [OF push_work [of 0 N, simplified]])
       (rule does_gets, use queued [OF CheckForQueued_no_fuel] in simp)
qed

lemma engine_fueled_engine: "engine_fueled n (engine n)"
proof (induction n)
  case 0 show ?case by (simp add: engine_fueled_def)
next
  case (Suc n)
  then show ?case
    using broker_loop_work [OF Suc] FromBroker_work [OF Suc] method_loop_work [OF Suc] GetMethod_work [OF Suc]
      NextFrame_work [OF Suc] read_body_work [OF Suc] ReadContent_work [OF Suc] ConsumeInner_work [OF Suc]
      AddToFrameQueue_work [OF Suc]
    unfolding engine_fueled_def [of "Suc n"] by (simp add: Let_def del: One_nat_def)
qed

end
