(* ===== verification/AmqpClient.thy ===== *)
theory AmqpClient
  imports AmqpChannelProps AmqpFuel
begin

text \<open>
  The client as its users see it: \<open>request\<close> lists the operations of \<open>Channel\<close>, \<open>perform\<close> runs one,
  and \<open>client\<close> is the step relation of a connected client, in which the broker may deliver more at
  any time.  The properties here are those of every reachable client and of every operation.
\<close>

section \<open>Requests\<close>

datatype request =
    Q_DeclareExchange bytes bytes bool bool bool table
  | Q_DeleteExchange bytes bool
  | Q_BindExchange bytes bytes bytes table
  | Q_UnbindExchange bytes bytes bytes table
  | Q_DeclareQueue bytes bool bool bool bool table
  | Q_DeleteQueue bytes bool bool
  | Q_BindQueue bytes bytes bytes table
  | Q_UnbindQueue bytes bytes bytes table
  | Q_PurgeQueue bytes
  | Q_BasicAck DeliveryInfo bool
  | Q_BasicReject DeliveryInfo bool bool
  | Q_BasicPublish bytes bytes content bool bool
  | Q_BasicGet bytes bool
  | Q_BasicRecover bytes
  | Q_BasicConsume bytes bytes bool bool bool "16 word" table
  | Q_BasicQos bytes "16 word"
  | Q_BasicCancel bytes
  | Q_BasicConsumeMessage bytes int
  | Q_BasicConsumeMessage_tags "bytes list" int
  | Q_BasicConsumeMessage_all int

text \<open>The results an operation hands out.\<close>

datatype answer = A_none | A_name bytes "32 word" "32 word" | A_tag bytes | A_envelope "envelope option"

definition answering :: "('a \<Rightarrow> answer) \<Rightarrow> 'a M \<Rightarrow> answer M" where
  "answering f m = bindM m (\<lambda>x. ret (f x))"

fun perform :: "request \<Rightarrow> answer M" where
  "perform (Q_DeclareExchange n t p d a args) = answering (\<lambda>_. A_none) (DeclareExchange n t p d a args)"
| "perform (Q_DeleteExchange n u) = answering (\<lambda>_. A_none) (DeleteExchange n u)"
| "perform (Q_BindExchange d s k args) = answering (\<lambda>_. A_none) (BindExchange d s k args)"
| "perform (Q_UnbindExchange d s k args) = answering (\<lambda>_. A_none) (UnbindExchange d s k args)"
| "perform (Q_DeclareQueue n p d e a args) =
     answering (\<lambda>(name, m, c). A_name name m c) (DeclareQueueWithCounts n p d e a args)"
| "perform (Q_DeleteQueue n u e) = answering (\<lambda>_. A_none) (DeleteQueue n u e)"
| "perform (Q_BindQueue q e k args) = answering (\<lambda>_. A_none) (BindQueue q e k args)"
| "perform (Q_UnbindQueue q e k args) = answering (\<lambda>_. A_none) (UnbindQueue q e k args)"
| "perform (Q_PurgeQueue q) = answering (\<lambda>_. A_none) (PurgeQueue q)"
| "perform (Q_BasicAck i m) = answering (\<lambda>_. A_none) (BasicAck i m)"
| "perform (Q_BasicReject i r m) = answering (\<lambda>_. A_none) (BasicReject i r m)"
| "perform (Q_BasicPublish e k m md im) = answering (\<lambda>_. A_none) (BasicPublish e k m md im)"
| "perform (Q_BasicGet q a) = answering A_envelope (BasicGet q a)"
| "perform (Q_BasicRecover c) = answering (\<lambda>_. A_none) (BasicRecover c)"
| "perform (Q_BasicConsume q t l a e p args) = answering A_tag (BasicConsume q t l a e p args)"
| "perform (Q_BasicQos t p) = answering (\<lambda>_. A_none) (BasicQos t p)"
| "perform (Q_BasicCancel t) = answering (\<lambda>_. A_none) (BasicCancel t)"
| "perform (Q_BasicConsumeMessage t i) = answering A_envelope (BasicConsumeMessage t i)"
| "perform (Q_BasicConsumeMessage_tags ts i) = answering A_envelope (BasicConsumeMessage_tags ts i)"
| "perform (Q_BasicConsumeMessage_all i) = answering A_envelope (BasicConsumeMessage_all i)"

definition arrive :: "nat \<Rightarrow> wait \<Rightarrow> chan \<Rightarrow> chan" where
  "arrive dt w s = s\<lparr>m_connection := (m_connection s)\<lparr>inbox := inbox (m_connection s) @ [(dt, w)]\<rparr>\<rparr>"

inductive client :: "chan \<Rightarrow> bool" where
  connect: "Channel_ctor new_conn sock login host port user password vhost frame_max = Inr s \<Longrightarrow> client s"
| connect_ssl: "Channel_ssl_ctor new_conn socket cacert key sock login host port user password vhost
    frame_max ca_cert client_key client_cert = Inr s \<Longrightarrow> client s"
| broker: "client s \<Longrightarrow> client (arrive dt w s)"
| call: "client s \<Longrightarrow> perform q s = (r, s') \<Longrightarrow> client s'"

section \<open>Preservation by the operations\<close>

lemma pres_then: "pres I m any \<Longrightarrow> pres I n Q \<Longrightarrow> pres I (thenM m n) Q"
  by (rule pres_bind)

lemma pres_gets_bind: "(\<And>x. pres I (f x) Q) \<Longrightarrow> pres I (bindM (gets g) f) Q"
  by (rule pres_bind [OF pres_simple(3)])

lemma pres_connected: "pres I CheckIsConnected any"
  unfolding CheckIsConnected_def by (intro pres_gets_bind pres_if pres_simple TrueI)

lemma pres_with_table: "(\<And>u. pres I (k u) Q) \<Longrightarrow> pres I (with_table args k) Q"
  unfolding with_table_def
  by (rule pres_gets_bind) (auto split: sum.split intro: pres_simple)

lemma pres_some_frame: "pres I (some_frame r) any"
  by (auto simp: some_frame_def split: option.split intro: pres_simple)

lemma pres_consumer_channel: "pres I (GetConsumerChannel tag) any"
  unfolding GetConsumerChannel_def
  by (rule pres_gets_bind) (auto split: option.split intro: pres_simple)

lemma pres_answering: "pres I m any \<Longrightarrow> pres I (answering f m) any"
  unfolding answering_def by (rule pres_bind_any) (auto intro: pres_simple)

context loop_invariant begin

lemma pres_checked_send: "pres I (bindM (amqp_send_method channel m) CheckForError) any"
  by (rule pres_bind [OF pres_send]) (rule pres_check)

lemma pres_rpc_on: "channel \<noteq> 0 \<Longrightarrow> pres I (DoRpcOnChannel channel m expected) any"
  unfolding DoRpcOnChannel_def
  by (rule pres_then [OF pres_checked_send], rule pres_fueled, rule pres_any, rule loops_pres) simp

lemma pres_forget: "pres I m any \<Longrightarrow> pres I (bindM m (\<lambda>_. ret ())) any"
  by (rule pres_bind_any) (auto intro: pres_simple)

lemma pres_get_method: "channel \<noteq> 0 \<Longrightarrow> pres I (fueled (\<lambda>k. GetMethodOnChannel k [channel] x t)) any"
  by (rule pres_fueled, rule pres_any, rule loops_pres) simp

lemma pres_read_content: "channel \<noteq> 0 \<Longrightarrow> pres I (fueled (\<lambda>k. ReadContent k channel)) any"
  by (rule pres_fueled, rule loops_pres)

lemma pres_returned: "channel \<noteq> 0 \<Longrightarrow> pres I (CreateMessageReturnedException code text exchange key channel) any"
  unfolding CreateMessageReturnedException_def
  by (rule pres_bind [OF pres_read_content]) (auto intro: pres_simple)

lemma pres_qos: "channel \<noteq> 0 \<Longrightarrow> pres I (send_qos channel prefetch) any"
  unfolding send_qos_def
  by (rule pres_gets_bind, rule pres_then [OF pres_forget [OF pres_rpc_on]]) (auto intro: pres_maybe_release)

lemma pres_consume: "0 \<notin> set channels \<Longrightarrow> pres I (ConsumeMessageOnChannel channels timeout) any"
  unfolding ConsumeMessageOnChannel_def
  by (rule pres_gets_bind)
     (auto split: option.split intro!: pres_then pres_simple pres_modify delivered pres_fueled loops_pres)

lemma pres_on_delivery: "pres I (on_delivery_channel info m) any"
  unfolding on_delivery_channel_def IsChannelOpen_def
  by (intro pres_then [OF pres_connected] pres_bind_any pres_gets_bind pres_if pres_checked_send pres_simple TrueI)
     (auto intro: pres_simple pres_send pres_check)

end

section \<open>The channel pool\<close>

lemma find_state_Some: "find_state v cs = Some i \<Longrightarrow> i < length cs \<and> cs ! i = v"
  by (induction cs arbitrary: i) (auto split: if_splits)

lemma find_state_None: "find_state v cs = None \<longleftrightarrow> v \<notin> set cs"
  by (induction cs) auto

text \<open>The channel number allocated by \<open>GetNextChannelId\<close> is closed, in range and not 0.\<close>

lemma GetNextChannelId_closed:
  assumes "pool_ok s" "GetNextChannelId s = (Inr c, s')"
  shows "pool_ok s' \<and> c \<noteq> 0 \<and> c < length (m_channels s') \<and> m_channels s' ! c = CS_Closed \<and>
    c \<notin> used s \<and> used s' = used s"
proof (cases "find_state CS_Closed (m_channels s)")
  case None
  then show ?thesis
    using assms
    by (auto simp: GetNextChannelId_def bindM_def gets_def modify_def ret_def throw_def pool_ok_def
        max_channel_def Let_def used_def nth_append split: if_splits) (fastforce intro: less_SucI)+
next
  case (Some i)
  with find_state_Some [OF Some] assms show ?thesis
    by (cases "i = 0") (auto simp: GetNextChannelId_def bindM_def gets_def ret_def pool_ok_def used_def)
qed

lemma GetNextChannelId_fail: "GetNextChannelId s = (Inl e, s') \<Longrightarrow> s' = s"
  by (auto simp: GetNextChannelId_def bindM_def gets_def modify_def ret_def throw_def
      split: if_splits option.splits)

lemma pres_next_id: "pres pool_ok GetNextChannelId (\<lambda>c. c \<noteq> 0)"
  unfolding pres_def
proof (intro allI impI)
  fix s assume s: "pool_ok s"
  obtain r s' where "GetNextChannelId s = (r, s')" by (cases "GetNextChannelId s")
  with s show "case GetNextChannelId s of (r, s') \<Rightarrow> pool_ok s' \<and> (\<forall>x. r = Inr x \<longrightarrow> x \<noteq> 0)"
    using GetNextChannelId_closed [OF s] GetNextChannelId_fail by (cases r) auto
qed

lemma pres_set_channel: "c \<noteq> 0 \<Longrightarrow> pres pool_ok (set_channel c v) any"
  by (simp add: pres_def set_channel_def bindM_def gets_def modify_def throw_def pool_ok_def max_channel_def)

lemma pres_new_channel: "pres pool_ok CreateNewChannel (\<lambda>c. c \<noteq> 0)"
  unfolding CreateNewChannel_def
  by (rule pres_bind [OF pres_next_id])
     (intro pres_then [OF pool.pres_forget [OF pool.pres_rpc_on]] pres_then [OF pres_set_channel] pres_simple)

lemma pres_get_channel: "pres pool_ok GetChannel (\<lambda>c. c \<noteq> 0)"
proof -
  have pick: "pool_ok s \<Longrightarrow> m_channels s ! i = CS_Open \<Longrightarrow> i \<noteq> 0 \<and> pool_ok (s\<lparr>m_channels := (m_channels s)[i := CS_Used]\<rparr>)"
    for s i
    by (cases "i = 0") (auto simp: pool_ok_def max_channel_def)
  have new: "pres pool_ok (bindM CreateNewChannel (\<lambda>c. thenM (set_channel c CS_Used) (ret c))) (\<lambda>c. c \<noteq> 0)"
    by (rule pres_bind [OF pres_new_channel]) (intro pres_then [OF pres_set_channel] pres_simple)
  show ?thesis
    unfolding pres_def
  proof (intro allI impI)
    fix s assume s: "pool_ok s"
    have new_s: "case bindM CreateNewChannel (\<lambda>c. thenM (set_channel c CS_Used) (ret c)) s of
        (r, s') \<Rightarrow> pool_ok s' \<and> (\<forall>x. r = Inr x \<longrightarrow> x \<noteq> 0)"
      using new s by (simp add: pres_def)
    show "case GetChannel s of (r, s') \<Rightarrow> pool_ok s' \<and> (\<forall>x. r = Inr x \<longrightarrow> x \<noteq> 0)"
    proof (cases "m_channels s ! m_last_used_channel s = CS_Open")
      case True
      with s pick [OF s True] show ?thesis
        by (simp add: GetChannel_def bindM_def gets_def modify_def ret_def throw_def)
    next
      case last: False
      show ?thesis
      proof (cases "find_state CS_Open (m_channels s)")
        case None
        with s last new_s show ?thesis
          by (simp add: GetChannel_def bindM_def gets_def throw_def)
      next
        case (Some i)
        with s last pick [OF s, of i] find_state_Some [OF Some] show ?thesis
          by (simp add: GetChannel_def bindM_def gets_def modify_def ret_def throw_def)
      qed
    qed
  qed
qed

lemma pres_rpc: "pres pool_ok (DoRpc m expected) any"
  unfolding DoRpc_def
  by (rule pres_bind [OF pres_get_channel])
     (intro pres_bind [OF pool.pres_rpc_on] pres_then [OF pool.pres_return] pres_simple, auto)

lemma pres_rpc_release: "pres pool_ok (rpc_and_release m ok) any"
  unfolding rpc_and_release_def
  by (intro pres_bind [OF pres_rpc] pres_bind [OF pres_some_frame] pool.pres_maybe_release)

text \<open>The freshness of an allocated channel.\<close>

interpretation pool_has: loop_invariant "\<lambda>s. pool_ok s \<and> c < length (m_channels s)"
  by unfold_locales (auto simp: pool.conn pool.queue pool.delivered pool.disconnected pool.consumers
    pool.close pool.give_back)

lemma presD: "pres I m Q \<Longrightarrow> I s \<Longrightarrow> m s = (Inr x, s') \<Longrightarrow> I s' \<and> Q x"
  "pres I m Q \<Longrightarrow> I s \<Longrightarrow> m s = (Inl e, s') \<Longrightarrow> I s'"
  by (auto simp: pres_def split: prod.splits)

lemma bind_Inr: "bindM m f s = (Inr y, s') \<longleftrightarrow> (\<exists>x t. m s = (Inr x, t) \<and> f x t = (Inr y, s'))"
  by (auto simp: bindM_def split: prod.split sum.split)

lemma set_channel_Inr: "set_channel c v s = (Inr x, s') \<longleftrightarrow>
    c < length (m_channels s) \<and> s' = s\<lparr>m_channels := (m_channels s)[c := v]\<rparr>"
  by (auto simp: set_channel_def bindM_def gets_def modify_def throw_def)

lemma CreateNewChannel_fresh:
  assumes s: "pool_ok s" and c: "CreateNewChannel s = (Inr c, s')"
  shows "pool_ok s' \<and> c \<noteq> 0 \<and> c < length (m_channels s') \<and> c \<notin> used s \<and> used s' \<subseteq> used s"
proof -
  obtain s1 s2 s3 u v where step: "GetNextChannelId s = (Inr c, s1)"
      "DoRpcOnChannel c O_channel_open [AMQP_CHANNEL_OPEN_OK_METHOD] s1 = (Inr u, s2)"
      "DoRpcOnChannel c O_confirm_select [AMQP_CONFIRM_SELECT_OK_METHOD] s2 = (Inr v, s3)"
      "set_channel c CS_Open s3 = (Inr (), s')"
    using c by (auto simp: CreateNewChannel_def bind_Inr ret_def)
  have s1: "pool_ok s1 \<and> used s1 \<subseteq> used s" "c \<noteq> 0" "c \<notin> used s"
    using GetNextChannelId_closed [OF s step(1)] by auto
  have s2: "pool_ok s2 \<and> used s2 \<subseteq> used s"
    using presD(1) [OF pool_used.pres_rpc_on [OF s1(2)] s1(1) step(2)] by blast
  have s3: "pool_ok s3 \<and> used s3 \<subseteq> used s"
    using presD(1) [OF pool_used.pres_rpc_on [OF s1(2)] s2 step(3)] by blast
  have "pool_ok s'" using presD(1) [OF pres_set_channel [OF s1(2)]] s3 step(4) by blast
  moreover have "c < length (m_channels s')" "used s' \<subseteq> used s3"
    using step(4) by (auto simp: set_channel_Inr used_def nth_list_update split: if_splits)
  ultimately show ?thesis using s1 s3 by blast
qed

lemma GetChannel_fresh:
  assumes s: "pool_ok s" and c: "GetChannel s = (Inr c, s')"
  shows "pool_ok s' \<and> c \<noteq> 0 \<and> c \<notin> used s \<and> c \<in> used s' \<and> used s' \<subseteq> insert c (used s)"
proof -
  have ok: "pool_ok s' \<and> c \<noteq> 0" using presD(1) [OF pres_get_channel s c] .
  have take: "c \<notin> used t \<and> c \<in> used s' \<and> used s' \<subseteq> insert c (used t)"
    if "c < length (m_channels t)" "m_channels t ! c \<noteq> CS_Used" "s' = t\<lparr>m_channels := (m_channels t)[c := CS_Used]\<rparr>" for t
    using that by (auto simp: used_def nth_list_update split: if_splits)
  show ?thesis
  proof (cases "m_channels s ! m_last_used_channel s = CS_Open")
    case True
    with c s take [of s] ok show ?thesis
      by (auto simp: GetChannel_def bindM_def gets_def modify_def ret_def throw_def pool_ok_def)
  next
    case last: False
    show ?thesis
    proof (cases "find_state CS_Open (m_channels s)")
      case (Some i)
      with c s last take [of s] ok find_state_Some [OF Some] show ?thesis
        by (auto simp: GetChannel_def bindM_def gets_def modify_def ret_def throw_def pool_ok_def)
    next
      case None
      then obtain t where t: "CreateNewChannel s = (Inr c, t)" "set_channel c CS_Used t = (Inr (), s')"
        using c s last by (auto simp: GetChannel_def bind_Inr gets_def ret_def throw_def pool_ok_def split: if_splits)
      show ?thesis
        using CreateNewChannel_fresh [OF s t(1)] t(2) ok
        by (auto simp: set_channel_Inr used_def nth_list_update split: if_splits)
    qed
  qed
qed

section \<open>Every operation keeps the pool\<close>

lemma pool_consumer_channel: "pres pool_ok (GetConsumerChannel tag) (\<lambda>c. c \<noteq> 0)"
  by (auto simp: pres_def GetConsumerChannel_def bindM_def gets_def ret_def throw_def pool_ok_def
      split: option.split dest!: map_of_SomeD)

lemma pool_consumer_channels: "pres pool_ok (consumer_channels ts) (\<lambda>cs. 0 \<notin> set cs)"
  by (induction ts) (auto intro!: pres_simple pres_bind [OF pool_consumer_channel] pres_bind)

lemma pool_all_channels: "pres pool_ok GetAllConsumerChannels (\<lambda>cs. 0 \<notin> set cs)"
  by (force simp: pres_def GetAllConsumerChannels_def gets_def pool_ok_def)

lemma pool_rpc_release: "pres pool_ok (answering f (thenM CheckIsConnected (rpc_and_release m ok))) any"
  by (rule pres_answering) (rule pres_then [OF pres_connected pres_rpc_release])

lemma pool_rpc_table: "pres pool_ok (answering f (thenM CheckIsConnected
    (with_table args (\<lambda>u. rpc_and_release (m u) ok)))) any"
  by (rule pres_answering)
     (rule pres_then [OF pres_connected], rule pres_with_table, rule pres_rpc_release)

lemma pool_exchange_queue:
  "pres pool_ok (perform (Q_DeclareExchange n t p d a args)) any"
  "pres pool_ok (perform (Q_DeleteExchange n u)) any"
  "pres pool_ok (perform (Q_BindExchange d' s k args)) any"
  "pres pool_ok (perform (Q_UnbindExchange d' s k args)) any"
  "pres pool_ok (perform (Q_DeleteQueue n u e)) any"
  "pres pool_ok (perform (Q_BindQueue q e' k args)) any"
  "pres pool_ok (perform (Q_UnbindQueue q e' k args)) any"
  "pres pool_ok (perform (Q_PurgeQueue q)) any"
  by (simp_all add: DeclareExchange_def DeleteExchange_def BindExchange_def UnbindExchange_def DeleteQueue_def
      BindQueue_def UnbindQueue_def PurgeQueue_def pool_rpc_release pool_rpc_table)

lemma pool_declare_queue: "pres pool_ok (perform (Q_DeclareQueue n p d e a args)) any"
proof -
  have "pres pool_ok (case f_payload f of P_method (M_declare_ok name messages consumers) \<Rightarrow>
      thenM (MaybeReleaseBuffersOnChannel (f_channel f)) (ret (name, messages, consumers))
    | _ \<Rightarrow> throw X_uninitialised) any" for f
    by (auto split: payload.split in_method.split intro: pres_simple pres_then [OF pool.pres_maybe_release])
  then show ?thesis
    by (simp, intro pres_answering)
       (unfold DeclareQueueWithCounts_def, intro pres_then [OF pres_connected] pres_with_table
         pres_bind [OF pres_rpc] pres_bind [OF pres_some_frame])
qed

lemma pool_publish: "pres pool_ok (BasicPublish e k m md im) any"
proof -
  have "pres pool_ok (bindM (some_frame r) (\<lambda>f. case f_payload f of
      P_method (M_return code text exchange key) \<Rightarrow>
        bindM (CreateMessageReturnedException code text exchange key channel) (\<lambda>message_returned.
          thenM (bindM (fueled (\<lambda>k. GetMethodOnChannel k [channel] [AMQP_BASIC_ACK_METHOD] None)) (\<lambda>_. ret ()))
            (thenM (ReturnChannel channel)
              (thenM (MaybeReleaseBuffersOnChannel channel) (throw message_returned))))
    | _ \<Rightarrow> thenM (ReturnChannel channel) (MaybeReleaseBuffersOnChannel channel))) any" if c: "channel \<noteq> 0" for r channel
  proof (rule pres_bind [OF pres_some_frame])
    fix f
    have plain: "pres pool_ok (thenM (ReturnChannel channel) (MaybeReleaseBuffersOnChannel channel)) any"
      by (rule pres_then [OF pool.pres_return [OF c] pool.pres_maybe_release])
    have returned: "pres pool_ok (bindM (CreateMessageReturnedException code tx exchange key channel) (\<lambda>message_returned.
        thenM (bindM (fueled (\<lambda>k. GetMethodOnChannel k [channel] [AMQP_BASIC_ACK_METHOD] None)) (\<lambda>_. ret ()))
          (thenM (ReturnChannel channel)
            (thenM (MaybeReleaseBuffersOnChannel channel) (throw message_returned))))) any" for code tx exchange key
      by (intro pres_bind [OF pool.pres_returned [OF c]] pres_then [OF pool.pres_forget [OF pool.pres_get_method [OF c]]]
          pres_then [OF pool.pres_return [OF c]] pres_then [OF pool.pres_maybe_release] pres_simple)
    show "pres pool_ok (case f_payload f of
      P_method (M_return code text exchange key) \<Rightarrow>
        bindM (CreateMessageReturnedException code text exchange key channel) (\<lambda>message_returned.
          thenM (bindM (fueled (\<lambda>k. GetMethodOnChannel k [channel] [AMQP_BASIC_ACK_METHOD] None)) (\<lambda>_. ret ()))
            (thenM (ReturnChannel channel)
              (thenM (MaybeReleaseBuffersOnChannel channel) (throw message_returned))))
    | _ \<Rightarrow> thenM (ReturnChannel channel) (MaybeReleaseBuffersOnChannel channel)) any"
      by (auto split: payload.split in_method.split intro: plain returned)
  qed
  then show ?thesis
    unfolding BasicPublish_def
    by (intro pres_then [OF pres_connected] pres_bind [OF pres_get_channel] pres_then [OF pool.pres_checked_send]
        pres_bind [OF pool.pres_get_method])
qed

lemma pool_get: "pres pool_ok (BasicGet q a) any"
proof -
  have "pres pool_ok (case f_payload f of
      P_method (M_get_ok dtag redelivered exchange routing_key) \<Rightarrow>
        bindM (fueled (\<lambda>k. ReadContent k channel)) (\<lambda>message.
          thenM (ReturnChannel channel)
            (thenM (MaybeReleaseBuffersOnChannel channel)
              (ret (Some (Envelope message [] dtag exchange redelivered routing_key channel)))))
    | P_method (M_other x) \<Rightarrow>
        if x = AMQP_BASIC_GET_EMPTY_METHOD
        then thenM (ReturnChannel channel) (thenM (MaybeReleaseBuffersOnChannel channel) (ret None))
        else throw X_uninitialised
    | _ \<Rightarrow> throw X_uninitialised) any" if c: "channel \<noteq> 0" for f channel
    using c
    by (auto split: payload.split in_method.split intro!: pres_simple pres_bind [OF pool.pres_read_content]
        pres_then [OF pool.pres_return] pres_then [OF pool.pres_maybe_release])
  then show ?thesis
    unfolding BasicGet_def
    by (intro pres_then [OF pres_connected] pres_bind [OF pres_get_channel] pres_bind [OF pool.pres_rpc_on]
        pres_bind [OF pres_some_frame])
qed

lemma pool_recover: "pres pool_ok (BasicRecover t) any"
  unfolding BasicRecover_def
  by (intro pres_then [OF pres_connected] pres_bind [OF pool_consumer_channel]
      pres_then [OF pool.pres_forget [OF pool.pres_rpc_on]] pool.pres_maybe_release)

lemma pool_qos: "pres pool_ok (BasicQos t p) any"
  unfolding BasicQos_def
  by (intro pres_then [OF pres_connected] pres_bind [OF pool_consumer_channel] pool.pres_qos)

lemma pool_cancel: "pres pool_ok (BasicCancel t) any"
  unfolding BasicCancel_def
  by (intro pres_then [OF pres_connected] pres_bind [OF pool_consumer_channel]
      pres_then [OF pool.pres_forget [OF pool.pres_rpc_on]] pres_then [OF pool.pres_forget [OF pool.pres_remove]]
      pres_then [OF pool.pres_return] pool.pres_maybe_release)

lemma set_map_insert: "set (map_insert k v m) \<subseteq> insert (k, v) (set m)"
  by (induction m) (auto split: if_splits)

lemma pool_add_consumer:
  "c \<noteq> 0 \<Longrightarrow> pres (\<lambda>s. pool_ok s \<and> c < length (m_channels s)) (thenM (AddConsumer t c) (ret x)) any"
  using set_map_insert
  by (fastforce simp: pres_def AddConsumer_def bindM_def modify_def ret_def pool_ok_def max_channel_def)

lemma pool_consume: "pres pool_ok (BasicConsume q t l a e p args) any"
proof -
  have known: "pres (\<lambda>s. pool_ok s \<and> c < length (m_channels s))
      (case f_payload f of
         P_method (M_consume_ok tag) \<Rightarrow> thenM (MaybeReleaseBuffersOnChannel c) (thenM (AddConsumer tag c) (ret tag))
       | _ \<Rightarrow> throw X_uninitialised) any" if "c \<noteq> 0" for f c
    using that by (auto split: payload.split in_method.split
        intro!: pres_simple pres_then [OF pool_has.pres_maybe_release] pool_add_consumer)
  have rest: "pres (\<lambda>s. pool_ok s \<and> c < length (m_channels s)) (thenM (send_qos c p)
      (with_table args (\<lambda>u. bindM (DoRpcOnChannel c (O_consume (c_str q) (c_str t) l a e False u)
          [AMQP_BASIC_CONSUME_OK_METHOD]) (\<lambda>r. bindM (some_frame r) (\<lambda>f. case f_payload f of
         P_method (M_consume_ok tag) \<Rightarrow> thenM (MaybeReleaseBuffersOnChannel c) (thenM (AddConsumer tag c) (ret tag))
       | _ \<Rightarrow> throw X_uninitialised))))) any" if c: "c \<noteq> 0" for c
    by (intro pres_then [OF pool_has.pres_qos [OF c]] pres_with_table pres_bind [OF pool_has.pres_rpc_on [OF c]]
        pres_bind [OF pres_some_frame] known c)
  have "pres pool_ok (bindM GetChannel (\<lambda>c. thenM (send_qos c p)
      (with_table args (\<lambda>u. bindM (DoRpcOnChannel c (O_consume (c_str q) (c_str t) l a e False u)
          [AMQP_BASIC_CONSUME_OK_METHOD]) (\<lambda>r. bindM (some_frame r) (\<lambda>f. case f_payload f of
         P_method (M_consume_ok tag) \<Rightarrow> thenM (MaybeReleaseBuffersOnChannel c) (thenM (AddConsumer tag c) (ret tag))
       | _ \<Rightarrow> throw X_uninitialised)))))) any"
    unfolding pres_def
  proof (intro allI impI)
    fix s assume s: "pool_ok s"
    obtain r s' where g: "GetChannel s = (r, s')" by (cases "GetChannel s")
    show "case bindM GetChannel (\<lambda>c. thenM (send_qos c p)
      (with_table args (\<lambda>u. bindM (DoRpcOnChannel c (O_consume (c_str q) (c_str t) l a e False u)
          [AMQP_BASIC_CONSUME_OK_METHOD]) (\<lambda>r. bindM (some_frame r) (\<lambda>f. case f_payload f of
         P_method (M_consume_ok tag) \<Rightarrow> thenM (MaybeReleaseBuffersOnChannel c) (thenM (AddConsumer tag c) (ret tag))
       | _ \<Rightarrow> throw X_uninitialised))))) s of (r, s') \<Rightarrow> pool_ok s' \<and> (\<forall>x. r = Inr x \<longrightarrow> True)"
    proof (cases r)
      case (Inl x)
      then show ?thesis using presD(2) [OF pres_get_channel s] g by (simp add: bindM_def)
    next
      case (Inr c)
      then have fresh: "pool_ok s'" "c \<noteq> 0" "c < length (m_channels s')"
        using GetChannel_fresh [OF s] g by (auto simp: used_def)
      then show ?thesis
        using rest [of c] g Inr unfolding pres_def by (force simp: bindM_def)
    qed
  qed
  then show ?thesis unfolding BasicConsume_def by (rule pres_then [OF pres_connected])
qed

lemma pool_consume_message:
  "pres pool_ok (BasicConsumeMessage t i) any"
  "pres pool_ok (BasicConsumeMessage_tags ts i) any"
  "pres pool_ok (BasicConsumeMessage_all i) any"
proof -
  show "pres pool_ok (BasicConsumeMessage t i) any"
    unfolding BasicConsumeMessage_def
    by (intro pres_then [OF pres_connected] pres_bind [OF pool_consumer_channel] pool.pres_consume) simp
  show "pres pool_ok (BasicConsumeMessage_tags ts i) any"
    unfolding BasicConsumeMessage_tags_def
    by (intro pres_then [OF pres_connected] pres_bind [OF pool_consumer_channels] pool.pres_consume)
  show "pres pool_ok (BasicConsumeMessage_all i) any"
    unfolding BasicConsumeMessage_all_def
    by (intro pres_then [OF pres_connected] pres_bind [OF pool_all_channels] pres_if pres_simple pool.pres_consume)
qed

lemma pool_perform: "pres pool_ok (perform q) any"
  by (cases q) (simp_all only: pool_exchange_queue [unfolded perform.simps] pool_declare_queue [unfolded perform.simps]
    perform.simps pres_answering pool_publish pool_get pool_recover pool_consume pool_qos pool_cancel
    pool_consume_message BasicAck_def BasicReject_def pool.pres_on_delivery)

section \<open>Construction\<close>

lemma ctor_pool: "pool_ok (ChannelImpl c)"
  by (simp add: pool_ok_def ChannelImpl_def max_channel_def)

lemma DoLogin_Inr: "DoLogin login u p v m s = (Inr x, s') \<Longrightarrow> \<exists>b. s' = s\<lparr>m_brokerVersion := b\<rparr>"
  by (auto simp: DoLogin_def bind_Inr CheckRpcReply_def gets_def modify_def ret_def throw_def
      split: rpc_reply.splits sum.splits)

lemma checked_Inr: "CheckForError r s = (Inr x, s') \<Longrightarrow> s' = s"
  by (auto simp: CheckForError_def bind_Inr gets_def ret_def throw_def split: if_splits)

lemma login_pool: "thenM (DoLogin login u p v m) (SetIsConnected True) (ChannelImpl c) = (Inr x, s) \<Longrightarrow> pool_ok s"
  by (auto simp: bind_Inr SetIsConnected_def modify_def pool_ok_def max_channel_def ChannelImpl_def
      dest!: DoLogin_Inr)

lemma Channel_ctor_pool: "Channel_ctor new_conn sock login host port u p v m = Inr s \<Longrightarrow> pool_ok s"
  by (auto simp: Channel_ctor_def bind_Inr [where m = "CheckForError r" for r] bindM_def [of "CheckForError r" for r]
      dest!: checked_Inr intro: login_pool split: option.splits prod.splits sum.splits)

lemma Channel_ssl_ctor_pool:
  "Channel_ssl_ctor new_conn socket cacert key sock login host port u p v m ca ck cc = Inr s \<Longrightarrow> pool_ok s"
  by (auto simp: Channel_ssl_ctor_def Let_def intro: login_pool split: option.splits prod.splits sum.splits if_splits)

lemma client_pool: "client s \<Longrightarrow> pool_ok s"
proof (induction rule: client.induct)
  case (broker s dt w) then show ?case by (simp add: arrive_def pool_ok_def max_channel_def)
next
  case (call s q r s') then show ?case using pool_perform [of q] by (force simp: pres_def)
qed (rule Channel_ctor_pool Channel_ssl_ctor_pool; assumption)+

section \<open>A concrete client\<close>

text \<open>A connection with the given script of arrivals, a logged-in client on it, and that it is a
  client.\<close>

definition sample_conn :: "(nat \<times> wait) list \<Rightarrow> conn" where
  "sample_conn script = \<lparr>inbox = script, send_ret = [], sent = [], waits = [], released = [], now = 0,
     channel_max = 3, server_properties = [], method_name = (\<lambda>_. None), error_string = (\<lambda>_. []),
     pool_avail = (\<lambda>_ n. 0 < n)\<rparr>"

definition sample_client :: "(nat \<times> wait) list \<Rightarrow> chan" where
  "sample_client script = (ChannelImpl (sample_conn script))\<lparr>m_is_connected := True\<rparr>"

lemma sample_is_client: "client (sample_client script)"
proof (rule client.connect)
  show "Channel_ctor (Some (sample_conn script)) (\<lambda>_ _. 0) (\<lambda>_ _ _ _ _. R_normal) [] 0 [] [] [] 0
      = Inr (sample_client script)"
    by (simp add: Channel_ctor_def CheckForError_def DoLogin_def CheckRpcReply_def bindM_def ret_def gets_def
        modify_def SetIsConnected_def ComputeBrokerVersion_def sample_conn_def sample_client_def ChannelImpl_def)
qed

text \<open>The two frames that open channel \<open>c\<close>.\<close>

definition opened :: "nat \<Rightarrow> (nat \<times> wait) list" where
  "opened c = [(0, W_frame \<lparr>f_channel = c, f_payload = P_method (M_other AMQP_CHANNEL_OPEN_OK_METHOD)\<rparr>),
     (0, W_frame \<lparr>f_channel = c, f_payload = P_method (M_other AMQP_CONFIRM_SELECT_OK_METHOD)\<rparr>)]"

end
