(* ===== verification/AmqpClientProps.thy ===== *)
theory AmqpClientProps
  imports AmqpClient
begin

text \<open>
  Properties of the operations of the AMQP client: none runs out of fuel, a disconnected client
  does nothing, and channels are allocated and returned.
\<close>

section \<open>No operation runs out of fuel\<close>

definition nofuel :: "'a M \<Rightarrow> bool" where
  "nofuel m \<longleftrightarrow> (\<forall>s. fst (m s) \<noteq> Inl X_out_of_fuel)"

lemma nofuel_bind: "nofuel m \<Longrightarrow> (\<And>x. nofuel (f x)) \<Longrightarrow> nofuel (bindM m f)"
proof -
  assume m: "nofuel m" and f: "\<And>x. nofuel (f x)"
  show ?thesis
    unfolding nofuel_def
  proof
    fix s
    obtain r s' where r: "m s = (r, s')" by (cases "m s")
    with m have "r \<noteq> Inl X_out_of_fuel" by (metis nofuel_def fst_conv)
    with r f show "fst (bindM m f s) \<noteq> Inl X_out_of_fuel"
      by (cases r) (simp_all add: bindM_def nofuel_def)
  qed
qed

lemma nofuel_neutral: "neutral m \<Longrightarrow> nofuel m"
proof -
  assume m: "neutral m"
  have "fst (m s) \<noteq> Inl X_out_of_fuel" for s
    using m by (cases "m s") (auto simp: neutral_def split: sum.splits dest!: spec [of _ s])
  then show ?thesis by (simp add: nofuel_def)
qed

lemma nofuel_does: "(\<And>N. does (\<lambda>w. w \<le> N) (m (engine (N + 10))) (Q N)) \<Longrightarrow> nofuel (fueled m)"
proof -
  assume m: "\<And>N. does (\<lambda>w. w \<le> N) (m (engine (N + 10))) (Q N)"
  have "fst (m (engine (work s + 10)) s) \<noteq> Inl X_out_of_fuel" for s
    using m [of "work s"] by (cases "m (engine (work s + 10)) s") (auto simp: does_def split: sum.splits dest!: spec [of _ s])
  then show ?thesis by (simp add: nofuel_def fueled_def)
qed

lemma nofuel_loops:
  "nofuel (fueled (\<lambda>k. GetMethodOnChannel k cs x t))"
  "nofuel (fueled (\<lambda>k. ReadContent k c))"
  "nofuel (fueled (\<lambda>k. ConsumeMessageOnChannelInner k cs i))"
  by (rule nofuel_does, rule GetMethod_work ReadContent_work ConsumeInner_work, rule engine_fueled_engine, simp)+

lemma nofuel_simple: "nofuel (ret x)" "e \<noteq> X_out_of_fuel \<Longrightarrow> nofuel (throw e)" "nofuel (gets g)" "nofuel (modify h)"
  by (simp_all add: nofuel_def ret_def throw_def gets_def modify_def)

lemma nofuel_if: "nofuel m \<Longrightarrow> nofuel n \<Longrightarrow> nofuel (if b then m else n)"
  by simp

lemmas nofuel_steps = nofuel_bind nofuel_if nofuel_simple nofuel_loops
  neutral_send [THEN nofuel_neutral] neutral_check [THEN nofuel_neutral] neutral_set_channel [THEN nofuel_neutral]
  neutral_return [THEN nofuel_neutral] neutral_release [THEN nofuel_neutral] neutral_remove [THEN nofuel_neutral]

lemma nofuel_rpc_on: "nofuel (DoRpcOnChannel c m x)"
  unfolding DoRpcOnChannel_def by (intro nofuel_steps)

lemma nofuel_next: "nofuel GetNextChannelId"
  unfolding GetNextChannelId_def
  by (intro nofuel_bind nofuel_simple) (auto split: option.split intro!: nofuel_steps)

lemma nofuel_channel: "nofuel GetChannel"
  unfolding GetChannel_def CreateNewChannel_def
  by (intro nofuel_bind nofuel_simple) (auto split: option.split intro!: nofuel_steps nofuel_next nofuel_rpc_on)

lemma nofuel_rpc: "nofuel (DoRpc m x)"
  unfolding DoRpc_def by (intro nofuel_steps nofuel_channel nofuel_rpc_on)

lemma nofuel_rpc_release: "nofuel (rpc_and_release m ok)"
  unfolding rpc_and_release_def some_frame_def
  by (intro nofuel_steps nofuel_rpc) (auto split: option.split intro: nofuel_steps)

lemma nofuel_with_table: "(\<And>u. nofuel (k u)) \<Longrightarrow> nofuel (with_table args k)"
  unfolding with_table_def
  by (rule nofuel_bind [OF nofuel_simple(3)]) (auto split: sum.split intro: nofuel_simple)

lemma nofuel_connected: "nofuel CheckIsConnected"
  unfolding CheckIsConnected_def by (intro nofuel_steps) simp

lemma nofuel_answering: "nofuel m \<Longrightarrow> nofuel (answering f m)"
  unfolding answering_def by (intro nofuel_steps)

lemma nofuel_some_frame: "nofuel (some_frame r)"
  by (auto simp: some_frame_def split: option.split intro: nofuel_simple)

lemma nofuel_consumer: "nofuel (GetConsumerChannel t)"
  unfolding GetConsumerChannel_def
  by (rule nofuel_bind [OF nofuel_simple(3)]) (auto split: option.split intro: nofuel_simple)

lemma nofuel_consumers: "nofuel (consumer_channels ts)"
  by (induction ts) (auto intro!: nofuel_bind nofuel_simple nofuel_consumer)

lemma nofuel_delivery: "nofuel (on_delivery_channel i m)"
  unfolding on_delivery_channel_def IsChannelOpen_def closed_delivery_channel_def
  by (intro nofuel_steps nofuel_connected; simp)

lemma nofuel_qos: "nofuel (send_qos c p)"
  unfolding send_qos_def by (intro nofuel_steps nofuel_rpc_on)

lemma nofuel_on_channel: "nofuel (ConsumeMessageOnChannel cs i)"
  unfolding ConsumeMessageOnChannel_def
  by (rule nofuel_bind [OF nofuel_simple(3)]) (auto split: option.split intro!: nofuel_steps)

lemma nofuel_declare: "nofuel (DeclareQueueWithCounts n p d e a args)"
  unfolding DeclareQueueWithCounts_def
  by (intro nofuel_bind nofuel_connected nofuel_with_table nofuel_rpc nofuel_some_frame)
     (auto split: payload.split in_method.split intro: nofuel_steps)

lemma bindM_laws: "bindM (bindM m f) g = bindM m (\<lambda>x. bindM (f x) g)" "bindM (ret x) f = f x"
  by (auto simp: bindM_def ret_def fun_eq_iff split: prod.split sum.split)

lemma nofuel_publish: "nofuel (BasicPublish e k m md im)"
  unfolding BasicPublish_def CreateMessageReturnedException_def bindM_laws
  by (intro nofuel_bind nofuel_connected nofuel_channel nofuel_some_frame nofuel_steps)
     (auto split: payload.split in_method.split intro!: nofuel_steps)

lemma nofuel_get: "nofuel (BasicGet q a)"
  unfolding BasicGet_def
  by (intro nofuel_bind nofuel_connected nofuel_channel nofuel_rpc_on nofuel_some_frame)
     (auto split: payload.split in_method.split intro!: nofuel_steps)

lemma nofuel_consume: "nofuel (BasicConsume q t l a e p args)"
  unfolding BasicConsume_def AddConsumer_def
  by (intro nofuel_bind nofuel_connected nofuel_channel nofuel_qos nofuel_with_table nofuel_rpc_on nofuel_some_frame)
     (auto split: payload.split in_method.split intro!: nofuel_steps)

text \<open>C8: every operation of the client ends: whatever state it starts in and whatever the broker
  sends, the frame loops use no more calls than eight for each frame still to arrive and one for
  each queued frame, so the fuel is never used up.\<close>
theorem perform_terminates: "fst (perform q s) \<noteq> Inl X_out_of_fuel"
proof -
  have "nofuel (perform q)"
    by (cases q)
       (auto simp: DeclareExchange_def DeleteExchange_def BindExchange_def UnbindExchange_def DeleteQueue_def
          BindQueue_def UnbindQueue_def PurgeQueue_def BasicAck_def BasicReject_def BasicRecover_def BasicQos_def
          BasicCancel_def BasicConsumeMessage_def BasicConsumeMessage_tags_def BasicConsumeMessage_all_def
          GetAllConsumerChannels_def
        intro!: nofuel_answering nofuel_bind nofuel_connected nofuel_rpc_release nofuel_with_table nofuel_declare
          nofuel_publish nofuel_get nofuel_consume nofuel_delivery nofuel_qos nofuel_consumer nofuel_consumers
          nofuel_on_channel nofuel_rpc_on nofuel_steps)
  then show ?thesis by (simp add: nofuel_def)
qed

section \<open>A disconnected client\<close>

definition refused :: "chan_exn \<Rightarrow> chan \<Rightarrow> 'a M \<Rightarrow> bool" where
  "refused e s m \<longleftrightarrow> m s = (Inl e, s)"

lemma refused_connected: "\<not> m_is_connected s \<Longrightarrow> refused X_connection_closed s (thenM CheckIsConnected m)"
  by (simp add: refused_def CheckIsConnected_def bindM_def gets_def throw_def)

lemma refused_answering: "refused e s m \<Longrightarrow> refused e s (answering f m)"
  by (simp add: refused_def answering_def bindM_def)

text \<open>On a client that is not connected every operation throws the connection-closed
  exception, sends nothing, waits for nothing and leaves the whole state as it was.\<close>
theorem disconnected_refuses:
  assumes "\<not> m_is_connected s"
  shows "perform q s = (Inl X_connection_closed, s)"
proof -
  note r = refused_answering [OF refused_connected [OF assms]]
  have "refused X_connection_closed s (perform q)"
    by (cases q)
       (simp_all only: perform.simps DeclareExchange_def DeleteExchange_def BindExchange_def UnbindExchange_def
          DeclareQueueWithCounts_def DeleteQueue_def BindQueue_def UnbindQueue_def PurgeQueue_def BasicAck_def
          BasicReject_def on_delivery_channel_def BasicPublish_def BasicGet_def BasicRecover_def BasicConsume_def
          BasicQos_def BasicCancel_def BasicConsumeMessage_def BasicConsumeMessage_tags_def
          BasicConsumeMessage_all_def r)
  then show ?thesis by (simp add: refused_def)
qed

theorem disconnected_refuses_witness:
  "perform (Q_BasicGet [113] True) (ChannelImpl (sample_conn [])) =
     (Inl X_connection_closed, ChannelImpl (sample_conn []))"
  by (rule disconnected_refuses) (simp add: ChannelImpl_def)

section \<open>Channels\<close>

lemma pool_used_next: "pres (\<lambda>s. pool_ok s \<and> used s \<subseteq> U) GetNextChannelId (\<lambda>c. c \<noteq> 0)"
  unfolding pres_def
proof (intro allI impI)
  fix s assume s: "pool_ok s \<and> used s \<subseteq> U"
  obtain r s' where "GetNextChannelId s = (r, s')" by (cases "GetNextChannelId s")
  with s show "case GetNextChannelId s of (r, s') \<Rightarrow> (pool_ok s' \<and> used s' \<subseteq> U) \<and> (\<forall>x. r = Inr x \<longrightarrow> x \<noteq> 0)"
    using GetNextChannelId_closed [of s] GetNextChannelId_fail [of s] by (cases r) auto
qed

lemma pool_used_open: "c \<noteq> 0 \<Longrightarrow> pres (\<lambda>s. pool_ok s \<and> used s \<subseteq> U) (set_channel c CS_Open) any"
  using pres_set_channel [of c CS_Open]
  by (auto simp: pres_def set_channel_def bindM_def gets_def modify_def throw_def used_def nth_list_update
      split: if_splits)

lemma pool_used_new: "pres (\<lambda>s. pool_ok s \<and> used s \<subseteq> U) CreateNewChannel any"
  unfolding CreateNewChannel_def
  by (rule pres_bind [OF pool_used_next])
     (intro pres_then [OF pool_used.pres_forget [OF pool_used.pres_rpc_on]] pres_then [OF pool_used_open]
        pres_simple TrueI)

lemma bind_Inl: "bindM m f s = (Inl e, s') \<longleftrightarrow>
    m s = (Inl e, s') \<or> (\<exists>x t. m s = (Inr x, t) \<and> f x t = (Inl e, s'))"
  by (auto simp: bindM_def split: prod.split sum.split)

lemma GetChannel_fails:
  assumes s: "pool_ok s" and e: "GetChannel s = (Inl e, s')"
  shows "used s' \<subseteq> used s"
proof -
  have "bindM CreateNewChannel (\<lambda>c. thenM (set_channel c CS_Used) (ret c)) s = (Inl e, s')"
    using s e
    by (auto simp: GetChannel_def bind_Inl gets_def ret_def throw_def modify_def pool_ok_def
        split: if_splits option.splits)
  then have "CreateNewChannel s = (Inl e, s') \<or> (\<exists>c t. CreateNewChannel s = (Inr c, t) \<and> s' = t)"
    by (auto simp: bind_Inl set_channel_def gets_def modify_def throw_def ret_def split: if_splits)
  then show ?thesis
    using presD [OF pool_used_new [of "used s"], of s] s by blast
qed

lemma used_returned: "used (s\<lparr>m_channels := (m_channels s)[c := CS_Open], m_last_used_channel := d\<rparr>) = used s - {c}"
  by (cases "c < length (m_channels s)") (auto simp: used_def list_update_beyond nth_list_update split: if_splits)

lemma finite_used: "finite (used s)"
  by (simp add: used_def)

text \<open>C4: in every state a client can reach, whatever operations were performed and whatever the
  broker sent, the channel pool is well formed: channel 0 is never handed out, the channel last
  used exists, no channel number exceeds the maximum negotiated, and every consumer belongs to an
  existing channel other than 0.\<close>
theorem client_pool_ok: "client s \<Longrightarrow> pool_ok s"
  by (rule client_pool)

theorem client_pool_ok_witness:
  "pool_ok (snd (perform (Q_BasicGet [113] True) (sample_client (opened 1))))"
  by (rule client_pool_ok, rule client.call [OF sample_is_client prod.collapse [symmetric]])

text \<open>C5: allocating a channel on a reachable client yields a number that is not 0, does not exceed
  the negotiated maximum and was not in use, and marks that channel, and no other, as used; when it
  throws, no other channel has become used.\<close>
theorem GetChannel_allocates:
  assumes "client s"
  shows "case GetChannel s of
     (Inr c, s') \<Rightarrow> c \<noteq> 0 \<and> c \<le> max_channel s' \<and> c \<notin> used s \<and> c \<in> used s' \<and> used s' \<subseteq> insert c (used s)
   | (Inl e, s') \<Rightarrow> used s' \<subseteq> used s"
proof -
  note s = client_pool [OF assms]
  show ?thesis
    using GetChannel_fresh [OF s] GetChannel_fails [OF s]
    by (auto simp: pool_ok_def used_def split: prod.split sum.split) 
qed

text \<open>A remote procedure call that returns leaves no channel in use that was not in use before;
  one that throws leaves at most one.\<close>
theorem DoRpc_channels:
  assumes "client s"
  shows "case DoRpc m expected s of
     (Inr r, s') \<Rightarrow> used s' \<subseteq> used s
   | (Inl e, s') \<Rightarrow> \<exists>c. c \<notin> used s \<and> used s' \<subseteq> insert c (used s)"
proof -
  note s = client_pool [OF assms]
  obtain r s1 where g: "GetChannel s = (r, s1)" by (cases "GetChannel s")
  show ?thesis
  proof (cases r)
    case (Inl e)
    have "\<exists>c. c \<notin> used s" using finite_used [of s] ex_new_if_finite [OF infinite_UNIV_nat] by blast
    with Inl g GetChannel_fails [OF s] show ?thesis by (fastforce simp: DoRpc_def bindM_def)
  next
    case (Inr c)
    then have c: "pool_ok s1 \<and> used s1 \<subseteq> insert c (used s)" "c \<noteq> 0" "c \<notin> used s"
      using GetChannel_fresh [OF s] g by auto
    obtain r2 s2 where d: "DoRpcOnChannel c m expected s1 = (r2, s2)" by (cases "DoRpcOnChannel c m expected s1")
    have s2: "pool_ok s2" "used s2 \<subseteq> insert c (used s)"
      using pool_used.pres_rpc_on [OF c(2), of "insert c (used s)" m expected] c(1) d
      unfolding pres_def by force+
    show ?thesis
    proof (cases r2)
      case (Inl e)
      with Inr g d s2 c show ?thesis by (auto simp: DoRpc_def bindM_def)
    next
      case Inr2: (Inr f)
      have "used (s2\<lparr>m_channels := (m_channels s2)[c := CS_Open], m_last_used_channel := c\<rparr>) \<subseteq> used s"
        using s2 by (auto simp: used_returned)
      moreover have "used s2 \<subseteq> insert c (used s)" using s2 by simp
      ultimately show ?thesis
        using Inr Inr2 g d c
        by (auto simp: DoRpc_def bindM_def ReturnChannel_def set_channel_def gets_def modify_def throw_def ret_def)
    qed
  qed
qed

theorem GetChannel_allocates_witness:
  "case GetChannel (sample_client (opened 1)) of
     (Inr c, s') \<Rightarrow> c \<noteq> 0 \<and> c \<le> max_channel s' \<and> c \<notin> used (sample_client (opened 1)) \<and> c \<in> used s' \<and>
       used s' \<subseteq> insert c (used (sample_client (opened 1)))
   | (Inl e, s') \<Rightarrow> used s' \<subseteq> used (sample_client (opened 1))"
  by (rule GetChannel_allocates) (rule sample_is_client)

theorem DoRpc_channels_witness:
  "case DoRpc (O_queue_purge [113] False) [AMQP_QUEUE_PURGE_OK_METHOD] (sample_client (opened 1)) of
     (Inr r, s') \<Rightarrow> used s' \<subseteq> used (sample_client (opened 1))
   | (Inl e, s') \<Rightarrow> \<exists>c. c \<notin> used (sample_client (opened 1)) \<and>
       used s' \<subseteq> insert c (used (sample_client (opened 1)))"
  by (rule DoRpc_channels) (rule sample_is_client)

text \<open>A remote procedure call whose request cannot be sent throws the library's error, but
  the channel it took stays in use: nothing returns it to the pool.\<close>
theorem DoRpc_failure_keeps_channel:
  assumes "pool_ok s" "GetChannel s = (Inr c, s1)" "send_ret (m_connection s1) = r # rs" "r < 0"
  shows "\<exists>s'. DoRpc m expected s = (Inl (AmqpLibraryException (error_string (m_connection s1)) r), s') \<and>
    c \<in> used s' \<and> c \<notin> used s"
  using GetChannel_fresh [OF assms(1,2)] assms(2-)
  by (simp add: DoRpc_def bindM_def DoRpcOnChannel_def amqp_send_method_def CheckForError_def gets_def throw_def
      used_def Let_def)

theorem DoRpc_failure_keeps_channel_witness:
  "\<exists>s'. DoRpc (O_queue_purge [113] False) [AMQP_QUEUE_PURGE_OK_METHOD]
      ((ChannelImpl ((sample_conn [])\<lparr>send_ret := [-1]\<rparr>))\<lparr>m_channels := [CS_Used, CS_Open]\<rparr>)
    = (Inl (AmqpLibraryException (\<lambda>_. []) (-1)), s') \<and> 1 \<in> used s' \<and>
      1 \<notin> used ((ChannelImpl ((sample_conn [])\<lparr>send_ret := [-1]\<rparr>))\<lparr>m_channels := [CS_Used, CS_Open]\<rparr>)"
  using DoRpc_failure_keeps_channel [of
      "(ChannelImpl ((sample_conn [])\<lparr>send_ret := [-1]\<rparr>))\<lparr>m_channels := [CS_Used, CS_Open]\<rparr>" 1
      "(ChannelImpl ((sample_conn [])\<lparr>send_ret := [-1]\<rparr>))\<lparr>m_channels := [CS_Used, CS_Used]\<rparr>" "-1" "[]"
      "O_queue_purge [113] False" "[AMQP_QUEUE_PURGE_OK_METHOD]"]
  by (simp add: pool_ok_def max_channel_def ChannelImpl_def sample_conn_def GetChannel_def bindM_def gets_def
      modify_def ret_def throw_def)

end
