(* ===== verification/AmqpContent.thy ===== *)
theory AmqpContent
  imports AmqpClient
begin

text \<open>
  Reassembly of a message from its frames (\<open>ChannelImpl::ReadContent\<close>), whether they wait in the
  frame queue, among the frames of other channels, or are still to arrive.
\<close>

section \<open>The frames of a channel\<close>

fun inbox_on :: "nat \<Rightarrow> (nat \<times> wait) list \<Rightarrow> payload list" where
  "inbox_on c ((dt, W_frame f) # rest) = (if f_channel f = c then f_payload f # inbox_on c rest else [])"
| "inbox_on c _ = []"

text \<open>What a channel will read without any other channel's frame in between: its queued frames, and
  then those at the head of the inbox.\<close>

definition stream :: "nat \<Rightarrow> chan \<Rightarrow> payload list" where
  "stream c s = payloads_on c (m_frame_queue s) @ inbox_on c (inbox (m_connection s))"

text \<open>The rest of the client, which reading a channel leaves alone.\<close>

definition others :: "nat \<Rightarrow> chan \<Rightarrow> _" where
  "others c s = (filter (\<lambda>f. \<not> is_on_channel f c) (m_frame_queue s), m_channels s, m_delivered_messages s,
     m_consumer_channel_map s, m_last_used_channel s, m_is_connected s, sent (m_connection s),
     pool_avail (m_connection s))"

lemma length_inbox_on: "length (inbox_on c ib) \<le> length ib"
  by (induction c ib rule: inbox_on.induct) auto

lemma length_stream: "length (stream c s) \<le> work s"
proof -
  have "length (payloads_on c q) \<le> length q" for q by (simp add: payloads_on_def)
  then show ?thesis
    unfolding stream_def work_def length_append
    by (metis add.commute add_le_mono le_trans length_inbox_on mult_le_mono1 mult_1 numeral_le_one_iff one_le_numeral)
qed

lemma take_first_None: "take_first P q = None \<longleftrightarrow> filter P q = []"
  by (induction q) auto

lemma take_first_filter:
  "take_first P q = Some (f, q') \<Longrightarrow> filter P q = f # filter P q' \<and> filter (\<lambda>x. \<not> P x) q = filter (\<lambda>x. \<not> P x) q'"
  by (induction q arbitrary: q') (auto split: if_splits)

section \<open>One frame\<close>

text \<open>A close of the channel ends the reading; it is treated apart.\<close>

fun is_close :: "payload \<Rightarrow> bool" where
  "is_close (P_method (M_channel_close c)) = True"
| "is_close _ = False"

lemma NextFrame_reads:
  assumes "stream c s = p # ps" "\<not> is_close p" "3 \<le> n"
  shows "\<exists>f s'. c_NextFrame (engine n) c None s = (Inr (Some f), s') \<and> f_payload f = p \<and> stream c s' = ps \<and>
    others c s' = others c s"
proof -
  obtain m where n: "n = Suc (Suc (Suc m))" using assms(3) by (metis Suc_le_D numeral_3_eq_3 Suc_le_mono)
  show ?thesis
  proof (cases "take_first (\<lambda>f. is_on_channel f c) (m_frame_queue s)")
    case (Some fq)
    obtain f q' where fq: "fq = (f, q')" by (cases fq)
    from take_first_filter [OF Some [unfolded fq]] assms(1)
    have f: "f_payload f = p" "payloads_on c q' @ inbox_on c (inbox (m_connection s)) = ps"
      "filter (\<lambda>x. \<not> is_on_channel x c) (m_frame_queue s) = filter (\<lambda>x. \<not> is_on_channel x c) q'"
      by (auto simp: stream_def payloads_on_def)
    have "(case p of P_method (M_channel_close cl) \<Rightarrow> thenM (FinishCloseChannel c) (throw_channel_close cl)
        | _ \<Rightarrow> ret (Some f)) = ret (Some f)"
      using assms(2) by (cases p rule: is_close.cases) auto
    with Some fq f show ?thesis
      by (simp add: n Let_def GetNextFrameOnChannel_def bindM_def gets_def set_queue_def modify_def ret_def
          stream_def others_def)
  next
    case None
    then have q: "payloads_on c (m_frame_queue s) = []" by (simp add: take_first_None payloads_on_def)
    then obtain dt f rest where f: "inbox (m_connection s) = (dt, W_frame f) # rest" "f_channel f = c"
        "f_payload f = p" "inbox_on c rest = ps"
      using assms(1) by (cases "(c, inbox (m_connection s))" rule: inbox_on.cases) (auto simp: stream_def split: if_splits)
    with None q show ?thesis
      by (simp add: n Let_def GetNextFrameOnChannel_def GetNextFrameFromBrokerOnChannel_def broker_loop_def
          GetNextFrameFromBroker_def amqp_simple_wait_frame_noblock_def end_point_of_def bindM_def gets_def
          ret_def stream_def others_def)
  qed
qed

lemma take_first_mono:
  "(\<And>x. P x \<Longrightarrow> R x) \<Longrightarrow> filter R q = f # fs \<Longrightarrow> P f \<Longrightarrow> take_first P q = take_first R q"
  by (induction q) (auto split: if_splits)

lemma GetMethod_reads:
  assumes st: "stream c s = P_method m # ps" and x: "method_number m \<in> set x" and n: "4 \<le> n"
  shows "\<exists>f s'. GetMethodOnChannel (engine n) [c] x None s = (Inr (Some f), s') \<and> f_payload f = P_method m \<and>
    stream c s' = ps \<and> others c s' = others c s"
proof -
  obtain k where n: "n = Suc (Suc (Suc (Suc k)))"
    using n by (metis Suc_le_D Suc_le_mono eval_nat_numeral(2) numeral_3_eq_3 semiring_norm(26,27))
  have on: "is_expected_method_on_channel f [c] x \<Longrightarrow> is_on_channel f c" for f
    by (simp add: is_expected_method_on_channel_def is_on_channel_def)
  have expected: "is_expected_method_on_channel f [c] x" if "f_channel f = c" "f_payload f = P_method m" for f
    using that x unfolding is_expected_method_on_channel_def by simp
  show ?thesis
  proof (cases "filter (\<lambda>f. is_on_channel f c) (m_frame_queue s)")
    case (Cons f fs)
    then have f: "f_payload f = P_method m" "is_on_channel f c"
      using st by (auto simp: stream_def payloads_on_def filter_eq_Cons_iff)
    then have "take_first (\<lambda>f. is_expected_method_on_channel f [c] x) (m_frame_queue s) =
        take_first (\<lambda>f. is_on_channel f c) (m_frame_queue s)"
      by - (rule take_first_mono [OF on Cons], assumption, rule expected, simp_all add: is_on_channel_def)
    then obtain g q' where g: "take_first (\<lambda>f. is_expected_method_on_channel f [c] x) (m_frame_queue s) = Some (g, q')"
        "take_first (\<lambda>f. is_on_channel f c) (m_frame_queue s) = Some (g, q')"
      using Cons take_first_None [of "\<lambda>f. is_on_channel f c" "m_frame_queue s"] by (metis list.distinct(1) not_Some_eq surj_pair)
    with take_first_filter [OF g(2)] f Cons st show ?thesis
      by (simp add: GetMethodOnChannel_def bindM_def gets_def set_queue_def modify_def ret_def stream_def
          others_def payloads_on_def)
  next
    case Nil
    then have q: "payloads_on c (m_frame_queue s) = []" by (simp add: payloads_on_def)
    have "filter (\<lambda>f. is_expected_method_on_channel f [c] x) (m_frame_queue s) = []"
      using Nil on by (auto simp: filter_empty_conv)
    then have none: "take_first (\<lambda>f. is_expected_method_on_channel f [c] x) (m_frame_queue s) = None"
      by (simp add: take_first_None)
    obtain dt f rest where f: "inbox (m_connection s) = (dt, W_frame f) # rest" "f_channel f = c"
        "f_payload f = P_method m" "inbox_on c rest = ps"
      using st q by (cases "(c, inbox (m_connection s))" rule: inbox_on.cases) (auto simp: stream_def split: if_splits)
    with none q expected [of f] show ?thesis
      by (simp add: n Let_def GetMethodOnChannel_def method_loop_def GetNextFrameFromBrokerOnChannel_def
          broker_loop_def GetNextFrameFromBroker_def amqp_simple_wait_frame_noblock_def end_point_of_def bindM_def
          gets_def ret_def stream_def others_def)
  qed
qed

section \<open>A message\<close>

lemma engine_read_body: "c_read_body (engine (Suc n)) = read_body (engine n)"
  by (simp add: Let_def)

lemma read_body_concat:
  assumes "stream c s = map P_body bs @ rest" "length received + length (concat bs) = body_size"
    "bs = [] \<or> last bs \<noteq> []" "length bs + 3 \<le> n"
  shows "\<exists>s'. read_body (engine n) c body_size received s = (Inr (received @ concat bs), s') \<and> stream c s' = rest \<and>
    others c s' = others c s"
  using assms
proof (induction bs arbitrary: s received n)
  case Nil
  then show ?case by (simp add: read_body_def ret_def)
next
  case (Cons b bs)
  have more: "length received < body_size" using Cons.prems(2,3)
    by (cases bs rule: rev_cases) auto
  obtain f s1 where s1: "c_NextFrame (engine n) c None s = (Inr (Some f), s1)" "f_payload f = P_body b"
      "stream c s1 = map P_body bs @ rest" "others c s1 = others c s"
    using NextFrame_reads [of c s "P_body b" "map P_body bs @ rest" n] Cons.prems by auto
  obtain m where n: "n = Suc m" "length bs + 3 \<le> m" using Cons.prems(4) by (cases n) auto
  obtain s2 where "read_body (engine m) c body_size (received @ b) s1 = (Inr ((received @ b) @ concat bs), s2)"
      "stream c s2 = rest" "others c s2 = others c s1"
    using Cons.IH [OF s1(3) _ _ n(2), of "received @ b"] Cons.prems(2,3) by (auto split: if_splits)
  with s1 more Cons.prems(2) show ?case
    by (simp add: read_body_def [of "engine (Suc m)"] bindM_def n(1) engine_read_body del: engine.simps)
qed

lemma ReadContent_header:
  assumes "stream c s = P_header props body_size # ps"
  shows "\<exists>s1. stream c s1 = ps \<and> others c s1 = others c s \<and>
    fueled (\<lambda>k. ReadContent k c) s =
      bindM (read_body (engine (work s + 9)) c (unat body_size) []) (\<lambda>body. Create_received body props) s1"
proof -
  obtain f s1 where "c_NextFrame (engine (work s + 10)) c None s = (Inr (Some f), s1)"
      "f_payload f = P_header props body_size" "stream c s1 = ps" "others c s1 = others c s"
    using NextFrame_reads [OF assms, of "work s + 10"] by auto
  moreover have "c_read_body (engine (work s + 10)) = read_body (engine (work s + 9))"
    using engine_read_body [of "work s + 9"] by (simp add: add.commute del: engine.simps)
  ultimately show ?thesis
    by (intro exI [of _ s1]) (simp add: fueled_def ReadContent_def bindM_def del: engine.simps)
qed

lemma ReadContent_concat:
  assumes "stream c s = P_header props body_size # map P_body bs @ rest"
    "unat body_size = length (concat bs)" "bs = [] \<or> last bs \<noteq> []"
  shows "\<exists>s'. fueled (\<lambda>k. ReadContent k c) s = Create_received (concat bs) props s' \<and>
    stream c s' = rest \<and> others c s' = others c s"
proof -
  obtain s1 where s1: "stream c s1 = map P_body bs @ rest" "others c s1 = others c s"
      "fueled (\<lambda>k. ReadContent k c) s =
        bindM (read_body (engine (work s + 9)) c (unat body_size) []) (\<lambda>body. Create_received body props) s1"
    using ReadContent_header [OF assms(1)] by blast
  have "length bs + 3 \<le> work s + 9" using length_stream [of c s] assms(1) by simp
  from read_body_concat [OF s1(1) _ assms(3) this, of "[]" "unat body_size"] assms(2) s1(2,3)
  show ?thesis by (auto simp: bindM_def)
qed

section \<open>A message in two places\<close>

text \<open>A message of five octets on channel 1: its header is queued behind a frame of channel 2, and
  its two fragments are still to arrive.\<close>

definition plain_props :: wire_props where
  "plain_props = \<lparr>w_flags = 0, w_bytes = (\<lambda>_. []), w_delivery_mode = 0, w_priority = 0, w_timestamp = 0,
     w_headers = []\<rparr>"

definition fragmented :: "64 word \<Rightarrow> chan" where
  "fragmented body_size = (sample_client
      [(0, W_frame \<lparr>f_channel = 1, f_payload = P_body [1, 2, 3]\<rparr>),
       (5, W_frame \<lparr>f_channel = 1, f_payload = P_body [4, 5]\<rparr>)])
    \<lparr>m_frame_queue := [\<lparr>f_channel = 2, f_payload = P_body [9]\<rparr>,
       \<lparr>f_channel = 1, f_payload = P_header plain_props body_size\<rparr>]\<rparr>"

lemma fragmented_stream:
  "stream 1 (fragmented n) = P_header plain_props n # map P_body [[1, 2, 3], [4, 5]] @ []"
  by (simp add: stream_def fragmented_def sample_client_def sample_conn_def ChannelImpl_def payloads_on_def
      is_on_channel_def)



text \<open>A reading in which one body frame is too long.\<close>

lemma read_body_overflow:
  assumes "stream c s = map P_body bs @ P_body b # rest" "length received + length (concat bs) < body_size"
    "body_size < length received + length (concat bs) + length b" "length bs + 4 \<le> n"
  shows "\<exists>s'. read_body (engine n) c body_size received s = (Inl X_heap_overflow, s')"
  using assms
proof (induction bs arbitrary: s received n)
  case Nil
  then have st: "stream c s = P_body b # rest" by simp
  obtain f s1 where "c_NextFrame (engine n) c None s = (Inr (Some f), s1)" "f_payload f = P_body b"
    using NextFrame_reads [OF st, of n] Nil.prems(4) by auto
  with Nil.prems show ?case by (simp add: read_body_def bindM_def throw_def del: engine.simps)
next
  case (Cons b' bs)
  obtain f s1 where s1: "c_NextFrame (engine n) c None s = (Inr (Some f), s1)" "f_payload f = P_body b'"
      "stream c s1 = map P_body bs @ P_body b # rest"
    using NextFrame_reads [of c s "P_body b'" "map P_body bs @ P_body b # rest" n] Cons.prems by auto
  obtain m where n: "n = Suc m" "length bs + 4 \<le> m" using Cons.prems(4) by (cases n) auto
  obtain s2 where "read_body (engine m) c body_size (received @ b') s1 = (Inl X_heap_overflow, s2)"
    using Cons.IH [OF s1(3) _ _ n(2), of "received @ b'"] Cons.prems(2,3) by (auto simp: add.assoc)
  with s1 Cons.prems(2) show ?case
    by (simp add: read_body_def [of "engine (Suc m)"] bindM_def n(1) engine_read_body del: engine.simps)
qed

text \<open>C9: the length of a body frame is not checked against the body size announced: a frame that
  carries more than what is missing is copied past the end of the buffer.\<close>
theorem ReadContent_overflows:
  assumes "stream c s = P_header props body_size # map P_body bs @ P_body b # rest"
    "length (concat bs) < unat body_size" "unat body_size < length (concat bs) + length b"
  shows "fst (fueled (\<lambda>k. ReadContent k c) s) = Inl X_heap_overflow"
proof -
  obtain s1 where s1: "stream c s1 = map P_body bs @ P_body b # rest"
      "fueled (\<lambda>k. ReadContent k c) s =
        bindM (read_body (engine (work s + 9)) c (unat body_size) []) (\<lambda>body. Create_received body props) s1"
    using ReadContent_header [OF assms(1)] by blast
  have "length bs + 4 \<le> work s + 9" using length_stream [of c s] assms(1) by simp
  from read_body_overflow [OF s1(1) _ _ this, of "[]" "unat body_size"] assms(2,3) s1(2)
  show ?thesis by (auto simp: bindM_def)
qed

theorem ReadContent_overflows_witness:
  "fst (fueled (\<lambda>k. ReadContent k 1) (fragmented 4)) = Inl X_heap_overflow"
  by (rule ReadContent_overflows [where bs = "[[1, 2, 3]]" and b = "[4, 5]" and rest = "[]"
        and props = plain_props and body_size = 4])
     (simp_all add: fragmented_stream del: One_nat_def)

end
