(* ===== verification/AmqpSession.thy ===== *)
theory AmqpSession
  imports AmqpContent
begin

text \<open>
  Sessions with a broker: its version, the consumers' table, and whole operations against a broker
  that answers.
\<close>

section \<open>The broker's version\<close>

lemma split_dots_no: "46 \<notin> set w \<Longrightarrow> split_dots (w @ 46 # rest) = w # split_dots rest"
  by (induction w) auto

lemma split_dots_last: "46 \<notin> set w \<Longrightarrow> split_dots w = [w]"
  by (induction w) auto

lemma dec_no_dot: "46 \<notin> set (dec n)"
  using dec_digits [of 46 n] by auto

lemma lexical_cast_dec: "n < 2 ^ 32 \<Longrightarrow> lexical_cast_u32 (dec n) = Some n"
  using dec_digits [of "hd (dec n)" n] parse_dec_dec [of n]
  by (cases "dec n") (auto simp: lexical_cast_u32_def Let_def)

text \<open>Three octets packed into a word.\<close>

lemma octets_pack:
  fixes a b c :: nat
  assumes "a < 256" "b < 256" "c < 256"
  shows "unat (push_bit 16 (of_nat a AND 0xFF) OR push_bit 8 (of_nat b AND 0xFF) OR (of_nat c AND 0xFF) :: 32 word)
    = 65536 * a + 256 * b + c"
proof -
  have m: "(0xFF :: 32 word) = mask 8" by (simp add: mask_eq_exp_minus_1)
  have o: "x AND 0xFF = x" if "unat x < 256" for x :: "32 word"
    using that
    by (simp add: m word_unat_eq_iff unsigned_take_bit_eq take_bit_nat_eq_self flip: take_bit_eq_mask)
  let ?a = "of_nat a AND 0xFF :: 32 word" and ?b = "of_nat b AND 0xFF :: 32 word" and ?c = "of_nat c AND 0xFF :: 32 word"
  have z: "push_bit 16 ?a AND (push_bit 8 ?b OR ?c) = 0" "push_bit 8 ?b AND ?c = 0"
    by (rule bit_word_eqI, auto simp: m bit_simps)+
  have "push_bit 16 ?a OR push_bit 8 ?b OR ?c = push_bit 16 ?a + (push_bit 8 ?b + ?c)"
    using disjunctive_add_eq_or [OF z(1)] disjunctive_add_eq_or [OF z(2)] by simp
  moreover have "of_nat n AND 0xFF = (of_nat n :: 32 word)" if "n < 256" for n
    by (rule o) (use that in \<open>simp add: unat_of_nat\<close>)
  ultimately have "push_bit 16 ?a OR push_bit 8 ?b OR ?c = of_nat (65536 * a + 256 * b + c)"
    using assms by (simp add: push_bit_eq_mult)
  then show ?thesis using assms by (simp add: unat_of_nat del: of_nat_add of_nat_mult)
qed

text \<open>For a broker that reports the version \<open>a.b.c\<close> in decimal, each component below 256, the
  version is packed as \<open>65536 a + 256 b + c\<close>, and it has the new prefetch semantics exactly when it
  is 3.3.0 or later; a broker that reports no version has the old ones.\<close>
theorem ComputeBrokerVersion_qos:
  assumes "map_of props (ascii ''version'') = Some (F_UTF8 (dec a @ 46 # dec b @ 46 # dec c))"
    "a < 256" "b < 256" "c < 256"
  shows "\<exists>v. ComputeBrokerVersion props = Inr v \<and> unat v = 65536 * a + 256 * b + c \<and>
    BrokerHasNewQosBehavior (s\<lparr>m_brokerVersion := v\<rparr>) = (3 < a \<or> a = 3 \<and> 3 \<le> b)"
proof -
  let ?v = "push_bit 16 (of_nat a AND 0xFF) OR push_bit 8 (of_nat b AND 0xFF) OR (of_nat c AND 0xFF) :: 32 word"
  have v: "ComputeBrokerVersion props = Inr ?v"
    using assms by (simp add: ComputeBrokerVersion_def split_dots_no split_dots_last dec_no_dot lexical_cast_dec)
  have "unat ?v = 65536 * a + 256 * b + c" using octets_pack assms(2-4) by blast
  then show ?thesis using v assms by (simp add: BrokerHasNewQosBehavior_def word_le_nat_alt) arith
qed

theorem ComputeBrokerVersion_qos_witness:
  "\<exists>v. ComputeBrokerVersion [(ascii ''version'', F_UTF8 (dec 3 @ 46 # dec 12 @ 46 # dec 0))] = Inr v \<and>
    unat v = 65536 * 3 + 256 * 12 + 0 \<and>
    BrokerHasNewQosBehavior (sample_client []\<lparr>m_brokerVersion := v\<rparr>) = (3 < (3 :: nat) \<or> (3 :: nat) = 3 \<and> (3 :: nat) \<le> 12)"
  by (rule ComputeBrokerVersion_qos) simp_all

section \<open>Publishing\<close>

text \<open>A client whose channel \<open>c\<close> is free and was used last, on a connection that takes what it is
  given.\<close>

definition ready :: "nat \<Rightarrow> chan \<Rightarrow> bool" where
  "ready c s \<longleftrightarrow> m_is_connected s \<and> m_last_used_channel s = c \<and> c < length (m_channels s) \<and>
     m_channels s ! c = CS_Open \<and> send_ret (m_connection s) = []"

definition after_send :: "nat \<Rightarrow> out_method \<Rightarrow> chan \<Rightarrow> chan" where
  "after_send c m s = s\<lparr>m_channels := (m_channels s)[c := CS_Used],
     m_connection := (m_connection s)\<lparr>sent := sent (m_connection s) @ [(c, m)]\<rparr>\<rparr>"

lemma publish_start:
  assumes "ready c s"
  shows "BasicPublish e k msg md im s =
    bindM (fueled (\<lambda>k. GetMethodOnChannel k [c] [AMQP_BASIC_ACK_METHOD, AMQP_BASIC_RETURN_METHOD] None)) (\<lambda>r.
      bindM (some_frame r) (\<lambda>f. case f_payload f of
        P_method (M_return code tx exchange key) \<Rightarrow>
          bindM (CreateMessageReturnedException code tx exchange key c) (\<lambda>message_returned.
            thenM (bindM (fueled (\<lambda>k. GetMethodOnChannel k [c] [AMQP_BASIC_ACK_METHOD] None)) (\<lambda>_. ret ()))
              (thenM (ReturnChannel c)
                (thenM (MaybeReleaseBuffersOnChannel c) (throw message_returned))))
      | _ \<Rightarrow> thenM (ReturnChannel c) (MaybeReleaseBuffersOnChannel c)))
    (after_send c (O_publish (c_str e) (c_str k) md im msg) s)"
proof -
  have conn: "CheckIsConnected s = (Inr (), s)"
    using assms by (simp add: ready_def CheckIsConnected_def bindM_def gets_def ret_def)
  have chan: "GetChannel s = (Inr c, s\<lparr>m_channels := (m_channels s)[c := CS_Used]\<rparr>)"
    using assms by (simp add: ready_def GetChannel_def bindM_def gets_def modify_def ret_def)
  have send: "bindM (amqp_send_method c m) CheckForError (s\<lparr>m_channels := (m_channels s)[c := CS_Used]\<rparr>) =
      (Inr (), after_send c m s)" for m
    using assms by (simp add: ready_def after_send_def amqp_send_method_def bindM_def CheckForError_def ret_def Let_def)
  show ?thesis
    unfolding BasicPublish_def by (simp only: bindM_def [of CheckIsConnected] conn bindM_def [of GetChannel] chan
      bindM_def [of "bindM (amqp_send_method c m) CheckForError" for m] send prod.case sum.case)
qed

lemma fueled_GetMethod_reads:
  assumes "stream c s = P_method m # ps" "method_number m \<in> set x"
  shows "\<exists>f s'. fueled (\<lambda>k. GetMethodOnChannel k [c] x None) s = (Inr (Some f), s') \<and> f_payload f = P_method m \<and>
    stream c s' = ps \<and> others c s' = others c s"
  unfolding fueled_def using GetMethod_reads [OF assms, of "work s + 10"] by simp

text \<open>The end of a publish: the channel goes back to the pool.\<close>

lemma publish_end:
  assumes "others c s = others c (after_send c m s0)" "ready c s0"
  shows "\<exists>s'. thenM (ReturnChannel c) (thenM (MaybeReleaseBuffersOnChannel c) n) s = n s' \<and>
    stream c s' = stream c s \<and> m_channels s' = m_channels s0 \<and> m_last_used_channel s' = c \<and>
    sent (m_connection s') = sent (m_connection s0) @ [(c, m)]"
proof -
  have s: "m_channels s = (m_channels s0)[c := CS_Used]" "sent (m_connection s) = sent (m_connection s0) @ [(c, m)]"
    using assms(1) by (simp_all add: others_def after_send_def)
  have o: "(m_channels s0)[c := CS_Open] = m_channels s0" "c < length (m_channels s0)"
    using assms(2) by (auto simp: ready_def intro: list_update_same_conv [THEN iffD2])
  let ?t = "s\<lparr>m_channels := m_channels s0, m_last_used_channel := c\<rparr>"
  have "thenM (ReturnChannel c) (thenM (MaybeReleaseBuffersOnChannel c) n) s =
      n (if list_ex (\<lambda>f. is_on_channel f c) (m_frame_queue s) then ?t
         else ?t\<lparr>m_connection := (m_connection s)\<lparr>released := released (m_connection s) @ [c]\<rparr>\<rparr>)"
    using s o by (simp add: ReturnChannel_def set_channel_def MaybeReleaseBuffersOnChannel_def bindM_def gets_def
        modify_def ret_def amqp_maybe_release_buffers_on_channel_def)
  then show ?thesis
    by (intro exI [of _ "if list_ex (\<lambda>f. is_on_channel f c) (m_frame_queue s) then ?t
         else ?t\<lparr>m_connection := (m_connection s)\<lparr>released := released (m_connection s) @ [c]\<rparr>\<rparr>"])
       (simp add: stream_def s)
qed

text \<open>A publish that the broker acknowledges sends exactly one \<open>basic.publish\<close> with the message,
  on the channel last used, takes the acknowledgement and no later frame, gives the channel back
  and returns.\<close>
theorem BasicPublish_confirmed:
  assumes "ready c s" "stream c s = P_method (M_other AMQP_BASIC_ACK_METHOD) # ps"
  shows "\<exists>s'. BasicPublish e k msg md im s = (Inr (), s') \<and> stream c s' = ps \<and>
    m_channels s' = m_channels s \<and> m_last_used_channel s' = c \<and>
    sent (m_connection s') = sent (m_connection s) @ [(c, O_publish (c_str e) (c_str k) md im msg)]"
proof -
  let ?m = "O_publish (c_str e) (c_str k) md im msg"
  have st: "stream c (after_send c ?m s) = P_method (M_other AMQP_BASIC_ACK_METHOD) # ps"
    using assms(2) by (simp add: stream_def after_send_def)
  obtain f s1 where s1: "fueled (\<lambda>k. GetMethodOnChannel k [c] [AMQP_BASIC_ACK_METHOD, AMQP_BASIC_RETURN_METHOD] None)
      (after_send c ?m s) = (Inr (Some f), s1)" "f_payload f = P_method (M_other AMQP_BASIC_ACK_METHOD)"
      "stream c s1 = ps" "others c s1 = others c (after_send c ?m s)"
    using fueled_GetMethod_reads [OF st, of "[AMQP_BASIC_ACK_METHOD, AMQP_BASIC_RETURN_METHOD]"] by auto
  have "thenM (ReturnChannel c) (MaybeReleaseBuffersOnChannel c) s1 =
      thenM (ReturnChannel c) (thenM (MaybeReleaseBuffersOnChannel c) (ret ())) s1"
    by (simp add: bindM_def MaybeReleaseBuffersOnChannel_def ret_def split: prod.split sum.split)
  with publish_end [OF s1(4) assms(1), of "ret ()"] s1 show ?thesis
    by (auto simp: publish_start [OF assms(1)] bindM_def [of "fueled m" for m] some_frame_def
        bindM_def [of "ret f" for f] ret_def)
qed

definition ack_frame :: "nat \<Rightarrow> nat \<times> wait" where
  "ack_frame c = (0, W_frame \<lparr>f_channel = c, f_payload = P_method (M_other AMQP_BASIC_ACK_METHOD)\<rparr>)"

definition open_client :: "(nat \<times> wait) list \<Rightarrow> chan" where
  "open_client script = (sample_client script)\<lparr>m_channels := [CS_Used, CS_Open], m_last_used_channel := 1\<rparr>"

lemma open_client_ready: "ready 1 (open_client script)"
  by (simp add: ready_def open_client_def sample_client_def sample_conn_def ChannelImpl_def)

lemma open_client_stream: "stream c (open_client script) = inbox_on c script"
  by (simp add: stream_def open_client_def sample_client_def sample_conn_def ChannelImpl_def payloads_on_def)

definition hello :: content where
  "hello = \<lparr>c_props = plain_props, c_body = [104, 105]\<rparr>"

theorem BasicPublish_confirmed_witness:
  "\<exists>s'. BasicPublish [] [113] hello True False (open_client [ack_frame 1]) = (Inr (), s') \<and> stream 1 s' = [] \<and>
    m_channels s' = m_channels (open_client [ack_frame 1]) \<and> m_last_used_channel s' = 1 \<and>
    sent (m_connection s') = sent (m_connection (open_client [ack_frame 1])) @
      [(1, O_publish (c_str []) (c_str [113]) True False hello)]"
  by (rule BasicPublish_confirmed [OF open_client_ready])
     (simp add: open_client_stream ack_frame_def)

text \<open>C6: a mandatory message that cannot be routed comes back: the client puts the returned message
  together, still takes the acknowledgement that follows it, gives the channel back, and throws the
  message with the broker's code, text, exchange and routing key.\<close>
theorem BasicPublish_returned:
  assumes "ready c s"
    "stream c s = P_method (M_return code tx exchange key) # P_header props body_size #
       map P_body bs @ P_method (M_other AMQP_BASIC_ACK_METHOD) # ps"
    "unat body_size = length (concat bs)" "bs = [] \<or> last bs \<noteq> []" "\<not> bit (w_flags props) (flag_bit Headers)"
  shows "\<exists>s'. BasicPublish e k msg md im s =
      (Inl (X_message_returned \<lparr>c_props = props, c_body = concat bs\<rparr> (ucast code) tx exchange key), s') \<and>
    stream c s' = ps \<and> m_channels s' = m_channels s \<and> m_last_used_channel s' = c \<and>
    sent (m_connection s') = sent (m_connection s) @ [(c, O_publish (c_str e) (c_str k) md im msg)]"
proof -
  let ?m = "O_publish (c_str e) (c_str k) md im msg"
  let ?e = "X_message_returned \<lparr>c_props = props, c_body = concat bs\<rparr> (ucast code) tx exchange key"
  have st: "stream c (after_send c ?m s) = P_method (M_return code tx exchange key) # P_header props body_size #
       map P_body bs @ P_method (M_other AMQP_BASIC_ACK_METHOD) # ps"
    using assms(2) by (simp add: stream_def after_send_def)
  obtain f s1 where s1: "fueled (\<lambda>k. GetMethodOnChannel k [c] [AMQP_BASIC_ACK_METHOD, AMQP_BASIC_RETURN_METHOD] None)
      (after_send c ?m s) = (Inr (Some f), s1)" "f_payload f = P_method (M_return code tx exchange key)"
      "stream c s1 = P_header props body_size # map P_body bs @ P_method (M_other AMQP_BASIC_ACK_METHOD) # ps"
      "others c s1 = others c (after_send c ?m s)"
    using fueled_GetMethod_reads [OF st, of "[AMQP_BASIC_ACK_METHOD, AMQP_BASIC_RETURN_METHOD]"] by auto
  obtain s2 where s2: "CreateMessageReturnedException code tx exchange key c s1 = (Inr ?e, s2)"
      "stream c s2 = P_method (M_other AMQP_BASIC_ACK_METHOD) # ps" "others c s2 = others c s1"
    using ReadContent_concat [OF s1(3) assms(3,4)] assms(5)
    by (auto simp: CreateMessageReturnedException_def bindM_def Create_received_def ret_def)
  obtain g s3 where s3: "fueled (\<lambda>k. GetMethodOnChannel k [c] [AMQP_BASIC_ACK_METHOD] None) s2 = (Inr (Some g), s3)"
      "stream c s3 = ps" "others c s3 = others c s2"
    using fueled_GetMethod_reads [OF s2(2), of "[AMQP_BASIC_ACK_METHOD]"] by auto
  have o: "others c s3 = others c (after_send c ?m s)" using s1(4) s2(3) s3(3) by simp
  from publish_end [OF o assms(1), of "throw ?e"] s1 s2 s3 show ?thesis
    by (auto simp: publish_start [OF assms(1)] bindM_def [of "fueled m" for m] some_frame_def
        bindM_def [of "ret f" for f] bindM_def [of "CreateMessageReturnedException code tx exchange key c"]
        bindM_def [of "bindM (fueled m) n" for m n] ret_def throw_def)
qed

definition returned_script :: "(nat \<times> wait) list" where
  "returned_script =
     [(0, W_frame \<lparr>f_channel = 1, f_payload = P_method (M_return 312 [78, 79] [] [113])\<rparr>),
      (0, W_frame \<lparr>f_channel = 1, f_payload = P_header plain_props 2\<rparr>),
      (0, W_frame \<lparr>f_channel = 1, f_payload = P_body [104, 105]\<rparr>), ack_frame 1]"

theorem BasicPublish_returned_witness:
  "\<exists>s'. BasicPublish [] [113] hello True False (open_client returned_script) =
      (Inl (X_message_returned \<lparr>c_props = plain_props, c_body = concat [[104, 105]]\<rparr> (ucast (312 :: 16 word))
         [78, 79] [] [113]), s') \<and>
    stream 1 s' = [] \<and> m_channels s' = m_channels (open_client returned_script) \<and> m_last_used_channel s' = 1 \<and>
    sent (m_connection s') = sent (m_connection (open_client returned_script)) @
      [(1, O_publish (c_str []) (c_str [113]) True False hello)]"
  by (rule BasicPublish_returned [OF open_client_ready, where body_size = 2])
     (simp_all add: open_client_stream returned_script_def ack_frame_def plain_props_def)

section \<open>Consumers\<close>

text \<open>The table of consumers: a tag just added is found on its channel unless the tag was known,
  in which case the first channel stays; removing a tag yields its channel and makes the tag
  unknown; other tags are not affected by either.\<close>
theorem consumer_table:
  assumes "sorted_wrt (<) (map fst (m_consumer_channel_map s))"
  shows "fst (thenM (AddConsumer tag c) (GetConsumerChannel tag) s) =
      Inr (case map_of (m_consumer_channel_map s) tag of None \<Rightarrow> c | Some d \<Rightarrow> d) \<and>
    fst (thenM (AddConsumer tag c) (bindM (RemoveConsumer tag) (\<lambda>_. GetConsumerChannel tag)) s) =
      Inl X_consumer_tag_not_found \<and>
    (t \<noteq> tag \<longrightarrow> fst (thenM (AddConsumer tag c) (GetConsumerChannel t) s) = fst (GetConsumerChannel t s) \<and>
      fst (thenM (AddConsumer tag c) (bindM (RemoveConsumer tag) (\<lambda>_. GetConsumerChannel t)) s) =
        fst (GetConsumerChannel t s))"
proof -
  let ?m = "map_insert tag c (m_consumer_channel_map s)"
  have m: "map_of ?m = (if tag \<in> dom (map_of (m_consumer_channel_map s)) then map_of (m_consumer_channel_map s)
      else (map_of (m_consumer_channel_map s))(tag \<mapsto> c))"
    by (rule map_insert_lookup [OF assms])
  have f: "map_of (filter (\<lambda>e. fst e \<noteq> tag) m) t = (if t = tag then None else map_of m t)" for m :: "(bytes \<times> nat) list" and t
    by (induction m) auto
  have tag: "\<exists>d. map_of ?m tag = Some d" using m by (auto simp: dom_def)
  show ?thesis
    using m f tag
    by (auto simp: AddConsumer_def GetConsumerChannel_def RemoveConsumer_def bindM_def gets_def modify_def
        ret_def throw_def dom_def split: option.split)
qed

theorem consumer_table_witness:
  "fst (thenM (AddConsumer [97] 4) (GetConsumerChannel [97])
      (sample_client []\<lparr>m_consumer_channel_map := [([97], 2), ([98], 3)]\<rparr>)) = Inr 2"
  using consumer_table [of "sample_client []\<lparr>m_consumer_channel_map := [([97], 2), ([98], 3)]\<rparr>" "[97]" 4 "[98]"]
  by simp

end
