(* ===== verification/MsgBuffers.thy ===== *)
theory MsgBuffers
  imports Prelude
begin

unbundle bit_operations_syntax

text \<open>
  Byte buffers of the socket programs: little-endian integers in memory, the byte-order functions
  of the C library, the packed structures of \<open>MsgDefine.h\<close> by the offsets of their members, and
  the reading and writing of members through a cast pointer.
\<close>

section \<open>Integers in memory\<close>

text \<open>\<open>le n w\<close>: the \<open>n\<close> octets that hold \<open>w\<close>, lowest first; \<open>unle\<close> reads them back.\<close>

definition le :: "nat \<Rightarrow> 'a::len word \<Rightarrow> bytes" where
  "le n w = map (\<lambda>k. ucast (drop_bit (8 * k) w)) [0..<n]"

primrec unle :: "bytes \<Rightarrow> 'a::len word" where
  "unle [] = 0"
| "unle (b # bs) = ucast b OR push_bit 8 (unle bs)"

lemma length_le [simp, wire]: "length (le n w) = n"
  by (simp add: le_def)

lemma le_nth [simp]: "k < n \<Longrightarrow> le n w ! k = ucast (drop_bit (8 * k) w)"
  by (simp add: le_def)

lemma bit_unle: "bit (unle bs :: 'a::len word) n \<longleftrightarrow> n < LENGTH('a) \<and> n div 8 < length bs \<and> bit (bs ! (n div 8)) (n mod 8)"
proof (induction bs arbitrary: n)
  case (Cons b bs)
  show ?case
  proof (cases "n < 8")
    case True then show ?thesis by (auto simp: bit_simps)
  next
    case False
    then have "n div 8 = Suc ((n - 8) div 8)" "n mod 8 = (n - 8) mod 8"
      by (simp_all add: le_div_geq mod_if)
    moreover have "\<not> bit b n" using False by (auto dest: bit_imp_le_length)
    ultimately show ?thesis using False Cons.IH [of "n - 8"] by (auto simp: bit_simps)
  qed
qed simp

lemma unle_le [simp, wire]: "LENGTH('a::len) \<le> 8 * n \<Longrightarrow> unle (le n (w :: 'a word)) = w"
  by (rule bit_word_eqI) (auto simp: bit_unle bit_simps div_less_iff_less_mult)

lemma le_unle [simp, wire]: "length bs = n \<Longrightarrow> 8 * n \<le> LENGTH('a::len) \<Longrightarrow> le n (unle bs :: 'a word) = bs"
  by (rule nth_equalityI) (auto simp: bit_unle bit_simps intro!: bit_word_eqI)

section \<open>Network order\<close>

definition htons :: "16 word \<Rightarrow> 16 word" where "htons w = unle (rev (le 2 w))"
definition ntohs :: "16 word \<Rightarrow> 16 word" where "ntohs w = unle (rev (le 2 w))"
definition htonl :: "32 word \<Rightarrow> 32 word" where "htonl w = unle (rev (le 4 w))"
definition ntohl :: "32 word \<Rightarrow> 32 word" where "ntohl w = unle (rev (le 4 w))"
definition htonll :: "64 word \<Rightarrow> 64 word" where "htonll w = unle (rev (le 8 w))"
definition ntohll :: "64 word \<Rightarrow> 64 word" where "ntohll w = unle (rev (le 8 w))"

lemma net_order [simp, wire]:
  "ntohs (htons a) = a" "htons (ntohs a) = a" "ntohl (htonl b) = b" "htonl (ntohl b) = b"
  "ntohll (htonll c) = c" "htonll (ntohll c) = c"
  by (simp_all add: htons_def ntohs_def htonl_def ntohl_def htonll_def ntohll_def)

section \<open>Reading and writing\<close>

text \<open>Memory is a function of the address; \<open>put\<close> copies octets in, \<open>mem\<close> turns a string into it.\<close>

type_synonym memory = "nat \<Rightarrow> 8 word"

definition put :: "nat \<Rightarrow> bytes \<Rightarrow> memory \<Rightarrow> memory" where
  "put i v f = (\<lambda>k. if i \<le> k \<and> k < i + length v then v ! (k - i) else f k)"

definition get :: "nat \<Rightarrow> nat \<Rightarrow> memory \<Rightarrow> bytes" where
  "get i n f = map f [i..<i + n]"

definition mem :: "bytes \<Rightarrow> memory" where
  "mem bs = (\<lambda>k. if k < length bs then bs ! k else 0)"

definition zeroed :: memory where "zeroed = (\<lambda>_. 0)"

lemma length_get [simp, wire]: "length (get i n f) = n"
  by (simp add: get_def)

lemma get_put_same [simp, wire]: "length v = n \<Longrightarrow> get i n (put i v f) = v"
  by (auto simp: get_def put_def intro: nth_equalityI)

lemma get_put_other [simp, wire]: "i + n \<le> j \<or> j + length v \<le> i \<Longrightarrow> get i n (put j v f) = get i n f"
  by (auto simp: get_def put_def)

lemma get_split: "get i (m + n) f = get i m f @ get (i + m) n f"
  using upt_add_eq_append [of i "i + m" n] by (simp add: get_def add.assoc)

lemma get_mem [simp, wire]: "get 0 (length bs) (mem bs) = bs"
  by (auto simp: get_def mem_def intro: nth_equalityI)

lemma get_mem_prefix: "get 0 n (mem (xs @ ys)) = xs" if "length xs = n"
  using that by (auto simp: get_def mem_def nth_append intro: nth_equalityI)

lemma get_mem_at: "get i n (mem (xs @ v @ ys)) = v" if "length xs = i" "length v = n"
  using that by (auto simp: get_def mem_def nth_append intro!: nth_equalityI)

section \<open>The messages of \<open>MsgDefine.h\<close>\<close>

text \<open>A message is an \<open>Overload\<close> at offset 0, then one of the two heads, then the text.  The heads
  are packed; their members by offset.\<close>

abbreviation sizeof_Overload :: nat where "sizeof_Overload \<equiv> 4"
abbreviation sizeof_DeviceMngHead :: nat where "sizeof_DeviceMngHead \<equiv> 24"
abbreviation sizeof_ConferenceMngHead :: nat where "sizeof_ConferenceMngHead \<equiv> 22"

datatype overload_member = Tag | Len
datatype device_member = Begin | TaskNo | DeviceNo | CmdType | Cmd | Ret | DLen
datatype conference_member = Version | CCmd | CLen | Id | Total | Index

fun Overload_at :: "overload_member \<Rightarrow> nat" where
  "Overload_at Tag = 0" | "Overload_at Len = 2"

fun DeviceMngHead_at :: "device_member \<Rightarrow> nat" where
  "DeviceMngHead_at Begin = 0" | "DeviceMngHead_at TaskNo = 4" | "DeviceMngHead_at DeviceNo = 8"
| "DeviceMngHead_at CmdType = 12" | "DeviceMngHead_at Cmd = 14" | "DeviceMngHead_at Ret = 18"
| "DeviceMngHead_at DLen = 20"

fun ConferenceMngHead_at :: "conference_member \<Rightarrow> nat" where
  "ConferenceMngHead_at Version = 0" | "ConferenceMngHead_at CCmd = 4" | "ConferenceMngHead_at CLen = 6"
| "ConferenceMngHead_at Id = 10" | "ConferenceMngHead_at Total = 18" | "ConferenceMngHead_at Index = 20"

text \<open>Members of the head that follows the \<open>Overload\<close>.\<close>

abbreviation dev :: "device_member \<Rightarrow> nat" where "dev m \<equiv> sizeof_Overload + DeviceMngHead_at m"
abbreviation conf :: "conference_member \<Rightarrow> nat" where "conf m \<equiv> sizeof_Overload + ConferenceMngHead_at m"

abbreviation get16 :: "nat \<Rightarrow> memory \<Rightarrow> 16 word" where "get16 i f \<equiv> unle (get i 2 f)"
abbreviation get32 :: "nat \<Rightarrow> memory \<Rightarrow> 32 word" where "get32 i f \<equiv> unle (get i 4 f)"
abbreviation get64 :: "nat \<Rightarrow> memory \<Rightarrow> 64 word" where "get64 i f \<equiv> unle (get i 8 f)"
abbreviation put16 :: "nat \<Rightarrow> 16 word \<Rightarrow> memory \<Rightarrow> memory" where "put16 i w \<equiv> put i (le 2 w)"
abbreviation put32 :: "nat \<Rightarrow> 32 word \<Rightarrow> memory \<Rightarrow> memory" where "put32 i w \<equiv> put i (le 4 w)"
abbreviation put64 :: "nat \<Rightarrow> 64 word \<Rightarrow> memory \<Rightarrow> memory" where "put64 i w \<equiv> put i (le 8 w)"

lemma htons_bytes [wire]: "le 2 (htons w) = rev (le 2 w)" "le 4 (htonl x) = rev (le 4 x)"
  "le 8 (htonll y) = rev (le 8 y)"
  by (simp_all add: htons_def htonl_def htonll_def)

end
