(* ===== verification/MsgResponses.thy ===== *)
theory MsgResponses
  imports MsgBuffers
begin

text \<open>
  The texts that the message server of \<open>DataProcess.cpp\<close> answers with, literal by literal: one
  definition for each \<open>case\<close> of the seven handlers, and for each handler the text its \<open>switch\<close>
  chooses (empty when no \<open>case\<close> matches).  A literal continued over a line break keeps the
  indentation of the next line.
\<close>

definition ConferenceDistributor_response_0x0600 :: bytes where
  "ConferenceDistributor_response_0x0600 =
     ascii ''{'' @
     ascii ''                    \"cmd\": 383963584,'' @
     ascii ''                    \"token\": \"\",'' @
     ascii ''                    \"result\": 0,'' @
     ascii ''                    \"uuid\": \"5021846b3db911eba1e2a4bf01303dd7\",'' @
     ascii ''                    \"description\": \"\",'' @
     ascii ''                    \"content\": {'' @
     ascii ''                    \"dev_no\": \"00000-00000-00000-00000-00000\",'' @
     ascii ''                    \"devStatus\": 0,'' @
     ascii ''                    \"meetingId\": \"5021846b3db911eba1e2a4bf01303dd7\",'' @
     ascii ''                    \"result\": 0,'' @
     ascii ''                    \"globle_id\": \"00100-00321-00000-00296\"'' @
     ascii ''                    }  }''"

definition ConferenceDistributor_response_0x0601 :: bytes where
  "ConferenceDistributor_response_0x0601 =
     ascii ''{'' @
     ascii ''                    \"cmd\": 124,'' @
     ascii ''                    \"token\": \"\",'' @
     ascii ''                    \"result\": 0,'' @
     ascii ''                    \"uuid\": \"5021846b3db911eba1e2a4bf01303dd7\",'' @
     ascii ''                    \"description\": \"\",'' @
     ascii ''                    \"content\": {'' @
     ascii ''                    \"dev_no\": \"00000-00000-00000-00000-00000\",'' @
     ascii ''                    \"devStatus\": 0,'' @
     ascii ''                    \"meetingId\": \"5021846b3db911eba1e2a4bf01303dd7\",'' @
     ascii ''                    \"result\": 0,'' @
     ascii ''                    \"globle_id\": \"00100-00321-00000-00296\"'' @
     ascii ''                    }  }''"

definition ConferenceDistributor_response :: "16 word \<Rightarrow> bytes" where
  "ConferenceDistributor_response cmd = (
     if cmd = 0x0600 then ConferenceDistributor_response_0x0600
     else if cmd = 0x0601 then ConferenceDistributor_response_0x0601
     else [])"

definition DeviceManager_response_101 :: bytes where
  "DeviceManager_response_101 =
     ascii ''{\"Msg\":\"\",'' @
     ascii ''                \"count\": 2, \"Data\" : [{\"id\":\"1231324\", \"accloudid\" : \"2\", \"name\" : \"\", \"master\" : \"'' @
     [239, 191, 189, 239, 191, 189, 239, 191, 189, 239, 191, 189, 239, 191, 189, 239, 191, 189, 239, 191, 189, 239, 191, 189, 239, 191, 189, 239, 191, 189] @
     ascii ''1\", \"sn\" : \"\", \"logicid\" : \"\", '' @
     ascii ''                \"soft\" : \"1.0\", \"level\" : \"\", \"numpre\" : \"22111\", \"logicpre\" : \"\", \"ippre\" : , \"ktz\" : \"\", \"ktywsj\" : \"\", \"sheng\" : '' @
     ascii ''                \"beijing\", \"shi\" : \"beijing\"}]}''"

definition DeviceManager_response_102 :: bytes where
  "DeviceManager_response_102 =
     ascii ''{\"Msg\":\"OK\"}''"

definition DeviceManager_response :: "32 word \<Rightarrow> bytes" where
  "DeviceManager_response cmd = (
     if cmd = 101 then DeviceManager_response_101
     else if cmd = 102 then DeviceManager_response_102
     else [])"

definition UserManager_response_101 :: bytes where
  "UserManager_response_101 =
     ascii ''{ \"access_token\": \"4e29de6b9c3511e9be51a4bf01303dd7\", \"data\" :   { \"loginName\": \"bao\", \"name\" : \"'' @
     [239, 191, 189, 239, 191, 189, 239, 191, 189, 239, 191, 189, 239, 191, 189, 239, 191, 189] @
     ascii ''\",'' @
     ascii ''            \"permission\" : \"1,1,1,1,1,0,0,0,0\",'' @
     ascii ''            \"phone\" : \"13599999999\",'' @
     ascii ''            \"role\" : \"'' @
     [239, 191, 189, 239, 191, 189, 200, 171, 239, 191, 189, 239, 191, 189, 239, 191, 189, 220, 185, 239, 191, 189, 239, 191, 189, 239, 191, 189, 212, 177] @
     ascii ''\",'' @
     ascii ''            \"roleId\" : \"005020d2abc511e6802eb82a72db6d4d\",'' @
     ascii ''            \"userid\" : \"d783f15bd42411e8b8b5a4bf0134505a\"'' @
     ascii ''            '' @
     ascii ''            },'' @
     ascii ''            \"ret\": 0,'' @
     ascii ''            \"msg\" : \"'' @
     [239, 191, 189, 239, 191, 189, 194, 188, 239, 191, 189, 201, 185, 239, 191, 189] @
     ascii ''\"}''"

definition UserManager_response_121 :: bytes where
  "UserManager_response_121 =
     ascii ''{'' @
     ascii ''                \"ret\":0,'' @
     ascii ''                \"msg\" : \"'' @
     [239, 191, 189, 195, 187, 239, 191, 189, 239, 191, 189, 203, 179, 239, 191, 189, 239, 191, 189, 201, 185, 239, 191, 189] @
     ascii ''\",'' @
     ascii ''                }  ''"

definition UserManager_response :: "32 word \<Rightarrow> bytes" where
  "UserManager_response cmd = (
     if cmd = 101 then UserManager_response_101
     else if cmd = 121 then UserManager_response_121
     else [])"

definition AuthManager_response_1 :: bytes where
  "AuthManager_response_1 =
     ascii ''{'' @
     ascii ''            \"msg\": \"\",'' @
     ascii ''            \"result\": 0,'' @
     ascii ''            \"data\":[{'' @
     ascii ''            \"time\": \"2020-12-21 14:52:11\",'' @
     ascii ''            \"moudle_type\": \"1\",'' @
     ascii ''            \"user_id\": \" shenjiyuan\",'' @
     ascii ''            \"event_type\": \"101\",'' @
     [9] @
     ascii ''            \"object_id\": \"zhangsan\",'' @
     ascii ''            \"object_type\": \"user\",'' @
     ascii ''            \"content\": \"\"'' @
     ascii ''    }, {}] } ''"

definition AuthManager_response_2 :: bytes where
  "AuthManager_response_2 =
     ascii ''{'' @
     ascii ''            \"msg\": \"\",'' @
     ascii ''            \"result\": 0,'' @
     ascii ''            \"data\":[{'' @
     ascii ''            \"time\": \"2020-12-21 14:52:11\",'' @
     ascii ''            \"moudle_type\": \"1\",'' @
     ascii ''            \"user_id\": \" shenjiyuan\",'' @
     ascii ''            \"event_type\": \"101\",'' @
     [9] @
     ascii ''            \"object_id\": \"zhangsan\",'' @
     ascii ''            \"object_type\": \"user\",'' @
     ascii ''            \"content\": \"\"}, {}]} ''"

definition AuthManager_response :: "32 word \<Rightarrow> bytes" where
  "AuthManager_response cmd = (
     if cmd = 1 then AuthManager_response_1
     else if cmd = 2 then AuthManager_response_2
     else [])"

definition ConferenceManager_response_601 :: bytes where
  "ConferenceManager_response_601 =
     ascii ''{\"Msg\":\"\"}''"

definition ConferenceManager_response_602 :: bytes where
  "ConferenceManager_response_602 =
     ascii ''{\"Msg\":\"\"}''"

definition ConferenceManager_response :: "32 word \<Rightarrow> bytes" where
  "ConferenceManager_response cmd = (
     if cmd = 601 then ConferenceManager_response_601
     else if cmd = 602 then ConferenceManager_response_602
     else [])"

definition UpgradeManager_response_703 :: bytes where
  "UpgradeManager_response_703 =
     ascii ''{\"ret\":\"\",\"Msg\":\"\"}''"

definition UpgradeManager_response_704 :: bytes where
  "UpgradeManager_response_704 =
     ascii ''{\"list\":[{\"file_name\":\"\",'' @
     ascii ''                \"product\":\"\",'' @
     ascii ''                \"version\":\"\",'' @
     ascii ''                \"datetime\":\"\"}],\"Msg\":\"\"}''"

definition UpgradeManager_response :: "32 word \<Rightarrow> bytes" where
  "UpgradeManager_response cmd = (
     if cmd = 703 then UpgradeManager_response_703
     else if cmd = 704 then UpgradeManager_response_704
     else [])"

definition ConfigManager_response_101 :: bytes where
  "ConfigManager_response_101 =
     ascii ''{\"ret\":\"\",\"Msg\":\"\"}''"

definition ConfigManager_response :: "32 word \<Rightarrow> bytes" where
  "ConfigManager_response cmd = (
     if cmd = 101 then ConfigManager_response_101
     else [])"


section \<open>Lengths\<close>

lemmas response_texts =
  ConferenceDistributor_response_0x0600_def ConferenceDistributor_response_0x0601_def
  DeviceManager_response_101_def DeviceManager_response_102_def
  UserManager_response_101_def UserManager_response_121_def
  AuthManager_response_1_def AuthManager_response_2_def
  ConferenceManager_response_601_def ConferenceManager_response_602_def
  UpgradeManager_response_703_def UpgradeManager_response_704_def ConfigManager_response_101_def

lemma response_lengths:
  "length ConferenceDistributor_response_0x0600 = 514" "length ConferenceDistributor_response_0x0601 = 508"
  "length DeviceManager_response_101 = 349" "length DeviceManager_response_102 = 12"
  "length UserManager_response_101 = 455" "length UserManager_response_121 = 95"
  "length AuthManager_response_1 = 319" "length AuthManager_response_2 = 314"
  "length ConferenceManager_response_601 = 10" "length ConferenceManager_response_602 = 10"
  "length UpgradeManager_response_703 = 19" "length UpgradeManager_response_704 = 124"
  "length ConfigManager_response_101 = 19"
  by (simp_all add: response_texts ascii_def)

lemmas response_choices = ConferenceDistributor_response_def DeviceManager_response_def UserManager_response_def
  AuthManager_response_def ConferenceManager_response_def UpgradeManager_response_def ConfigManager_response_def

lemma response_bound:
  "length (ConferenceDistributor_response c) \<le> 514" "length (DeviceManager_response d) \<le> 349"
  "length (UserManager_response d) \<le> 455" "length (AuthManager_response d) \<le> 319"
  "length (ConferenceManager_response d) \<le> 10" "length (UpgradeManager_response d) \<le> 124"
  "length (ConfigManager_response d) \<le> 19"
  by (simp_all add: response_choices response_lengths)

end
