(* ===== verification/DataProcess.thy ===== *)
theory DataProcess
  imports MsgResponses
begin

text \<open>
  \<open>DataProcess.cpp\<close>: framing of the byte stream into messages (\<open>msgGet\<close>) and the seven message
  handlers (\<open>msgProcess\<close>).  A handler casts the string it is given to the structures of
  \<open>MsgDefine.h\<close> and converts them to host order in place, so its result has the changed string; it
  answers at most once (\<open>Sends\<close>).  \<open>Bad_access\<close>: memory outside the string or the write buffer is
  touched.
\<close>

section \<open>Choosing a handler\<close>

datatype processor = ConferenceDistributor | DeviceManager | UserManager | AuthManager | ConferenceManager
  | UpgradeManager | ConfigManager

text \<open>\<open>m_process\<close> is a static member: an unknown tag leaves the last one chosen by any server.\<close>

definition getProcessor :: "bytes \<Rightarrow> processor option \<Rightarrow> processor option" where
  "getProcessor tag m_process =
     (if tag = ascii ''0x6012'' then Some ConferenceDistributor
      else if tag = ascii ''0x6020'' then Some DeviceManager
      else if tag = ascii ''0x6021'' then Some UserManager
      else if tag = ascii ''0x6022'' then Some AuthManager
      else if tag = ascii ''0x6023'' then Some ConferenceManager
      else if tag = ascii ''0x6024'' then Some UpgradeManager
      else if tag = ascii ''0x6025'' then Some ConfigManager
      else m_process)"

section \<open>Framing\<close>

datatype fault = Out_of_range | Bad_access | Endless

text \<open>The length that a message announces.\<close>

definition msg_len :: "bytes \<Rightarrow> nat" where
  "msg_len tmp = unat (ntohs (get16 (Overload_at Len) (mem tmp)))"

text \<open>\<open>BaseProcess::msgGet\<close>: the messages it pushed, also when \<open>substr\<close> throws, and the octets
  handled.\<close>

function msgGet_loop :: "nat \<Rightarrow> bytes \<Rightarrow> nat \<Rightarrow> bytes list \<Rightarrow> bytes list \<times> (fault + nat)" where
  "msgGet_loop buff_len tmp handleLen q_recv =
     (if sizeof_DeviceMngHead < length tmp then
        (let len = msg_len tmp in
         if 65536 < len then (q_recv, Inr buff_len)
         else if length tmp < sizeof_DeviceMngHead + len then (q_recv, Inr handleLen)
         else (let n = sizeof_DeviceMngHead + len + 4; q = q_recv @ [take n tmp] in
               if length tmp < n then (q, Inl Out_of_range)
               else msgGet_loop buff_len (drop n tmp) (handleLen + n) q))
      else (q_recv, Inr handleLen))"
  by pat_completeness auto
termination by (relation "measure (\<lambda>(buff_len, tmp, h, q). length tmp)") auto

declare msgGet_loop.simps [simp del]

definition BaseProcess_msgGet :: "bytes \<Rightarrow> bytes list \<times> (fault + nat)" where
  "BaseProcess_msgGet buff =
     (if length buff \<le> sizeof_DeviceMngHead then ([], Inr 0) else msgGet_loop (length buff) buff 0 [])"

text \<open>\<open>ConferenceDistributor::msgGet\<close>; a message that announces length 0 is taken again and again,
  so the loop may not end.\<close>

partial_function (option) conference_loop ::
  "nat \<Rightarrow> bytes \<Rightarrow> nat \<Rightarrow> bytes list \<Rightarrow> (bytes list \<times> nat) option" where
  "conference_loop buff_len tmp handleLen q_recv =
     (if sizeof_ConferenceMngHead < length tmp then
        (let len = msg_len tmp in
         if 65536 < len then Some (q_recv, buff_len)
         else if length tmp < len then Some (q_recv, handleLen)
         else conference_loop buff_len (drop len tmp) (handleLen + len) (q_recv @ [take len tmp]))
      else Some (q_recv, handleLen))"

definition ConferenceDistributor_msgGet :: "bytes \<Rightarrow> (bytes list \<times> nat) option" where
  "ConferenceDistributor_msgGet buff =
     (if length buff \<le> sizeof_ConferenceMngHead then Some ([], 0) else conference_loop (length buff) buff 0 [])"

text \<open>The virtual call.\<close>

definition msgGet :: "processor \<Rightarrow> bytes \<Rightarrow> bytes list \<times> (fault + nat)" where
  "msgGet p buff = (if p = ConferenceDistributor
     then (case ConferenceDistributor_msgGet buff of None \<Rightarrow> ([], Inl Endless) | Some (q, n) \<Rightarrow> (q, Inr n))
     else BaseProcess_msgGet buff)"

section \<open>Answering\<close>

datatype effect = Sends bytes | Silent | Faults fault

abbreviation write_buffer_size :: nat where "write_buffer_size \<equiv> 65536"

text \<open>The first lines of every handler: the \<open>Overload\<close> is converted in place.\<close>

definition swap_overload :: "memory \<Rightarrow> memory" where
  "swap_overload m = put16 (Overload_at Len) (ntohs (get16 (Overload_at Len) m))
     (put16 (Overload_at Tag) (ntohs (get16 (Overload_at Tag) m)) m)"

text \<open>The conference head, converted in place; the length member has 32 bits but is converted with
  \<open>ntohs\<close>.\<close>

definition swap_conference :: "memory \<Rightarrow> memory" where
  "swap_conference m =
     put32 (conf CLen) (ucast (ntohs (ucast (get32 (conf CLen) m))))
       (put16 (conf Index) (ntohs (get16 (conf Index) m))
         (put16 (conf Total) (ntohs (get16 (conf Total) m))
           (put64 (conf Id) (ntohll (get64 (conf Id) m))
             (put16 (conf CCmd) (ntohs (get16 (conf CCmd) m)) m))))"

text \<open>The header of the answer, from the converted message.\<close>

definition conference_header :: "memory \<Rightarrow> memory" where
  "conference_header m =
     put16 (conf Index) (htons (get16 (conf Index) m))
       (put16 (conf Total) (htons (get16 (conf Total) m))
         (put64 (conf Id) (htonll (get64 (conf Id) m))
           (put16 (conf CCmd) (htons (get16 (conf CCmd) m))
             (put (conf Version) [1, 2]
               (put16 (Overload_at Tag) (htons (get16 (Overload_at Tag) m)) zeroed)))))"

definition ConferenceDistributor_msgProcess :: "bytes \<Rightarrow> effect \<times> bytes" where
  "ConferenceDistributor_msgProcess msg =
     (if msg = [] then (Silent, msg)
      else if length msg < sizeof_Overload then (Faults Bad_access, msg)
      else let m1 = swap_overload (mem msg) in
        if get16 (Overload_at Tag) m1 = 0x6012 then
          (if length msg < sizeof_Overload + sizeof_ConferenceMngHead then (Faults Bad_access, get 0 (length msg) m1)
           else let m2 = swap_conference m1; msg' = get 0 (length msg) m2;
                    response = ConferenceDistributor_response (get16 (conf CCmd) m2) in
             if response = [] then (Silent, msg')
             else let len = sizeof_ConferenceMngHead + length response in
               if write_buffer_size < len then (Faults Bad_access, msg')
               else (Sends (get 0 len
                  (put sizeof_ConferenceMngHead response
                    (put32 (conf CLen) (ucast (htons (of_nat (length response))))
                      (put16 (Overload_at Len) (htons (of_nat len)) (conference_header m2))))), msg'))
        else (Silent, get 0 (length msg) m1))"

text \<open>The device head, converted in place; \<open>ret\<close> becomes 0.\<close>

definition swap_device :: "memory \<Rightarrow> memory" where
  "swap_device m =
     put16 (dev Ret) (ntohs 0)
       (put32 (dev Cmd) (ntohl (get32 (dev Cmd) m))
         (put16 (dev CmdType) (ntohs (get16 (dev CmdType) m))
           (put32 (dev DeviceNo) (ntohl (get32 (dev DeviceNo) m))
             (put32 (dev TaskNo) (ntohl (get32 (dev TaskNo) m)) m))))"

definition device_header :: "memory \<Rightarrow> memory" where
  "device_header m =
     put16 (dev Ret) (htons 0)
       (put32 (dev Cmd) (htonl (get32 (dev Cmd) m))
         (put16 (dev CmdType) (htons (get16 (dev CmdType) m))
           (put32 (dev DeviceNo) (htonl (get32 (dev DeviceNo) m))
             (put32 (dev TaskNo) (htonl (get32 (dev TaskNo) m))
               (put32 (dev Begin) 0xffffffff
                 (put16 (Overload_at Tag) (htons (get16 (Overload_at Tag) m)) zeroed))))))"

definition endtag :: "32 word" where "endtag = 0xeeeeeeee"

text \<open>The body that the six other handlers have in common, over their tag and their \<open>switch\<close>.\<close>

definition device_msgProcess :: "16 word \<Rightarrow> (32 word \<Rightarrow> bytes) \<Rightarrow> bytes \<Rightarrow> effect \<times> bytes" where
  "device_msgProcess tag reply_to msg =
     (if msg = [] then (Silent, msg)
      else if length msg < sizeof_Overload then (Faults Bad_access, msg)
      else let m1 = swap_overload (mem msg) in
        if get16 (Overload_at Tag) m1 = tag then
          (if length msg < dev Ret + 2 then (Faults Bad_access, get 0 (length msg) m1)
           else let m2 = swap_device m1; msg' = get 0 (length msg) m2;
                    response = reply_to (get32 (dev Cmd) m2) in
             if response = [] then (Silent, msg')
             else let len = sizeof_DeviceMngHead + length response + 4 in
               if write_buffer_size < len then (Faults Bad_access, msg')
               else (Sends (get 0 len
                  (put (sizeof_DeviceMngHead + length response) (le 4 endtag)
                    (put sizeof_DeviceMngHead response
                      (put32 (dev DLen) (ucast (htons (of_nat (length response))))
                        (put16 (Overload_at Len) (htons (of_nat len)) (device_header m2)))))), msg'))
        else (Silent, get 0 (length msg) m1))"

definition DeviceManager_msgProcess :: "bytes \<Rightarrow> effect \<times> bytes" where
  "DeviceManager_msgProcess = device_msgProcess 0x6020 DeviceManager_response"

definition UserManager_msgProcess :: "bytes \<Rightarrow> effect \<times> bytes" where
  "UserManager_msgProcess = device_msgProcess 0x6021 UserManager_response"

definition AuthManager_msgProcess :: "bytes \<Rightarrow> effect \<times> bytes" where
  "AuthManager_msgProcess = device_msgProcess 0x6022 AuthManager_response"

definition ConferenceManager_msgProcess :: "bytes \<Rightarrow> effect \<times> bytes" where
  "ConferenceManager_msgProcess = device_msgProcess 0x6023 ConferenceManager_response"

definition UpgradeManager_msgProcess :: "bytes \<Rightarrow> effect \<times> bytes" where
  "UpgradeManager_msgProcess = device_msgProcess 0x6024 UpgradeManager_response"

definition ConfigManager_msgProcess :: "bytes \<Rightarrow> effect \<times> bytes" where
  "ConfigManager_msgProcess = device_msgProcess 0x6025 ConfigManager_response"

fun msgProcess :: "processor \<Rightarrow> bytes \<Rightarrow> effect \<times> bytes" where
  "msgProcess ConferenceDistributor msg = ConferenceDistributor_msgProcess msg"
| "msgProcess DeviceManager msg = DeviceManager_msgProcess msg"
| "msgProcess UserManager msg = UserManager_msgProcess msg"
| "msgProcess AuthManager msg = AuthManager_msgProcess msg"
| "msgProcess ConferenceManager msg = ConferenceManager_msgProcess msg"
| "msgProcess UpgradeManager msg = UpgradeManager_msgProcess msg"
| "msgProcess ConfigManager msg = ConfigManager_msgProcess msg"

end
