(* ===== verification/AsioServer.thy ===== *)
theory AsioServer
  imports DataProcess
begin

text \<open>
  \<open>testAsio.cpp\<close>, the server side: \<open>AsyncServer\<close> accepts connections, and an \<open>AsyncConnection\<close>
  collects the octets of its socket until \<open>msgGet\<close> finds messages, and has them processed.  The
  completion handlers are functions on the state of the program; what the sockets report is their
  argument.
\<close>

section \<open>State\<close>

abbreviation max_msg :: nat where "max_msg \<equiv> 65536"

type_synonym endpoint = "string \<times> int"

text \<open>What the calls on one socket report: \<open>None\<close> and \<open>False\<close> are a \<open>system_error\<close>.\<close>

record sock =
  remote_endpoint :: "endpoint option"
  local_endpoint :: "endpoint option"
  shutdown_ok :: bool
  close_ok :: bool

datatype crash = System_error | Fault fault

text \<open>\<open>m_is_open\<close>: whether the socket is open, which boost keeps.  The addresses are \<open>None\<close> until
  they are asked for.\<close>

record connection =
  m_connected :: bool
  read_buffer :: memory
  write_buffer :: memory
  m_read_pos :: nat
  m_write_pos :: nat
  mq_recv :: "bytes list"
  mstr_remote :: "endpoint option"
  mstr_local :: "endpoint option"
  m_is_open :: bool
  m_pserver :: nat

text \<open>\<open>m_accepting\<close>: the connection whose \<open>async_accept\<close> is outstanding.\<close>

record server =
  mstr_ip :: string
  mn_listenPort :: int
  mstr_tag :: bytes
  m_processor :: "processor option"
  m_started :: bool
  m_accepting :: "nat option"

text \<open>Servers and connections are numbered in the order of their construction.  \<open>m_process\<close> and
  \<open>s_conns\<close> are static members; \<open>reads\<close> and \<open>writes\<close> are the outstanding asynchronous operations.\<close>

record world =
  servers :: "server list"
  conns :: "connection list"
  m_process :: "processor option"
  s_conns :: "nat list"
  reads :: "nat list"
  writes :: "(nat \<times> bytes) list"

definition modify :: "nat \<Rightarrow> (connection \<Rightarrow> connection) \<Rightarrow> world \<Rightarrow> world" where
  "modify c f w = w\<lparr>conns := (conns w)[c := f (conns w ! c)]\<rparr>"

definition set_accepting :: "nat \<Rightarrow> nat option \<Rightarrow> world \<Rightarrow> world" where
  "set_accepting sid a w = w\<lparr>servers := (servers w)[sid := (servers w ! sid)\<lparr>m_accepting := a\<rparr>]\<rparr>"

section \<open>AsyncConnection\<close>

definition AsyncConnection :: "nat \<Rightarrow> connection" where
  "AsyncConnection pserver = \<lparr>m_connected = True, read_buffer = zeroed, write_buffer = zeroed,
     m_read_pos = 0, m_write_pos = 0, mq_recv = [], mstr_remote = None, mstr_local = None,
     m_is_open = True, m_pserver = pserver\<rparr>"

definition connected :: "nat \<Rightarrow> world \<Rightarrow> bool" where
  "connected c w = m_connected (conns w ! c)"

definition deleteConn :: "nat \<Rightarrow> world \<Rightarrow> world" where
  "deleteConn c w = w\<lparr>s_conns := remove1 c (s_conns w)\<rparr>"

text \<open>\<open>remote_endpoint\<close> also throws when the socket has been closed.\<close>

definition close :: "sock \<Rightarrow> nat \<Rightarrow> world \<Rightarrow> world \<times> crash option" where
  "close s c w =
     (let w1 = modify c (m_connected_update (\<lambda>_. False)) w in
      if \<not> m_is_open (conns w ! c) \<or> remote_endpoint s = None then (w1, Some System_error)
      else if \<not> shutdown_ok s then (w1, Some System_error)
      else (let w2 = modify c (m_is_open_update (\<lambda>_. False)) w1 in
        if \<not> close_ok s then (w2, Some System_error) else (deleteConn c w2, None)))"

definition do_read :: "nat \<Rightarrow> world \<Rightarrow> world" where
  "do_read c w = (if \<not> connected c w then w else w\<lparr>reads := reads w @ [c]\<rparr>)"

text \<open>The two forms of \<open>do_write\<close>: the first copies into \<open>write_buffer_\<close> without asking for its
  size; the second keeps the caller's pointer.\<close>

definition do_write_string :: "nat \<Rightarrow> bytes \<Rightarrow> world \<Rightarrow> world \<times> crash option" where
  "do_write_string c msg w =
     (if \<not> connected c w then (w, None)
      else if max_msg < length msg then (w, Some (Fault Bad_access))
      else ((modify c (write_buffer_update (put 0 msg)) w)\<lparr>writes := writes w @ [(c, msg)]\<rparr>, None))"

definition do_write :: "nat \<Rightarrow> bytes \<Rightarrow> world \<Rightarrow> world" where
  "do_write c msg w = (if \<not> connected c w then w else w\<lparr>writes := writes w @ [(c, msg)]\<rparr>)"

definition get_remote_ep :: "sock \<Rightarrow> nat \<Rightarrow> world \<Rightarrow> world \<times> int" where
  "get_remote_ep s c w = (case remote_endpoint s of None \<Rightarrow> (w, - 1)
     | Some ep \<Rightarrow> (modify c (mstr_remote_update (\<lambda>_. Some ep)) w, 0))"

definition get_local_ep :: "sock \<Rightarrow> nat \<Rightarrow> world \<Rightarrow> world \<times> int" where
  "get_local_ep s c w = (case local_endpoint s of None \<Rightarrow> (w, - 1)
     | Some ep \<Rightarrow> (modify c (mstr_local_update (\<lambda>_. Some ep)) w, 0))"

definition is_read_complete :: "bool \<Rightarrow> nat \<Rightarrow> memory \<Rightarrow> nat" where
  "is_read_complete err n buf = (if err then 0 else if 10 \<in> set (get 0 n buf) then 0 else 1)"

text \<open>The loop that empties \<open>mq_recv\<close>.\<close>

primrec process_queue :: "processor \<Rightarrow> nat \<Rightarrow> bytes list \<Rightarrow> world \<Rightarrow> world \<times> crash option" where
  "process_queue p c [] w = (w, None)"
| "process_queue p c (tmp # q) w =
     (let w1 = modify c (mq_recv_update (\<lambda>_. q)) w in
      case fst (msgProcess p tmp) of
        Silent \<Rightarrow> process_queue p c q w1
      | Sends out \<Rightarrow> process_queue p c q (do_write c out w1)
      | Faults f \<Rightarrow> (w1, Some (Fault f)))"

text \<open>The handling of \<open>bytes > 0\<close> octets, which boost has put at \<open>m_read_pos\<close>.  A server without a
  processor calls through a null pointer.\<close>

definition read_data :: "bytes \<Rightarrow> nat \<Rightarrow> world \<Rightarrow> world \<times> crash option" where
  "read_data data c w =
     (let k = conns w ! c; pos = m_read_pos k + length data; buf = put (m_read_pos k) data (read_buffer k);
          k1 = k\<lparr>read_buffer := buf, m_read_pos := pos\<rparr> in
      case m_processor (servers w ! m_pserver k) of
        None \<Rightarrow> (modify c (\<lambda>_. k1) w, Some (Fault Bad_access))
      | Some p \<Rightarrow> (case msgGet p (get 0 pos buf) of
          (q, Inl f) \<Rightarrow> (modify c (\<lambda>_. k1\<lparr>mq_recv := mq_recv k @ q\<rparr>) w, Some (Fault f))
        | (q, Inr ret) \<Rightarrow>
            (let k2 = k1\<lparr>mq_recv := mq_recv k @ q\<rparr>;
                 k3 = (if 0 < ret then k2\<lparr>read_buffer := put 0 (get ret (max_msg - ret) buf) buf, m_read_pos := pos - ret\<rparr>
                       else k2) in
             process_queue p c (mq_recv k @ q) (modify c (\<lambda>_. k3) w))))"

text \<open>Going on, unless something was thrown.\<close>

definition and_then :: "world \<times> crash option \<Rightarrow> (world \<Rightarrow> world \<times> crash option) \<Rightarrow> world \<times> crash option" where
  "and_then r f = (case snd r of None \<Rightarrow> f (fst r) | Some e \<Rightarrow> r)"

definition on_read :: "sock \<Rightarrow> bool \<Rightarrow> bytes \<Rightarrow> nat \<Rightarrow> world \<Rightarrow> world \<times> crash option" where
  "on_read s err data c w =
     and_then (if err then close s c w else (w, None)) (\<lambda>w.
       if \<not> connected c w then (w, None)
       else and_then (if data = [] then (w, None) else read_data data c w) (\<lambda>w. (do_read c w, None)))"

text \<open>The two addresses are asked for outside any \<open>try\<close>.\<close>

definition on_write :: "sock \<Rightarrow> bool \<Rightarrow> nat \<Rightarrow> world \<Rightarrow> world \<times> crash option" where
  "on_write s err c w =
     (if \<not> m_is_open (conns w ! c) \<or> remote_endpoint s = None \<or> local_endpoint s = None then (w, Some System_error)
      else if \<not> err then (w, None) else close s c w)"

section \<open>AsyncServer\<close>

text \<open>\<open>m_started_\<close> has no initial value: it is the argument \<open>junk\<close>.\<close>

definition AsyncServer :: "bool \<Rightarrow> string \<Rightarrow> int \<Rightarrow> bytes \<Rightarrow> world \<Rightarrow> world" where
  "AsyncServer junk ip port tag w =
     (let p = getProcessor tag (m_process w) in
      w\<lparr>m_process := p, servers := servers w @ [\<lparr>mstr_ip = ip, mn_listenPort = port, mstr_tag = tag,
        m_processor = p, m_started = junk, m_accepting = None\<rparr>]\<rparr>)"

text \<open>\<open>bound\<close>: opening, binding and listening succeed.\<close>

definition init :: "bool \<Rightarrow> nat \<Rightarrow> world \<Rightarrow> world \<times> int" where
  "init bound sid w = (if bound
     then (w\<lparr>servers := (servers w)[sid := (servers w ! sid)\<lparr>m_started := True\<rparr>]\<rparr>, 0) else (w, - 1))"

definition start_accept :: "nat \<Rightarrow> world \<Rightarrow> world" where
  "start_accept sid w =
     set_accepting sid (Some (length (conns w))) (w\<lparr>conns := conns w @ [AsyncConnection sid]\<rparr>)"

definition AsyncServer_start :: "bool \<Rightarrow> bool \<Rightarrow> string \<Rightarrow> int \<Rightarrow> bytes \<Rightarrow> world \<Rightarrow> world \<times> nat option" where
  "AsyncServer_start junk bound ip port tag w =
     (let sid = length (servers w); (w1, ret) = init bound sid (AsyncServer junk ip port tag w) in
      if ret = - 1 then (w1, None) else (start_accept sid w1, Some sid))"

definition stop :: "nat \<Rightarrow> world \<Rightarrow> world" where
  "stop sid w = (if \<not> m_started (servers w ! sid) then w
     else w\<lparr>servers := (servers w)[sid := (servers w ! sid)\<lparr>m_started := False\<rparr>]\<rparr>)"

definition on_accept :: "sock \<Rightarrow> bool \<Rightarrow> nat \<Rightarrow> nat \<Rightarrow> world \<Rightarrow> world" where
  "on_accept s err sid c w =
     (let (w1, ret) = get_remote_ep s c w in
      if ret \<noteq> 0 then w1
      else let (w2, ret2) = get_local_ep s c w1 in
        if ret2 \<noteq> 0 then w2
        else if err then w2
        else start_accept sid (do_read c (w2\<lparr>s_conns := s_conns w2 @ [c]\<rparr>)))"

section \<open>The event loop\<close>

text \<open>\<open>io_context::run\<close> calls the handlers of operations that were started, one at a time; a read
  puts at most as many octets into the buffer as it has room for.  A handler's exception leaves
  \<open>run\<close>, and ends the loop.\<close>

datatype event = Start bool bool string int bytes | Stop nat | Accepted nat sock bool
  | Received nat sock bool bytes | Written nat bytes sock bool

type_synonym config = "world \<times> crash option"

inductive asio_step :: "config \<Rightarrow> event \<Rightarrow> config \<Rightarrow> bool" where
  started: "asio_step (w, None) (Start junk bound ip port tag) (fst (AsyncServer_start junk bound ip port tag w), None)"
| stopped: "sid < length (servers w) \<Longrightarrow> asio_step (w, None) (Stop sid) (stop sid w, None)"
| accepted: "sid < length (servers w) \<Longrightarrow> m_accepting (servers w ! sid) = Some c \<Longrightarrow>
    asio_step (w, None) (Accepted sid s err) (on_accept s err sid c (set_accepting sid None w), None)"
| received: "c \<in> set (reads w) \<Longrightarrow> length data \<le> max_msg - m_read_pos (conns w ! c) \<Longrightarrow>
    asio_step (w, None) (Received c s err data) (on_read s err data c (w\<lparr>reads := remove1 c (reads w)\<rparr>))"
| written: "(c, out) \<in> set (writes w) \<Longrightarrow>
    asio_step (w, None) (Written c out s err) (on_write s err c (w\<lparr>writes := remove1 (c, out) (writes w)\<rparr>))"

inductive_cases asio_stepE: "asio_step cfg e cfg'"
inductive_simps asio_step_started: "asio_step cfg (Start junk bound ip port tag) cfg'"
inductive_simps asio_step_accepted: "asio_step cfg (Accepted sid s err) cfg'"
inductive_simps asio_step_received: "asio_step cfg (Received c s err data) cfg'"

inductive_simps asio_step_written: "asio_step cfg (Written c out s err) cfg'"

inductive asio_run :: "config \<Rightarrow> event list \<Rightarrow> config \<Rightarrow> bool" where
  finished: "asio_run cfg [] cfg"
| event: "asio_step cfg e cfg1 \<Longrightarrow> asio_run cfg1 es cfg' \<Longrightarrow> asio_run cfg (e # es) cfg'"

definition empty_world :: world where
  "empty_world = \<lparr>servers = [], conns = [], m_process = None, s_conns = [], reads = [], writes = []\<rparr>"

end
