(* ===== verification/AsioClients.thy ===== *)
theory AsioClients
  imports AsioServer
begin

text \<open>
  \<open>testAsio.cpp\<close>, the client side: \<open>AsyncClient\<close>, and the seven functions that build requests in a
  buffer and write them.  \<open>char\<close> literals are the bytes of the source file.
\<close>

section \<open>AsyncClient\<close>

text \<open>\<open>c_reads\<close> counts the outstanding reads; \<open>c_sent\<close> is what the socket has taken.\<close>

record async_client =
  c_connected :: bool
  c_open :: bool
  c_remote :: endpoint
  c_local :: "endpoint option"
  c_write_buffer :: memory
  c_reads :: nat
  c_sent :: bytes

text \<open>The constructor sets \<open>m_connected_\<close>; \<open>start\<close> only begins to connect.\<close>

definition AsyncClient_start :: "endpoint \<Rightarrow> async_client" where
  "AsyncClient_start ep = \<lparr>c_connected = True, c_open = True, c_remote = ep, c_local = None, c_write_buffer = zeroed,
     c_reads = 0, c_sent = []\<rparr>"

definition AsyncClient_stop :: "async_client \<Rightarrow> async_client" where
  "AsyncClient_stop c = (if \<not> c_connected c then c else c\<lparr>c_connected := False, c_open := False\<rparr>)"

definition AsyncClient_do_read :: "async_client \<Rightarrow> async_client" where
  "AsyncClient_do_read c = (if \<not> c_connected c then c else c\<lparr>c_reads := c_reads c + 1\<rparr>)"

text \<open>\<open>sent\<close>: \<open>send\<close> succeeds; its error is logged and forgotten.  The copy into \<open>m_write_buffer_\<close> does
  not ask for the size of the message.\<close>

definition AsyncClient_do_write :: "bool \<Rightarrow> bytes \<Rightarrow> async_client \<Rightarrow> async_client \<times> crash option" where
  "AsyncClient_do_write sent msg c =
     (if \<not> c_connected c then (c, None)
      else if max_msg < length msg then (c, Some (Fault Bad_access))
      else let c1 = c\<lparr>c_write_buffer := put 0 msg (c_write_buffer c)\<rparr> in
        if sent then (AsyncClient_do_read (c1\<lparr>c_sent := c_sent c @ msg\<rparr>), None) else (c1, None))"

text \<open>Both branches log a port number through \<open>%s\<close>, which reads a string at that address.\<close>

definition AsyncClient_on_connect :: "endpoint option \<Rightarrow> bool \<Rightarrow> async_client \<Rightarrow> async_client \<times> crash option" where
  "AsyncClient_on_connect local err c =
     (case local of None \<Rightarrow> (c, None)
      | Some ep \<Rightarrow> if \<not> err then (c\<lparr>c_connected := True, c_local := Some ep\<rparr>, Some (Fault Bad_access))
                   else (c, Some (Fault Bad_access)))"

definition AsyncClient_on_read :: "bool \<Rightarrow> async_client \<Rightarrow> async_client" where
  "AsyncClient_on_read err c = (if \<not> err then AsyncClient_do_read c else AsyncClient_stop c)"

definition AsyncClient_on_write :: "bool \<Rightarrow> async_client \<Rightarrow> async_client" where
  "AsyncClient_on_write err c = (if \<not> err then AsyncClient_do_read c else AsyncClient_stop c)"

text \<open>A function that writes several requests.\<close>

primrec write_all :: "bytes list \<Rightarrow> bool list \<Rightarrow> async_client \<Rightarrow> async_client \<times> crash option" where
  "write_all [] sents c = (c, None)"
| "write_all (m # ms) sents c =
     (case AsyncClient_do_write (hd sents) m c of (c, Some e) \<Rightarrow> (c, Some e) | (c, None) \<Rightarrow> write_all ms (tl sents) c)"

section \<open>Requests\<close>

text \<open>A conference request: members, lengths, text; then the octets that are written.\<close>

definition conference_put :: "16 word \<Rightarrow> nat \<Rightarrow> bytes \<Rightarrow> memory \<Rightarrow> memory" where
  "conference_put cmd msg_id msg b =
     (let len = sizeof_ConferenceMngHead + length msg in
      put (sizeof_Overload + sizeof_ConferenceMngHead) msg
        (put32 (conf CLen) (htonl (of_nat len))
          (put16 (Overload_at Len) (htons (of_nat (len + sizeof_Overload)))
            (put16 (conf Index) (htons 1) (put16 (conf Total) (htons 1)
              (put64 (conf Id) (htonll (of_nat msg_id)) (put16 (conf CCmd) (htons cmd) b)))))))"

definition conference_data :: "bytes \<Rightarrow> memory \<Rightarrow> bytes" where
  "conference_data msg b = get 0 (sizeof_Overload + (sizeof_ConferenceMngHead + length msg)) b"

definition conference_start :: "16 word \<Rightarrow> memory" where
  "conference_start tag = put (conf Version) [1, 2, 8, 5] (put16 (Overload_at Tag) (htons tag) zeroed)"

text \<open>A device request; its length is narrowed to a \<open>short\<close> on the way into the head.\<close>

definition device_put :: "nat \<Rightarrow> 32 word \<Rightarrow> 16 word \<Rightarrow> 32 word \<Rightarrow> bytes \<Rightarrow> memory \<Rightarrow> memory" where
  "device_put taskNo deviceNo cmdType cmd msg b =
     (let len = sizeof_DeviceMngHead + length msg + 4 in
      put (sizeof_Overload + sizeof_DeviceMngHead + length msg) (le 4 endtag)
        (put (sizeof_Overload + sizeof_DeviceMngHead) msg
          (put32 (dev DLen) (htonl (scast (of_nat (length msg) :: 16 word)))
            (put16 (Overload_at Len) (htons (of_nat len))
              (put16 (dev Ret) (htons 0) (put32 (dev Cmd) (htonl cmd) (put16 (dev CmdType) (htons cmdType)
                (put32 (dev DeviceNo) (htonl deviceNo) (put32 (dev TaskNo) (htonl (of_nat taskNo))
                  (put32 (dev Begin) 0xffffffff b))))))))))"

definition device_data :: "bytes \<Rightarrow> memory \<Rightarrow> bytes" where
  "device_data msg b = get 0 (sizeof_Overload + (sizeof_DeviceMngHead + length msg + 4)) b"

definition device_start :: "16 word \<Rightarrow> memory" where
  "device_start tag = put16 (Overload_at Tag) (htons tag) zeroed"

text \<open>Two requests from one buffer.\<close>

definition device_two :: "16 word \<Rightarrow> (32 word \<times> 32 word \<times> bytes) \<Rightarrow> (32 word \<times> 32 word \<times> bytes) \<Rightarrow> 16 word \<Rightarrow> bytes list" where
  "device_two tag r1 r2 cmdType =
     (case r1 of (no1, cmd1, msg1) \<Rightarrow> case r2 of (no2, cmd2, msg2) \<Rightarrow>
        let b1 = device_put 0 no1 cmdType cmd1 msg1 (device_start tag); b2 = device_put 1 no2 cmdType cmd2 msg2 b1
        in [device_data msg1 b1, device_data msg2 b2])"

section \<open>The texts\<close>

definition testConferenceDistributor_msg1 :: bytes where
  "testConferenceDistributor_msg1 =
     ascii ''{'' @
     ascii ''        \"userId\": \"7dd21363732911ea8362a4bf01303dd7\",'' @
     ascii ''        \"uuid\": \"5021846b3db911eba1e2a4bf01303dd7\",'' @
     ascii ''        \"content\": {'' @
     ascii ''        \"is_auto\": 1,'' @
     ascii ''        \"meet_type\": 0,'' @
     ascii ''        \"is_encry\": 0,'' @
     ascii ''        \"meet_name\": \"'' @
     [180, 180, 189, 168, 210, 187, 184, 246, 210, 187, 214, 220, 181, 196, 187, 225] @
     ascii ''\",'' @
     ascii ''        \"brige_master_ip\": \"\",'' @
     ascii ''        \"master_no\": \"100-321-2750-0-0\",'' @
     ascii ''        \"area_number\": 11,'' @
     ascii ''        \"devs\": ['' @
     ascii ''    {'' @
     ascii ''        \"dev_no\": \"00100-00321-01900-00000-00000\", '' @
     ascii ''            \"devName\": \"1900\",'' @
     ascii ''            \"devType\": 5,'' @
     ascii ''            \"hwType\": 0'' @
     ascii ''    },'' @
     ascii ''    {'' @
     ascii ''        \"dev_no\": \"00100-00321-02750-00000-00000\",'' @
     ascii ''        \"devName\": \"2750\",'' @
     ascii ''            \"devType\": 5,'' @
     ascii ''            \"hwType\": 0'' @
     ascii ''    }'' @
     ascii ''    ],'' @
     ascii ''    \"config_list\": ['' @
     ascii ''        {'' @
     ascii ''            \"output_mode_dvi\": 1,'' @
     ascii ''                \"display_source_dvi\": 0,'' @
     ascii ''                \"output_mode_hdmi\": 4,'' @
     ascii ''                \"display_source_hdmi\": 4501'' @
     ascii ''        }'' @
     ascii ''    ]'' @
     ascii ''}}''"

definition testConferenceDistributor_msg2 :: bytes where
  "testConferenceDistributor_msg2 =
     ascii ''{'' @
     ascii ''        \"userId\": \"7dd21363732911ea8362a4bf01303dd7\",'' @
     ascii ''        \"uuid\": \"5021846b3db911eba1e2a4bf01303dd7\",'' @
     ascii ''        \"content\": {'' @
     ascii ''        \"is_auto\": 1,'' @
     ascii ''        \"meet_type\": 0,'' @
     ascii ''        \"is_encry\": 0,'' @
     ascii ''        \"meet_name\": \"'' @
     [180, 180, 189, 168, 210, 187, 184, 246, 210, 187, 214, 220, 181, 196] @
     ascii ''\",'' @
     ascii ''        \"brige_master_ip\": \"\",'' @
     ascii ''        \"master_no\": \"100-321-2750-0-0\",'' @
     ascii ''        \"area_number\": 11,'' @
     ascii ''        \"devs\": ['' @
     ascii ''    {'' @
     ascii ''        \"dev_no\": \"00100-00321-01900-00000-00000\", '' @
     ascii ''            \"devName\": \"1900\",'' @
     ascii ''            \"devType\": 5,'' @
     ascii ''            \"hwType\": 0'' @
     ascii ''    },'' @
     ascii ''    {'' @
     ascii ''        \"dev_no\": \"00100-00321-02750-00000-00000\",'' @
     ascii ''        \"devName\": \"2750\",'' @
     ascii ''            \"devType\": 5,'' @
     ascii ''            \"hwType\": 0'' @
     ascii ''    }'' @
     ascii ''    ],'' @
     ascii ''    \"config_list\": ['' @
     ascii ''        {'' @
     ascii ''            \"output_mode_dvi\": 1,'' @
     ascii ''                \"display_source_dvi\": 0,'' @
     ascii ''                \"output_mode_hdmi\": 4,'' @
     ascii ''                \"display_source_hdmi\": 4501'' @
     ascii ''        }'' @
     ascii ''    ]'' @
     ascii ''}}''"

definition testDeviceManager_msg1 :: bytes where
  "testDeviceManager_msg1 =
     ascii ''{\"name\":\"gg\",\"pageno\":2,\"pagecount\":3}''"

definition testDeviceManager_msg2 :: bytes where
  "testDeviceManager_msg2 =
     ascii ''{\"accloudid\":\"3321\",\"name\":\"acss\",\"region\":\"111\",\"glip\":\"22\",\"glport\":\"33\",\"sn\":\"\",\"logid\":\"10086\",\"mac\":\"60:F2:FF:33:24:22\",'' @
     ascii ''        \"ether\":\"\",\"vlan\":\"2\",\"baksn\":\"\",\"baklogid\":\"\",\"bakmac\":\"60:F2:FF:33:24:21\",\"bakhbtimeout\":\"30\",\"level\":\"3\",\"numfix\":\"00101\",\"logfix\":'' @
     ascii ''        \"00000\",\"jfxxdz\":\"'' @
     [177, 177, 190, 169] @
     ascii ''\",\"jgh\":\"33\",\"zbjd\":\"\".\"zbwd\":\"\",\"fzr\":\"\",\"fzrdh\":\"\",\"khlxr\":\"\",\"khlxrdh\":\"\",\"yysm\":\"\",\"yyslxr\":\"\",'' @
     ascii ''        \"yyslxrdh\":\"\",\"azr\":\"\",\"azrdh\":\"\",\"topo\":\"\",\"operid\":\"\"}''"

definition testUserManager_msg1 :: bytes where
  "testUserManager_msg1 =
     ascii ''{   '' @
     ascii ''                \"user\":\"zhangsan1\",'' @
     ascii ''                \"passwd\" : \"e10adc3949ba59abbe56e057f20f883e\"'' @
     ascii ''                }''"

definition testUserManager_msg2 :: bytes where
  "testUserManager_msg2 =
     ascii ''{'' @
     ascii ''        \"loginName\":\"zhangsan1\",'' @
     ascii ''        \"access_token\" : \"e10adc3949ba59abbe56e057f20f883e\"'' @
     ascii ''        }''"

definition testAuthManager_msg1 :: bytes where
  "testAuthManager_msg1 =
     ascii ''{'' @
     ascii ''        \"user_id\": \"shenjiyuan\",'' @
     ascii ''        \"query\": {'' @
     ascii ''        \"begin_time\": \"2020-12-14 14:52:11\",'' @
     ascii ''        \"end_time\": \"2020-12-21 14:52:11\",'' @
     ascii ''        \"user_id\": \"zhangsan\",'' @
     ascii ''        \"moudle_type\": \"1\",'' @
     ascii ''        \"user_id\": \"shenjiyuan\",'' @
     ascii ''        \"event_type\": \"101\",'' @
     [9] @
     ascii ''        \"object_id\": \"\",'' @
     ascii ''        \"object_type\": \"\",'' @
     ascii ''        \"content\": \"\"}''"

definition testAuthManager_msg2 :: bytes where
  "testAuthManager_msg2 =
     ascii ''{'' @
     ascii ''        \"user_id\": \"shenjiyuan\",'' @
     ascii ''        \"query\": {'' @
     ascii ''        \"begin_time\": \"2020-12-14 14:52:11\",'' @
     ascii ''        \"end_time\": \"2020-12-21 14:52:11\",'' @
     ascii ''        \"moudle_type\": \"1\",'' @
     ascii ''        \"user_id\": \"shenjiyuan\",'' @
     ascii ''        \"event_type\": \"101\",'' @
     [9] @
     ascii ''        \"object_id\": \"\",'' @
     ascii ''        \"object_type\": \"\",'' @
     ascii ''        \"content\": \"\"}''"

definition testConferenceManager_msg1 :: bytes where
  "testConferenceManager_msg1 =
     ascii ''{\"startTime\":\"\",'' @
     ascii ''        \"endTime\":\"\",'' @
     ascii ''        \"creatorId\":\"\",'' @
     ascii ''        \"reqId \":\"\",'' @
     ascii ''        \"status\":\"\",'' @
     ascii ''        \"pageNum\":\"\",'' @
     ascii ''        \"pageSize\":\"\"}''"

definition testConferenceManager_msg2 :: bytes where
  "testConferenceManager_msg2 =
     ascii ''{\"startTime\":\"\",'' @
     ascii ''        \"endTime\":\"\",'' @
     ascii ''        \"creatorId\":\"\",'' @
     ascii ''        \"reqId\":\"\",'' @
     ascii ''        \"status\":\"2\"}''"

definition testUpgradeManager_msg1 :: bytes where
  "testUpgradeManager_msg1 =
     ascii ''{\"file_name\":\"\",'' @
     ascii ''        \"path\":\"\",'' @
     ascii ''        \"product\":\"\",'' @
     ascii ''        \"version\":\"\",'' @
     ascii ''        \"reqId\":\"\",'' @
     ascii ''        \"datetime\":\"\"}''"

definition testUpgradeManager_msg2 :: bytes where
  "testUpgradeManager_msg2 =
     ascii ''{'' @
     ascii ''        \"product\":\"\",'' @
     ascii ''        \"version\":\"\",'' @
     ascii ''        \"datetime\":\"\",'' @
     ascii ''        \"reqId\":\"\"}''"

definition testConfigManager_msg1 :: bytes where
  "testConfigManager_msg1 =
     ascii ''{\"file_name\":\"\",'' @
     ascii ''        \"path\":\"E:'' @
     [92] @
     ascii ''work'' @
     [92] @
     ascii ''CS'' @
     [92] @
     ascii ''CMSServer'' @
     [92] @
     ascii ''BoostAsio'' @
     [92] @
     ascii ''Debug\",'' @
     ascii ''        \"product\":\"qiushichanpingxianhuiyiguanliqiushichanpingxianhuiyiguanliqiushichanpingxianhuiyiguanli\",'' @
     ascii ''        \"version\":\"1.0.21.3\",'' @
     ascii ''        \"reqId\":\"qiushichanpingxianhuiyiguanliqiushichanpingxianhuiyiguanliqiushichanpingxianhuiyiguanli\",'' @
     ascii ''        \"path\":\"D:'' @
     [92] @
     ascii ''work'' @
     [92] @
     ascii ''CS'' @
     [92] @
     ascii ''CMSServer'' @
     [92] @
     ascii ''BoostAsio'' @
     [92] @
     ascii ''Debug\",'' @
     ascii ''        \"product\":\"qiushichanpingxianhuiyiguanliqiushichanpingxianhuiyiguanliqiushichanpingxianhuiyiguanliqiushichanpingxianhuiyiguanli\",'' @
     ascii ''        \"version\":\"1.0.21.31.0.21.31.0.21.31.0.21.31.0.21.31.0.21.31.0.21.3\",'' @
     ascii ''        \"reqId\":\"qiushichanpingxianhuiyiguanliqiushichanpingxianhuiyiguanliqiushichanpingxianhuiyiguanliqiushichanpingxianhuiyiguanli\",'' @
     ascii ''        \"path\":\"C:'' @
     [92] @
     ascii ''work'' @
     [92] @
     ascii ''CS'' @
     [92] @
     ascii ''CMSServer'' @
     [92] @
     ascii ''BoostAsio'' @
     [92] @
     ascii ''Debug\",'' @
     ascii ''        \"product\":\"qiushichanpingxianhuiyiguanliqiushichanpingxianhuiyiguanliqiushichanpingxianhuiyiguanliqiushichanpingxianhuiyiguanli\",'' @
     ascii ''        \"version\":\"1.0.21.31.0.21.31.0.21.31.0.21.1.0.21.31.0.21.31.0.21.31.0.21.331.0.21.31.0.21.3\",'' @
     ascii ''        \"reqId\":\"qiushichanpingxianhuiyiguanliqiushichanpingxianhuiyiguanliqiushichanpingxianhuiyiguanliqiushichanpingxianhuiyiguanli\",'' @
     ascii ''        \"path\":\"E:'' @
     [92] @
     ascii ''work'' @
     [92] @
     ascii ''CS'' @
     [92] @
     ascii ''CMSServer'' @
     [92] @
     ascii ''BoostAsio'' @
     [92] @
     ascii ''Debug\",'' @
     ascii ''        \"product\":\"qiushichanpingxianhuiyiguanliqiushichanpingxianhuiyiguanliqiushichanpingxianhuiyiguanli\",'' @
     ascii ''        \"version\":\"1.0.21.3\",'' @
     ascii ''        \"datetime\":\"2020-2010-2020:20202020202022020-2010-2020:20202020202022020-2010-2020:20202020202022020-2010-2020:2020202020202\"}''"

section \<open>The seven clients\<close>

definition testConferenceDistributor_requests :: "bytes list" where
  "testConferenceDistributor_requests =
     (let b1 = conference_put 0x0600 0 testConferenceDistributor_msg1 (conference_start 0x6012);
          b2 = conference_put 0x0601 1 testConferenceDistributor_msg2 b1
      in [conference_data testConferenceDistributor_msg1 b1, conference_data testConferenceDistributor_msg2 b2])"

definition testDeviceManager_requests :: "bytes list" where
  "testDeviceManager_requests = device_two 0x6020 (456, 101, testDeviceManager_msg1) (41, 102, testDeviceManager_msg2) 2"

definition testUserManager_requests :: "bytes list" where
  "testUserManager_requests = device_two 0x6021 (456, 101, testUserManager_msg1) (456, 121, testUserManager_msg2) 1"

definition testAuthManager_requests :: "bytes list" where
  "testAuthManager_requests = device_two 0x6022 (456, 1, testAuthManager_msg1) (456, 2, testAuthManager_msg2) 0x10"

definition testConferenceManager_requests :: "bytes list" where
  "testConferenceManager_requests =
     device_two 0x6023 (456, 601, testConferenceManager_msg1) (456, 602, testConferenceManager_msg2) 3"

definition testUpgradeManager_requests :: "bytes list" where
  "testUpgradeManager_requests =
     device_two 0x6024 (456, 703, testUpgradeManager_msg1) (456, 704, testUpgradeManager_msg2) 4"

definition testConfigManager_requests :: "bytes list" where
  "testConfigManager_requests =
     [device_data testConfigManager_msg1 (device_put 0 456 5 101 testConfigManager_msg1 (device_start 0x6025))]"

definition testConferenceDistributor :: "bool list \<Rightarrow> async_client \<Rightarrow> async_client \<times> crash option" where
  "testConferenceDistributor = write_all testConferenceDistributor_requests"

definition testDeviceManager :: "bool list \<Rightarrow> async_client \<Rightarrow> async_client \<times> crash option" where
  "testDeviceManager = write_all testDeviceManager_requests"

definition testUserManager :: "bool list \<Rightarrow> async_client \<Rightarrow> async_client \<times> crash option" where
  "testUserManager = write_all testUserManager_requests"

definition testAuthManager :: "bool list \<Rightarrow> async_client \<Rightarrow> async_client \<times> crash option" where
  "testAuthManager = write_all testAuthManager_requests"

definition testConferenceManager :: "bool list \<Rightarrow> async_client \<Rightarrow> async_client \<times> crash option" where
  "testConferenceManager = write_all testConferenceManager_requests"

definition testUpgradeManager :: "bool list \<Rightarrow> async_client \<Rightarrow> async_client \<times> crash option" where
  "testUpgradeManager = write_all testUpgradeManager_requests"

definition testConfigManager :: "bool list \<Rightarrow> async_client \<Rightarrow> async_client \<times> crash option" where
  "testConfigManager = write_all testConfigManager_requests"

end
