(* ===== verification/Framing.thy ===== *)
theory Framing
  imports Prelude
begin

text \<open>
  The interface that a stream splitter has to satisfy for the chunks of a stream not to matter: the
  message server takes conference messages off its connections with one, and the download of
  traces takes lines off what it receives with another.
\<close>

section \<open>Stream splitting\<close>

text \<open>\<open>split_msgs buff\<close>: the complete messages at the head of the buffer and the octets they take.\<close>

locale framing =
  fixes wf_msg :: "bytes \<Rightarrow> bool" and split_msgs :: "bytes \<Rightarrow> (bytes list \<times> nat) option"
  assumes none: "split_msgs [] = Some ([], 0)"
    and whole: "wf_msg m \<Longrightarrow> split_msgs rest = Some (q, n) \<Longrightarrow> split_msgs (m @ rest) = Some (m # q, length m + n)"
    and partial: "wf_msg (p @ s) \<Longrightarrow> s \<noteq> [] \<Longrightarrow> split_msgs p = Some ([], 0)"
begin

lemma wf_not_empty: "wf_msg m \<Longrightarrow> m \<noteq> []"
  using none whole [of m "[]" "[]" 0] by auto

text \<open>A prefix of a stream of messages: its whole messages are split off, and what remains is not.\<close>

lemma split_prefix:
  assumes "list_all wf_msg ms" "xs @ ys = concat ms"
  shows "\<exists>ms1 ms2 p. ms = ms1 @ ms2 \<and> xs = concat ms1 @ p \<and> p @ ys = concat ms2 \<and>
    split_msgs xs = Some (ms1, length (concat ms1)) \<and> (ms2 = [] \<or> length p < length (hd ms2))"
  using assms
proof (induction ms arbitrary: xs)
  case Nil
  then show ?case by (simp add: none)
next
  case (Cons m ms)
  show ?case
  proof (cases "length m \<le> length xs")
    case True
    with Cons.prems(2) obtain xs' where xs: "xs = m @ xs'" "xs' @ ys = concat ms"
      by (auto simp: append_eq_append_conv2)
    obtain ms1 ms2 p where IH: "ms = ms1 @ ms2" "xs' = concat ms1 @ p" "p @ ys = concat ms2"
        "split_msgs xs' = Some (ms1, length (concat ms1))" "ms2 = [] \<or> length p < length (hd ms2)"
      using Cons.IH [OF _ xs(2)] Cons.prems(1) by auto
    have "split_msgs xs = Some (m # ms1, length m + length (concat ms1))"
      using whole [OF _ IH(4), of m] Cons.prems(1) xs(1) by simp
    with IH xs show ?thesis
      by (intro exI [of _ "m # ms1"] exI [of _ ms2] exI [of _ p]) simp
  next
    case False
    with Cons.prems(2) obtain s where s: "m = xs @ s" "s \<noteq> []"
      by (auto simp: append_eq_append_conv2)
    then have "split_msgs xs = Some ([], 0)" using Cons.prems(1) partial [of xs s] by simp
    with Cons.prems(2) False show ?thesis
      by (intro exI [of _ "[]"] exI [of _ "m # ms"] exI [of _ xs]) simp
  qed
qed

text \<open>Reading a chunk: the buffered octets and the chunk are split, the messages handed over, and
  the octets handled are removed from the buffer.\<close>

definition chunk :: "bytes \<Rightarrow> bytes \<times> bytes list \<Rightarrow> bytes \<times> bytes list" where
  "chunk c s = (case s of (buf, got) \<Rightarrow> (case split_msgs (buf @ c) of
     None \<Rightarrow> (buf @ c, got) | Some (q, n) \<Rightarrow> (drop n (buf @ c), got @ q)))"

lemma chunks_prefix:
  assumes "list_all wf_msg ms" "concat cs @ ys = concat ms"
  shows "\<exists>ms1 ms2 p. ms = ms1 @ ms2 \<and> p @ ys = concat ms2 \<and> fold chunk cs ([], []) = (p, ms1) \<and>
    (ms2 = [] \<or> length p < length (hd ms2))"
  using assms(2)
proof (induction cs arbitrary: ys rule: rev_induct)
  case Nil
  then show ?case using assms(1) wf_not_empty by (cases ms) auto
next
  case (snoc c cs)
  obtain ms1 ms2 p where IH: "ms = ms1 @ ms2" "p @ (c @ ys) = concat ms2" "fold chunk cs ([], []) = (p, ms1)"
    using snoc.IH [of "c @ ys"] snoc.prems by auto
  have "list_all wf_msg ms2" "(p @ c) @ ys = concat ms2" using IH(1,2) assms(1) by simp_all
  then obtain ns1 ns2 r where r: "ms2 = ns1 @ ns2" "p @ c = concat ns1 @ r"
      "r @ ys = concat ns2" "split_msgs (p @ c) = Some (ns1, length (concat ns1))" "ns2 = [] \<or> length r < length (hd ns2)"
    using split_prefix by meson
  then have "fold chunk (cs @ [c]) ([], []) = (r, ms1 @ ns1)" using IH(3) by (simp add: chunk_def)
  with r IH(1) show ?case by (intro exI [of _ "ms1 @ ns1"] exI [of _ ns2] exI [of _ r]) simp
qed

text \<open>However a stream of messages is cut into chunks, exactly its messages come out, in order.\<close>

lemma chunks_whole:
  assumes "list_all wf_msg ms" "concat cs = concat ms"
  shows "fold chunk cs ([], []) = ([], ms)"
proof -
  obtain ms1 ms2 p where c: "ms = ms1 @ ms2" "p = concat ms2" "fold chunk cs ([], []) = (p, ms1)"
      "ms2 = [] \<or> length p < length (hd ms2)"
    using chunks_prefix [OF assms(1), of cs "[]"] assms(2) by auto
  then have "ms2 = []" by (cases ms2) auto
  with c show ?thesis by simp
qed

end

end
