(* ===== verification/DataProcessProps.thy ===== *)
theory DataProcessProps
  imports DataProcess Framing
begin

text \<open>
  Properties of the message server's framing and handlers: the instance of \<open>framing\<close> for the
  conference messages, the cases in which the device framing throws, and the bytes of an answer.
\<close>

section \<open>Conference messages\<close>

text \<open>A conference message announces its own length, and has at least a head.\<close>

definition conference_msg :: "bytes \<Rightarrow> bool" where
  "conference_msg m \<longleftrightarrow> msg_len m = length m \<and> sizeof_ConferenceMngHead < length m"

lemma msg_len_prefix: "4 \<le> length p \<Longrightarrow> msg_len (p @ s) = msg_len p"
  by (simp add: msg_len_def get_def mem_def nth_append upt_rec)

lemma msg_len_small: "msg_len m \<le> 65535"
  using unsigned_less [of "ntohs (get16 2 (mem m))", where ?'a = nat] by (simp add: msg_len_def)

lemma conference_loop_acc:
  assumes "conference_loop T tmp h q = Some r"
  shows "\<exists>q2 n2. r = (q @ q2, h + n2) \<and>
     (\<forall>T' h' q'. conference_loop T' tmp h' q' = Some (q' @ q2, h' + n2))"
proof (rule conference_loop.raw_induct [OF _ assms])
  fix loop T tmp h q r
  assume IH: "\<And>T tmp h q r. loop T tmp h q = Some r \<Longrightarrow> \<exists>q2 n2. r = (q @ q2, h + n2) \<and>
      (\<forall>T' h' q'. conference_loop T' tmp h' q' = Some (q' @ q2, h' + n2))"
    and step: "(if sizeof_ConferenceMngHead < length tmp then
        (let len = msg_len tmp in
         if 65536 < len then Some (q, T)
         else if length tmp < len then Some (q, h)
         else loop T (drop len tmp) (h + len) (q @ [take len tmp]))
      else Some (q, h)) = Some r"
  have small: "\<not> 65536 < msg_len tmp" using msg_len_small [of tmp] by simp
  show "\<exists>q2 n2. r = (q @ q2, h + n2) \<and>
     (\<forall>T' h' q'. conference_loop T' tmp h' q' = Some (q' @ q2, h' + n2))"
  proof (cases "sizeof_ConferenceMngHead < length tmp \<and> msg_len tmp \<le> length tmp")
    case False
    then have "r = (q, h)" using step small by (auto simp: Let_def split: if_splits)
    moreover have "conference_loop T' tmp h' q' = Some (q', h')" for T' h' q'
      using False small by (subst conference_loop.simps) (auto simp: Let_def)
    ultimately show ?thesis by (intro exI [of _ "[]"] exI [of _ 0]) simp
  next
    case True
    then have "loop T (drop (msg_len tmp) tmp) (h + msg_len tmp) (q @ [take (msg_len tmp) tmp]) = Some r"
      using step small by (simp add: Let_def)
    then obtain q2 n2 where q2: "r = ((q @ [take (msg_len tmp) tmp]) @ q2, h + msg_len tmp + n2)"
        "\<And>T' h' q'. conference_loop T' (drop (msg_len tmp) tmp) h' q' = Some (q' @ q2, h' + n2)"
      using IH by blast
    have "conference_loop T' tmp h' q' = Some (q' @ (take (msg_len tmp) tmp # q2), h' + (msg_len tmp + n2))" for T' h' q'
      using True small by (subst conference_loop.simps) (simp add: Let_def q2(2))
    with q2(1) show ?thesis
      by (intro exI [of _ "take (msg_len tmp) tmp # q2"] exI [of _ "msg_len tmp + n2"]) simp
  qed
qed

text \<open>One step of the splitter.\<close>

lemma conference_get_whole:
  assumes m: "conference_msg m" and rest: "ConferenceDistributor_msgGet rest = Some (q, n)"
  shows "ConferenceDistributor_msgGet (m @ rest) = Some (m # q, length m + n)"
proof -
  have len: "msg_len (m @ rest) = length m" "\<not> 65536 < msg_len (m @ rest)"
    using m msg_len_prefix [of m rest] msg_len_small [of "m @ rest"] by (simp_all add: conference_msg_def)
  have "conference_loop T rest h' q' = Some (q' @ q, h' + n)" for T h' q'
  proof (cases "length rest \<le> sizeof_ConferenceMngHead")
    case True
    with rest show ?thesis
      by (subst conference_loop.simps) (auto simp: ConferenceDistributor_msgGet_def)
  next
    case False
    with rest have "conference_loop (length rest) rest 0 [] = Some (q, n)"
      by (simp add: ConferenceDistributor_msgGet_def)
    from conference_loop_acc [OF this] show ?thesis by auto
  qed
  then have "conference_loop T (m @ rest) 0 [] = Some (m # q, length m + n)" for T
    using m len by (subst conference_loop.simps) (simp add: Let_def conference_msg_def)
  then show ?thesis using m by (simp add: ConferenceDistributor_msgGet_def conference_msg_def)
qed

lemma conference_get_partial:
  assumes "conference_msg (p @ s)" "s \<noteq> []"
  shows "ConferenceDistributor_msgGet p = Some ([], 0)"
proof (cases "length p \<le> sizeof_ConferenceMngHead")
  case True then show ?thesis by (simp add: ConferenceDistributor_msgGet_def)
next
  case False
  then have "msg_len p = length p + length s"
    using assms(1) msg_len_prefix [of p s] by (simp add: conference_msg_def)
  moreover have "\<not> 65536 < msg_len p" using msg_len_small [of p] by simp
  ultimately have "conference_loop T p 0 [] = Some ([], 0)" for T
    using False assms(2) by (subst conference_loop.simps) (simp add: Let_def)
  with False show ?thesis by (simp add: ConferenceDistributor_msgGet_def)
qed

interpretation conference: framing conference_msg ConferenceDistributor_msgGet
  by unfold_locales (simp_all add: ConferenceDistributor_msgGet_def [of "[]"] conference_get_whole
    conference_get_partial)

section \<open>Device messages\<close>

text \<open>What \<open>BaseProcess::msgGet\<close> takes for a message: the announced length counts neither the
  first 24 octets nor the last four.\<close>

definition device_frame :: "bytes \<Rightarrow> bool" where
  "device_frame m \<longleftrightarrow> length m = sizeof_DeviceMngHead + msg_len m + 4"

lemma msgGet_loop_acc:
  "msgGet_loop T tmp h q = (q @ fst (msgGet_loop 0 tmp 0 []), map_sum id (\<lambda>n. h + n) (snd (msgGet_loop 0 tmp 0 [])))"
proof (induction "length tmp" arbitrary: T tmp h q rule: less_induct)
  case less
  have small: "\<not> 65536 < msg_len tmp" using msg_len_small [of tmp] by simp
  let ?n = "28 + msg_len tmp"
  show ?case
  proof (cases "sizeof_DeviceMngHead < length tmp \<and> ?n \<le> length tmp")
    case True
    have "msgGet_loop T (drop ?n tmp) h' q' = (q' @ fst (msgGet_loop 0 (drop ?n tmp) 0 []),
        map_sum id (\<lambda>n. h' + n) (snd (msgGet_loop 0 (drop ?n tmp) 0 [])))" for T h' q'
      using True by (intro less) auto
    note IH = this
    have full: "msgGet_loop T tmp h q = (q @ take ?n tmp # fst (msgGet_loop 0 (drop ?n tmp) 0 []),
        map_sum id (\<lambda>n. h + ?n + n) (snd (msgGet_loop 0 (drop ?n tmp) 0 [])))" for T h q
      using True small IH [of T "h + ?n" "q @ [take ?n tmp]"]
      by (subst msgGet_loop.simps) (simp add: Let_def)
    show ?thesis
      unfolding full [of T h q] full [of 0 0 "[]"]
      by (cases "snd (msgGet_loop 0 (drop ?n tmp) 0 [])") (simp_all add: add.assoc)
  next
    case False
    then show ?thesis
      using small by (subst (1 2 3) msgGet_loop.simps) (auto simp: Let_def)
  qed
qed

lemma BaseProcess_msgGet_loop: "msgGet_loop T buff h q =
    (q @ fst (BaseProcess_msgGet buff), map_sum id (\<lambda>n. h + n) (snd (BaseProcess_msgGet buff)))"
proof (cases "length buff \<le> sizeof_DeviceMngHead")
  case True
  then show ?thesis by (subst msgGet_loop.simps) (simp add: BaseProcess_msgGet_def)
next
  case False
  then have b: "BaseProcess_msgGet buff = msgGet_loop (length buff) buff 0 []" by (simp add: BaseProcess_msgGet_def)
  show ?thesis
    unfolding b by (subst msgGet_loop_acc, subst (3 4) msgGet_loop_acc) (simp add: sum.map_comp comp_def id_def)
qed

lemma BaseProcess_msgGet_frame:
  assumes "device_frame m"
  shows "BaseProcess_msgGet (m @ rest) =
    (m # fst (BaseProcess_msgGet rest), map_sum id (\<lambda>n. length m + n) (snd (BaseProcess_msgGet rest)))"
proof -
  have len: "msg_len (m @ rest) = msg_len m" "\<not> 65536 < msg_len m" "sizeof_DeviceMngHead < length m"
    using assms msg_len_prefix [of m rest] msg_len_small [of m] by (simp_all add: device_frame_def)
  have "BaseProcess_msgGet (m @ rest) = msgGet_loop (length (m @ rest)) (m @ rest) 0 []"
    using len(3) by (simp add: BaseProcess_msgGet_def)
  also have "\<dots> = msgGet_loop (length (m @ rest)) rest (length m) [m]"
    using assms len by (subst msgGet_loop.simps) (simp add: Let_def device_frame_def)
  finally show ?thesis by (simp add: BaseProcess_msgGet_loop)
qed

lemma BaseProcess_msgGet_cut:
  assumes "device_frame (p @ s)" "s \<noteq> []"
  shows "BaseProcess_msgGet p =
    (if sizeof_DeviceMngHead < length p \<and> length s \<le> 4 then ([p], Inl Out_of_range) else ([], Inr 0))"
proof (cases "sizeof_DeviceMngHead < length p")
  case False then show ?thesis by (simp add: BaseProcess_msgGet_def)
next
  case True
  have len: "msg_len p + 28 = length p + length s" "\<not> 65536 < msg_len p"
    using assms(1) True msg_len_prefix [of p s] msg_len_small [of p] by (simp_all add: device_frame_def)
  have "0 < length s" using assms(2) by blast
  then have "length p < 28 + msg_len p" "length p < 24 + msg_len p \<longleftrightarrow> \<not> length s \<le> 4" using len(1) by linarith+
  with True len(2) show ?thesis
    unfolding BaseProcess_msgGet_def by (subst msgGet_loop.simps) (simp add: Let_def)
qed

text \<open>C13: \<open>BaseProcess::msgGet\<close> takes the complete messages off a stream, in order, and leaves an
  incomplete message for the next read, unless only part of that message's last four octets is
  missing: then it queues the truncated message and \<open>substr\<close> throws.\<close>
theorem BaseProcess_msgGet_stream:
  assumes "list_all device_frame ms" "device_frame (p @ s)" "s \<noteq> []"
  shows "BaseProcess_msgGet (concat ms @ p) =
    (if sizeof_DeviceMngHead < length p \<and> length s \<le> 4 then (ms @ [p], Inl Out_of_range)
     else (ms, Inr (length (concat ms))))"
  using assms(1)
proof (induction ms)
  case Nil
  show ?case using BaseProcess_msgGet_cut [OF assms(2,3)] by simp
next
  case (Cons m ms)
  then show ?case by (simp add: BaseProcess_msgGet_frame)
qed

section \<open>Handlers\<close>

text \<open>The octets of a message that an answer repeats.\<close>

lemma get_slice: "i + n \<le> length msg \<Longrightarrow> get i n (mem msg) = take n (drop i msg)"
  by (auto simp: get_def mem_def intro!: nth_equalityI)

lemma device_layout: "get 0 24 f = get 0 2 f @ get 2 2 f @ get 4 4 f @ get 8 4 f @ get 12 4 f @ get 16 2 f @
    get 18 4 f @ get 22 2 f"
  by (simp add: get_def upt_rec eval_nat_numeral)

lemma unle16_eq: "length v = 2 \<Longrightarrow> unle v = (w :: 16 word) \<longleftrightarrow> v = le 2 w"
  using le_unle [of v 2, where ?'a = 16] by auto

lemma ntohs_eq: "ntohs w = tag \<longleftrightarrow> w = htons tag"
  by (metis net_order(1,2))

lemma msg_tag: "4 \<le> length msg \<Longrightarrow> get16 0 (swap_overload (mem msg)) = tag \<longleftrightarrow> take 2 msg = rev (le 2 tag)"
  by (simp add: swap_overload_def get_slice ntohs_eq unle16_eq htons_bytes)

lemma le_zero [simp]: "le n 0 = replicate n 0"
  by (rule nth_equalityI) simp_all

lemma replicate_two: "replicate 2 x = [x, x]"
  by (simp add: numeral_2_eq_2)

lemma le_ones: "le 4 (0xffffffff :: 32 word) = replicate 4 255"
proof (rule nth_equalityI)
  have m: "(0xffffffff :: 32 word) = mask 32" "(255 :: 8 word) = mask 8" by (simp_all add: mask_eq_exp_minus_1)
  fix k :: nat assume "k < length (le 4 (0xffffffff :: 32 word))"
  then show "le 4 (0xffffffff :: 32 word) ! k = replicate 4 255 ! k"
    unfolding m by (simp add: bit_eq_iff bit_simps del: mask_numeral)
qed simp

lemma device_answer:
  assumes n: "dev Ret + 2 \<le> length msg" and tag: "take 2 msg = rev (le 2 tag)"
    and r: "reply_to (ntohl (unle (take 4 (drop 18 msg)))) = response" "response \<noteq> []" "length response \<le> 65000"
  shows "fst (device_msgProcess tag reply_to msg) = Sends
    (take 2 msg @ rev (le 2 (of_nat (sizeof_DeviceMngHead + length response + 4) :: 16 word)) @ replicate 4 255 @
     take 4 (drop 8 msg) @ take 4 (drop 12 msg) @ take 2 (drop 16 msg) @ take 4 (drop 18 msg) @ [0, 0] @
     response @ le 4 endtag)"
proof -
  let ?m1 = "swap_overload (mem msg)" let ?m2 = "swap_device ?m1"
  have g: "get i k ?m1 = take k (drop i msg)" if "4 \<le> i" "i + k \<le> length msg" for i k
    using that by (simp add: swap_overload_def get_slice)
  have cmd: "get32 18 ?m2 = ntohl (unle (take 4 (drop 18 msg)))" using n by (simp add: swap_device_def g)
  have tag1: "get16 0 ?m1 = tag" using n tag msg_tag [of msg tag] by simp
  let ?w = "put (24 + length response) (le 4 endtag) (put 24 response
    (put32 24 (ucast (htons (of_nat (length response))))
      (put16 2 (htons (of_nat (24 + length response + 4))) (device_header ?m2))))"
  have "fst (device_msgProcess tag reply_to msg) = Sends (get 0 (24 + length response + 4) ?w)"
    using n r tag1 cmd by (auto simp: device_msgProcess_def Let_def)
  moreover have "get 0 (24 + length response + 4) ?w = get 0 24 ?w @ get 24 (length response) ?w @ get (24 + length response) 4 ?w"
    using get_split [of 0 "24" "length response + 4" ?w] get_split [of 24 "length response" 4 ?w] by (simp add: add.assoc)
  moreover have "get 0 24 ?w = take 2 msg @ rev (le 2 (of_nat (24 + length response + 4) :: 16 word)) @ replicate 4 255 @
     take 4 (drop 8 msg) @ take 4 (drop 12 msg) @ take 2 (drop 16 msg) @ take 4 (drop 18 msg) @ [0, 0]"
    unfolding device_layout
    using n tag tag1
    by (simp add: device_header_def swap_device_def g htons_bytes le_ones endtag_def replicate_two)
  ultimately show ?thesis by simp
qed

text \<open>The six handlers of the device kind, by their tag and texts.\<close>

fun wire_tag :: "processor \<Rightarrow> 16 word" where
  "wire_tag ConferenceDistributor = 0x6012" | "wire_tag DeviceManager = 0x6020" | "wire_tag UserManager = 0x6021"
| "wire_tag AuthManager = 0x6022" | "wire_tag ConferenceManager = 0x6023" | "wire_tag UpgradeManager = 0x6024"
| "wire_tag ConfigManager = 0x6025"

fun device_reply :: "processor \<Rightarrow> 32 word \<Rightarrow> bytes" where
  "device_reply DeviceManager = DeviceManager_response" | "device_reply UserManager = UserManager_response"
| "device_reply AuthManager = AuthManager_response" | "device_reply ConferenceManager = ConferenceManager_response"
| "device_reply UpgradeManager = UpgradeManager_response" | "device_reply ConfigManager = ConfigManager_response"
| "device_reply ConferenceDistributor = (\<lambda>_. [])"

lemma device_kind: "p \<noteq> ConferenceDistributor \<Longrightarrow> msgProcess p msg = device_msgProcess (wire_tag p) (device_reply p) msg"
  by (cases p) (simp_all add: DeviceManager_msgProcess_def UserManager_msgProcess_def AuthManager_msgProcess_def
    ConferenceManager_msgProcess_def UpgradeManager_msgProcess_def ConfigManager_msgProcess_def)

lemma device_reply_bound: "length (device_reply p c) \<le> 455"
  using response_bound(2-) [of c] by (cases p) auto

text \<open>A handler of the device kind answers a message that carries its tag and a command it knows
  with one write: tag, total length, the begin mark, and the message's task, device, command type
  and command as they came, a zero status, and then at octet 24 the text and the end tag; so the
  text lies over the length member of the head, and its first four octets are what a reader of the
  head finds there.\<close>
theorem device_answers:
  assumes "p \<noteq> ConferenceDistributor" "dev Ret + 2 \<le> length msg" "take 2 msg = rev (le 2 (wire_tag p))"
    "device_reply p (ntohl (unle (take 4 (drop 18 msg)))) \<noteq> []"
  shows "\<exists>out. fst (msgProcess p msg) = Sends out \<and>
    take 24 out = take 2 msg @ rev (le 2 (of_nat (length out) :: 16 word)) @ replicate 4 255 @
      take 14 (drop 8 msg) @ [0, 0] \<and>
    drop 24 out = device_reply p (ntohl (unle (take 4 (drop 18 msg)))) @ le 4 endtag"
proof -
  let ?r = "device_reply p (ntohl (unle (take 4 (drop 18 msg))))"
  have r: "length ?r \<le> 65000" using device_reply_bound [of p "ntohl (unle (take 4 (drop 18 msg)))"] by simp
  have split: "take 4 (drop 8 msg) @ take 4 (drop 12 msg) @ take 2 (drop 16 msg) @ take 4 (drop 18 msg) = take 14 (drop 8 msg)"
    using take_add [of 4 10 "drop 8 msg"] take_add [of 4 6 "drop 12 msg"] take_add [of 2 4 "drop 16 msg"] by simp
  let ?out = "take 2 msg @ rev (le 2 (of_nat (24 + length ?r + 4) :: 16 word)) @ replicate 4 255 @
     take 14 (drop 8 msg) @ [0, 0] @ ?r @ le 4 endtag"
  have "fst (msgProcess p msg) = Sends ?out"
    using device_answer [where reply_to = "device_reply p" and response = ?r, OF assms(2,3) refl assms(4) r]
    unfolding device_kind [OF assms(1)] split [symmetric] by simp
  moreover have "length ?out = 24 + length ?r + 4" using assms(2) by simp
  ultimately show ?thesis using assms(2) by (intro exI [of _ ?out]) simp
qed

lemma wire_tag_bytes: "rev (le 2 (wire_tag p)) = [0x60, (case p of ConferenceDistributor \<Rightarrow> 0x12 | DeviceManager \<Rightarrow> 0x20
    | UserManager \<Rightarrow> 0x21 | AuthManager \<Rightarrow> 0x22 | ConferenceManager \<Rightarrow> 0x23 | UpgradeManager \<Rightarrow> 0x24
    | ConfigManager \<Rightarrow> 0x25)]" (is "_ = [0x60, ?b]")
proof -
  have "unle [?b, 0x60] = wire_tag p" by (cases p) simp_all
  then have "le 2 (wire_tag p) = [?b, 0x60]" using unle16_eq [of "[?b, 0x60]" "wire_tag p"] by simp
  then show ?thesis by simp
qed

text \<open>A device message of task 7, device 9, command 102, as far as the handlers read it.\<close>

definition device_request :: bytes where
  "device_request = [0x60, 0x20, 0, 32] @ replicate 4 255 @ [0, 0, 0, 7, 0, 0, 0, 9, 0, 2, 0, 0, 0, 102, 0, 0]"

lemma ntohl_102: "ntohl (unle [0, 0, 0, 102]) = 102"
proof -
  have "le 4 (unle [0, 0, 0, 102] :: 32 word) = [0, 0, 0, 102]" by (rule le_unle) simp_all
  then show ?thesis unfolding ntohl_def by simp
qed

theorem device_answers_witness:
  "\<exists>out. fst (msgProcess DeviceManager device_request) = Sends out \<and>
    take 24 out = take 2 device_request @ rev (le 2 (of_nat (length out) :: 16 word)) @ replicate 4 255 @
      take 14 (drop 8 device_request) @ [0, 0] \<and>
    drop 24 out = device_reply DeviceManager (ntohl (unle (take 4 (drop 18 device_request)))) @ le 4 endtag"
proof (rule device_answers)
  have cmd: "take 4 (drop 18 device_request) = [0, 0, 0, 102]"
    by (simp add: device_request_def)
  have "length DeviceManager_response_102 \<noteq> 0" using response_lengths(4) by simp
  then show "device_reply DeviceManager (ntohl (unle (take 4 (drop 18 device_request)))) \<noteq> []"
    unfolding cmd ntohl_102 by (auto simp: DeviceManager_response_def)
  show "take 2 device_request = rev (le 2 (wire_tag DeviceManager))"
    unfolding wire_tag_bytes by (simp add: device_request_def numeral_2_eq_2)
qed (simp_all add: device_request_def)

section \<open>Memory safety\<close>

lemma msgGet_loop_long:
  "list_all (\<lambda>m. sizeof_DeviceMngHead < length m) (fst (msgGet_loop T tmp h []))"
proof (induction "length tmp" arbitrary: tmp h rule: less_induct)
  case less
  let ?n = "28 + msg_len tmp"
  have small: "\<not> 65536 < msg_len tmp" using msg_len_small [of tmp] by simp
  show ?case
  proof (cases "sizeof_DeviceMngHead < length tmp \<and> ?n \<le> length tmp")
    case True
    have "msgGet_loop T tmp h [] = msgGet_loop T (drop ?n tmp) (h + ?n) [take ?n tmp]"
      using True small by (subst msgGet_loop.simps) (simp add: Let_def)
    also have "fst \<dots> = take ?n tmp # fst (msgGet_loop T (drop ?n tmp) 0 [])"
      by (subst msgGet_loop_acc, subst (2) msgGet_loop_acc) simp
    finally have "fst (msgGet_loop T tmp h []) = take ?n tmp # fst (msgGet_loop T (drop ?n tmp) 0 [])" .
    moreover have "length (drop ?n tmp) < length tmp" using True by (simp only: length_drop) linarith
    ultimately show ?thesis using less [of "drop ?n tmp" 0] True by simp
  next
    case False
    then show ?thesis using small by (subst msgGet_loop.simps) (auto simp: Let_def)
  qed
qed

lemma device_no_fault:
  assumes "sizeof_DeviceMngHead \<le> length msg" "\<And>c. length (reply_to c) \<le> 65000"
  shows "fst (device_msgProcess tag reply_to msg) \<noteq> Faults f"
proof -
  have "\<not> 65536 < 24 + length (reply_to c) + 4" for c using assms(2) [of c] by linarith
  with assms(1) show ?thesis by (auto simp: device_msgProcess_def Let_def)
qed

text \<open>C14: whatever octets arrive, every message that \<open>BaseProcess::msgGet\<close> queues is long enough for
  every handler of the device kind: no handler reads or writes outside the message or its buffer.\<close>
theorem device_handlers_safe:
  assumes "p \<noteq> ConferenceDistributor" "m \<in> set (fst (msgGet p buff))"
  shows "fst (msgProcess p m) \<noteq> Faults f"
proof -
  have "sizeof_DeviceMngHead < length m"
    using assms msgGet_loop_long [of "length buff" buff 0]
    by (auto simp: msgGet_def BaseProcess_msgGet_def list_all_iff split: if_splits)
  moreover have "length (device_reply p c) \<le> 65000" for c
    using device_reply_bound [of p c] by simp
  ultimately show ?thesis
    unfolding device_kind [OF assms(1)] by (intro device_no_fault) simp_all
qed

lemma conference_loop_zero:
  assumes "sizeof_ConferenceMngHead < length tmp" "msg_len tmp = 0"
  shows "conference_loop T tmp h q = None"
proof (cases "conference_loop T tmp h q")
  case (Some r)
  then obtain q2 n2 where all: "r = (q @ q2, h + n2)"
      "\<And>T' h' q'. conference_loop T' tmp h' q' = Some (q' @ q2, h' + n2)"
    using conference_loop_acc [OF Some] by blast
  have "conference_loop T tmp h q = conference_loop T tmp h (q @ [[]])"
    by (subst conference_loop.simps) (use assms in \<open>simp add: Let_def\<close>)
  with Some all show ?thesis by simp
qed simp

lemma conference_loop_first:
  assumes "sizeof_ConferenceMngHead < length tmp" "msg_len tmp \<le> length tmp" "conference_loop T tmp h [] = Some (q, n)"
  shows "\<exists>q'. q = take (msg_len tmp) tmp # q'"
proof -
  have "conference_loop T tmp h [] = conference_loop T (drop (msg_len tmp) tmp) (h + msg_len tmp) [take (msg_len tmp) tmp]"
    using assms(1,2) msg_len_small [of tmp] by (subst conference_loop.simps) (simp add: Let_def)
  with assms(3) show ?thesis using conference_loop_acc by fastforce
qed

text \<open>A conference message may announce any length from 4 to 25: it is queued, and the handler,
  which reads the whole head behind its tag, touches memory beyond it; one that announces length
  0 is taken again and again, and the read never returns.\<close>
theorem conference_short_faults:
  assumes "sizeof_ConferenceMngHead < length buff" "take 2 buff = rev (le 2 (wire_tag ConferenceDistributor))"
  shows "(msg_len buff = 0 \<longrightarrow> msgGet ConferenceDistributor buff = ([], Inl Endless)) \<and>
    (4 \<le> msg_len buff \<and> msg_len buff < 26 \<and> msg_len buff \<le> length buff \<longrightarrow>
      (\<forall>q n. msgGet ConferenceDistributor buff = (q, Inr n) \<longrightarrow>
         fst (msgProcess ConferenceDistributor (hd q)) = Faults Bad_access))"
proof (intro conjI impI allI)
  assume "msg_len buff = 0"
  with assms(1) show "msgGet ConferenceDistributor buff = ([], Inl Endless)"
    by (simp add: msgGet_def ConferenceDistributor_msgGet_def conference_loop_zero)
next
  fix q n
  assume len: "4 \<le> msg_len buff \<and> msg_len buff < 26 \<and> msg_len buff \<le> length buff"
    and get: "msgGet ConferenceDistributor buff = (q, Inr n)"
  let ?m = "take (msg_len buff) buff"
  have "conference_loop (length buff) buff 0 [] = Some (q, n)"
    using get assms(1) by (auto simp: msgGet_def ConferenceDistributor_msgGet_def split: option.splits)
  then have q: "hd q = ?m" using conference_loop_first [OF assms(1)] len by fastforce
  have m: "length ?m = msg_len buff" using len by simp
  have "take 2 ?m = take 2 buff" using len by (simp add: min_def)
  then have "get16 0 (swap_overload (mem ?m)) = 0x6012" using msg_tag [of ?m] assms(2) len by simp
  with len m show "fst (msgProcess ConferenceDistributor (hd q)) = Faults Bad_access"
    unfolding q by (auto simp: ConferenceDistributor_msgProcess_def Let_def)
qed

theorem conference_short_faults_witness:
  "msgGet ConferenceDistributor ([0x60, 0x12] @ replicate 21 0) = ([], Inl Endless)"
proof -
  have "msg_len ([0x60, 0x12] @ replicate 21 0) = 0"
    by (simp add: msg_len_def get_def mem_def upt_rec eval_nat_numeral ntohs_def)
  then show ?thesis
    using conference_short_faults [of "[0x60, 0x12] @ replicate 21 0"] unfolding wire_tag_bytes
    by (simp add: numeral_2_eq_2)
qed

text \<open>A complete message with no text.\<close>

definition device_note :: bytes where "device_note = [0x60, 0x20] @ replicate 26 0"

lemma device_note_frame: "device_frame device_note"
  by (simp add: device_frame_def device_note_def msg_len_def get_def mem_def upt_rec eval_nat_numeral ntohs_def)

theorem BaseProcess_msgGet_stream_witness:
  "BaseProcess_msgGet (device_note @ [0x60, 0x20] @ replicate 24 0) =
    ([device_note, [0x60, 0x20] @ replicate 24 0], Inl Out_of_range)"
proof -
  have "([0x60, 0x20] @ replicate 24 0) @ [0, 0] = device_note"
    by (simp add: device_note_def eval_nat_numeral)
  then show ?thesis
    using BaseProcess_msgGet_stream [of "[device_note]" "[0x60, 0x20] @ replicate 24 0" "[0, 0]"]
      device_note_frame by simp
qed

theorem device_handlers_safe_witness: "fst (msgProcess DeviceManager device_note) \<noteq> Faults Bad_access"
proof (rule device_handlers_safe [of _ _ device_note])
  show "device_note \<in> set (fst (msgGet DeviceManager device_note))"
    using BaseProcess_msgGet_frame [OF device_note_frame, of "[]"] by (simp add: msgGet_def)
qed simp

end
