(* ===== verification/AsioServerProps.thy ===== *)
theory AsioServerProps
  imports AsioServer DataProcessProps
begin

text \<open>
  Properties of the server: the invariant of its event loop, what becomes of the accept loop, what a
  connection makes of the stream it reads, and the two ways in which a connection goes wrong.
\<close>

section \<open>The octets taken\<close>

lemma conference_loop_bound:
  assumes "conference_loop T tmp h q = Some r" "h + length tmp \<le> T"
  shows "snd r \<le> T"
proof -
  have "h + length tmp \<le> T \<longrightarrow> snd r \<le> T"
  proof (rule conference_loop.raw_induct [OF _ assms(1)])
    fix loop T tmp h q r
    assume IH: "\<And>T tmp h q r. loop T tmp h q = Some r \<Longrightarrow> h + length tmp \<le> T \<longrightarrow> snd r \<le> T"
      and step: "(if sizeof_ConferenceMngHead < length tmp then
        (let len = msg_len tmp in
         if 65536 < len then Some (q, T)
         else if length tmp < len then Some (q, h)
         else loop T (drop len tmp) (h + len) (q @ [take len tmp]))
      else Some (q, h)) = Some r"
    then show "h + length tmp \<le> T \<longrightarrow> snd r \<le> T"
      using IH [of T "drop (msg_len tmp) tmp" "h + msg_len tmp" "q @ [take (msg_len tmp) tmp]" r]
      by (auto simp: Let_def split: if_splits)
  qed
  with assms(2) show ?thesis by blast
qed

lemma BaseProcess_msgGet_bound: "snd (BaseProcess_msgGet buff) = Inr n \<Longrightarrow> n \<le> length buff"
proof -
  have "snd (msgGet_loop T tmp h q) = Inr n \<Longrightarrow> h + length tmp \<le> T \<Longrightarrow> n \<le> T" for T tmp h q
  proof (induction T tmp h q rule: msgGet_loop.induct)
    case (1 T tmp h q)
    show ?case
      using 1(2,3) 1(1) [OF _ refl _ _ refl refl] by (subst (asm) msgGet_loop.simps) (auto simp: Let_def split: if_splits)
  qed
  then show "snd (BaseProcess_msgGet buff) = Inr n \<Longrightarrow> n \<le> length buff"
    by (auto simp: BaseProcess_msgGet_def split: if_splits)
qed

lemma msgGet_bound: "msgGet p buff = (q, Inr n) \<Longrightarrow> n \<le> length buff"
  using BaseProcess_msgGet_bound [of buff n] conference_loop_bound [of "length buff" buff 0 "[]"]
  by (auto simp: msgGet_def ConferenceDistributor_msgGet_def split: if_splits option.splits)

section \<open>What the handlers leave alone\<close>

lemma modify_simps [simp]:
  "servers (modify c f w) = servers w" "m_process (modify c f w) = m_process w" "s_conns (modify c f w) = s_conns w"
  "reads (modify c f w) = reads w" "writes (modify c f w) = writes w" "length (conns (modify c f w)) = length (conns w)"
  by (simp_all add: modify_def)

lemma modify_nth: "c < length (conns w) \<Longrightarrow> conns (modify c f w) ! i = (if i = c then f (conns w ! c) else conns w ! i)"
  by (simp add: modify_def nth_list_update)

text \<open>\<open>keeps c w w'\<close>: the same servers, registrations and outstanding reads, connections that differ
  in their buffers and queues at most, and new writes on \<open>c\<close> only.\<close>

definition keeps :: "nat \<Rightarrow> world \<Rightarrow> world \<Rightarrow> bool" where
  "keeps c w w' \<longleftrightarrow> servers w' = servers w \<and> m_process w' = m_process w \<and> s_conns w' = s_conns w \<and> reads w' = reads w \<and>
     (\<forall>x \<in> set (writes w'). x \<in> set (writes w) \<or> fst x = c) \<and>
     length (conns w') = length (conns w) \<and>
     (\<forall>i < length (conns w). m_connected (conns w' ! i) = m_connected (conns w ! i) \<and>
        m_pserver (conns w' ! i) = m_pserver (conns w ! i) \<and> m_is_open (conns w' ! i) = m_is_open (conns w ! i))"

lemma keeps_refl [simp]: "keeps c w w" by (auto simp: keeps_def)

lemma keeps_trans:
  assumes "keeps c w w1" "keeps c w1 w2"
  shows "keeps c w w2"
proof -
  have "x \<in> set (writes w) \<or> fst x = c" if "x \<in> set (writes w2)" for x
    using assms that unfolding keeps_def by metis
  with assms show ?thesis by (simp add: keeps_def)
qed

lemma keeps_modify:
  assumes "c < length (conns w)" "m_connected (f (conns w ! c)) = m_connected (conns w ! c)"
    "m_pserver (f (conns w ! c)) = m_pserver (conns w ! c)" "m_is_open (f (conns w ! c)) = m_is_open (conns w ! c)"
  shows "keeps c w (modify c f w)"
  using assms by (auto simp: keeps_def modify_nth)

lemma keeps_do_write: "keeps c w (do_write c out w)"
  by (auto simp: keeps_def do_write_def)

lemma do_write_conns [simp]: "conns (do_write c out w) = conns w"
  by (simp add: do_write_def)

lemma process_queue_keeps:
  "c < length (conns w) \<Longrightarrow> keeps c w (fst (process_queue p c q w)) \<and>
    (\<forall>i. m_read_pos (conns (fst (process_queue p c q w)) ! i) = m_read_pos (conns w ! i)) \<and>
    (\<forall>i. read_buffer (conns (fst (process_queue p c q w)) ! i) = read_buffer (conns w ! i))"
proof (induction q arbitrary: w)
  case (Cons tmp q)
  let ?w = "modify c (mq_recv_update (\<lambda>_. q)) w"
  have w: "keeps c w ?w" "\<And>i. m_read_pos (conns ?w ! i) = m_read_pos (conns w ! i)"
      "\<And>i. read_buffer (conns ?w ! i) = read_buffer (conns w ! i)" "c < length (conns ?w)"
    using Cons.prems by (auto simp: keeps_modify modify_nth)
  show ?case
  proof (cases "fst (msgProcess p tmp)")
    case (Sends out)
    have "keeps c w (do_write c out ?w)" using keeps_trans [OF w(1) keeps_do_write] .
    then show ?thesis
      using Sends Cons.IH [of "do_write c out ?w"] w keeps_trans by (auto simp: Let_def)
  next
    case Silent
    then show ?thesis using Cons.IH [of ?w] w keeps_trans by (auto simp: Let_def)
  next
    case (Faults f)
    then show ?thesis using w by (simp add: Let_def)
  qed
qed simp

lemma read_data_keeps:
  assumes c: "c < length (conns w)" and "length data \<le> max_msg - m_read_pos (conns w ! c)"
    "\<And>i. i < length (conns w) \<Longrightarrow> m_read_pos (conns w ! i) \<le> max_msg"
  shows "keeps c w (fst (read_data data c w)) \<and> (\<forall>i < length (conns w). m_read_pos (conns (fst (read_data data c w)) ! i) \<le> max_msg)"
proof -
  have step: "keeps c w (modify c (\<lambda>_. k) w) \<and> (\<forall>i < length (conns w). m_read_pos (conns (modify c (\<lambda>_. k) w) ! i) \<le> max_msg)"
    if "m_connected k = m_connected (conns w ! c)" "m_pserver k = m_pserver (conns w ! c)"
      "m_is_open k = m_is_open (conns w ! c)" "m_read_pos k \<le> max_msg" for k
    using that c assms(3) by (auto simp: keeps_modify modify_nth)
  have queue: "keeps c w (fst (process_queue p c q (modify c (\<lambda>_. k) w))) \<and>
      (\<forall>i < length (conns w). m_read_pos (conns (fst (process_queue p c q (modify c (\<lambda>_. k) w))) ! i) \<le> max_msg)"
    if "m_connected k = m_connected (conns w ! c)" "m_pserver k = m_pserver (conns w ! c)"
      "m_is_open k = m_is_open (conns w ! c)" "m_read_pos k \<le> max_msg" for p q k
    using step [OF that] process_queue_keeps [of c "modify c (\<lambda>_. k) w" p q] c keeps_trans by auto
  show ?thesis
    using assms(2) assms(3) [OF c] c
    by (auto simp: read_data_def Let_def step queue split: option.splits sum.splits prod.splits)
qed

section \<open>The invariant of the event loop\<close>

text \<open>Everything refers to servers and connections that exist; buffers hold what fits; a connection is
  registered once and read by one operation at a time; the connection a server accepts next is its
  own and not in use.\<close>

definition server_ok :: "world \<Rightarrow> bool" where
  "server_ok w \<longleftrightarrow>
     (\<forall>i < length (conns w). m_read_pos (conns w ! i) \<le> max_msg \<and> m_pserver (conns w ! i) < length (servers w)) \<and>
     distinct (s_conns w) \<and> (\<forall>c \<in> set (s_conns w). c < length (conns w)) \<and>
     distinct (reads w) \<and> (\<forall>c \<in> set (reads w). c < length (conns w)) \<and>
     (\<forall>x \<in> set (writes w). fst x < length (conns w)) \<and>
     (\<forall>sid < length (servers w). \<forall>c. m_accepting (servers w ! sid) = Some c \<longrightarrow>
        c < length (conns w) \<and> c \<notin> set (s_conns w) \<and> c \<notin> set (reads w) \<and> c \<notin> fst ` set (writes w) \<and>
        m_connected (conns w ! c) \<and> m_pserver (conns w ! c) = sid)"

text \<open>Every registered connection is connected and waits for octets.\<close>

definition attended :: "world \<Rightarrow> bool" where
  "attended w \<longleftrightarrow> (\<forall>c \<in> set (s_conns w). connected c w \<and> c \<in> set (reads w))"

definition config_ok :: "config \<Rightarrow> bool" where
  "config_ok cfg \<longleftrightarrow> server_ok (fst cfg) \<and> (snd cfg = None \<longrightarrow> attended (fst cfg))"

lemma server_okI [intro?]:
  assumes "\<And>i. i < length (conns w) \<Longrightarrow> m_read_pos (conns w ! i) \<le> max_msg \<and> m_pserver (conns w ! i) < length (servers w)"
    "distinct (s_conns w)" "\<And>c. c \<in> set (s_conns w) \<Longrightarrow> c < length (conns w)"
    "distinct (reads w)" "\<And>c. c \<in> set (reads w) \<Longrightarrow> c < length (conns w)"
    "\<And>x. x \<in> set (writes w) \<Longrightarrow> fst x < length (conns w)"
    "\<And>sid c. sid < length (servers w) \<Longrightarrow> m_accepting (servers w ! sid) = Some c \<Longrightarrow>
        c < length (conns w) \<and> c \<notin> set (s_conns w) \<and> c \<notin> set (reads w) \<and> c \<notin> fst ` set (writes w) \<and>
        m_connected (conns w ! c) \<and> m_pserver (conns w ! c) = sid"
  shows "server_ok w"
  unfolding server_ok_def using assms by simp

lemma server_okD:
  assumes "server_ok w"
  shows "i < length (conns w) \<Longrightarrow> m_read_pos (conns w ! i) \<le> max_msg"
    "i < length (conns w) \<Longrightarrow> m_pserver (conns w ! i) < length (servers w)"
    "distinct (s_conns w)" "c \<in> set (s_conns w) \<Longrightarrow> c < length (conns w)"
    "distinct (reads w)" "c \<in> set (reads w) \<Longrightarrow> c < length (conns w)"
    "x \<in> set (writes w) \<Longrightarrow> fst x < length (conns w)"
    "sid < length (servers w) \<Longrightarrow> m_accepting (servers w ! sid) = Some c \<Longrightarrow>
        c < length (conns w) \<and> c \<notin> set (s_conns w) \<and> c \<notin> set (reads w) \<and> c \<notin> fst ` set (writes w) \<and>
        m_connected (conns w ! c) \<and> m_pserver (conns w ! c) = sid"
  using assms unfolding server_ok_def by auto

lemma server_ok_keeps:
  assumes ok: "server_ok w" and k: "keeps c w w'" and c: "c < length (conns w)"
    "\<And>sid. sid < length (servers w) \<Longrightarrow> m_accepting (servers w ! sid) \<noteq> Some c"
    and pos: "\<And>i. i < length (conns w) \<Longrightarrow> m_read_pos (conns w' ! i) \<le> max_msg"
  shows "server_ok w'"
proof
  fix x assume "x \<in> set (writes w')"
  then show "fst x < length (conns w')" using k c server_okD(7) [OF ok, of x] by (auto simp: keeps_def)
next
  fix sid d assume sid: "sid < length (servers w')" "m_accepting (servers w' ! sid) = Some d"
  then have d: "d < length (conns w) \<and> d \<notin> set (s_conns w) \<and> d \<notin> set (reads w) \<and> d \<notin> fst ` set (writes w) \<and>
      m_connected (conns w ! d) \<and> m_pserver (conns w ! d) = sid" "d \<noteq> c"
    using k c server_okD(8) [OF ok, of sid d] by (auto simp: keeps_def)
  have "d \<notin> fst ` set (writes w')"
  proof
    assume "d \<in> fst ` set (writes w')"
    then obtain x where "x \<in> set (writes w')" "d = fst x" by blast
    with k d show False by (auto simp: keeps_def)
  qed
  with d k show "d < length (conns w') \<and> d \<notin> set (s_conns w') \<and> d \<notin> set (reads w') \<and> d \<notin> fst ` set (writes w') \<and>
        m_connected (conns w' ! d) \<and> m_pserver (conns w' ! d) = sid"
    by (simp add: keeps_def)
qed (use k pos server_okD(2-6) [OF ok] in \<open>auto simp: keeps_def\<close>)

lemma attended_keeps: "attended w \<Longrightarrow> server_ok w \<Longrightarrow> keeps c w w' \<Longrightarrow> attended w'"
  using server_okD(4) [of w] by (auto simp: attended_def connected_def keeps_def)

text \<open>Closing a connection unregisters it, or throws.\<close>

lemma close_effect:
  assumes "c < length (conns w)"
  shows "servers (fst (close s c w)) = servers w" "m_process (fst (close s c w)) = m_process w"
    "reads (fst (close s c w)) = reads w" "writes (fst (close s c w)) = writes w"
    "length (conns (fst (close s c w))) = length (conns w)"
    "s_conns (fst (close s c w)) = (if snd (close s c w) = None then remove1 c (s_conns w) else s_conns w)"
    "m_connected (conns (fst (close s c w)) ! i) = (i \<noteq> c \<and> m_connected (conns w ! i))"
    "m_read_pos (conns (fst (close s c w)) ! i) = m_read_pos (conns w ! i)"
    "m_pserver (conns (fst (close s c w)) ! i) = m_pserver (conns w ! i)"
  using assms by (auto simp: close_def Let_def deleteConn_def modify_nth)

lemma server_ok_close:
  assumes ok: "server_ok w" and c: "c < length (conns w)"
    "\<And>sid. sid < length (servers w) \<Longrightarrow> m_accepting (servers w ! sid) \<noteq> Some c"
  shows "server_ok (fst (close s c w))"
proof
qed (use server_okD [OF ok] c(2) in \<open>auto simp: close_effect [OF c(1)] distinct_remove1 dest: notin_set_remove1 set_mp [OF set_remove1_subset]
    split: if_splits\<close>)

lemma attended_close:
  assumes "server_ok w" "c < length (conns w)" "\<And>i. i \<in> set (s_conns w) \<Longrightarrow> i \<noteq> c \<Longrightarrow> connected i w \<and> i \<in> set (reads w)"
    "snd (close s c w) = None"
  shows "attended (fst (close s c w))"
  using assms server_okD(3) [OF assms(1)] by (auto simp: attended_def connected_def close_effect)

lemma do_read_simps [simp]:
  "servers (do_read c w) = servers w" "conns (do_read c w) = conns w" "s_conns (do_read c w) = s_conns w"
  "writes (do_read c w) = writes w" "m_process (do_read c w) = m_process w"
  by (simp_all add: do_read_def)

lemma server_ok_do_read:
  assumes ok: "server_ok w" and c: "c < length (conns w)" "c \<notin> set (reads w)"
    "\<And>sid. sid < length (servers w) \<Longrightarrow> m_accepting (servers w ! sid) \<noteq> Some c"
  shows "server_ok (do_read c w)"
proof
qed (use server_okD [OF ok] c in \<open>auto simp: do_read_def split: if_splits\<close>)

lemma keeps_accepting: "keeps c w w' \<Longrightarrow> servers w' = servers w"
  by (simp add: keeps_def)

lemma on_read_ok:
  assumes ok: "server_ok w" and att: "attended w" and c: "c \<in> set (reads w)"
    and room: "length data \<le> max_msg - m_read_pos (conns w ! c)"
  shows "config_ok (on_read s err data c (w\<lparr>reads := remove1 c (reads w)\<rparr>))"
proof -
  let ?w = "w\<lparr>reads := remove1 c (reads w)\<rparr>"
  have len: "c < length (conns ?w)" using server_okD(6) [OF ok c] by simp
  have notin: "c \<notin> set (reads ?w)" using server_okD(5) [OF ok] by simp
  have acc: "m_accepting (servers ?w ! sid) \<noteq> Some c" if "sid < length (servers ?w)" for sid
    using server_okD(8) [OF ok, of sid c] that c by auto
  have ok0: "server_ok ?w"
    by standard (use server_okD [OF ok] in \<open>auto dest: notin_set_remove1 set_mp [OF set_remove1_subset]\<close>)
  have others: "connected i ?w \<and> i \<in> set (reads ?w)" if "i \<in> set (s_conns ?w)" "i \<noteq> c" for i
    using att that by (auto simp: attended_def connected_def)
  have me: "connected c ?w" if "c \<in> set (s_conns ?w)" using att that by (auto simp: attended_def connected_def)
  have again: "server_ok (do_read c w') \<and> attended (do_read c w')"
    if k: "keeps c ?w w'" and pos: "\<And>i. i < length (conns ?w) \<Longrightarrow> m_read_pos (conns w' ! i) \<le> max_msg"
      and conn: "connected c ?w" for w'
  proof
    have "c < length (conns w')" "c \<notin> set (reads w')" "connected c w'"
      using k len notin conn by (auto simp: keeps_def connected_def)
    then show "server_ok (do_read c w')"
      using server_ok_do_read [OF server_ok_keeps [OF ok0 k len acc pos], of c] acc keeps_accepting [OF k] by auto
    have "connected i (do_read c w') \<and> i \<in> set (reads (do_read c w'))" if "i \<in> set (s_conns w')" for i
    proof (cases "i = c")
      case False
      with that k others [of i] server_okD(4) [OF ok0, of i] show ?thesis
        by (auto simp: do_read_def connected_def keeps_def)
    qed (use \<open>connected c w'\<close> in \<open>simp add: do_read_def connected_def\<close>)
    moreover have "s_conns (do_read c w') = s_conns w'" by (simp add: do_read_def)
    ultimately show "attended (do_read c w')" by (simp add: attended_def)
  qed
  show ?thesis
  proof (cases err)
    case True
    have "server_ok (fst (close s c ?w))" by (rule server_ok_close [OF ok0 len acc])
    moreover have "attended (fst (close s c ?w))" if "snd (close s c ?w) = None"
      using attended_close [OF ok0 len others that] .
    moreover have "\<not> connected c (fst (close s c ?w))" by (simp add: connected_def close_effect [OF len])
    ultimately show ?thesis
      using True by (auto simp: on_read_def and_then_def config_ok_def split: option.splits)
  next
    case False
    show ?thesis
    proof (cases "connected c ?w")
      case False
      then have "attended ?w" using others me unfolding attended_def by metis
      with False \<open>\<not> err\<close> ok0 show ?thesis by (simp add: on_read_def and_then_def config_ok_def)
    next
      case conn: True
      let ?r = "if data = [] then (?w, None) else read_data data c ?w"
      have k: "keeps c ?w (fst ?r)" "\<And>i. i < length (conns ?w) \<Longrightarrow> m_read_pos (conns (fst ?r) ! i) \<le> max_msg"
        using read_data_keeps [OF len, of data] room server_okD(1) [OF ok0] by auto
      have "server_ok (fst ?r)" by (rule server_ok_keeps [OF ok0 k(1) len acc k(2)])
      then show ?thesis
        using again [OF k conn] \<open>\<not> err\<close> conn
        by (cases "data = []") (simp_all add: on_read_def and_then_def config_ok_def split: option.splits)
    qed
  qed
qed

lemma on_write_ok:
  assumes ok: "server_ok w" and att: "attended w" and out: "(c, out) \<in> set (writes w)"
  shows "config_ok (on_write s err c (w\<lparr>writes := remove1 (c, out) (writes w)\<rparr>))"
proof -
  let ?w = "w\<lparr>writes := remove1 (c, out) (writes w)\<rparr>"
  have sub: "set (writes ?w) \<subseteq> set (writes w)" using set_remove1_subset by simp
  have ok0: "server_ok ?w"
  proof (standard, goal_cases)
    case (7 sid d)
    then show ?case using server_okD(8) [OF ok, of sid d] image_mono [OF sub, of fst] by auto
  qed (use server_okD [OF ok] sub in auto)
  have att0: "attended ?w" using att by (simp add: attended_def connected_def)
  have len: "c < length (conns ?w)" using server_okD(7) [OF ok out] by simp
  have acc: "m_accepting (servers ?w ! sid) \<noteq> Some c" if "sid < length (servers ?w)" for sid
    using server_okD(8) [OF ok, of sid c] that out by force
  have "attended (fst (close s c ?w))" if "snd (close s c ?w) = None"
    using attended_close [OF ok0 len _ that] att0 by (auto simp: attended_def)
  with server_ok_close [OF ok0 len acc] ok0 att0 show ?thesis
    by (auto simp: on_write_def config_ok_def)
qed

lemma servers_set_accepting: "sid < length (servers w) \<Longrightarrow> servers (set_accepting sid a w) ! i =
    (if i = sid then (servers w ! sid)\<lparr>m_accepting := a\<rparr> else servers w ! i)"
  by (simp add: set_accepting_def nth_list_update)

lemma set_accepting_simps [simp]:
  "conns (set_accepting sid a w) = conns w" "s_conns (set_accepting sid a w) = s_conns w"
  "reads (set_accepting sid a w) = reads w" "writes (set_accepting sid a w) = writes w"
  "length (servers (set_accepting sid a w)) = length (servers w)" "m_process (set_accepting sid a w) = m_process w"
  by (simp_all add: set_accepting_def)

lemma start_accept_ok:
  assumes ok: "server_ok w" and att: "attended w" and sid: "sid < length (servers w)"
  shows "server_ok (start_accept sid w) \<and> attended (start_accept sid w)"
proof
  have fresh: "length (conns w) \<notin> set (s_conns w)" "length (conns w) \<notin> set (reads w)"
      "length (conns w) \<notin> fst ` set (writes w)"
    using server_okD(4,6) [OF ok] server_okD(7) [OF ok] by (blast, blast, fastforce)
  show "server_ok (start_accept sid w)"
    unfolding start_accept_def
  proof (standard, goal_cases)
    case (1 i)
    then show ?case using server_okD(1,2) [OF ok, of i] sid
      by (auto simp: AsyncConnection_def nth_append less_Suc_eq)
  next
    case (7 i d)
    then show ?case using sid fresh server_okD(8) [OF ok, of i d]
      by (auto simp: servers_set_accepting AsyncConnection_def nth_append split: if_splits)
  qed (use server_okD [OF ok] in \<open>auto simp: less_Suc_eq\<close>)
  show "attended (start_accept sid w)"
    using att server_okD(4) [OF ok] by (auto simp: attended_def connected_def start_accept_def nth_append)
qed

lemma keeps_remote: "c < length (conns w) \<Longrightarrow> keeps c w (fst (get_remote_ep s c w))"
  by (auto simp: get_remote_ep_def intro!: keeps_modify split: option.splits)

lemma keeps_local: "c < length (conns w) \<Longrightarrow> keeps c w (fst (get_local_ep s c w))"
  by (auto simp: get_local_ep_def intro!: keeps_modify split: option.splits)

lemma ep_pos [simp]:
  "m_read_pos (conns (fst (get_remote_ep s c w)) ! i) = m_read_pos (conns w ! i)"
  "m_read_pos (conns (fst (get_local_ep s c w)) ! i) = m_read_pos (conns w ! i)"
  by (cases "c < length (conns w)"; simp add: get_remote_ep_def get_local_ep_def modify_nth list_update_beyond split: option.splits;
      simp add: modify_def)+

lemma on_accept_ok:
  assumes ok: "server_ok w" and att: "attended w" and sid: "sid < length (servers w)"
    and c: "m_accepting (servers w ! sid) = Some c"
  shows "server_ok (on_accept s err sid c (set_accepting sid None w)) \<and>
    attended (on_accept s err sid c (set_accepting sid None w))"
proof -
  note cD = server_okD(8) [OF ok sid c]
  let ?w = "set_accepting sid None w"
  have ok0: "server_ok ?w"
  proof (standard, goal_cases)
    case (7 i d)
    then show ?case using server_okD(8) [OF ok, of i d] sid by (auto simp: servers_set_accepting split: if_splits)
  qed (use server_okD [OF ok] in auto)
  have att0: "attended ?w" using att by (simp add: attended_def connected_def)
  have free: "m_accepting (servers ?w ! i) \<noteq> Some c" if "i < length (servers ?w)" for i
    using server_okD(8) [OF ok, of i c] that sid cD by (auto simp: servers_set_accepting)
  have len: "c < length (conns ?w)" using cD by simp
  have kept: "server_ok w' \<and> attended w'"
    if "keeps c ?w w'" "\<And>i. m_read_pos (conns w' ! i) = m_read_pos (conns ?w ! i)" for w'
    using server_ok_keeps [OF ok0 that(1) len free] attended_keeps [OF att0 ok0 that(1)] that(2) server_okD(1) [OF ok0] by simp
  have reg: "server_ok (do_read c (w'\<lparr>s_conns := s_conns w' @ [c]\<rparr>)) \<and> attended (do_read c (w'\<lparr>s_conns := s_conns w' @ [c]\<rparr>)) \<and>
      sid < length (servers w')"
    if k: "keeps c ?w w'" and pos: "\<And>i. m_read_pos (conns w' ! i) = m_read_pos (conns ?w ! i)" for w'
  proof (intro conjI)
    have ok': "server_ok w'" and att': "attended w'" using kept [OF that] by auto
    have w': "c \<notin> set (s_conns w')" "c \<notin> set (reads w')" "m_connected (conns w' ! c)" "c < length (conns w')"
        "servers w' = servers ?w"
      using k cD by (auto simp: keeps_def)
    have "server_ok (w'\<lparr>s_conns := s_conns w' @ [c]\<rparr>)"
    proof (standard, goal_cases)
      case (7 i d)
      then show ?case using server_okD(8) [OF ok', of i d] free [of i] w' by auto
    qed (use server_okD [OF ok'] w' in auto)
    then show "server_ok (do_read c (w'\<lparr>s_conns := s_conns w' @ [c]\<rparr>))"
      by (rule server_ok_do_read) (use w' free in auto)
    show "attended (do_read c (w'\<lparr>s_conns := s_conns w' @ [c]\<rparr>))"
      using att' w' by (auto simp: attended_def do_read_def connected_def)
    show "sid < length (servers w')" using w' sid by simp
  qed
  let ?w1 = "fst (get_remote_ep s c ?w)"
  let ?w2 = "fst (get_local_ep s c ?w1)"
  have k1: "keeps c ?w ?w1" by (rule keeps_remote [OF len])
  then have "c < length (conns ?w1)" using len by (simp add: keeps_def)
  then have k2: "keeps c ?w ?w2" using keeps_trans [OF k1 keeps_local] by blast
  show ?thesis
    using kept [OF k1] kept [OF k2] reg [OF k2] start_accept_ok [where sid = sid]
    by (simp add: on_accept_def Let_def split_beta)
qed

lemma AsyncServer_start_ok:
  assumes ok: "server_ok w" and att: "attended w"
  shows "server_ok (fst (AsyncServer_start junk bound ip port tag w)) \<and> attended (fst (AsyncServer_start junk bound ip port tag w))"
proof -
  let ?w = "fst (init bound (length (servers w)) (AsyncServer junk ip port tag w))"
  have w: "conns ?w = conns w" "s_conns ?w = s_conns w" "reads ?w = reads w" "writes ?w = writes w"
      "length (servers ?w) = Suc (length (servers w))"
      "\<And>i. i < length (servers w) \<Longrightarrow> servers ?w ! i = servers w ! i"
      "m_accepting (servers ?w ! length (servers w)) = None"
    by (simp_all add: init_def AsyncServer_def Let_def nth_append)
  have "server_ok ?w"
  proof (standard, goal_cases)
    case (7 i d)
    then have "i < length (servers w)" using w(5,7) by (cases "i = length (servers w)") auto
    then show ?case using server_okD(8) [OF ok, of i d] 7 w by simp
  next
    case (1 i)
    then show ?case using server_okD(1,2) [OF ok, of i] w by simp
  qed (use server_okD [OF ok] w in auto)
  moreover have "attended ?w" using att w by (simp add: attended_def connected_def)
  ultimately show ?thesis
    using start_accept_ok [of ?w "length (servers w)"] w(5)
    by (auto simp: AsyncServer_start_def Let_def split_beta)
qed

lemma stop_ok:
  assumes ok: "server_ok w" and att: "attended w"
  shows "server_ok (stop sid w) \<and> attended (stop sid w)"
proof
  have acc: "m_accepting (servers (stop sid w) ! i) = m_accepting (servers w ! i)" if "i < length (servers w)" for i
    using that by (cases "i = sid") (auto simp: stop_def)
  show "server_ok (stop sid w)"
  proof (standard, goal_cases)
    case (7 i d)
    then show ?case using server_okD(8) [OF ok, of i d] acc [of i] by (auto simp: stop_def split: if_splits)
  qed (use server_okD [OF ok] in \<open>auto simp: stop_def split: if_splits\<close>)
  show "attended (stop sid w)" using att by (auto simp: attended_def connected_def stop_def)
qed

lemma asio_step_ok: "asio_step cfg e cfg' \<Longrightarrow> config_ok cfg \<Longrightarrow> config_ok cfg'"
proof (induction rule: asio_step.induct)
  case (started w junk bound ip port tag)
  then show ?case using AsyncServer_start_ok by (simp add: config_ok_def)
next
  case (stopped sid w)
  then show ?case using stop_ok by (simp add: config_ok_def)
next
  case (accepted sid w c s err)
  then show ?case using on_accept_ok by (simp add: config_ok_def)
next
  case (received c w data s err)
  then show ?case using on_read_ok by (simp add: config_ok_def)
next
  case (written c out w s err)
  then show ?case using on_write_ok by (simp add: config_ok_def)
qed

lemma asio_run_ok: "asio_run cfg es cfg' \<Longrightarrow> config_ok cfg \<Longrightarrow> config_ok cfg'"
  by (induction rule: asio_run.induct) (auto dest: asio_step_ok)

lemma empty_world_ok: "config_ok (empty_world, None)"
  by (simp add: config_ok_def server_ok_def attended_def empty_world_def)

text \<open>C11: whatever happens, in whatever order, the event loop of the server keeps its bookkeeping
  consistent: a buffer never holds more than it has room for, each registered connection is
  connected and has exactly one outstanding read, and the connection that a server is about to
  accept belongs to it, is in use nowhere and has not been closed.\<close>
theorem server_invariant:
  assumes "asio_run (empty_world, None) es (w, None)"
  shows "(\<forall>i < length (conns w). m_read_pos (conns w ! i) \<le> max_msg) \<and> distinct (reads w) \<and> distinct (s_conns w) \<and>
    (\<forall>c \<in> set (s_conns w). c < length (conns w) \<and> connected c w \<and> c \<in> set (reads w)) \<and>
    (\<forall>sid < length (servers w). \<forall>c. m_accepting (servers w ! sid) = Some c \<longrightarrow> c < length (conns w) \<and>
       m_pserver (conns w ! c) = sid \<and> connected c w \<and> c \<notin> set (s_conns w) \<union> set (reads w) \<union> fst ` set (writes w))"
proof -
  have "server_ok w" "attended w" using asio_run_ok [OF assms empty_world_ok] by (simp_all add: config_ok_def)
  then show ?thesis using server_okD [of w] by (simp add: attended_def connected_def)
qed

section \<open>The accept loop\<close>

lemma servers_effects [simp]:
  "servers (do_write c out w) = servers w"
  "servers (fst (close s c w)) = servers w"
  "servers (fst (on_write s err c w)) = servers w"
  by (auto simp: do_write_def close_def Let_def deleteConn_def on_write_def)

lemma servers_process_queue [simp]: "servers (fst (process_queue p c q w)) = servers w"
  by (induction q arbitrary: w) (auto simp: Let_def split: effect.splits)

lemma servers_read_data [simp]: "servers (fst (read_data data c w)) = servers w"
  by (auto simp: read_data_def Let_def split: option.splits sum.splits prod.splits)

lemma servers_and_then: "servers (fst r) = servers w \<Longrightarrow> (\<And>w'. servers w' = servers w \<Longrightarrow> servers (fst (f w')) = servers w) \<Longrightarrow>
    servers (fst (and_then r f)) = servers w"
  by (simp add: and_then_def split: option.split)

lemma servers_on_read [simp]: "servers (fst (on_read s err data c w)) = servers w"
  unfolding on_read_def by (auto intro!: servers_and_then)

lemma accepting_start_accept: "sid < length (servers w) \<Longrightarrow>
    m_accepting (servers (start_accept sid w) ! i) = (if i = sid then Some (length (conns w)) else m_accepting (servers w ! i))"
  by (auto simp: start_accept_def servers_set_accepting)

lemma servers_ep [simp]: "servers (fst (get_remote_ep s c w)) = servers w" "servers (fst (get_local_ep s c w)) = servers w"
  by (auto simp: get_remote_ep_def get_local_ep_def split: option.splits)

lemma length_servers_start_accept [simp]: "length (servers (start_accept sid w)) = length (servers w)"
  by (simp add: start_accept_def)

lemma accepting_on_accept: "sid < length (servers w) \<Longrightarrow>
    length (servers (on_accept s err sid c w)) = length (servers w) \<and>
    (i \<noteq> sid \<longrightarrow> m_accepting (servers (on_accept s err sid c w) ! i) = m_accepting (servers w ! i))"
  by (auto simp: on_accept_def Let_def split_beta accepting_start_accept)

text \<open>A server that is not accepting never accepts again.\<close>

lemma not_accepting_step:
  assumes "asio_step cfg e cfg'" "sid < length (servers (fst cfg))" "m_accepting (servers (fst cfg) ! sid) = None"
  shows "sid < length (servers (fst cfg')) \<and> m_accepting (servers (fst cfg') ! sid) = None"
  using assms
proof (induction rule: asio_step.induct)
  case (started w junk bound ip port tag)
  then show ?case
    by (auto simp: AsyncServer_start_def Let_def init_def AsyncServer_def accepting_start_accept nth_append
      nth_list_update)
next
  case (stopped i w)
  then show ?case by (auto simp: stop_def nth_list_update)
next
  case (accepted i w c s err)
  then have "i \<noteq> sid" by auto
  with accepted show ?case by (simp add: accepting_on_accept servers_set_accepting)
qed simp_all

lemma not_accepting_run:
  "asio_run cfg es cfg' \<Longrightarrow> sid < length (servers (fst cfg)) \<Longrightarrow> m_accepting (servers (fst cfg) ! sid) = None \<Longrightarrow>
    sid < length (servers (fst cfg')) \<and> m_accepting (servers (fst cfg') ! sid) = None"
  by (induction rule: asio_run.induct) (auto dest: not_accepting_step)

text \<open>C12: when an \<open>async_accept\<close> completes without an error and both ends of the new connection are
  known, the server registers it, starts reading from it and waits for the next one, on a fresh
  connection; after any other completion it never accepts a connection again, whatever happens.\<close>
theorem accept_loop:
  assumes "asio_run (empty_world, None) es (w, None)" "sid < length (servers w)" "m_accepting (servers w ! sid) = Some c"
    "asio_step (w, None) (Accepted sid s err) (w1, None)"
  shows "if \<not> err \<and> remote_endpoint s \<noteq> None \<and> local_endpoint s \<noteq> None
    then c \<in> set (s_conns w1) \<and> c \<in> set (reads w1) \<and> m_accepting (servers w1 ! sid) = Some (length (conns w))
    else \<forall>es' cfg s' err' cfg'. asio_run (w1, None) es' cfg \<longrightarrow> \<not> asio_step cfg (Accepted sid s' err') cfg'"
proof -
  have "server_ok w" using asio_run_ok [OF assms(1) empty_world_ok] by (simp add: config_ok_def)
  note cD = server_okD(8) [OF this assms(2,3)]
  have w1: "w1 = on_accept s err sid c (set_accepting sid None w)"
    using assms(3,4) by (simp add: asio_step_accepted)
  show ?thesis
  proof (cases "\<not> err \<and> remote_endpoint s \<noteq> None \<and> local_endpoint s \<noteq> None")
    case True
    then obtain r l where "remote_endpoint s = Some r" "local_endpoint s = Some l" by blast
    moreover define w2 where "w2 = modify c (mstr_local_update (\<lambda>_. Some l)) (modify c (mstr_remote_update (\<lambda>_. Some r))
        (set_accepting sid None w))"
    moreover have "connected c w2" "s_conns w2 = s_conns w" "length (conns w2) = length (conns w)"
        "length (servers w2) = length (servers w)"
      using cD by (simp_all add: w2_def connected_def modify_nth)
    ultimately have "w1 = start_accept sid (do_read c (w2\<lparr>s_conns := s_conns w2 @ [c]\<rparr>))"
        "connected c (w2\<lparr>s_conns := s_conns w2 @ [c]\<rparr>)" "sid < length (servers w2)" "length (conns w2) = length (conns w)"
      using True assms(2) by (simp_all add: w1 on_accept_def get_remote_ep_def get_local_ep_def connected_def)
    with True show ?thesis
      by (simp add: accepting_start_accept) (simp add: start_accept_def do_read_def)
  next
    case False
    then have "sid < length (servers w1) \<and> m_accepting (servers w1 ! sid) = None"
      using assms(2) by (auto simp: w1 on_accept_def Let_def split_beta servers_set_accepting get_remote_ep_def
          get_local_ep_def split: option.splits)
    then have "\<not> asio_step cfg (Accepted sid s' err') cfg'" if "asio_run (w1, None) es' cfg" for es' cfg s' err' cfg'
      using not_accepting_run [OF that] by (auto simp: asio_step_accepted)
    with False show ?thesis by auto
  qed
qed

section \<open>What a connection makes of its stream\<close>

definition pending :: "nat \<Rightarrow> world \<Rightarrow> bytes" where
  "pending c w = get 0 (m_read_pos (conns w ! c)) (read_buffer (conns w ! c))"

text \<open>What the handler of a message writes, and whether it stays within its memory.\<close>

definition answer :: "processor \<Rightarrow> bytes \<Rightarrow> bytes list" where
  "answer p m = (case fst (msgProcess p m) of Sends out \<Rightarrow> [out] | _ \<Rightarrow> [])"

definition harmless :: "processor \<Rightarrow> bytes \<Rightarrow> bool" where
  "harmless p m \<longleftrightarrow> (case fst (msgProcess p m) of Faults f \<Rightarrow> False | _ \<Rightarrow> True)"

definition sends_of :: "nat \<Rightarrow> world \<Rightarrow> bytes list" where
  "sends_of c w = map snd (filter (\<lambda>x. fst x = c) (writes w))"

lemma get_put_append: "get 0 (i + length d) (put i d f) = get 0 i f @ d"
  using get_split [of 0 i "length d" "put i d f"] by simp

lemma get_moved: "n \<le> k \<Longrightarrow> k \<le> m \<Longrightarrow> get 0 (k - n) (put 0 (get n (m - n) f) g) = drop n (get 0 k f)"
  by (auto simp: get_def put_def intro!: nth_equalityI)

lemma process_queue_answers:
  assumes "c < length (conns w)" "connected c w" "list_all (harmless p) q" "mq_recv (conns w ! c) = q"
  shows "\<exists>w'. process_queue p c q w = (w', None) \<and> writes w' = writes w @ map (Pair c) (concat (map (answer p) q)) \<and>
    mq_recv (conns w' ! c) = [] \<and> (\<forall>i. i \<noteq> c \<longrightarrow> conns w' ! i = conns w ! i)"
  using assms
proof (induction q arbitrary: w)
  case (Cons tmp q)
  let ?w = "modify c (mq_recv_update (\<lambda>_. q)) w"
  have w: "c < length (conns ?w)" "connected c ?w" "mq_recv (conns ?w ! c) = q" "\<And>i. i \<noteq> c \<Longrightarrow> conns ?w ! i = conns w ! i"
    using Cons.prems by (auto simp: connected_def modify_nth)
  have h: "harmless p tmp" "list_all (harmless p) q" using Cons.prems(3) by auto
  show ?case
  proof (cases "fst (msgProcess p tmp)")
    case (Sends out)
    have "connected c (do_write c out ?w)" using w by (simp add: connected_def)
    then show ?thesis
      using Sends w Cons.IH [of "do_write c out ?w"] h(2) by (auto simp: Let_def answer_def do_write_def)
  next
    case Silent
    then show ?thesis using w Cons.IH [of ?w] h(2) by (auto simp: Let_def answer_def)
  qed (use h(1) in \<open>simp add: harmless_def\<close>)
qed simp

text \<open>\<open>serves c p buf w\<close>: the server of the registered connection \<open>c\<close> has the processor \<open>p\<close>, and \<open>buf\<close>
  is what it has not handled yet.\<close>

definition serves :: "nat \<Rightarrow> processor \<Rightarrow> bytes \<Rightarrow> world \<Rightarrow> bool" where
  "serves c p buf w \<longleftrightarrow> c < length (conns w) \<and> c \<in> set (s_conns w) \<and> connected c w \<and> mq_recv (conns w ! c) = [] \<and>
     m_pserver (conns w ! c) < length (servers w) \<and> m_processor (servers w ! m_pserver (conns w ! c)) = Some p \<and>
     pending c w = buf"

lemma read_data_answers:
  assumes s: "serves c p buf w" and room: "m_read_pos (conns w ! c) + length data \<le> max_msg"
    and get: "msgGet p (buf @ data) = (q, Inr n)" and q: "list_all (harmless p) q"
  shows "\<exists>w'. read_data data c w = (w', None) \<and> serves c p (drop n (buf @ data)) w' \<and> keeps c w w' \<and>
    writes w' = writes w @ map (Pair c) (concat (map (answer p) q)) \<and> (\<forall>i. i \<noteq> c \<longrightarrow> conns w' ! i = conns w ! i)"
proof -
  let ?k = "conns w ! c"
  let ?pos = "m_read_pos ?k + length data"
  let ?buf = "put (m_read_pos ?k) data (read_buffer ?k)"
  let ?k2 = "?k\<lparr>read_buffer := ?buf, m_read_pos := ?pos, mq_recv := mq_recv ?k @ q\<rparr>"
  let ?k3 = "if 0 < n then ?k2\<lparr>read_buffer := put 0 (get n (max_msg - n) ?buf) ?buf, m_read_pos := ?pos - n\<rparr> else ?k2"
  let ?w = "modify c (\<lambda>_. ?k3) w"
  have c: "c < length (conns w)" "connected c w" "mq_recv ?k = []" using s by (auto simp: serves_def)
  have buf: "get 0 ?pos ?buf = buf @ data" using s by (simp add: get_put_append serves_def pending_def)
  have n: "n \<le> ?pos" using msgGet_bound [OF get] buf length_get [of 0 ?pos ?buf] by simp
  define W where "W = ?w"
  have W: "c < length (conns W)" "conns W ! c = ?k3" "\<And>i. i \<noteq> c \<Longrightarrow> conns W ! i = conns w ! i" "writes W = writes w" "keeps c w W"
    using c(1) keeps_modify [of c w "\<lambda>_. ?k3"] by (auto simp: W_def modify_nth)
  then have "connected c W" "mq_recv (conns W ! c) = q" using c by (simp_all add: connected_def)
  then obtain w' where w': "process_queue p c q W = (w', None)"
      "writes w' = writes w @ map (Pair c) (concat (map (answer p) q))" "mq_recv (conns w' ! c) = []"
      "\<And>i. i \<noteq> c \<Longrightarrow> conns w' ! i = conns W ! i"
    using process_queue_answers [of c W p q] W q by auto
  have kq: "keeps c W w'" "m_read_pos (conns w' ! c) = m_read_pos (conns W ! c)"
      "read_buffer (conns w' ! c) = read_buffer (conns W ! c)"
    using process_queue_keeps [OF W(1), of p q] unfolding w'(1) by simp_all
  have k: "keeps c w w'" by (rule keeps_trans [OF W(5) kq(1)])
  have "pending c w' = drop n (buf @ data)"
    using get_moved [OF n room, of ?buf ?buf] W(2) by (simp add: pending_def kq buf)
  then have "serves c p (drop n (buf @ data)) w'"
    using s k w'(3) by (auto simp: serves_def keeps_def connected_def)
  moreover have "read_data data c w = (w', None)"
    using s get w'(1) c by (cases "0 < n") (simp_all add: read_data_def Let_def buf serves_def W_def)
  ultimately show ?thesis using k w'(2,4) W(3) by auto
qed

text \<open>Events that do not end the connection \<open>c\<close>; what they bring it, and what they complete.\<close>

fun benign :: "nat \<Rightarrow> event \<Rightarrow> bool" where
  "benign c (Received d s err data) = (d = c \<longrightarrow> \<not> err)"
| "benign c (Written d out s err) = (d = c \<longrightarrow> \<not> err)"
| "benign c _ = True"

fun brought :: "nat \<Rightarrow> event \<Rightarrow> bytes" where
  "brought c (Received d s err data) = (if d = c then data else [])"
| "brought c _ = []"

fun completed :: "nat \<Rightarrow> event \<Rightarrow> bytes multiset" where
  "completed c (Written d out s err) = (if d = c then {#out#} else {#})"
| "completed c _ = {#}"

lemma serves_same:
  assumes "serves c p buf w" "c < length (conns w')" "conns w' ! c = conns w ! c" "c \<in> set (s_conns w')"
    "m_pserver (conns w ! c) < length (servers w) \<Longrightarrow> m_pserver (conns w ! c) < length (servers w') \<and>
       m_processor (servers w' ! m_pserver (conns w ! c)) = m_processor (servers w ! m_pserver (conns w ! c))"
  shows "serves c p buf w'"
  using assms by (auto simp: serves_def connected_def pending_def)

text \<open>\<open>spares c w w'\<close>: nothing happened to \<open>c\<close>.\<close>

definition spares :: "nat \<Rightarrow> world \<Rightarrow> world \<Rightarrow> bool" where
  "spares c w w' \<longleftrightarrow> length (conns w) \<le> length (conns w') \<and> (c < length (conns w) \<longrightarrow> conns w' ! c = conns w ! c) \<and>
     (c \<in> set (s_conns w) \<longrightarrow> c \<in> set (s_conns w')) \<and> sends_of c w' = sends_of c w"

lemma spares_refl [simp]: "spares c w w" by (simp add: spares_def)

lemma spares_trans: "spares c w w1 \<Longrightarrow> spares c w1 w2 \<Longrightarrow> spares c w w2"
  by (simp add: spares_def)

lemma spares_modify: "d \<noteq> c \<Longrightarrow> spares c w (modify d f w)"
  by (simp add: spares_def modify_def sends_of_def)

lemma spares_do_write: "d \<noteq> c \<Longrightarrow> spares c w (do_write d out w)"
  by (simp add: spares_def do_write_def sends_of_def)

lemma spares_do_read: "spares c w (do_read d w)"
  by (simp add: spares_def sends_of_def)

lemma spares_close: "d \<noteq> c \<Longrightarrow> spares c w (fst (close s d w))"
  by (auto simp: spares_def close_def Let_def deleteConn_def modify_def sends_of_def)

lemma spares_process_queue: "d \<noteq> c \<Longrightarrow> spares c w (fst (process_queue p d q w))"
proof (induction q arbitrary: w)
  case (Cons tmp q)
  let ?w = "modify d (mq_recv_update (\<lambda>_. q)) w"
  have w: "spares c w ?w" by (rule spares_modify [OF Cons.prems])
  show ?case
  proof (cases "fst (msgProcess p tmp)")
    case (Sends out)
    then show ?thesis
      using spares_trans [OF spares_trans [OF w spares_do_write [OF Cons.prems]] Cons.IH [OF Cons.prems]] by (simp add: Let_def)
  next
    case Silent
    then show ?thesis using spares_trans [OF w Cons.IH [OF Cons.prems]] by (simp add: Let_def)
  qed (use w in \<open>simp add: Let_def\<close>)
qed simp

lemma spares_read_data: "d \<noteq> c \<Longrightarrow> spares c w (fst (read_data data d w))"
  using spares_modify [of d c w] spares_trans [OF spares_modify spares_process_queue, of d c]
  by (simp add: read_data_def Let_def split: option.split sum.split prod.split)

lemma spares_and_then: "spares c w (fst r) \<Longrightarrow> (\<And>w'. spares c w w' \<Longrightarrow> spares c w (fst (f w'))) \<Longrightarrow> spares c w (fst (and_then r f))"
  by (simp add: and_then_def split: option.split)

lemma spares_on_read: "d \<noteq> c \<or> \<not> err \<and> data = [] \<Longrightarrow> spares c w (fst (on_read s err data d w))"
  unfolding on_read_def
  using spares_close [of d c w s] spares_trans [OF _ spares_read_data [of d c]] spares_trans [OF _ spares_do_read]
  by (auto intro!: spares_and_then)

lemma spares_register: "spares c w (w\<lparr>s_conns := s_conns w @ [d]\<rparr>)"
  by (simp add: spares_def sends_of_def)

lemma spares_ep: "d \<noteq> c \<Longrightarrow> spares c w (fst (get_remote_ep s d w))" "d \<noteq> c \<Longrightarrow> spares c w (fst (get_local_ep s d w))"
  by (auto simp: get_remote_ep_def get_local_ep_def spares_modify split: option.split)

lemma spares_start_accept: "spares c w (start_accept sid w)"
  by (simp add: spares_def start_accept_def nth_append sends_of_def)

lemma spares_on_accept: "d \<noteq> c \<Longrightarrow> spares c w (on_accept s err sid d w)"
proof -
  assume d: "d \<noteq> c"
  note ep = spares_trans [OF spares_ep(1) [OF d] spares_ep(2) [OF d], of w s s]
  show ?thesis
    using ep spares_ep [OF d] spares_trans [OF spares_trans [OF spares_trans [OF ep spares_register] spares_do_read] spares_start_accept]
    by (simp add: on_accept_def Let_def split_beta)
qed

lemma spares_on_write: "d \<noteq> c \<or> \<not> err \<Longrightarrow> spares c w (fst (on_write s err d w))"
  using spares_close [of d c w s] by (auto simp: on_write_def)

text \<open>One event of the loop, as the connection \<open>c\<close> sees it.\<close>

definition written :: "nat \<Rightarrow> world \<Rightarrow> bytes multiset" where
  "written c w = mset (sends_of c w)"

lemma spares_serves:
  assumes "spares c w w'" "serves c p buf w" "servers w' = servers w"
  shows "serves c p buf w' \<and> written c w' = written c w"
  using assms by (auto simp: spares_def serves_def connected_def pending_def written_def)

lemma serves_remove_read: "serves c p buf (w\<lparr>reads := r\<rparr>) = serves c p buf w" "written c (w\<lparr>reads := r\<rparr>) = written c w"
  by (simp_all add: serves_def connected_def pending_def written_def sends_of_def)

lemma received_step:
  assumes s: "serves c p buf w" and room: "length data \<le> max_msg - m_read_pos (conns w ! c)" "m_read_pos (conns w ! c) \<le> max_msg"
    and get: "msgGet p (buf @ data) = (q, Inr n)" and q: "list_all (harmless p) q" and data: "data \<noteq> []"
  shows "\<exists>w'. on_read s' False data c (w\<lparr>reads := r\<rparr>) = (w', None) \<and> serves c p (drop n (buf @ data)) w' \<and>
    written c w' = written c w + mset (concat (map (answer p) q))"
proof -
  let ?w = "w\<lparr>reads := r\<rparr>"
  have "serves c p buf ?w" "m_read_pos (conns ?w ! c) + length data \<le> max_msg"
    using s room by (auto simp: serves_remove_read)
  from read_data_answers [OF this get q] obtain w1 where w1: "read_data data c ?w = (w1, None)"
      "serves c p (drop n (buf @ data)) w1" "writes w1 = writes w @ map (Pair c) (concat (map (answer p) q))"
    by auto
  have "connected c ?w" using s by (auto simp: serves_def connected_def)
  then have "on_read s' False data c ?w = (do_read c w1, None)"
    using data w1(1) by (simp add: on_read_def and_then_def)
  moreover have "serves c p (drop n (buf @ data)) (do_read c w1)"
    using w1(2) by (simp add: serves_def connected_def pending_def)
  moreover have "written c (do_read c w1) = written c w + mset (concat (map (answer p) q))"
    by (simp add: written_def sends_of_def w1(3) filter_map comp_def)
  ultimately show ?thesis by blast
qed

lemma spares_step:
  assumes step: "asio_step (w, None) e (w', x)" and ok: "config_ok (w, None)" and s: "serves c p buf w"
    and b: "benign c e" and other: "brought c e = []"
  shows "serves c p buf w' \<and> written c w' + completed c e = written c w"
proof -
  have cok: "c \<in> set (s_conns w)" "c \<in> set (reads w)" "c < length (conns w)" "m_pserver (conns w ! c) < length (servers w)"
    using s ok by (auto simp: serves_def config_ok_def attended_def)
  have srv: "serves c p buf w''" if "spares c w w''"
      "\<And>i. i < length (servers w) \<Longrightarrow> i < length (servers w'') \<and> m_processor (servers w'' ! i) = m_processor (servers w ! i)" for w''
    using that s cok by (auto simp: serves_def connected_def pending_def spares_def)
  show ?thesis
    using step
  proof (cases rule: asio_step.cases)
    case (received d data s' err)
    then have d: "d \<noteq> c \<or> \<not> err \<and> data = []" using b other by auto
    let ?w = "w\<lparr>reads := remove1 d (reads w)\<rparr>"
    have "spares c ?w w'" "servers w' = servers ?w"
      using spares_on_read [OF d, where w = ?w and s = s'] servers_on_read [of s' err data d ?w] received(2) [symmetric]
      by simp_all
    then show ?thesis
      using spares_serves [of c ?w w' p buf] s received(1) by (simp add: serves_remove_read)
  next
    case (written d out s' err)
    let ?w = "w\<lparr>writes := remove1 (d, out) (writes w)\<rparr>"
    have "d \<noteq> c \<or> \<not> err" using b written(1) by auto
    then have "spares c ?w w'" "servers w' = servers ?w"
      using spares_on_write [of d c err ?w s'] servers_effects(3) [of s' err d ?w] written(2) [symmetric] by simp_all
    moreover have "serves c p buf ?w" using s by (simp add: serves_def connected_def pending_def)
    ultimately have "serves c p buf w' \<and> written c w' = written c ?w" using spares_serves by blast
    moreover have "written c ?w + completed c e = written c w"
      using written(1,3) by (auto simp: written_def sends_of_def filter_remove1 image_mset_Diff intro!: insert_DiffM) force
    ultimately show ?thesis by simp
  next
    case (started junk bound ip port tag)
    have "spares c w (fst (init bound (length (servers w)) (AsyncServer junk ip port tag w)))"
      by (simp add: spares_def init_def AsyncServer_def Let_def sends_of_def)
    then have "spares c w w'"
      using started spares_trans [OF _ spares_start_accept]
      by (auto simp: AsyncServer_start_def Let_def split_beta)
    moreover have "m_processor (servers w' ! i) = m_processor (servers w ! i) \<and> i < length (servers w')"
      if "i < length (servers w)" for i
      using that started by (auto simp: AsyncServer_start_def Let_def split_beta init_def AsyncServer_def start_accept_def
          set_accepting_def nth_list_update nth_append)
    ultimately show ?thesis using srv started(1) by (simp add: written_def spares_def)
  next
    case (stopped sid)
    have "spares c w w'" using stopped by (simp add: spares_def stop_def sends_of_def)
    with stopped show ?thesis using srv by (auto simp: stop_def nth_list_update written_def spares_def)
  next
    case (accepted sid d s' err)
    have "server_ok w" using ok by (simp add: config_ok_def)
    from server_okD(8) [OF this accepted(4,5)] cok have d: "d \<noteq> c" by auto
    have "spares c w (set_accepting sid None w)" by (simp add: spares_def sends_of_def)
    then have "spares c w w'" using accepted(2) spares_trans [OF _ spares_on_accept [OF d]] by simp
    moreover have "m_processor (servers w' ! i) = m_processor (servers w ! i) \<and> i < length (servers w')"
      if "i < length (servers w)" for i
      using that accepted(2,4) by (auto simp: on_accept_def Let_def split_beta start_accept_def
          set_accepting_def nth_list_update)
    ultimately show ?thesis using srv accepted(1) by (simp add: written_def spares_def)
  qed
qed

text \<open>Reading along a run.  \<open>good buf got rest\<close> relates what is buffered, the messages handled so far
  and the octets still to come; every chunk has to keep it.\<close>

lemma crashed_stops: "asio_run (w, Some f) es cfg \<Longrightarrow> es = [] \<and> cfg = (w, Some f)"
  by (auto elim: asio_run.cases asio_step.cases)

lemma connection_received:
  assumes step: "asio_step (w, None) e (w1, x)" and ok: "config_ok (w, None)"
    and s: "serves c p buf w" and b: "benign c e" and data: "brought c e \<noteq> []"
  shows "length (buf @ brought c e) \<le> max_msg \<and> completed c e = {#} \<and>
    (\<forall>q n. msgGet p (buf @ brought c e) = (q, Inr n) \<and> list_all (harmless p) q \<longrightarrow>
       x = None \<and> serves c p (drop n (buf @ brought c e)) w1 \<and> written c w1 = written c w + mset (concat (map (answer p) q)))"
proof -
  obtain s' data' where d: "e = Received c s' False data'" "data' \<noteq> []"
    using data b by (cases e) (auto split: if_splits)
  have e: "(w1, x) = on_read s' False data' c (w\<lparr>reads := remove1 c (reads w)\<rparr>)"
      "length data' \<le> max_msg - m_read_pos (conns w ! c)"
    using step d(1) by (auto simp: asio_step_received)
  have pos: "m_read_pos (conns w ! c) \<le> max_msg"
    using ok server_okD(1) [of w c] s by (simp add: config_ok_def serves_def)
  have "length buf = m_read_pos (conns w ! c)" using s by (auto simp: serves_def pending_def)
  then have room: "length (buf @ data') \<le> max_msg" using e(2) pos by simp
  have "x = None \<and> serves c p (drop n (buf @ data')) w1 \<and> written c w1 = written c w + mset (concat (map (answer p) q))"
    if "msgGet p (buf @ data') = (q, Inr n)" "list_all (harmless p) q" for q n
    using received_step [OF s e(2) pos that d(2), of s' "remove1 c (reads w)"] e(1) by auto
  with room d(1) show ?thesis by simp
qed

lemma connection_run:
  assumes keep: "\<And>buf got data rest. good buf got (data @ rest) \<Longrightarrow> data \<noteq> [] \<Longrightarrow> length (buf @ data) \<le> max_msg \<Longrightarrow>
      \<exists>q n. msgGet p (buf @ data) = (q, Inr n) \<and> list_all (harmless p) q \<and> good (drop n (buf @ data)) (got @ q) rest"
    and "asio_run cfg es cfg'" "cfg = (w, None)" "config_ok cfg" "serves c p buf w" "list_all (benign c) es"
      "good buf got (concat (map (brought c) es))"
      "written c w + ended = start + mset (concat (map (answer p) got))"
  shows "\<exists>buf' got'. good buf' got' [] \<and> serves c p buf' (fst cfg') \<and>
    written c (fst cfg') + (sum_list (map (completed c) es) + ended) = start + mset (concat (map (answer p) got'))"
  using assms(2-)
proof (induction arbitrary: w buf got ended rule: asio_run.induct)
  case (finished cfg)
  then show ?case by auto
next
  case (event cfg e cfg1 es cfg')
  obtain w1 x where cfg1: "cfg1 = (w1, x)" by fastforce
  have step: "asio_step (w, None) e (w1, x)" and ok: "config_ok (w, None)" and ok1: "config_ok cfg1"
    using event.hyps(1) event.prems(1,2) asio_step_ok cfg1 by auto
  have b: "benign c e" "list_all (benign c) es" using event.prems(4) by auto
  show ?case
  proof (cases "brought c e = []")
    case True
    note same = spares_step [OF step ok event.prems(3) b(1) True]
    have next_ok: "good buf got (concat (map (brought c) es))" using True event.prems(5) by simp
    have "written c w1 + (completed c e + ended) = start + mset (concat (map (answer p) got))"
      using event.prems(6) unfolding conjunct2 [OF same, symmetric] by (simp only: add.assoc)
    note next_ok = next_ok this
    show ?thesis
    proof (cases x)
      case None
      have "cfg1 = (w1, None)" using None cfg1 by simp
      from event.IH [OF this ok1 conjunct1 [OF same] b(2) next_ok] show ?thesis
        by (simp add: ac_simps)
    next
      case (Some f)
      then have "es = []" "cfg' = (w1, x)" using crashed_stops event.hyps(2) cfg1 by auto
      with next_ok same show ?thesis by (intro exI [of _ buf] exI [of _ got]) simp
    qed
  next
    case False
    note rec = connection_received [OF step ok event.prems(3) b(1) False]
    have "good buf got (brought c e @ concat (map (brought c) es))" using event.prems(5) by simp
    from keep [OF this False conjunct1 [OF rec]] obtain q n where q: "msgGet p (buf @ brought c e) = (q, Inr n)"
        "list_all (harmless p) q" "good (drop n (buf @ brought c e)) (got @ q) (concat (map (brought c) es))"
      by blast
    with rec have r: "x = None" "serves c p (drop n (buf @ brought c e)) w1"
        "written c w1 = written c w + mset (concat (map (answer p) q))" "completed c e = {#}"
      by blast+
    have "cfg1 = (w1, None)" "written c w1 + ended = start + mset (concat (map (answer p) (got @ q)))"
      using cfg1 r(1,3) event.prems(6) by (simp_all add: ac_simps)
    from event.IH [OF this(1) ok1 r(2) b(2) q(3) this(2)] r(4) show ?thesis by simp
  qed
qed

text \<open>A connection to which nothing has come yet.\<close>

lemma fresh_serves:
  assumes "asio_run (empty_world, None) es0 (w, None)" "c \<in> set (s_conns w)"
    "m_processor (servers w ! m_pserver (conns w ! c)) = Some p"
    "m_read_pos (conns w ! c) = 0" "mq_recv (conns w ! c) = []"
  shows "config_ok (w, None)" "serves c p [] w"
proof -
  show ok: "config_ok (w, None)" by (rule asio_run_ok [OF assms(1) empty_world_ok])
  with assms(2-5) server_okD(2,4) [of w] show "serves c p [] w"
    by (auto simp: serves_def config_ok_def attended_def pending_def get_def)
qed

text \<open>A whole conference request: a message with its full head.\<close>

definition conference_request :: "bytes \<Rightarrow> bool" where
  "conference_request m \<longleftrightarrow> conference_msg m \<and> sizeof_Overload + sizeof_ConferenceMngHead \<le> length m"

lemma conference_request_harmless: "conference_request m \<Longrightarrow> harmless ConferenceDistributor m"
proof -
  have "\<not> write_buffer_size < sizeof_ConferenceMngHead + length (ConferenceDistributor_response c)" for c
    using response_bound(1) [of c] by linarith
  then show "conference_request m \<Longrightarrow> harmless ConferenceDistributor m"
    by (auto simp: harmless_def conference_request_def ConferenceDistributor_msgProcess_def Let_def)
qed

definition conference_good :: "bytes list \<Rightarrow> bytes \<Rightarrow> bytes \<Rightarrow> bytes list \<Rightarrow> bytes \<Rightarrow> bool" where
  "conference_good ms ys buf got rest \<longleftrightarrow> (\<exists>ms2. ms = got @ ms2 \<and> buf @ rest @ ys = concat ms2 \<and>
     (ms2 = [] \<or> length buf < length (hd ms2)))"

lemma conference_good_chunk:
  assumes ms: "list_all conference_request ms" and good: "conference_good ms ys buf got (data @ rest)"
  shows "\<exists>q n. msgGet ConferenceDistributor (buf @ data) = (q, Inr n) \<and> list_all (harmless ConferenceDistributor) q \<and>
    conference_good ms ys (drop n (buf @ data)) (got @ q) rest"
proof -
  obtain ms2 where ms2: "ms = got @ ms2" "(buf @ data) @ (rest @ ys) = concat ms2"
    using good by (auto simp: conference_good_def)
  then have "list_all conference_msg ms2" using ms by (auto simp: conference_request_def list_all_iff)
  from conference.split_prefix [OF this ms2(2)] obtain q ms3 p where sp: "ms2 = q @ ms3" "buf @ data = concat q @ p"
      "p @ (rest @ ys) = concat ms3" "ConferenceDistributor_msgGet (buf @ data) = Some (q, length (concat q))"
      "ms3 = [] \<or> length p < length (hd ms3)"
    by blast
  have "msgGet ConferenceDistributor (buf @ data) = (q, Inr (length (concat q)))" using sp(4) by (simp add: msgGet_def)
  moreover have "list_all (harmless ConferenceDistributor) q"
    using ms ms2(1) sp(1) conference_request_harmless by (auto simp: list_all_iff)
  moreover have "conference_good ms ys (drop (length (concat q)) (buf @ data)) (got @ q) rest"
    using ms2(1) sp unfolding conference_good_def by (intro exI [of _ ms3]) simp
  ultimately show ?thesis by blast
qed


section \<open>Where connections go wrong\<close>

text \<open>C15: when a write fails, \<open>on_write\<close> closes and unregisters the connection, but its read is still
  outstanding; that completes with an error, closes the connection again, and asking the closed
  socket for its peer throws: the event loop ends.\<close>
theorem failed_write_ends_loop:
  assumes "asio_run (empty_world, None) es (w, None)" "c \<in> set (s_conns w)"
    "asio_step (w, None) (Written c out s True) (w1, None)"
  shows "c \<notin> set (s_conns w1) \<and> \<not> connected c w1 \<and>
    (\<exists>w2. asio_step (w1, None) (Received c s' True []) (w2, Some System_error)) \<and>
    \<not> (\<exists>w2. asio_step (w1, None) (Received c s' True []) (w2, None))"
proof -
  have ok: "server_ok w" "attended w" using asio_run_ok [OF assms(1) empty_world_ok] by (simp_all add: config_ok_def)
  have c: "c < length (conns w)" "c \<in> set (reads w)" "distinct (s_conns w)"
    using server_okD(3,4) [OF ok(1)] ok(2) assms(2) by (auto simp: attended_def)
  let ?w = "w\<lparr>writes := remove1 (c, out) (writes w)\<rparr>"
  have w1: "(w1, None) = close s c ?w"
    using assms(3) by (auto simp: asio_step_written on_write_def split: if_splits)
  then have eff: "s_conns w1 = remove1 c (s_conns w)" "\<not> connected c w1" "reads w1 = reads w" "length (conns w1) = length (conns w)"
    using close_effect [of c ?w s] c by (auto simp: connected_def dest: sym)
  have closed: "\<not> m_is_open (conns w1 ! c)"
    using w1 c by (auto simp: close_def Let_def deleteConn_def modify_nth split: if_splits)
  let ?r = "on_read s' True [] c (w1\<lparr>reads := remove1 c (reads w1)\<rparr>)"
  have r: "snd ?r = Some System_error" using closed by (simp add: on_read_def and_then_def close_def Let_def)
  have "asio_step (w1, None) (Received c s' True []) ?r"
    using c eff by (intro asio_step.received) auto
  then have "\<exists>w2. asio_step (w1, None) (Received c s' True []) (w2, Some System_error)"
    using r by (metis prod.collapse)
  moreover have "x = Some System_error" if "asio_step (w1, None) (Received c s' True []) (w2, x)" for w2 x
    using that r by (auto simp: asio_step_received dest: sym)
  ultimately show ?thesis using eff c by auto
qed

lemma device_get_oversize:
  "65512 < msg_len buf \<or> length buf \<le> sizeof_DeviceMngHead \<Longrightarrow> length buf \<le> max_msg \<Longrightarrow> BaseProcess_msgGet buf = ([], Inr 0)"
  using msg_len_small [of buf] unfolding BaseProcess_msgGet_def
  by (subst msgGet_loop.simps) (auto simp: Let_def)

definition oversize_good :: "bytes \<Rightarrow> bytes \<Rightarrow> bytes list \<Rightarrow> bytes \<Rightarrow> bool" where
  "oversize_good stream buf got rest \<longleftrightarrow> got = [] \<and> buf @ rest = stream \<and> length buf \<le> max_msg"

text \<open>A device message that announces more than 65512 octets never fits into the buffer: whatever
  follows it, the connection takes at most 65536 octets, keeps them, handles nothing
  and answers nothing.\<close>
theorem oversize_message_blocks:
  assumes "asio_run (empty_world, None) es0 (w, None)" "c \<in> set (s_conns w)"
    "m_processor (servers w ! m_pserver (conns w ! c)) = Some p" "m_read_pos (conns w ! c) = 0" "mq_recv (conns w ! c) = []"
    "p \<noteq> ConferenceDistributor" "asio_run (w, None) es cfg" "list_all (benign c) es"
    "65512 < msg_len (concat (map (brought c) es))"
  shows "pending c (fst cfg) = concat (map (brought c) es) \<and> length (concat (map (brought c) es)) \<le> max_msg \<and>
    written c (fst cfg) + sum_list (map (completed c) es) = written c w"
proof -
  let ?stream = "concat (map (brought c) es)"
  note fresh = fresh_serves [OF assms(1-5)]
  have keep: "\<exists>q n. msgGet p (buf @ data) = (q, Inr n) \<and> list_all (harmless p) q \<and>
      oversize_good ?stream (drop n (buf @ data)) (got @ q) rest"
    if good: "oversize_good ?stream buf got (data @ rest)" and room: "length (buf @ data) \<le> max_msg" for buf got data rest
  proof -
    have stream: "?stream = (buf @ data) @ rest" using good by (simp add: oversize_good_def)
    have "65512 < msg_len (buf @ data) \<or> length (buf @ data) \<le> sizeof_DeviceMngHead"
      using assms(9) msg_len_prefix [of "buf @ data" rest] unfolding stream by linarith
    from device_get_oversize [OF this room] assms(6) good stream room show ?thesis
      by (simp add: msgGet_def oversize_good_def)
  qed
  have start: "oversize_good ?stream [] [] ?stream" by (simp add: oversize_good_def)
  have w0: "written c w + {#} = written c w + mset (concat (map (answer p) []))" by simp
  obtain buf got where r: "oversize_good ?stream buf got []" "serves c p buf (fst cfg)"
      "written c (fst cfg) + (sum_list (map (completed c) es) + {#}) = written c w + mset (concat (map (answer p) got))"
    using connection_run [where good = "oversize_good ?stream", OF keep assms(7) refl fresh assms(8) start w0] by blast
  have g: "got = []" "buf = ?stream" "length buf \<le> max_msg"
    using r(1) unfolding oversize_good_def append_Nil2 by blast+
  then have "length ?stream \<le> max_msg" by (simp only:)
  moreover have "pending c (fst cfg) = ?stream" using r(2) g(2) by (simp add: serves_def)
  ultimately show ?thesis using r(3) g(1) by simp
qed

section \<open>Witnesses\<close>

text \<open>A server that has accepted one connection.\<close>

definition sample_sock :: sock where
  "sample_sock = \<lparr>remote_endpoint = Some (''10.0.0.2'', 5000), local_endpoint = Some (''10.0.0.1'', 8001),
     shutdown_ok = True, close_ok = True\<rparr>"

definition sample_start :: "bytes \<Rightarrow> world" where
  "sample_start tag = fst (AsyncServer_start False True ''0.0.0.0'' 8001 tag empty_world)"

definition sample_world :: "bytes \<Rightarrow> world" where
  "sample_world tag = on_accept sample_sock False 0 0 (set_accepting 0 None (sample_start tag))"

lemma sample_start: "servers (sample_start tag) = [\<lparr>mstr_ip = ''0.0.0.0'', mn_listenPort = 8001, mstr_tag = tag,
    m_processor = getProcessor tag None, m_started = True, m_accepting = Some 0\<rparr>]"
  by (simp add: sample_start_def AsyncServer_start_def Let_def init_def AsyncServer_def start_accept_def
    set_accepting_def empty_world_def)

lemma sample_accept: "asio_step (sample_start tag, None) (Accepted 0 sample_sock False) (sample_world tag, None)"
  by (simp add: asio_step_accepted sample_start sample_world_def)

lemma sample_start_step:
  "asio_step (empty_world, None) (Start False True ''0.0.0.0'' 8001 tag) (sample_start tag, None)"
  by (simp add: asio_step_started sample_start_def)

lemma sample_start_run: "asio_run (empty_world, None) [Start False True ''0.0.0.0'' 8001 tag] (sample_start tag, None)"
  by (rule asio_run.event [OF sample_start_step asio_run.finished])

lemma sample_run: "asio_run (empty_world, None) [Start False True ''0.0.0.0'' 8001 tag, Accepted 0 sample_sock False]
    (sample_world tag, None)"
  by (rule asio_run.event [OF sample_start_step asio_run.event [OF sample_accept asio_run.finished]])

lemma sample_world: "s_conns (sample_world tag) = [0]" "reads (sample_world tag) = [0]" "writes (sample_world tag) = []"
  "m_processor (servers (sample_world tag) ! m_pserver (conns (sample_world tag) ! 0)) = getProcessor tag None"
  "m_read_pos (conns (sample_world tag) ! 0) = 0" "mq_recv (conns (sample_world tag) ! 0) = []"
  by (simp_all add: sample_world_def sample_start_def AsyncServer_start_def Let_def init_def AsyncServer_def
    start_accept_def set_accepting_def empty_world_def on_accept_def get_remote_ep_def get_local_ep_def sample_sock_def
    do_read_def connected_def modify_def AsyncConnection_def)

text \<open>One chunk arrives.\<close>

definition after_chunk :: "bytes \<Rightarrow> bytes \<Rightarrow> config" where
  "after_chunk tag data = on_read sample_sock False data 0 (sample_world tag\<lparr>reads := remove1 0 (reads (sample_world tag))\<rparr>)"

lemma sample_chunk: "length data \<le> max_msg \<Longrightarrow>
    asio_run (sample_world tag, None) [Received 0 sample_sock False data] (after_chunk tag data)"
  unfolding after_chunk_def
  by (rule asio_run.event [OF asio_step.received asio_run.finished]) (simp_all add: sample_world)

theorem server_invariant_witness:
  "distinct (s_conns (sample_world (ascii ''0x6012''))) \<and> connected 0 (sample_world (ascii ''0x6012''))"
  using server_invariant [OF sample_run] sample_world(1) by auto

theorem accept_loop_witness: "m_accepting (servers (sample_world (ascii ''0x6012'')) ! 0) = Some 1"
  using accept_loop [OF sample_start_run _ _ sample_accept]
  by (simp add: sample_start sample_sock_def)
    (simp add: sample_start_def AsyncServer_start_def Let_def init_def AsyncServer_def start_accept_def
      set_accepting_def empty_world_def)

text \<open>A conference request with an empty text.\<close>

definition empty_request :: bytes where "empty_request = [0x60, 0x12, 0, 26] @ replicate 22 0"

lemma unle_two: "unat (unle [l, h] :: 16 word) = 256 * unat h + unat l"
proof -
  have "(ucast l :: 16 word) AND push_bit 8 (ucast h) = 0"
    by (rule bit_word_eqI) (auto simp: bit_simps dest: bit_imp_le_length)
  then have "(unle [l, h] :: 16 word) = ucast l + push_bit 8 (ucast h)"
    by (simp add: disjunctive_add_eq_or)
  also have "\<dots> = of_nat (256 * unat h + unat l)"
    by (simp add: push_bit_eq_mult)
  finally show ?thesis using unsigned_less [of h, where ?'a = nat] unsigned_less [of l, where ?'a = nat]
    by (simp only: unat_of_nat) simp
qed

lemma msg_len_bytes: "msg_len (t # u # h # l # bs) = 256 * unat h + unat l"
proof -
  have "get 2 2 (mem (t # u # h # l # bs)) = [h, l]" by (simp add: get_def mem_def upt_rec)
  moreover have "le 2 (unle [h, l] :: 16 word) = [h, l]" by (rule le_unle) simp_all
  ultimately show ?thesis
    unfolding msg_len_def ntohs_def by (simp only: Overload_at.simps rev.simps append.simps unle_two)
qed


theorem oversize_message_blocks_witness:
  "pending 0 (fst (after_chunk (ascii ''0x6020'') [255, 255, 255, 255])) = [255, 255, 255, 255]"
proof -
  let ?es = "[Received 0 sample_sock False [255, 255, 255, 255]]"
  have tag: "getProcessor (ascii ''0x6020'') None = Some DeviceManager" by (simp add: getProcessor_def ascii_def)
  have "pending 0 (fst (after_chunk (ascii ''0x6020'') [255, 255, 255, 255])) = concat (map (brought 0) ?es) \<and>
      length (concat (map (brought 0) ?es)) \<le> max_msg \<and>
      written 0 (fst (after_chunk (ascii ''0x6020'') [255, 255, 255, 255])) + sum_list (map (completed 0) ?es) =
      written 0 (sample_world (ascii ''0x6020''))"
  proof (rule oversize_message_blocks [OF sample_run])
    show "asio_run (sample_world (ascii ''0x6020''), None) ?es (after_chunk (ascii ''0x6020'') [255, 255, 255, 255])"
      by (rule sample_chunk) simp
    show "65512 < msg_len (concat (map (brought 0) ?es))" by (simp add: msg_len_bytes)
    show "m_processor (servers (sample_world (ascii ''0x6020'')) ! m_pserver (conns (sample_world (ascii ''0x6020'')) ! 0)) =
        Some DeviceManager"
      by (simp only: sample_world tag)
  qed (simp_all add: sample_world)
  then show ?thesis by simp
qed

text \<open>A device request of the length it announces, and a connection that has answered it.\<close>

definition whole_request :: bytes where "whole_request = device_request @ replicate 36 0"

lemma whole_request: "BaseProcess_msgGet whole_request = ([whole_request], Inr 60)"
proof -
  have "device_frame whole_request"
    by (simp add: device_frame_def whole_request_def device_request_def msg_len_bytes)
  from BaseProcess_msgGet_frame [OF this, of "[]"] show ?thesis
    by (simp add: BaseProcess_msgGet_def [of "[]"]) (simp add: whole_request_def device_request_def)
qed

lemma whole_request_answer: "\<exists>out. fst (msgProcess DeviceManager whole_request) = Sends out"
proof -
  have cmd: "take 4 (drop 18 whole_request) = [0, 0, 0, 102]" by (simp add: whole_request_def device_request_def)
  have "length DeviceManager_response_102 \<noteq> 0" using response_lengths(4) by simp
  then have resp: "DeviceManager_response (ntohl (unle (take 4 (drop 18 whole_request)))) \<noteq> []"
    unfolding cmd ntohl_102 by (auto simp: DeviceManager_response_def)
  have tag: "take 2 whole_request = rev (le 2 (wire_tag DeviceManager))"
    unfolding wire_tag_bytes by (simp add: whole_request_def device_request_def numeral_2_eq_2)
  have len: "dev Ret + 2 \<le> length whole_request" by (simp add: whole_request_def device_request_def)
  have "length (DeviceManager_response (ntohl (unle (take 4 (drop 18 whole_request))))) \<le> 65000"
    using response_bound(2) [of "ntohl (unle (take 4 (drop 18 whole_request)))"] by linarith
  from device_answer [where reply_to = DeviceManager_response, OF len tag refl resp this]
  have "\<exists>out. fst (device_msgProcess (wire_tag DeviceManager) DeviceManager_response whole_request) = Sends out"
    by (rule exI)
  then show ?thesis by (simp only: msgProcess.simps DeviceManager_msgProcess_def wire_tag.simps)
qed

lemma sample_answered: "\<exists>w out. after_chunk (ascii ''0x6020'') whole_request = (w, None) \<and> (0, out) \<in> set (writes w) \<and>
    s_conns w = [0] \<and> m_is_open (conns w ! 0) \<and> 0 < length (conns w)"
proof -
  let ?W = "sample_world (ascii ''0x6020'')"
  let ?w = "?W\<lparr>reads := remove1 0 (reads ?W)\<rparr>"
  have tag: "getProcessor (ascii ''0x6020'') None = Some DeviceManager" by (simp add: getProcessor_def ascii_def)
  have "serves 0 DeviceManager [] ?W"
    by (rule fresh_serves(2) [OF sample_run]) (simp_all only: sample_world tag list.set insert_iff simp_thms)
  then have s: "serves 0 DeviceManager [] ?w" by (simp add: serves_remove_read)
  obtain out where out: "fst (msgProcess DeviceManager whole_request) = Sends out" using whole_request_answer by blast
  have "msgGet DeviceManager ([] @ whole_request) = ([whole_request], Inr 60)" by (simp add: msgGet_def whole_request)
  moreover have "m_read_pos (conns ?w ! 0) + length whole_request \<le> max_msg"
    by (simp add: sample_world) (simp add: whole_request_def device_request_def)
  moreover have "list_all (harmless DeviceManager) [whole_request]" using out by (simp add: harmless_def)
  ultimately obtain w' where w': "read_data whole_request 0 ?w = (w', None)" "keeps 0 ?w w'"
      "writes w' = writes ?w @ map (Pair 0) (concat (map (answer DeviceManager) [whole_request]))"
    using read_data_answers [OF s] by blast
  have c: "connected 0 ?w" "0 < length (conns ?w)" using s by (simp_all add: serves_def)
  moreover have "m_is_open (conns ?w ! 0)"
    by (simp add: sample_world_def sample_start_def AsyncServer_start_def Let_def init_def AsyncServer_def
      start_accept_def set_accepting_def empty_world_def on_accept_def get_remote_ep_def get_local_ep_def sample_sock_def
      do_read_def connected_def modify_def AsyncConnection_def)
  moreover have "whole_request \<noteq> []" by (simp add: whole_request_def device_request_def)
  ultimately show ?thesis
    using w' out unfolding after_chunk_def
    by (intro exI [of _ "do_read 0 w'"] exI [of _ out])
      (simp add: on_read_def and_then_def answer_def keeps_def sample_world)
qed

theorem failed_write_ends_loop_witness:
  "\<exists>w out w1 w2. (0, out) \<in> set (writes w) \<and> asio_step (w, None) (Written 0 out sample_sock True) (w1, None) \<and>
     asio_step (w1, None) (Received 0 sample_sock True []) (w2, Some System_error)"
proof -
  obtain w out where w: "after_chunk (ascii ''0x6020'') whole_request = (w, None)" "(0, out) \<in> set (writes w)"
      "s_conns w = [0]" "m_is_open (conns w ! 0)" "0 < length (conns w)"
    using sample_answered by blast
  have "length whole_request \<le> max_msg" by (simp add: whole_request_def device_request_def)
  then have "asio_run (empty_world, None) [Start False True ''0.0.0.0'' 8001 (ascii ''0x6020''),
      Accepted 0 sample_sock False, Received 0 sample_sock False whole_request] (w, None)"
    using asio_run.event [OF sample_start_step asio_run.event [OF sample_accept sample_chunk]] w(1) by metis
  moreover have "\<exists>w1. asio_step (w, None) (Written 0 out sample_sock True) (w1, None)"
    using w by (simp add: asio_step_written on_write_def close_def Let_def modify_nth) (simp add: sample_sock_def)
  ultimately show ?thesis using failed_write_ends_loop [of _ w 0 out sample_sock _ sample_sock] w(2,3) by fastforce
qed

end
