(* ===== verification/AsioClientsProps.thy ===== *)
theory AsioClientsProps
  imports AsioClients AsioServerProps
begin

text \<open>
  The clients and the server together: what the server makes of the requests that the clients
  write.
\<close>

lemmas request_texts = testConferenceDistributor_msg1_def testConferenceDistributor_msg2_def
  testDeviceManager_msg1_def testDeviceManager_msg2_def testUserManager_msg1_def testUserManager_msg2_def
  testAuthManager_msg1_def testAuthManager_msg2_def testConferenceManager_msg1_def testConferenceManager_msg2_def
  testUpgradeManager_msg1_def testUpgradeManager_msg2_def testConfigManager_msg1_def

lemma request_lengths:
  "length testConferenceDistributor_msg1 = 823" "length testConferenceDistributor_msg2 = 821"
  "length testDeviceManager_msg1 = 38" "length testDeviceManager_msg2 = 460"
  "length testUserManager_msg1 = 117" "length testUserManager_msg2 = 101"
  "length testAuthManager_msg1 = 327" "length testAuthManager_msg2 = 297"
  "length testConferenceManager_msg1 = 143" "length testConferenceManager_msg2 = 100"
  "length testUpgradeManager_msg1 = 117" "length testUpgradeManager_msg2 = 84"
  "length testConfigManager_msg1 = 1468"
  by (simp_all add: request_texts ascii_def)

section \<open>Reading a request back\<close>

lemma get_mem_get: "i + k \<le> n \<Longrightarrow> get i k (mem (get 0 n b)) = get i k b"
  by (auto simp: get_def mem_def)

lemma msg_len_data: "4 \<le> n \<Longrightarrow> get16 2 b = htons (of_nat k) \<Longrightarrow> k < 65536 \<Longrightarrow> msg_len (get 0 n b) = k"
  by (simp add: msg_len_def get_mem_get unat_of_nat)

lemma device_data_length [simp]: "length (device_data msg b) = 32 + length msg"
  by (simp add: device_data_def)

lemma conference_data_length [simp]: "length (conference_data msg b) = 26 + length msg"
  by (simp add: conference_data_def)

lemma device_put_len: "get16 2 (device_put taskNo no ct cmd msg b) = htons (of_nat (28 + length msg))"
  by (simp add: device_put_def Let_def)

lemma conference_put_members:
  "get16 2 (conference_put cmd msg_id msg b) = htons (of_nat (26 + length msg))"
  "get16 8 (conference_put cmd msg_id msg b) = htons cmd"
  "get 0 2 (conference_put cmd msg_id msg b) = get 0 2 b"
  by (simp_all add: conference_put_def Let_def)

lemma device_msg_len: "length msg \<le> 65000 \<Longrightarrow>
    msg_len (device_data msg (device_put taskNo no ct cmd msg b)) = 28 + length msg"
  unfolding device_data_def by (rule msg_len_data) (simp_all add: device_put_len)

lemma conference_msg_len: "length msg \<le> 65000 \<Longrightarrow>
    msg_len (conference_data msg (conference_put cmd msg_id msg b)) = 26 + length msg"
  unfolding conference_data_def by (rule msg_len_data) (simp_all add: conference_put_members)

section \<open>Conference requests\<close>

lemma conference_data_request: "length msg \<le> 65000 \<Longrightarrow>
    conference_request (conference_data msg (conference_put cmd msg_id msg b))"
  by (simp add: conference_request_def conference_msg_def conference_msg_len)

lemma conference_answers:
  assumes "26 \<le> length m" "take 2 m = rev (le 2 (wire_tag ConferenceDistributor))"
    "ConferenceDistributor_response (ntohs (unle (take 2 (drop 8 m)))) \<noteq> []"
  shows "\<exists>out. fst (msgProcess ConferenceDistributor m) = Sends out"
proof -
  let ?m1 = "swap_overload (mem m)"
  have tag: "get16 0 ?m1 = 0x6012" using msg_tag [of m "0x6012"] assms(1,2) by simp
  have "get 8 2 (mem m) = take 2 (drop 8 m)" using assms(1) by (simp add: get_slice)
  then have cmd: "get16 8 (swap_conference ?m1) = ntohs (unle (take 2 (drop 8 m)))"
    by (simp add: swap_conference_def swap_overload_def)
  have "\<not> write_buffer_size < sizeof_ConferenceMngHead + length (ConferenceDistributor_response c)" for c
    using response_bound(1) [of c] by linarith
  with tag cmd assms(1,3) show ?thesis by (auto simp: ConferenceDistributor_msgProcess_def Let_def)
qed

lemma conference_data_slice: "i + k \<le> 26 + length msg \<Longrightarrow> take k (drop i (conference_data msg b)) = get i k b"
  by (subst get_slice [symmetric]) (simp_all add: conference_data_def get_mem_get add.assoc)

lemma conference_data_answered:
  assumes "length msg \<le> 65000" "get 0 2 b = rev (le 2 (wire_tag ConferenceDistributor))"
    "ConferenceDistributor_response cmd \<noteq> []"
  shows "\<exists>out. fst (msgProcess ConferenceDistributor (conference_data msg (conference_put cmd msg_id msg b))) = Sends out"
proof (rule conference_answers)
  let ?m = "conference_data msg (conference_put cmd msg_id msg b)"
  have "take 2 (drop 8 ?m) = le 2 (htons cmd)" "take 2 (drop 0 ?m) = get 0 2 b"
    by (simp_all only: conference_data_slice) (simp_all add: conference_put_def Let_def)
  then show "ConferenceDistributor_response (ntohs (unle (take 2 (drop 8 ?m)))) \<noteq> []"
      "take 2 ?m = rev (le 2 (wire_tag ConferenceDistributor))"
    using assms(2,3) by simp_all
qed simp

lemma conference_start_tag: "get 0 2 (conference_start tag) = rev (le 2 tag)"
  by (simp add: conference_start_def htons_bytes)

text \<open>C16: the requests of the conference client are complete messages to the server: it takes exactly
  them off the stream, and answers each.\<close>
theorem conference_client_served:
  "list_all conference_request testConferenceDistributor_requests \<and>
   ConferenceDistributor_msgGet (concat testConferenceDistributor_requests) =
     Some (testConferenceDistributor_requests, length (concat testConferenceDistributor_requests)) \<and>
   list_all (\<lambda>m. \<exists>out. fst (msgProcess ConferenceDistributor m) = Sends out) testConferenceDistributor_requests"
proof -
  let ?b0 = "conference_start 0x6012"
  let ?b1 = "conference_put 0x0600 0 testConferenceDistributor_msg1 ?b0"
  let ?b2 = "conference_put 0x0601 1 testConferenceDistributor_msg2 ?b1"
  let ?m1 = "conference_data testConferenceDistributor_msg1 ?b1"
  let ?m2 = "conference_data testConferenceDistributor_msg2 ?b2"
  have reqs: "testConferenceDistributor_requests = [?m1, ?m2]" by (simp add: testConferenceDistributor_requests_def Let_def)
  have m: "conference_request ?m1" "conference_request ?m2"
    by (simp_all add: conference_data_request request_lengths)
  have "ConferenceDistributor_msgGet [] = Some ([], 0)" by (simp add: ConferenceDistributor_msgGet_def)
  from conference_get_whole [OF _ conference_get_whole [OF _ this], of ?m1 ?m2] m
  have "ConferenceDistributor_msgGet (concat [?m1, ?m2]) = Some ([?m1, ?m2], length (concat [?m1, ?m2]))"
    by (simp add: conference_request_def)
  moreover have "ConferenceDistributor_response_0x0600 \<noteq> []" "ConferenceDistributor_response_0x0601 \<noteq> []"
    using response_lengths(1,2) by auto
  then have "ConferenceDistributor_response 0x0600 \<noteq> []" "ConferenceDistributor_response 0x0601 \<noteq> []"
    by (simp_all add: ConferenceDistributor_response_def)
  then have "\<exists>out. fst (msgProcess ConferenceDistributor ?m1) = Sends out"
      "\<exists>out. fst (msgProcess ConferenceDistributor ?m2) = Sends out"
    by (intro conference_data_answered; simp add: request_lengths conference_put_members conference_start_tag)+
  ultimately show ?thesis unfolding reqs using m by simp
qed

section \<open>Device requests\<close>

lemma device_alone:
  assumes "length msg \<le> 65000"
  shows "BaseProcess_msgGet (device_data msg (device_put taskNo no ct cmd msg b)) = ([], Inr 0)"
proof -
  let ?m = "device_data msg (device_put taskNo no ct cmd msg b)"
  have len: "msg_len ?m = 28 + length msg" "length ?m = 32 + length msg"
    using device_msg_len [OF assms] by simp_all
  show ?thesis
    unfolding BaseProcess_msgGet_def by (subst msgGet_loop.simps) (use assms in \<open>simp add: Let_def len\<close>)
qed

lemma device_followed:
  assumes "length msg \<le> 65000" "24 \<le> length rest"
  shows "\<exists>q n. BaseProcess_msgGet (device_data msg (device_put taskNo no ct cmd msg b) @ rest) =
    ((device_data msg (device_put taskNo no ct cmd msg b) @ take 24 rest) # q, n)"
proof -
  let ?m = "device_data msg (device_put taskNo no ct cmd msg b)"
  have "msg_len ((?m @ take 24 rest) @ drop 24 rest) = 28 + length msg"
    using device_msg_len [OF assms(1)] msg_len_prefix [of ?m rest] by simp
  then have "msg_len (?m @ take 24 rest) = 28 + length msg" using msg_len_prefix [of "?m @ take 24 rest" "drop 24 rest"] by simp
  then have "device_frame (?m @ take 24 rest)" using assms(2) by (simp add: device_frame_def)
  from BaseProcess_msgGet_frame [OF this, of "drop 24 rest"] show ?thesis by simp
qed

text \<open>\<open>misframed reqs\<close>: the first request by itself is nothing to the server; when another one follows,
  the server takes the first request and 24 octets of the second for its first message.\<close>

definition misframed :: "bytes list \<Rightarrow> bool" where
  "misframed reqs \<longleftrightarrow> BaseProcess_msgGet (hd reqs) = ([], Inr 0) \<and>
     (tl reqs = [] \<or> (\<exists>q n. BaseProcess_msgGet (concat reqs) = ((hd reqs @ take 24 (hd (tl reqs))) # q, n)))"

lemma device_two_misframed:
  assumes "length msg1 \<le> 65000"
  shows "misframed (device_two tag (no1, cmd1, msg1) (no2, cmd2, msg2) ct)"
  using device_followed [OF assms, of "device_data msg2 b2" for b2]
  by (auto simp: misframed_def device_two_def Let_def device_alone [OF assms])

text \<open>None of the requests of the six device clients has the length that the server expects from
  what it announces: it waits for 24 octets more, and takes them from the next request.\<close>
theorem device_clients_misframed:
  "list_all misframed [testDeviceManager_requests, testUserManager_requests, testAuthManager_requests,
     testConferenceManager_requests, testUpgradeManager_requests, testConfigManager_requests]"
  by (simp add: testDeviceManager_requests_def testUserManager_requests_def testAuthManager_requests_def
    testConferenceManager_requests_def testUpgradeManager_requests_def device_two_misframed request_lengths)
    (simp add: testConfigManager_requests_def misframed_def device_alone request_lengths)

section \<open>Writing\<close>

lemma do_write_sent:
  assumes "c_connected c" "length m \<le> max_msg"
  shows "\<exists>c'. AsyncClient_do_write s m c = (c', None) \<and> c_connected c' \<and> c_sent c' = c_sent c @ (if s then m else []) \<and>
    c_reads c' = c_reads c + (if s then 1 else 0)"
  using assms by (simp add: AsyncClient_do_write_def AsyncClient_do_read_def)

text \<open>A client writes its requests in order, and a read is outstanding for each; a request whose
  \<open>send\<close> fails, for instance because the connection is not there yet, is lost, and the later ones
  are written all the same.\<close>
theorem client_writes:
  assumes "c_connected c" "list_all (\<lambda>m. length m \<le> max_msg) ms" "length sents = length ms"
  shows "\<exists>c'. write_all ms sents c = (c', None) \<and>
    c_sent c' = c_sent c @ concat (map fst (filter snd (zip ms sents))) \<and>
    c_reads c' = c_reads c + length (filter id sents)"
  using assms
proof (induction ms arbitrary: c sents)
  case (Cons m ms)
  from Cons.prems(3) obtain s ss where sents: "sents = s # ss" by (cases sents) auto
  obtain c1 where c1: "AsyncClient_do_write s m c = (c1, None)" "c_connected c1"
      "c_sent c1 = c_sent c @ (if s then m else [])" "c_reads c1 = c_reads c + (if s then 1 else 0)"
    using do_write_sent [of c m s] Cons.prems by auto
  with Cons.IH [OF c1(2), of ss] Cons.prems sents show ?case by auto
qed simp

theorem client_writes_witness:
  "\<exists>c'. testDeviceManager [True, False] (AsyncClient_start (''10.0.0.1'', 8002)) = (c', None) \<and>
     c_sent c' = hd testDeviceManager_requests"
proof -
  have "\<exists>a b. testDeviceManager_requests = [a, b] \<and> length a \<le> max_msg \<and> length b \<le> max_msg"
    by (simp add: testDeviceManager_requests_def device_two_def Let_def request_lengths)
  then obtain a b where ab: "testDeviceManager_requests = [a, b]" "length a \<le> max_msg" "length b \<le> max_msg" by blast
  have "c_connected (AsyncClient_start (''10.0.0.1'', 8002))" "c_sent (AsyncClient_start (''10.0.0.1'', 8002)) = []"
    by (simp_all add: AsyncClient_start_def)
  with ab client_writes [of "AsyncClient_start (''10.0.0.1'', 8002)" "[a, b]" "[True, False]"] show ?thesis
    unfolding testDeviceManager_def ab(1) by (auto simp del: write_all.simps)
qed

end
