(* ===== verification/ServerConfig.thy ===== *)
theory ServerConfig
  imports Prelude
begin

text \<open>
  \<open>AsyncServer::loadConfig\<close> of \<open>testAsio.cpp\<close>: reading \<open>ServerConfig.cfg\<close>.  The file is its octets, or
  \<open>None\<close> when it cannot be opened; \<open>std::out_of_range\<close>, which \<open>substr\<close> throws, is the left side of the
  result.  The strings and the number that the function computes are local to it; they are kept
  here as the result of one line.
\<close>

section \<open>Strings of the C++ library\<close>

datatype config_exn = Out_of_range

text \<open>\<open>getline\<close> until it fails: the characters up to the next line feed, which is taken away.\<close>

function getlines :: "string \<Rightarrow> string list" where
  "getlines s = (if s = [] then [] else takeWhile (\<lambda>c. c \<noteq> CHR 0x0A) s # getlines (tl (dropWhile (\<lambda>c. c \<noteq> CHR 0x0A) s)))"
  by pat_completeness auto
termination
proof (relation "measure length", simp)
  fix s :: string
  assume "s \<noteq> []"
  moreover have "length (dropWhile (\<lambda>c. c \<noteq> CHR 0x0A) s) \<le> length s" by (rule length_dropWhile_le)
  ultimately show "(tl (dropWhile (\<lambda>c. c \<noteq> CHR 0x0A) s), s) \<in> measure length"
    by (simp add: less_le_trans [OF diff_less]) (cases s; simp)
qed

declare getlines.simps [simp del]

text \<open>\<open>find\<close> of a character and of a string; \<open>None\<close> is \<open>npos\<close>.\<close>

fun find_char :: "char \<Rightarrow> string \<Rightarrow> nat option" where
  "find_char c [] = None"
| "find_char c (x # xs) = (if x = c then Some 0 else map_option Suc (find_char c xs))"

fun contains :: "string \<Rightarrow> string \<Rightarrow> bool" where
  "contains p [] \<longleftrightarrow> p = []"
| "contains p (x # xs) \<longleftrightarrow> take (length p) (x # xs) = p \<or> contains p xs"

definition substr_from :: "string \<Rightarrow> nat \<Rightarrow> config_exn + string" where
  "substr_from s pos = (if length s < pos then Inl Out_of_range else Inr (drop pos s))"

text \<open>\<open>substr(0, n)\<close>; \<open>npos\<close> takes everything.\<close>

definition substr_to :: "string \<Rightarrow> nat option \<Rightarrow> string" where
  "substr_to s n = (case n of None \<Rightarrow> s | Some n \<Rightarrow> take n s)"

text \<open>\<open>pos + 1\<close> on \<open>size_t\<close>: \<open>npos + 1\<close> wraps to 0.\<close>

definition after :: "nat option \<Rightarrow> nat" where
  "after pos = (case pos of None \<Rightarrow> 0 | Some p \<Rightarrow> p + 1)"

definition is_digit :: "char \<Rightarrow> bool" where
  "is_digit c \<longleftrightarrow> 48 \<le> (of_char c :: nat) \<and> (of_char c :: nat) \<le> 57"

definition is_space :: "char \<Rightarrow> bool" where
  "is_space c \<longleftrightarrow> of_char c = (32 :: nat) \<or> (9 \<le> (of_char c :: nat) \<and> (of_char c :: nat) \<le> 13)"

definition digits_value :: "string \<Rightarrow> int" where
  "digits_value s = foldl (\<lambda>v c. 10 * v + (of_char c - 48)) 0 (takeWhile is_digit s)"

text \<open>For numbers that fit in an \<open>int\<close>.\<close>

definition atoi :: "string \<Rightarrow> int" where
  "atoi s = (case dropWhile is_space s of
       [] \<Rightarrow> 0
     | c # r \<Rightarrow> if c = CHR ''-'' then - digits_value r else if c = CHR ''+'' then digits_value r else digits_value (c # r))"

section \<open>The configuration file\<close>

text \<open>The last comparison of the code but one, with the empty string, holds of an empty line.\<close>

definition skip_line :: "string \<Rightarrow> bool" where
  "skip_line linebuf \<longleftrightarrow> take 1 linebuf \<in> {''#'', ''['', [CHR 0x0D], [], '';''}"

function strip_loop :: "string \<Rightarrow> nat \<Rightarrow> string" where
  "strip_loop linebuf i =
     (if i < length linebuf then
        (if linebuf ! i = CHR '' '' \<or> linebuf ! i = CHR 0x09
         then strip_loop (take i linebuf @ drop (i + 1) linebuf) i
         else strip_loop linebuf (i + 1))
      else linebuf)"
  by pat_completeness auto
termination by (relation "measure (\<lambda>(linebuf, i). length linebuf - i)") auto

declare strip_loop.simps [simp del]

text \<open>What is read from a line: parameter and value, and address and port when the parameter is a number.\<close>

definition read_line :: "string \<Rightarrow> config_exn + (string \<times> string \<times> (string \<times> int) option) option" where
  "read_line linebuf0 =
     (if skip_line linebuf0 then Inr None
      else (let linebuf = strip_loop linebuf0 0 in
        case find_char (CHR ''='') linebuf of
          None \<Rightarrow> Inr None
        | Some pos \<Rightarrow> (let param = take pos linebuf in
            case substr_from linebuf (pos + 1) of Inl e \<Rightarrow> Inl e | Inr value1 \<Rightarrow>
              if contains ''0x'' param then
                (let pos1 = find_char (CHR '':'') linebuf; ip = substr_to value1 pos1 in
                 case substr_from value1 (after pos1) of Inl e \<Rightarrow> Inl e
                 | Inr p \<Rightarrow> Inr (Some (param, value1, Some (ip, atoi p))))
              else Inr (Some (param, value1, None)))))"

fun read_lines :: "string list \<Rightarrow> config_exn + int" where
  "read_lines [] = Inr 0"
| "read_lines (l # ls) = (case read_line l of Inl e \<Rightarrow> Inl e | Inr _ \<Rightarrow> read_lines ls)"

definition loadConfig :: "string option \<Rightarrow> config_exn + int" where
  "loadConfig infile = (case infile of None \<Rightarrow> Inr (- 1) | Some content \<Rightarrow> read_lines (getlines content))"

section \<open>What it computes\<close>

definition blank :: "char \<Rightarrow> bool" where
  "blank c \<longleftrightarrow> c = CHR '' '' \<or> c = CHR 0x09"

lemma strip_loop_filter: "strip_loop s i = take i s @ filter (\<lambda>c. \<not> blank c) (drop i s)"
proof (induction s i rule: strip_loop.induct)
  case (1 s i)
  show ?case
  proof (cases "i < length s")
    case False then show ?thesis by (simp add: strip_loop.simps)
  next
    case True
    then have "drop i s = s ! i # drop (Suc i) s" "take (Suc i) s = take i s @ [s ! i]"
      by (simp_all add: Cons_nth_drop_Suc take_Suc_conv_app_nth)
    then show ?thesis using 1 True by (subst strip_loop.simps) (auto simp: blank_def)
  qed
qed

lemma find_char_append: "c \<notin> set xs \<Longrightarrow> find_char c (xs @ c # ys) = Some (length xs)"
  by (induction xs) auto

lemma read_lines_throws: "read_lines ls = (if \<exists>l \<in> set ls. \<exists>e. read_line l = Inl e then Inl Out_of_range else Inr 0)"
proof (induction ls)
  case (Cons l ls)
  then show ?case by (cases "read_line l") (auto intro: config_exn.exhaust)
qed simp

text \<open>An entry with an address, written with blanks anywhere.\<close>

definition address_entry :: "string \<Rightarrow> string \<Rightarrow> string \<Rightarrow> string \<Rightarrow> bool" where
  "address_entry line param host port \<longleftrightarrow>
     \<not> skip_line line \<and> filter (\<lambda>c. \<not> blank c) line = param @ ''='' @ host @ '':'' @ port \<and>
     contains ''0x'' param \<and> CHR ''='' \<notin> set param \<and> CHR '':'' \<notin> set param \<and> CHR '':'' \<notin> set host"

lemma read_line_address:
  assumes "address_entry line param host port"
  shows "read_line line = (if length port \<le> length param then Inl Out_of_range
    else Inr (Some (param, host @ '':'' @ port, Some (host @ '':'' @ take (length param) port, atoi (drop (length param + 1) port)))))"
proof -
  have e: "filter (\<lambda>c. \<not> blank c) line = param @ CHR ''='' # host @ CHR '':'' # port" "\<not> skip_line line"
    "contains ''0x'' param" "CHR ''='' \<notin> set param" "CHR '':'' \<notin> set (param @ CHR ''='' # host)"
    using assms by (auto simp: address_entry_def)
  have "find_char (CHR '':'') (param @ CHR ''='' # host @ CHR '':'' # port) = Some (length param + 1 + length host)"
    using find_char_append [OF e(5), of port] by simp
  moreover have "find_char (CHR ''='') (param @ CHR ''='' # host @ CHR '':'' # port) = Some (length param)"
    using e(4) by (rule find_char_append)
  ultimately show ?thesis
    using e(2,3) by (simp add: read_line_def strip_loop_filter e(1) Let_def substr_from_def substr_to_def after_def)
qed

text \<open>In a configuration file, an entry for an address whose parameter is at least as long as its
  port makes \<open>loadConfig\<close> throw \<open>std::out_of_range\<close>; of any other such entry the address that is taken
  contains the colon and the beginning of the port, because the position of the colon in the line is
  used as a position in the value.\<close>
theorem loadConfig_addresses:
  assumes "line \<in> set (getlines content)" "address_entry line param host port"
  shows "(length port \<le> length param \<longrightarrow> loadConfig (Some content) = Inl Out_of_range) \<and>
    (length param < length port \<longrightarrow> (\<exists>p. read_line line =
       Inr (Some (param, host @ '':'' @ port, Some (host @ '':'' @ take (length param) port, p)))))"
  using assms(1) read_line_address [OF assms(2)] by (auto simp: loadConfig_def read_lines_throws)

theorem loadConfig_addresses_witness:
  "loadConfig (Some ''0x01 = 10.0.0.1:8001'') = Inl Out_of_range"
proof -
  have "''0x01 = 10.0.0.1:8001'' \<in> set (getlines ''0x01 = 10.0.0.1:8001'')"
    by (simp add: getlines.simps)
  moreover have "address_entry ''0x01 = 10.0.0.1:8001'' ''0x01'' ''10.0.0.1'' ''8001''"
    by (simp add: address_entry_def skip_line_def blank_def)
  ultimately show ?thesis using loadConfig_addresses by fastforce
qed

end
