(* ===== verification/MySort.thy ===== *)
theory MySort
  imports Prelude
begin

text \<open>
  The sorting class templates of \<open>ConsoleTest/ConsoleTest/src/MySort.h\<close>.  An array \<open>T a[]\<close>
  with its length is a list over a linear order; a C++ \<open>int\<close> index that can become
  \<open>-1\<close> in an inner loop is carried one step (the gap) higher, as a natural number.
  The step counter of the source is part of the result.  \<open>std::stack\<close> is a list with the
  top at its head.  A loop that may run forever is a \<open>while_option\<close>: \<open>None\<close> is
  divergence.
\<close>

section \<open>Insertion sort and shell sort\<close>

text \<open>The inner \<open>for\<close> of \<open>insertionSort\<close> (gap 1) and of \<open>shellSort\<close> (gap \<open>h\<close>): \<open>k\<close> is
  \<open>index_n + h\<close>, the position of the hole; \<open>index_n >= 0\<close> is \<open>h \<le> k\<close>.\<close>

fun shiftGap :: "nat \<Rightarrow> 'a::linorder list \<Rightarrow> 'a \<Rightarrow> nat \<Rightarrow> nat \<Rightarrow> 'a list \<times> nat" where
  "shiftGap h a tmp k steps =
     (if 0 < h \<and> h \<le> k \<and> a ! (k - h) > tmp
      then shiftGap h (a[k := a ! (k - h)]) tmp (k - h) (steps + 1)
      else (a[k := tmp], steps + 1))"

declare shiftGap.simps [simp del]

definition insertGap :: "nat \<Rightarrow> nat \<Rightarrow> 'a::linorder list \<times> nat \<Rightarrow> 'a list \<times> nat" where
  "insertGap h k s = (case s of (a, steps) \<Rightarrow>
     if a ! (k - h) < a ! k then (a, steps) else shiftGap h a (a ! k) k steps)"

definition insertionSort :: "'a::linorder list \<Rightarrow> 'a list \<times> nat" where
  "insertionSort a = fold (insertGap 1) [1..<length a] (a, 0)"

text \<open>\<open>increments[20]\<close>: filled while \<open>h < n\<close>; the list is returned last increment first,
  the order in which the second loop reads it.\<close>

fun shellIncrements :: "nat \<Rightarrow> nat \<Rightarrow> nat \<Rightarrow> nat list \<Rightarrow> nat list" where
  "shellIncrements 0 n h acc = acc"
| "shellIncrements (Suc left) n h acc =
     (if h < n then shellIncrements left n (3 * h + 1) (h # acc) else acc)"

definition shellPass :: "nat \<Rightarrow> 'a::linorder list \<times> nat \<Rightarrow> 'a list \<times> nat" where
  "shellPass h s = fold (insertGap h) [h..<length (fst s)] s"

definition shellSort :: "'a::linorder list \<Rightarrow> 'a list \<times> nat" where
  "shellSort a = fold shellPass (shellIncrements 20 (length a) 1 []) (a, 0)"

section \<open>Selection sort and bubble sort\<close>

definition smallestFrom :: "'a::linorder list \<Rightarrow> nat \<Rightarrow> nat" where
  "smallestFrom a i = fold (\<lambda>j smallest. if a ! j < a ! smallest then j else smallest)
                           [i..<length a] i"

definition selectSort :: "'a::linorder list \<Rightarrow> 'a list \<times> nat" where
  "selectSort a = fold (\<lambda>i (a, steps). (swap_at a (smallestFrom a i) i, steps + 3))
                       [0..<length a] (a, 0)"

definition bubbleStep :: "nat \<Rightarrow> 'a::linorder list \<times> nat \<Rightarrow> 'a list \<times> nat" where
  "bubbleStep j s = (case s of (a, steps) \<Rightarrow>
     if a ! (j - 1) > a ! j then (swap_at a (j - 1) j, steps + 3) else (a, steps))"

definition bubbleSort :: "'a::linorder list \<Rightarrow> 'a list \<times> nat" where
  "bubbleSort a = fold (\<lambda>i s. fold bubbleStep (rev [Suc i..<length a]) s) [0..<length a] (a, 0)"

section \<open>Quick sort\<close>

fun moveHigh :: "'a::linorder list \<Rightarrow> 'a \<Rightarrow> nat \<Rightarrow> nat \<Rightarrow> nat" where
  "moveHigh a pivot low high =
     (if low < high \<and> a ! high > pivot then moveHigh a pivot low (high - 1) else high)"

function moveLow :: "'a::linorder list \<Rightarrow> 'a \<Rightarrow> nat \<Rightarrow> nat \<Rightarrow> nat" where
  "moveLow a pivot low high =
     (if low < high \<and> a ! low < pivot then moveLow a pivot (low + 1) high else low)"
  by pat_completeness auto
termination by (relation "measure (\<lambda>(a, p, l, h). h - l)") auto

declare moveHigh.simps [simp del] moveLow.simps [simp del]

text \<open>One turn of the outer \<open>while (low < high)\<close> of \<open>sortPartition\<close>.\<close>

definition partStep :: "'a::linorder \<Rightarrow> 'a list \<times> nat \<times> nat \<Rightarrow> 'a list \<times> nat \<times> nat" where
  "partStep pivot s = (case s of (a, low, high) \<Rightarrow>
     let high' = moveHigh a pivot low high;
         a1 = (if low < high' then a[low := a ! high'] else a);
         low' = moveLow a1 pivot low high';
         a2 = (if low' < high' then a1[high' := a1 ! low'] else a1)
     in (a2, low', high'))"

definition sortPartition :: "'a::linorder list \<Rightarrow> nat \<Rightarrow> nat \<Rightarrow> ('a list \<times> nat) option" where
  "sortPartition a low high = (let pivot = a ! low in
     case while_option (\<lambda>(a, l, h). l < h) (partStep pivot) (a, low, high) of
       None \<Rightarrow> None
     | Some (a', l, h) \<Rightarrow> Some (a'[l := pivot], l))"

partial_function (option) quickSort ::
  "'a::linorder list \<Rightarrow> nat \<Rightarrow> nat \<Rightarrow> 'a list option" where
  [code]: "quickSort a low high =
     (if low < high
      then Option.bind (sortPartition a low high) (\<lambda>(a1, key).
             Option.bind (quickSort a1 low (key - 1)) (\<lambda>a2. quickSort a2 (key + 1) high))
      else Some a)"

text \<open>The explicit stack of \<open>nonRecursion_quickSort\<close>: a segment \<open>(left, right)\<close> is two pushes,
  \<open>left\<close> then \<open>right\<close>, so the two pops read \<open>right\<close> first.\<close>

definition nrStep :: "('a::linorder list \<times> nat list) option \<Rightarrow> ('a list \<times> nat list) option" where
  "nrStep s = (case s of
     Some (a, right # left # values) \<Rightarrow>
       (case sortPartition a left right of
          None \<Rightarrow> None
        | Some (a', key) \<Rightarrow>
            let v1 = (if left < key - 1 then (key - 1) # left # values else values);
                v2 = (if key + 1 < right then right # (key + 1) # v1 else v1)
            in Some (a', v2))
   | _ \<Rightarrow> None)"

definition nonRecursion_quickSort ::
  "'a::linorder list \<Rightarrow> nat \<Rightarrow> nat \<Rightarrow> 'a list option" where
  "nonRecursion_quickSort a low high =
     (if low < high
      then Option.bind
             (while_option (\<lambda>s. case s of None \<Rightarrow> False | Some (a, vs) \<Rightarrow> vs \<noteq> []) nrStep
                (Some (a, [high, low])))
             (map_option fst)
      else Some a)"

section \<open>Heap sort\<close>

function adjust :: "'a::linorder list \<Rightarrow> nat \<Rightarrow> nat \<Rightarrow> 'a list" where
  "adjust arr len index =
     (let left = 2 * index + 1; right = 2 * index + 2;
          m1 = (if left < len \<and> arr ! left > arr ! index then left else index);
          maxIdx = (if right < len \<and> arr ! right > arr ! m1 then right else m1)
      in if maxIdx \<noteq> index then adjust (swap_at arr maxIdx index) len maxIdx else arr)"
  by pat_completeness auto
termination
  by (relation "measure (\<lambda>(arr, len, index). len - index)")
     (auto simp: Let_def split: if_splits)

declare adjust.simps [simp del]

definition heapSort :: "'a::linorder list \<Rightarrow> 'a list" where
  "heapSort arr =
     (let size = length arr;
          h = fold (\<lambda>i a. adjust a size i) (rev [0..<size div 2]) arr
      in fold (\<lambda>i a. adjust (swap_at a 0 i) i 0) (rev [1..<size]) h)"

section \<open>Every sort only permutes\<close>

lemma length_shiftGap [simp]: "length (fst (shiftGap h a x k st)) = length a"
  by (induction h a x k st rule: shiftGap.induct) (subst shiftGap.simps, auto)

lemma mset_shiftGap [arr]:
  "k < length a \<Longrightarrow> mset (fst (shiftGap h a x k st)) + {# a ! k #} = mset a + {# x #}"
proof (induction h a x k st rule: shiftGap.induct)
  case (1 h a x k st)
  show ?case
  proof (cases "0 < h \<and> h \<le> k \<and> a ! (k - h) > x")
    case True
    let ?b = "a[k := a ! (k - h)]"
    have nth: "?b ! (k - h) = a ! (k - h)" using True by (intro nth_list_update_neq) arith
    have ih: "mset (fst (shiftGap h ?b x (k - h) (st + 1))) + {# a ! (k - h) #} = mset ?b + {# x #}"
      using 1 True nth by (metis length_list_update less_imp_diff_less)
    have hole: "mset ?b + {# a ! k #} = mset a + {# a ! (k - h) #}"
      using 1(2) by (rule mset_update_hole)
    have "mset (fst (shiftGap h ?b x (k - h) (st + 1))) + {# a ! k #} + {# a ! (k - h) #}
          = mset a + {# x #} + {# a ! (k - h) #}"
      using ih hole by (metis union_assoc union_commute)
    then show ?thesis using True by (subst shiftGap.simps) simp
  next
    case False
    with mset_update_hole [OF 1(2), of x] show ?thesis by (subst shiftGap.simps) auto
  qed
qed

lemma insertGap_perm [arr]:
  assumes "k < length (fst s)"
  shows "mset (fst (insertGap h k s)) = mset (fst s)" "length (fst (insertGap h k s)) = length (fst s)"
proof -
  obtain a st where s: "s = (a, st)" by (cases s)
  have "mset (fst (shiftGap h a (a ! k) k st)) + {# a ! k #} = mset a + {# a ! k #}"
    using assms s by (intro mset_shiftGap) simp
  then show "mset (fst (insertGap h k s)) = mset (fst s)" by (simp add: insertGap_def s)
  show "length (fst (insertGap h k s)) = length (fst s)" by (simp add: insertGap_def s)
qed

lemma fold_insertGap_perm:
  assumes "set ks \<subseteq> {..<length (fst s)}"
  shows "mset (fst (fold (insertGap h) ks s)) = mset (fst s) \<and>
         length (fst (fold (insertGap h) ks s)) = length (fst s)"
  by (rule fold_invariant_set [where P = "\<lambda>t. mset (fst t) = mset (fst s) \<and>
        length (fst t) = length (fst s)"]) (use assms in \<open>auto simp: insertGap_perm\<close>)

lemma shellPass_perm:
  "mset (fst (shellPass h s)) = mset (fst s)" "length (fst (shellPass h s)) = length (fst s)"
  using fold_insertGap_perm [of "[h..<length (fst s)]" s h] by (simp_all add: shellPass_def subset_iff)

lemma fold_shellPass_perm: "mset (fst (fold shellPass hs s)) = mset (fst s)"
  by (rule fold_invariant_set [where P = "\<lambda>t. mset (fst t) = mset (fst s)"])
     (auto simp: shellPass_perm)

section \<open>A pass with gap \<open>h\<close> leaves the array \<open>h\<close>-sorted\<close>

definition gapSorted :: "nat \<Rightarrow> nat \<Rightarrow> 'a::linorder list \<Rightarrow> bool" where
  "gapSorted h m a \<longleftrightarrow> (\<forall>i. i + h < m \<longrightarrow> a ! i \<le> a ! (i + h))"

text \<open>The invariant of the shift loop: the part below \<open>m\<close> is \<open>h\<close>-sorted around the hole at
  \<open>k\<close>, and \<open>x\<close> may go anywhere below the element above the hole.\<close>

definition holeInv :: "nat \<Rightarrow> nat \<Rightarrow> 'a::linorder list \<Rightarrow> 'a \<Rightarrow> nat \<Rightarrow> bool" where
  "holeInv h m a x k \<longleftrightarrow> k < m \<and> m \<le> length a \<and>
     (\<forall>i. i + h < m \<longrightarrow> i \<noteq> k \<longrightarrow> i + h \<noteq> k \<longrightarrow> a ! i \<le> a ! (i + h)) \<and>
     (h \<le> k \<longrightarrow> k + h < m \<longrightarrow> a ! (k - h) \<le> a ! (k + h)) \<and>
     (k + h < m \<longrightarrow> x \<le> a ! (k + h))"

lemma shiftGap_gapSorted:
  "0 < h \<Longrightarrow> holeInv h m a x k \<Longrightarrow> gapSorted h m (fst (shiftGap h a x k st))"
proof (induction h a x k st rule: shiftGap.induct)
  case (1 h a x k st)
  show ?case
  proof (cases "h \<le> k \<and> a ! (k - h) > x")
    case True
    have two: "a ! (k - h - h) \<le> a ! (k - h)" if "h \<le> k - h"
    proof -
      have "k - h - h + h = k - h" "k - h \<noteq> k" "k - h - h \<noteq> k" "k - h < m"
        using that True 1(2,3) by (auto simp: holeInv_def)
      with 1(3) show ?thesis unfolding holeInv_def by metis
    qed
    have "holeInv h m (a[k := a ! (k - h)]) x (k - h)"
      using 1(2,3) True two unfolding holeInv_def
      by (auto simp: nth_list_update)
    with 1 True show ?thesis by (subst shiftGap.simps) simp
  next
    case False
    then have le: "h \<le> k \<Longrightarrow> a ! (k - h) \<le> x" by auto
    have "gapSorted h m (a[k := x])"
      unfolding gapSorted_def
    proof (intro allI impI)
      fix i assume i: "i + h < m"
      consider "i = k" | "i + h = k" | "i \<noteq> k" "i + h \<noteq> k" by blast
      then show "a[k := x] ! i \<le> a[k := x] ! (i + h)"
        using 1(2,3) i le by cases (auto simp: holeInv_def nth_list_update)
    qed
    with False show ?thesis by (subst shiftGap.simps) auto
  qed
qed

lemma insertGap_gapSorted:
  assumes "0 < h" "h \<le> k" "k < length (fst s)" "gapSorted h k (fst s)"
  shows "gapSorted h (Suc k) (fst (insertGap h k s))"
proof -
  obtain a st where s: "s = (a, st)" by (cases s)
  show ?thesis
  proof (cases "a ! (k - h) < a ! k")
    case True
    then have "gapSorted h (Suc k) a"
      using assms s unfolding gapSorted_def
      by (metis add_diff_cancel_right' fst_conv less_SucE less_imp_le)
    with True show ?thesis by (simp add: insertGap_def s)
  next
    case False
    have "holeInv h (Suc k) a (a ! k) k"
      using assms s by (auto simp: holeInv_def gapSorted_def less_Suc_eq)
    with assms(1) False show ?thesis by (simp add: insertGap_def s shiftGap_gapSorted)
  qed
qed

lemma fold_insertGap_gapSorted:
  assumes "0 < h"
  shows "gapSorted h (length (fst s)) (fst (fold (insertGap h) [h..<length (fst s)] s))"
proof (cases "h \<le> length (fst s)")
  case True
  define n where "n = length (fst s)"
  have "length (fst (fold (insertGap h) [h..<n] s)) = n \<and>
        gapSorted h n (fst (fold (insertGap h) [h..<n] s))"
    by (rule fold_upt_invariant [where P = "\<lambda>k t. length (fst t) = n \<and> gapSorted h k (fst t)"])
       (use True assms in \<open>auto simp: n_def insertGap_perm insertGap_gapSorted,
        auto simp: gapSorted_def\<close>)
  then show ?thesis by (simp add: n_def)
next
  case False then show ?thesis by (simp add: gapSorted_def)
qed

lemma gapSorted_one: "gapSorted 1 (length a) a \<longleftrightarrow> sorted a"
  by (simp add: gapSorted_def sorted_iff_adjacent)

lemma shellPass_one_sorted: "sorted (fst (shellPass (Suc 0) s))"
  using fold_insertGap_gapSorted [of 1 s] gapSorted_one [of "fst (shellPass 1 s)"]
  by (simp add: shellPass_def [symmetric] shellPass_perm)

text \<open>The increments end with 1, so the last pass is an insertion sort.\<close>

lemma shellIncrements_suffix: "\<exists>hs. shellIncrements left n h acc = hs @ acc"
proof (induction left n h acc rule: shellIncrements.induct)
  case (2 left n h acc)
  then show ?case by (metis append.assoc append_Cons append_Nil shellIncrements.simps(2))
qed simp

lemma shellIncrements_last: "1 < n \<Longrightarrow> \<exists>hs. shellIncrements 20 n 1 [] = hs @ [1]"
  using shellIncrements_suffix [of 19 n 4 "[1]"] by (simp add: eval_nat_numeral)

lemma short_sorted: "length a \<le> 1 \<Longrightarrow> sorted a"
  by (cases a) auto

text \<open>insertion sort returns the sorted permutation of its array.\<close>
lemma insertionSort_sorts:
  "sorted (fst (insertionSort a)) \<and> mset (fst (insertionSort a)) = mset a"
proof -
  have "insertionSort a = shellPass 1 (a, 0)" by (simp add: insertionSort_def shellPass_def)
  then show ?thesis using shellPass_one_sorted [of "(a, 0)"] shellPass_perm [of 1 "(a, 0)"] by simp
qed

text \<open>shell sort, with whatever increments it filled in, returns the sorted permutation.\<close>
lemma shellSort_sorts:
  "sorted (fst (shellSort a)) \<and> mset (fst (shellSort a)) = mset a"
proof (cases "1 < length a")
  case True
  then obtain hs where "shellIncrements 20 (length a) 1 [] = hs @ [1]"
    using shellIncrements_last by blast
  then have "shellSort a = shellPass 1 (fold shellPass hs (a, 0))" by (simp add: shellSort_def)
  then show ?thesis by (simp add: shellPass_one_sorted shellPass_perm fold_shellPass_perm)
next
  case False
  then show ?thesis by (simp add: shellSort_def eval_nat_numeral short_sorted)
qed

section \<open>Selection sort and bubble sort: the prefix of minima\<close>

definition prefixMin :: "nat \<Rightarrow> 'a::linorder list \<Rightarrow> bool" where
  "prefixMin i a \<longleftrightarrow> (\<forall>p q. p < i \<longrightarrow> p < q \<longrightarrow> q < length a \<longrightarrow> a ! p \<le> a ! q)"

lemma prefixMin_swap:
  assumes "prefixMin i a" "i \<le> p" "i \<le> q" "p < length a" "q < length a"
  shows "prefixMin i (swap_at a p q)"
  using assms unfolding prefixMin_def by (auto simp: nth_swap_at)

lemma prefixMin_Suc:
  assumes "prefixMin i a" "\<And>q. i < q \<Longrightarrow> q < length a \<Longrightarrow> a ! i \<le> a ! q"
  shows "prefixMin (Suc i) a"
  using assms unfolding prefixMin_def by (auto simp: less_Suc_eq)

lemma prefixMin_sorted: "prefixMin (length a) a \<Longrightarrow> sorted a"
  by (auto simp: prefixMin_def sorted_iff_nth_mono_less)

lemma smallestFrom_spec:
  assumes "i < length a"
  shows "i \<le> smallestFrom a i \<and> smallestFrom a i < length a \<and>
         (\<forall>q. i \<le> q \<longrightarrow> q < length a \<longrightarrow> a ! smallestFrom a i \<le> a ! q)"
  unfolding smallestFrom_def
  by (rule fold_upt_invariant [where P = "\<lambda>j s. i \<le> s \<and> s < length a \<and>
        (\<forall>q. i \<le> q \<longrightarrow> q < j \<longrightarrow> a ! s \<le> a ! q)"])
     (use assms in \<open>auto simp: less_Suc_eq split: if_splits intro: less_imp_le\<close>)

lemma selectSort_step:
  assumes "i < length a" "prefixMin i a"
  shows "prefixMin (Suc i) (swap_at a (smallestFrom a i) i)"
proof (rule prefixMin_Suc)
  show "prefixMin i (swap_at a (smallestFrom a i) i)"
    using smallestFrom_spec [OF assms(1)] assms by (intro prefixMin_swap) auto
  show "swap_at a (smallestFrom a i) i ! i \<le> swap_at a (smallestFrom a i) i ! q"
    if "i < q" "q < length (swap_at a (smallestFrom a i) i)" for q
    using smallestFrom_spec [OF assms(1)] assms that by (auto simp: nth_swap_at)
qed

text \<open>selection sort returns the sorted permutation and counts three steps per element.\<close>
lemma selectSort_sorts:
  "sorted (fst (selectSort a)) \<and> mset (fst (selectSort a)) = mset a \<and>
   snd (selectSort a) = 3 * length a"
proof -
  define n where "n = length a"
  have "length (fst (selectSort a)) = n \<and> mset (fst (selectSort a)) = mset a \<and>
        prefixMin n (fst (selectSort a)) \<and> snd (selectSort a) = 3 * n"
    unfolding selectSort_def n_def [symmetric]
    by (rule fold_upt_invariant [where P = "\<lambda>i s. length (fst s) = n \<and> mset (fst s) = mset a \<and>
          prefixMin i (fst s) \<and> snd s = 3 * i"])
       (auto simp: n_def prefixMin_def [of 0] selectSort_step,
        metis mset_swap_at smallestFrom_spec)
  then show ?thesis by (auto simp: n_def intro: prefixMin_sorted)
qed

text \<open>After the inner loop has come down to \<open>j\<close>, position \<open>j - 1\<close> holds the minimum of the rest.\<close>

definition bubbleInv :: "nat \<Rightarrow> nat \<Rightarrow> 'a::linorder list \<Rightarrow> bool" where
  "bubbleInv i j a \<longleftrightarrow> prefixMin i a \<and> (\<forall>q. j \<le> q \<longrightarrow> q < length a \<longrightarrow> a ! (j - 1) \<le> a ! q)"

lemma bubbleStep_inv:
  assumes "i < k" "k < length a" "bubbleInv i (Suc k) a"
  shows "bubbleInv i k (fst (bubbleStep k (a, st)))"
proof (cases "a ! (k - 1) > a ! k")
  case True
  have "prefixMin i (swap_at a (k - 1) k)"
    using assms by (intro prefixMin_swap) (auto simp: bubbleInv_def)
  moreover have "swap_at a (k - 1) k ! (k - 1) \<le> swap_at a (k - 1) k ! q"
    if "k \<le> q" "q < length a" for q
    using assms that True by (cases "q = k") (auto simp: bubbleInv_def nth_swap_at)
  ultimately show ?thesis using True by (simp add: bubbleStep_def bubbleInv_def)
next
  case False
  have "a ! (k - 1) \<le> a ! q" if "k \<le> q" "q < length a" for q
  proof -
    have "a ! k \<le> a ! q" using assms(3) that by (cases "q = k") (simp_all add: bubbleInv_def)
    with False show ?thesis by simp
  qed
  with False assms(3) show ?thesis by (simp add: bubbleStep_def bubbleInv_def)
qed

lemma bubbleStep_perm:
  assumes "0 < k" "k < length (fst s)"
  shows "length (fst (bubbleStep k s)) = length (fst s)" "mset (fst (bubbleStep k s)) = mset (fst s)"
  using assms by (auto simp: bubbleStep_def mset_swap_at split: prod.splits)

lemma bubble_inner:
  fixes s :: "'a::linorder list \<times> nat"
  assumes "i < n" "length (fst s) = n" "prefixMin i (fst s)"
  shows "length (fst (fold bubbleStep (rev [Suc i..<n]) s)) = n \<and>
         mset (fst (fold bubbleStep (rev [Suc i..<n]) s)) = mset (fst s) \<and>
         prefixMin (Suc i) (fst (fold bubbleStep (rev [Suc i..<n]) s))"
proof -
  let ?t = "fold bubbleStep (rev [Suc i..<n]) s"
  have "length (fst ?t) = n \<and> mset (fst ?t) = mset (fst s) \<and> bubbleInv i (Suc i) (fst ?t)"
  proof (rule fold_rev_upt_invariant [where P = "\<lambda>j t. length (fst t) = n \<and>
          mset (fst t) = mset (fst s) \<and> bubbleInv i j (fst t)"])
    fix k and t :: "'a list \<times> nat"
    assume "Suc i \<le> k" "k < n"
      "length (fst t) = n \<and> mset (fst t) = mset (fst s) \<and> bubbleInv i (Suc k) (fst t)"
    then show "length (fst (bubbleStep k t)) = n \<and> mset (fst (bubbleStep k t)) = mset (fst s) \<and>
        bubbleInv i k (fst (bubbleStep k t))"
      using bubbleStep_inv [of i k "fst t" "snd t"] by (simp add: bubbleStep_perm)
  qed (use assms in \<open>auto simp: bubbleInv_def\<close>)
  then show ?thesis by (auto simp: bubbleInv_def intro: prefixMin_Suc)
qed

text \<open>bubble sort returns the sorted permutation.\<close>
lemma bubbleSort_sorts:
  "sorted (fst (bubbleSort a)) \<and> mset (fst (bubbleSort a)) = mset a"
proof -
  define n where "n = length a"
  have "length (fst (bubbleSort a)) = n \<and> prefixMin n (fst (bubbleSort a)) \<and>
        mset (fst (bubbleSort a)) = mset a"
    unfolding bubbleSort_def n_def [symmetric]
    by (rule fold_upt_invariant [where P = "\<lambda>i s. length (fst s) = n \<and> prefixMin i (fst s) \<and>
          mset (fst s) = mset a"])
       (use bubble_inner in \<open>auto simp: n_def prefixMin_def [of 0]\<close>)
  then show ?thesis by (auto simp: n_def intro: prefixMin_sorted)
qed

section \<open>Segments of an array\<close>

definition segPerm :: "nat \<Rightarrow> nat \<Rightarrow> 'a list \<Rightarrow> 'a list \<Rightarrow> bool" where
  "segPerm L H a b \<longleftrightarrow> length b = length a \<and> mset b = mset a \<and>
     (\<forall>i. i < L \<or> H < i \<longrightarrow> i < length a \<longrightarrow> b ! i = a ! i)"

definition segDistinct :: "nat \<Rightarrow> nat \<Rightarrow> 'a list \<Rightarrow> bool" where
  "segDistinct L H a \<longleftrightarrow> (\<forall>i j. L \<le> i \<longrightarrow> i < j \<longrightarrow> j \<le> H \<longrightarrow> a ! i \<noteq> a ! j)"

definition segSorted :: "nat \<Rightarrow> nat \<Rightarrow> 'a::linorder list \<Rightarrow> bool" where
  "segSorted L H a \<longleftrightarrow> (\<forall>i j. L \<le> i \<longrightarrow> i < j \<longrightarrow> j \<le> H \<longrightarrow> a ! i \<le> a ! j)"

definition seg :: "nat \<Rightarrow> nat \<Rightarrow> 'a list \<Rightarrow> 'a list" where
  "seg L H a = take (Suc H - L) (drop L a)"

lemma length_seg: "H < length a \<Longrightarrow> length (seg L H a) = Suc H - L"
  by (simp add: seg_def)

lemma nth_seg: "H < length a \<Longrightarrow> k < Suc H - L \<Longrightarrow> seg L H a ! k = a ! (L + k)"
  by (simp add: seg_def)

lemma segPerm_refl [simp]: "segPerm L H a a"
  by (simp add: segPerm_def)

lemma segPerm_trans: "segPerm L H a b \<Longrightarrow> segPerm L H b c \<Longrightarrow> segPerm L H a c"
  by (auto simp: segPerm_def)

lemma segPerm_widen: "segPerm L H a b \<Longrightarrow> L' \<le> L \<Longrightarrow> H \<le> H' \<Longrightarrow> segPerm L' H' a b"
  by (auto simp: segPerm_def)

lemma segPerm_length: "segPerm L H a b \<Longrightarrow> length b = length a"
  by (simp add: segPerm_def)

lemma segPerm_mset_seg:
  assumes "segPerm L H a b" "L \<le> H" "H < length a"
  shows "mset (seg L H b) = mset (seg L H a)"
proof -
  have split: "xs = take L xs @ seg L H xs @ drop (Suc H) xs" for xs :: "'a list"
    using assms(2) by (simp add: seg_def) (metis Suc_diff_le add_Suc_right add_diff_inverse_nat
        append_take_drop_id drop_drop le_Suc_eq not_less add.commute le_add_diff_inverse2)
  have "take L b = take L a"
    using assms by (intro nth_equalityI) (auto simp: segPerm_def)
  moreover have "drop (Suc H) b = drop (Suc H) a"
    using assms by (intro nth_equalityI) (auto simp: segPerm_def)
  moreover have "mset (take L b) + mset (seg L H b) + mset (drop (Suc H) b)
               = mset (take L a) + mset (seg L H a) + mset (drop (Suc H) a)"
    using assms(1) split [of a] split [of b] by (metis mset_append segPerm_def union_assoc)
  ultimately show ?thesis by simp
qed

lemma segPerm_all:
  assumes "segPerm L H a b" "H < length a" "\<And>i. L \<le> i \<Longrightarrow> i \<le> H \<Longrightarrow> P (a ! i)" "L \<le> j" "j \<le> H"
  shows "P (b ! j)"
proof -
  have "set (seg L H b) = set (seg L H a)"
    using segPerm_mset_seg [OF assms(1)] assms by (metis le_trans set_mset_mset)
  moreover have "b ! j \<in> set (seg L H b)"
    using assms segPerm_length [OF assms(1)] unfolding in_set_conv_nth
    by (intro exI [of _ "j - L"]) (auto simp: length_seg nth_seg)
  ultimately have "b ! j \<in> set (seg L H a)" by simp
  then obtain k where "k < length (seg L H a)" "seg L H a ! k = b ! j"
    by (auto simp: in_set_conv_nth)
  with assms(3) [of "L + k"] assms(2) show ?thesis by (auto simp: length_seg nth_seg)
qed

lemma segDistinct_seg:
  assumes "H < length a" shows "segDistinct L H a \<longleftrightarrow> distinct (seg L H a)"
proof
  assume d: "segDistinct L H a"
  show "distinct (seg L H a)" unfolding distinct_conv_nth
  proof (intro allI impI)
    fix i j assume "i < length (seg L H a)" "j < length (seg L H a)" "i \<noteq> j"
    then have "i < Suc H - L" "j < Suc H - L" by (simp_all add: length_seg assms)
    then have le: "L + i \<le> H" "L + j \<le> H" by arith+
    have "a ! (L + i) \<noteq> a ! (L + j)"
    proof (cases "i < j")
      case True with d le show ?thesis by (simp add: segDistinct_def)
    next
      case False
      with \<open>i \<noteq> j\<close> have "L + j < L + i" by simp
      with d le show ?thesis by (metis le_add1 segDistinct_def)
    qed
    with \<open>i < Suc H - L\<close> \<open>j < Suc H - L\<close> show "seg L H a ! i \<noteq> seg L H a ! j"
      by (simp add: nth_seg assms)
  qed
next
  assume "distinct (seg L H a)"
  then show "segDistinct L H a" unfolding segDistinct_def
  proof (intro allI impI)
    fix i j assume "distinct (seg L H a)" "L \<le> i" "i < j" "j \<le> H"
    with assms have "seg L H a ! (i - L) \<noteq> seg L H a ! (j - L)"
      by (subst nth_eq_iff_index_eq) (auto simp: length_seg)
    with \<open>L \<le> i\<close> \<open>i < j\<close> \<open>j \<le> H\<close> assms show "a ! i \<noteq> a ! j" by (simp add: nth_seg)
  qed
qed

lemma segPerm_segDistinct:
  assumes "segPerm L H a b" "H < length a" "L \<le> H"
  shows "segDistinct L H b \<longleftrightarrow> segDistinct L H a"
  using segPerm_mset_seg [OF assms(1,3,2)] assms segPerm_length [OF assms(1)]
  by (metis mset_eq_imp_distinct_iff segDistinct_seg)

section \<open>The partition of quick sort\<close>

lemma moveHigh_spec:
  "low \<le> high \<Longrightarrow> low \<le> moveHigh a p low high \<and> moveHigh a p low high \<le> high \<and>
   (\<forall>i. moveHigh a p low high < i \<longrightarrow> i \<le> high \<longrightarrow> p < a ! i) \<and>
   (moveHigh a p low high = low \<or> a ! moveHigh a p low high \<le> p)"
proof (induction a p low high rule: moveHigh.induct)
  case (1 a p low high)
  show ?case
  proof (cases "low < high \<and> a ! high > p")
    case True
    then have "moveHigh a p low high = moveHigh a p low (high - 1)" by (subst moveHigh.simps) simp
    moreover have "p < a ! i" if "\<forall>i. m < i \<longrightarrow> i \<le> high - 1 \<longrightarrow> p < a ! i" "m < i" "i \<le> high" for i m
      using that True by (cases "i = high") auto
    ultimately show ?thesis using 1 True by (smt (verit) le_diff_conv le_add1 le_trans less_imp_le_nat
          less_iff_succ_less_eq nat_le_iff_add not_less)
  next
    case False
    then have "moveHigh a p low high = high" by (subst moveHigh.simps) auto
    with False 1(2) show ?thesis by auto
  qed
qed

lemma moveLow_spec:
  "low \<le> high \<Longrightarrow> low \<le> moveLow a p low high \<and> moveLow a p low high \<le> high \<and>
   (\<forall>i. low \<le> i \<longrightarrow> i < moveLow a p low high \<longrightarrow> a ! i < p) \<and>
   (moveLow a p low high = high \<or> p \<le> a ! moveLow a p low high)"
proof (induction a p low high rule: moveLow.induct)
  case (1 a p low high)
  show ?case
  proof (cases "low < high \<and> a ! low < p")
    case True
    then have eq: "moveLow a p low high = moveLow a p (low + 1) high" by (subst moveLow.simps) simp
    have "a ! i < p" if "\<forall>i. low + 1 \<le> i \<longrightarrow> i < m \<longrightarrow> a ! i < p" "low \<le> i" "i < m" for i m
      using that True by (cases "i = low") auto
    with 1 True show ?thesis unfolding eq by auto
  next
    case False
    then have "moveLow a p low high = low" by (subst moveLow.simps) auto
    with False 1(2) show ?thesis by auto
  qed
qed

text \<open>One segment \<open>[L, H]\<close> of \<open>a0\<close> under partition: left of \<open>l\<close> is below the pivot, right of
  \<open>h\<close> above it, the hole is at \<open>l\<close>, and the pivot occurs nowhere else in the segment.\<close>

definition partInv :: "nat \<Rightarrow> nat \<Rightarrow> 'a::linorder list \<Rightarrow> 'a \<Rightarrow> 'a list \<times> nat \<times> nat \<Rightarrow> bool" where
  "partInv L H a0 p s = (case s of (a, l, h) \<Rightarrow>
     L \<le> l \<and> l \<le> h \<and> h \<le> H \<and> H < length a0 \<and> length a = length a0 \<and>
     segPerm L H a0 (a[l := p]) \<and>
     (\<forall>i. L \<le> i \<longrightarrow> i < l \<longrightarrow> a ! i < p) \<and> (\<forall>i. h < i \<longrightarrow> i \<le> H \<longrightarrow> p < a ! i) \<and>
     (\<forall>i. l < i \<longrightarrow> i \<le> h \<longrightarrow> a ! i \<noteq> p))"

lemma hole_move:
  assumes "l < length a" "h < length a" "l \<noteq> h"
  shows "a[l := a ! h, h := p] = swap_at (a[l := p]) h l"
  using assms by (intro nth_equalityI) (auto simp: swap_at_def nth_list_update)

lemma segPerm_swap:
  assumes "segPerm L H a0 a" "L \<le> i" "i \<le> H" "L \<le> j" "j \<le> H" "H < length a0"
  shows "segPerm L H a0 (swap_at a i j)"
  using assms by (auto simp: segPerm_def mset_swap_at nth_swap_at)

lemma partInv_high:
  assumes inv: "partInv L H a0 p (a, l, h)" and lt: "l < h"
    and m: "m = moveHigh a p l h" and a1: "a1 = (if l < m then a[l := a ! m] else a)"
  shows "l \<le> m \<and> m \<le> h \<and> length a1 = length a0 \<and>
     segPerm L H a0 (a1[m := p]) \<and> (l < m \<longrightarrow> a1 ! l < p) \<and>
     (\<forall>i. L \<le> i \<longrightarrow> i < l \<longrightarrow> a1 ! i < p) \<and> (\<forall>i. m < i \<longrightarrow> i \<le> H \<longrightarrow> p < a1 ! i) \<and>
     (\<forall>i. l < i \<longrightarrow> i \<le> m \<longrightarrow> a1 ! i \<noteq> p)"
proof -
  note spec = moveHigh_spec [of l h a p, folded m]
  have 1: "l \<le> m" "m \<le> h" "m = l \<or> a ! m \<le> p" "\<And>i. m < i \<Longrightarrow> i \<le> h \<Longrightarrow> p < a ! i"
    using spec lt by auto
  have I: "L \<le> l" "h \<le> H" "H < length a0" "length a = length a0" "segPerm L H a0 (a[l := p])"
     "\<And>i. L \<le> i \<Longrightarrow> i < l \<Longrightarrow> a ! i < p" "\<And>i. h < i \<Longrightarrow> i \<le> H \<Longrightarrow> p < a ! i"
     "\<And>i. l < i \<Longrightarrow> i \<le> h \<Longrightarrow> a ! i \<noteq> p"
    using inv by (auto simp: partInv_def)
  have perm: "segPerm L H a0 (a1[m := p])"
  proof (cases "l < m")
    case True
    have "segPerm L H a0 (swap_at (a[l := p]) m l)"
      using I 1 by (intro segPerm_swap) auto
    with True I 1 show ?thesis by (simp add: a1 hole_move)
  next
    case False with 1 I show ?thesis by (simp add: a1)
  qed
  have "p < a ! i" if "m < i" "i \<le> H" for i using 1(4) I(7) that by (cases "i \<le> h") auto
  moreover have "a ! m < p" if "l < m" using that 1 I(8) [of m] by force
  ultimately show ?thesis using 1 I perm by (auto simp: a1 nth_list_update)
qed

lemma partStep_inv:
  assumes inv: "partInv L H a0 p (a, l, h)" and lt: "l < h" and s: "partStep p (a, l, h) = (a2, l2, h2)"
  shows "partInv L H a0 p (a2, l2, h2) \<and> h2 - l2 < h - l"
proof -
  define m where "m = moveHigh a p l h"
  define a1 where "a1 = (if l < m then a[l := a ! m] else a)"
  define k where "k = moveLow a1 p l m"
  have res: "a2 = (if k < m then a1[m := a1 ! k] else a1)" "l2 = k" "h2 = m"
    using s unfolding partStep_def Let_def prod.case m_def [symmetric] a1_def [symmetric]
      k_def [symmetric] by auto
  note H = partInv_high [OF inv lt m_def a1_def]
  have K: "l \<le> k" "k \<le> m" "\<And>i. l \<le> i \<Longrightarrow> i < k \<Longrightarrow> a1 ! i < p" "k = m \<or> p \<le> a1 ! k"
    using moveLow_spec [of l m a1 p] H by (auto simp: k_def)
  have I: "L \<le> l" "h \<le> H" "H < length a0" using inv by (auto simp: partInv_def)
  have prog: "m - k < h - l"
  proof (cases "l < m")
    case True
    then have "k \<noteq> l" using K(4) H by auto
    then show ?thesis using K H lt by linarith
  next
    case False with K H lt show ?thesis by linarith
  qed
  have perm: "segPerm L H a0 (a2[k := p])"
  proof (cases "k < m")
    case True
    have "segPerm L H a0 (swap_at (a1[m := p]) k m)"
      using H K I by (intro segPerm_swap) auto
    moreover have "a2[k := p] = swap_at (a1[m := p]) k m"
      using True H K I by (simp add: res hole_move)
    ultimately show ?thesis by simp
  next
    case False with H K show ?thesis by (simp add: res)
  qed
  have left: "a2 ! i < p" if "L \<le> i" "i < k" for i
    using that K H by (cases "i < l") (auto simp: res)
  have right: "p < a2 ! i" if "m < i" "i \<le> H" for i
    using that K H I by (auto simp: res nth_list_update)
  have here: "p < a2 ! m" if "k < m"
  proof -
    have "l < k" using K(4) H that by (metis K(1) le_neq_implies_less le_less_trans not_less)
    then have "a1 ! k \<noteq> p" using H that by auto
    with K(4) that have "p < a1 ! k" by auto
    with that H I K show ?thesis by (simp add: res nth_list_update)
  qed
  have mid: "a2 ! i \<noteq> p" if "k < i" "i \<le> m" for i
    using that K H here by (cases "i = m") (auto simp: res nth_list_update)
  have "length a2 = length a0" using H by (simp add: res)
  with perm left right mid K H I prog show ?thesis by (simp add: partInv_def res(2,3))
qed

lemma sortPartition_unique:
  assumes "L < H" "H < length a" and uniq: "\<And>i. L < i \<Longrightarrow> i \<le> H \<Longrightarrow> a ! i \<noteq> a ! L"
  shows "\<exists>b key. sortPartition a L H = Some (b, key) \<and> segPerm L H a b \<and> L \<le> key \<and> key \<le> H \<and>
     b ! key = a ! L \<and> (\<forall>i. L \<le> i \<longrightarrow> i < key \<longrightarrow> b ! i < a ! L) \<and>
     (\<forall>i. key < i \<longrightarrow> i \<le> H \<longrightarrow> a ! L < b ! i)"
proof -
  let ?p = "a ! L" let ?I = "partInv L H a (a ! L)" let ?b = "\<lambda>(a, l, h). l < (h :: nat)"
  have start: "?I (a, L, H)" using assms by (auto simp: partInv_def)
  have step: "?I (partStep ?p s) \<and> (case partStep ?p s of (a2, l2, h2) \<Rightarrow> h2 - l2) <
      (case s of (a2, l2, h2) \<Rightarrow> h2 - l2)" if "?I s" "?b s" for s
  proof -
    obtain c l h c2 l2 h2 where "s = (c, l, h)" "partStep ?p s = (c2, l2, h2)"
      by (metis prod_cases3)
    with partStep_inv [of L H a ?p c l h c2 l2 h2] that show ?thesis by simp
  qed
  have "\<exists>t. while_option ?b (partStep ?p) (a, L, H) = Some t"
    by (rule measure_while_option_Some [where P = ?I and f = "\<lambda>(a2, l2, h2). h2 - l2"])
       (use start step in auto)
  then obtain c l h where w: "while_option ?b (partStep ?p) (a, L, H) = Some (c, l, h)" by auto
  have "\<not> ?b (c, l, h)" using while_option_stop [OF w] by simp
  moreover have "?I (c, l, h)" using while_option_rule [where P = ?I, OF _ w start] step by auto
  ultimately have I: "?I (c, l, h)" "h = l" by (auto simp: partInv_def)
  have "sortPartition a L H = Some (c[l := ?p], l)" by (simp add: sortPartition_def Let_def w)
  moreover have "\<forall>i. L \<le> i \<longrightarrow> i < l \<longrightarrow> c[l := ?p] ! i < ?p" "\<forall>i. l < i \<longrightarrow> i \<le> H \<longrightarrow> ?p < c[l := ?p] ! i"
    using I by (auto simp: partInv_def)
  ultimately show ?thesis using I by (auto simp: partInv_def)
qed

text \<open>A second copy of the pivot in the segment is never passed: it stops both inner loops.\<close>

definition stuckInv :: "nat \<Rightarrow> 'a::linorder \<Rightarrow> 'a list \<times> nat \<times> nat \<Rightarrow> bool" where
  "stuckInv H p s = (case s of (a, l, h) \<Rightarrow>
     l < h \<and> h \<le> H \<and> H < length a \<and> (\<exists>i. l < i \<and> i \<le> h \<and> a ! i = p))"

lemma partStep_stuck:
  assumes "stuckInv H p (a, l, h)"
  shows "stuckInv H p (partStep p (a, l, h))"
proof -
  obtain i where i: "l < i" "i \<le> h" "a ! i = p" and b: "l < h" "h \<le> H" "H < length a"
    using assms by (auto simp: stuckInv_def)
  define m where "m = moveHigh a p l h"
  define a1 where "a1 = (if l < m then a[l := a ! m] else a)"
  define k where "k = moveLow a1 p l m"
  have eq: "partStep p (a, l, h) = (if k < m then a1[m := a1 ! k] else a1, k, m)"
    unfolding partStep_def Let_def prod.case m_def [symmetric] a1_def [symmetric] k_def [symmetric] ..
  have m: "m \<le> h" "i \<le> m" using moveHigh_spec [of l h a p] b i unfolding m_def
    by (auto) (metis i(3) less_irrefl not_less)
  have lm: "l < m" using i m by simp
  have spec: "l \<le> k" "k \<le> m" "\<And>j. l \<le> j \<Longrightarrow> j < k \<Longrightarrow> a1 ! j < p"
    using moveLow_spec [of l m a1 p] lm by (auto simp: k_def)
  have ai: "i < m \<Longrightarrow> a1 ! i = p" "i = m \<Longrightarrow> a1 ! l = p" using i b m by (auto simp: a1_def)
  have km: "k < m"
  proof (rule ccontr)
    assume "\<not> k < m"
    then have "k = m" using spec by simp
    with spec(3) [of i] spec(3) [of l] ai i m lm show False by (cases "i = m") auto
  qed
  have ki: "k \<le> i" using spec(3) [of i] ai i m km by (cases "i < k") auto
  have "\<exists>j. k < j \<and> j \<le> m \<and> a1[m := a1 ! k] ! j = p"
  proof (cases "k < i \<and> i < m")
    case True with ai show ?thesis by (intro exI [of _ i]) auto
  next
    case False
    have "a1 ! k = p"
    proof (cases "i = m")
      case True
      then have "k = l" using spec(1) spec(3) [of l] ai by (cases "l < k") auto
      with True ai show ?thesis by simp
    next
      case False with \<open>\<not> (k < i \<and> i < m)\<close> ki m ai show ?thesis by (cases "k = i") auto
    qed
    with km m b show ?thesis by (intro exI [of _ m]) (auto simp: a1_def)
  qed
  with km m b show ?thesis by (auto simp: eq stuckInv_def a1_def)
qed

lemma sortPartition_stuck:
  assumes "H < length a" "L < i" "i \<le> H" "a ! i = a ! L"
  shows "sortPartition a L H = None"
proof -
  have "while_option (\<lambda>(a, l, h). l < h) (partStep (a ! L)) (a, L, H) = None"
  proof (rule while_option_diverges [where I = "stuckInv H (a ! L)"])
    show "stuckInv H (a ! L) (a, L, H)" using assms by (auto simp: stuckInv_def)
    fix s assume "stuckInv H (a ! L) s"
    then show "(case s of (a, l, h) \<Rightarrow> l < h) \<and> stuckInv H (a ! L) (partStep (a ! L) s)"
      by (metis (no_types, lifting) case_prod_conv partStep_stuck prod_cases3 stuckInv_def)
  qed
  then show ?thesis by (simp add: sortPartition_def)
qed

text \<open>What one partition of a segment does: it diverges when the pivot occurs twice, otherwise
  it splits the segment strictly around the pivot.\<close>

lemma sortPartition_cases:
  assumes "L < H" "H < length a"
  obtains (stuck) "sortPartition a L H = None" "\<not> segDistinct L H a"
  | (split) b key where "sortPartition a L H = Some (b, key)" "segPerm L H a b" "L \<le> key" "key \<le> H"
      "length b = length a" "segDistinct L H b \<longleftrightarrow> segDistinct L H a"
      "\<And>i. L \<le> i \<Longrightarrow> i < key \<Longrightarrow> b ! i < b ! key" "\<And>i. key < i \<Longrightarrow> i \<le> H \<Longrightarrow> b ! key < b ! i"
proof (cases "\<exists>i. L < i \<and> i \<le> H \<and> a ! i = a ! L")
  case True
  then obtain i where i: "L < i" "i \<le> H" "a ! i = a ! L" by blast
  then have "\<not> segDistinct L H a" unfolding segDistinct_def by (metis order_refl)
  with stuck sortPartition_stuck [OF assms(2) i] show ?thesis by blast
next
  case False
  then obtain b key where b: "sortPartition a L H = Some (b, key)" "segPerm L H a b" "L \<le> key" "key \<le> H"
     "b ! key = a ! L" "\<forall>i. L \<le> i \<longrightarrow> i < key \<longrightarrow> b ! i < a ! L"
     "\<forall>i. key < i \<longrightarrow> i \<le> H \<longrightarrow> a ! L < b ! i"
    using sortPartition_unique [OF assms] by metis
  show ?thesis
    by (rule split [OF b(1-4)]) (use b assms segPerm_length [OF b(2)] segPerm_segDistinct [OF b(2)] in auto)
qed

lemma segDistinct_split:
  assumes "L \<le> key" "key \<le> H" "\<And>i. L \<le> i \<Longrightarrow> i < key \<Longrightarrow> b ! i < (b ! key :: 'a::linorder)"
    "\<And>i. key < i \<Longrightarrow> i \<le> H \<Longrightarrow> b ! key < b ! i"
  shows "segDistinct L H b \<longleftrightarrow> segDistinct L (key - 1) b \<and> segDistinct (key + 1) H b"
proof
  assume "segDistinct L H b" with assms(1,2) show "segDistinct L (key - 1) b \<and> segDistinct (key + 1) H b"
    by (auto simp: segDistinct_def)
next
  assume d: "segDistinct L (key - 1) b \<and> segDistinct (key + 1) H b"
  show "segDistinct L H b" unfolding segDistinct_def
  proof (intro allI impI)
    fix i j assume ij: "L \<le> i" "i < j" "j \<le> H"
    consider "j < key" | "j = key" | "i = key" | "key < i" | "i < key" "key < j" by linarith
    then show "b ! i \<noteq> b ! j"
      using d assms(3) [of i] assms(4) [of j] ij
      by cases (auto simp: segDistinct_def Suc_le_eq)
  qed
qed

lemma segSorted_split:
  assumes "segSorted L (key - 1) b" "segSorted (key + 1) H b"
    "\<And>i. L \<le> i \<Longrightarrow> i < key \<Longrightarrow> b ! i \<le> (b ! key :: 'a::linorder)"
    "\<And>i. key < i \<Longrightarrow> i \<le> H \<Longrightarrow> b ! key \<le> b ! i"
  shows "segSorted L H b"
  unfolding segSorted_def
proof (intro allI impI)
  fix i j assume ij: "L \<le> i" "i < j" "j \<le> H"
  consider "j < key" | "j = key" | "i = key" | "key < i" | "i < key" "key < j" by linarith
  then show "b ! i \<le> b ! j"
    using assms(1,2) assms(3) [of i] assms(4) [of j] ij
    by cases (auto simp: segSorted_def Suc_le_eq)
qed

lemma segDistinct_trivial: "H \<le> L \<Longrightarrow> segDistinct L H a" by (auto simp: segDistinct_def)
lemma segSorted_trivial: "H \<le> L \<Longrightarrow> segSorted L H a" by (auto simp: segSorted_def)

lemma quickSort_main:
  "H < length a \<Longrightarrow>
   (if segDistinct L H a then \<exists>b. quickSort a L H = Some b \<and> segPerm L H a b \<and> segSorted L H b
    else quickSort a L H = None)"
proof (induction "Suc H - L" arbitrary: a L H rule: less_induct)
  case less
  show ?case
  proof (cases "L < H")
    case False
    then show ?thesis by (simp add: quickSort.simps segDistinct_trivial segSorted_trivial)
  next
    case True
    from True less.prems show ?thesis
    proof (cases rule: sortPartition_cases)
      case stuck with True show ?thesis by (simp add: quickSort.simps)
    next
      case (split b key)
      have eq: "quickSort a L H =
          Option.bind (quickSort b L (key - 1)) (\<lambda>c. quickSort c (key + 1) H)"
        using True split(1) by (subst quickSort.simps) simp
      have d: "segDistinct L H a \<longleftrightarrow> segDistinct L (key - 1) b \<and> segDistinct (key + 1) H b"
        using segDistinct_split [OF split(3,4,7,8)] split(6) by simp
      have ih1: "if segDistinct L (key - 1) b then \<exists>c. quickSort b L (key - 1) = Some c \<and>
          segPerm L (key - 1) b c \<and> segSorted L (key - 1) c else quickSort b L (key - 1) = None"
        using True split(3-5) less.prems by (intro less.hyps) auto
      show ?thesis
      proof (cases "segDistinct L (key - 1) b")
        case False with ih1 eq d show ?thesis by simp
      next
        case dl: True
        then obtain c where c: "quickSort b L (key - 1) = Some c" "segPerm L (key - 1) b c"
          "segSorted L (key - 1) c" using ih1 by auto
        have lc: "length c = length a" using c(2) split(5) by (simp add: segPerm_length)
        have same: "c ! i = b ! i" if "key \<le> i" "i \<le> H" for i
        proof (cases "key = 0")
          case True
          then have "segPerm L (key - 1) b c \<Longrightarrow> i = 0 \<Longrightarrow> c ! i = b ! i"
            using c(1) split(3) by (simp add: quickSort.simps)
          with True c(2) that less.prems split(5) show ?thesis by (cases i) (auto simp: segPerm_def)
        next
          case False with c(2) that less.prems split(5) show ?thesis by (auto simp: segPerm_def)
        qed
        have dr: "segDistinct (key + 1) H c \<longleftrightarrow> segDistinct (key + 1) H b"
          unfolding segDistinct_def by (auto simp: same)
        have ih2: "if segDistinct (key + 1) H c then \<exists>e. quickSort c (key + 1) H = Some e \<and>
            segPerm (key + 1) H c e \<and> segSorted (key + 1) H e else quickSort c (key + 1) H = None"
          using split(3,4) less.prems lc True by (intro less.hyps) auto
        show ?thesis
        proof (cases "segDistinct (key + 1) H b")
          case False with ih2 eq d dr c(1) show ?thesis by simp
        next
          case True
          then obtain e where e: "quickSort c (key + 1) H = Some e" "segPerm (key + 1) H c e"
            "segSorted (key + 1) H e" using ih2 dr by auto
          have low: "e ! i = c ! i" if "i \<le> key" for i
            using e(2) that split(4) less.prems lc by (auto simp: segPerm_def)
          have below: "c ! i \<le> b ! key" if "L \<le> i" "i < key" for i
            using segPerm_all [OF c(2), of "\<lambda>x. x \<le> b ! key" i] split(4,5,7) that less.prems
            by (auto simp: less_imp_le)
          have above: "b ! key \<le> e ! i" if "key < i" "i \<le> H" for i
            using segPerm_all [OF e(2), of "\<lambda>x. b ! key \<le> x" i] split(8) that less.prems lc
            by (auto simp: same less_imp_le)
          have "segSorted L (key - 1) e" using c(3) by (auto simp: segSorted_def low)
          moreover have "e ! key = b ! key" using low [of key] same [of key] split(4) by simp
          ultimately have "segSorted L H e"
            using e(3) below above low by - (rule segSorted_split [of L key], simp_all)
          moreover have "segPerm L H a e"
          proof -
            have "segPerm L H b c" by (rule segPerm_widen [OF c(2)]) (use split(4) in auto)
            moreover have "segPerm L H c e" by (rule segPerm_widen [OF e(2)]) (use split(3) in auto)
            ultimately show ?thesis using split(2) segPerm_trans by blast
          qed
          ultimately show ?thesis using eq c(1) e(1) d dl True by auto
        qed
      qed
    qed
  qed
qed

lemma segDistinct_all: "a \<noteq> [] \<Longrightarrow> segDistinct 0 (length a - 1) a \<longleftrightarrow> distinct a"
  by (simp add: segDistinct_seg seg_def)

lemma segSorted_all: "segSorted 0 (length a - 1) a \<longleftrightarrow> sorted a"
  by (auto simp: segSorted_def sorted_iff_nth_mono_less)

lemma quickSort_cases:
  "(if distinct a then \<exists>b. quickSort a 0 (length a - 1) = Some b \<and> sorted b \<and> mset b = mset a
    else quickSort a 0 (length a - 1) = None)"
proof (cases "a = []")
  case True then show ?thesis by (simp add: quickSort.simps)
next
  case False
  then have "length a - 1 < length a" by simp
  moreover have "sorted b" if "length b = length a" "segSorted 0 (length a - 1) b" for b :: "'a list"
    using that segSorted_all [of b] by simp
  ultimately show ?thesis
    using quickSort_main [of "length a - 1" a 0] segDistinct_all [OF False]
    by (auto simp: segPerm_def)
qed


section \<open>The explicit stack of the non-recursive quick sort\<close>

definition flatSegs :: "(nat \<times> nat) list \<Rightarrow> nat list" where
  "flatSegs segs = concat (map (\<lambda>(l, r). [r, l]) segs)"

definition apart :: "nat \<times> nat \<Rightarrow> nat \<times> nat \<Rightarrow> bool" where
  "apart s t \<longleftrightarrow> snd s < fst t \<or> snd t < fst s"

text \<open>Every pending segment is proper and inside \<open>[L, H]\<close>, pending segments are disjoint, a pair
  out of order lies in a pending segment, and duplicates can only be in pending segments.\<close>

definition nrSegs :: "nat \<Rightarrow> nat \<Rightarrow> 'a::linorder list \<Rightarrow> 'a list \<Rightarrow> (nat \<times> nat) list \<Rightarrow> bool" where
  "nrSegs L H a0 a segs \<longleftrightarrow> segPerm L H a0 a \<and>
     (\<forall>(l, r) \<in> set segs. L \<le> l \<and> l < r \<and> r \<le> H) \<and> sorted_wrt apart segs \<and>
     (\<forall>i j. L \<le> i \<longrightarrow> i < j \<longrightarrow> j \<le> H \<longrightarrow>
        a ! i \<le> a ! j \<or> (\<exists>(l, r) \<in> set segs. l \<le> i \<and> j \<le> r)) \<and>
     (segDistinct L H a0 \<longleftrightarrow> (\<forall>(l, r) \<in> set segs. segDistinct l r a))"

lemma nrSegs_split:
  assumes inv: "nrSegs L H a0 a ((l, r) # segs)" and H: "H < length a0"
    and b: "segPerm l r a b" "l \<le> key" "key \<le> r" "segDistinct l r b \<longleftrightarrow> segDistinct l r a"
      "\<And>i. l \<le> i \<Longrightarrow> i < key \<Longrightarrow> b ! i < b ! key" "\<And>i. key < i \<Longrightarrow> i \<le> r \<Longrightarrow> b ! key < b ! i"
  shows "nrSegs L H a0 b ((if key + 1 < r then [(key + 1, r)] else []) @
           (if l < key - 1 then [(l, key - 1)] else []) @ segs)"
proof -
  let ?new = "(if key + 1 < r then [(key + 1, r)] else []) @ (if l < key - 1 then [(l, key - 1)] else [])"
  have lr: "L \<le> l" "l < r" "r \<le> H" and segs: "\<forall>(l', r') \<in> set segs. L \<le> l' \<and> l' < r' \<and> r' \<le> H"
    and ap: "\<forall>s \<in> set segs. apart (l, r) s" "sorted_wrt apart segs"
    and ord: "\<And>i j. L \<le> i \<Longrightarrow> i < j \<Longrightarrow> j \<le> H \<Longrightarrow>
        a ! i \<le> a ! j \<or> l \<le> i \<and> j \<le> r \<or> (\<exists>(l', r') \<in> set segs. l' \<le> i \<and> j \<le> r')"
    and dis: "segDistinct L H a0 \<longleftrightarrow> segDistinct l r a \<and> (\<forall>(l', r') \<in> set segs. segDistinct l' r' a)"
    and perm: "segPerm L H a0 a"
    using inv by (auto simp: nrSegs_def)
  have len: "length a = length a0" using perm by (simp add: segPerm_def)
  have out: "b ! i = a ! i" if "i < l \<or> r < i" "i \<le> H" for i
    using b(1) that H len by (auto simp: segPerm_def)
  have perm': "segPerm L H a0 b"
    using segPerm_trans [OF perm] segPerm_widen [OF b(1) lr(1,3)] by blast
  have ap': "sorted_wrt apart (?new @ segs)"
    using ap b(2,3) by (auto simp: apart_def sorted_wrt_append)
  have ord': "b ! i \<le> b ! j \<or> (\<exists>(l', r') \<in> set (?new @ segs). l' \<le> i \<and> j \<le> r')"
    if ij: "L \<le> i" "i < j" "j \<le> H" for i j
  proof (cases "\<exists>(l', r') \<in> set segs. l' \<le> i \<and> j \<le> r'")
    case True then show ?thesis by auto
  next
    case nseg: False
    consider (in_) "l \<le> i" "j \<le> r" | (left) "i < l" "l \<le> j" "j \<le> r" | (right) "r < j" "l \<le> i" "i \<le> r"
      | (out) "i < l \<or> r < i" "j < l \<or> r < j" using ij by linarith
    then show ?thesis
    proof cases
      case in_
      consider "j < key" | "j = key" | "i = key" | "key < i" | "i < key" "key < j"
        using ij by linarith
      then show ?thesis
      proof cases
        case 1 with in_ ij show ?thesis by (intro disjI2 bexI [of _ "(l, key - 1)"]) auto
      next
        case 4 with in_ ij show ?thesis by (intro disjI2 bexI [of _ "(key + 1, r)"]) auto
      qed (use in_ ij b(5) [of i] b(6) [of j] in auto)
    next
      case left
      have no: "\<not> (\<exists>(l', r') \<in> set segs. l' \<le> i \<and> j' \<le> r')" if "l \<le> j'" "j' \<le> r" for j'
        using ap(1) left that lr by (force simp: apart_def)
      have "a ! i \<le> a ! j'" if "l \<le> j'" "j' \<le> r" for j'
        using ord [of i j'] no [OF that] left that ij lr by auto
      then have "a ! i \<le> b ! j" using segPerm_all [OF b(1), of "\<lambda>x. a ! i \<le> x" j] left lr H len by auto
      then show ?thesis using out [of i] left ij lr by auto
    next
      case right
      have no: "\<not> (\<exists>(l', r') \<in> set segs. l' \<le> i' \<and> j \<le> r')" if "l \<le> i'" "i' \<le> r" for i'
        using ap(1) right that lr by (force simp: apart_def)
      have "a ! i' \<le> a ! j" if "l \<le> i'" "i' \<le> r" for i'
        using ord [of i' j] no [OF that] right that ij lr by auto
      then have "b ! i \<le> a ! j" using segPerm_all [OF b(1), of "\<lambda>x. x \<le> a ! j" i] right lr H len by auto
      then show ?thesis using out [of j] right ij lr by auto
    next
      case out
      with ord [OF ij] nseg ij lr \<open>\<And>i. i < l \<or> r < i \<Longrightarrow> i \<le> H \<Longrightarrow> b ! i = a ! i\<close> [of i]
        \<open>\<And>i. i < l \<or> r < i \<Longrightarrow> i \<le> H \<Longrightarrow> b ! i = a ! i\<close> [of j]
      show ?thesis by auto
    qed
  qed
  have keep: "segDistinct l' r' b \<longleftrightarrow> segDistinct l' r' a" if "(l', r') \<in> set segs" for l' r'
    using ap(1) segs that lr unfolding segDistinct_def apart_def
    by (fastforce simp: out)
  have "segDistinct l r a \<longleftrightarrow> (\<forall>(l', r') \<in> set ?new. segDistinct l' r' b)"
    using segDistinct_split [OF b(2,3,5,6)] b(4) segDistinct_trivial [of r "key + 1" b]
      segDistinct_trivial [of "key - 1" l b]
    by (cases "key + 1 < r"; cases "l < key - 1") auto
  note new = this
  have dis': "segDistinct L H a0 \<longleftrightarrow> (\<forall>(l', r') \<in> set (?new @ segs). segDistinct l' r' b)"
  proof -
    have "(\<forall>(l', r') \<in> set segs. segDistinct l' r' b) \<longleftrightarrow> (\<forall>(l', r') \<in> set segs. segDistinct l' r' a)"
      using keep by auto
    with dis new show ?thesis by (simp only: set_append ball_Un)
  qed
  have in': "\<forall>(l', r') \<in> set (?new @ segs). L \<le> l' \<and> l' < r' \<and> r' \<le> H"
    using segs lr b(2,3) by auto
  show ?thesis using perm' ap' ord' dis' in' by (simp add: nrSegs_def)
qed

fun segsOf :: "nat list \<Rightarrow> (nat \<times> nat) list" where
  "segsOf (r # l # vs) = (l, r) # segsOf vs"
| "segsOf _ = []"

lemma flatSegs_simps [simp]:
  "flatSegs [] = []" "flatSegs ((l, r) # segs) = r # l # flatSegs segs"
  "flatSegs (xs @ ys) = flatSegs xs @ flatSegs ys"
  by (simp_all add: flatSegs_def)

lemma segsOf_flatSegs [simp]: "segsOf (flatSegs segs) = segs"
  by (induction segs) auto

definition nrInv :: "nat \<Rightarrow> nat \<Rightarrow> 'a::linorder list \<Rightarrow> ('a list \<times> nat list) option \<Rightarrow> bool" where
  "nrInv L H a0 s = (case s of None \<Rightarrow> \<not> segDistinct L H a0
     | Some (a, vs) \<Rightarrow> \<exists>segs. vs = flatSegs segs \<and> nrSegs L H a0 a segs)"

definition nrMeasure :: "('a list \<times> nat list) option \<Rightarrow> nat" where
  "nrMeasure s = (case s of None \<Rightarrow> 0
     | Some (a, vs) \<Rightarrow> Suc (\<Sum>(l, r) \<leftarrow> segsOf vs. Suc (r - l)))"

lemma nrStep_inv:
  assumes inv: "nrInv L H a0 (Some (a, vs))" and vs: "vs \<noteq> []" and H: "H < length a0"
  shows "nrInv L H a0 (nrStep (Some (a, vs))) \<and>
         nrMeasure (nrStep (Some (a, vs))) < nrMeasure (Some (a, vs))"
proof -
  obtain l r segs where v: "vs = flatSegs ((l, r) # segs)" and n: "nrSegs L H a0 a ((l, r) # segs)"
  proof -
    obtain ss where "vs = flatSegs ss" "nrSegs L H a0 a ss" using inv by (auto simp: nrInv_def)
    with vs that show thesis by (cases ss) auto
  qed
  have lr: "l < r" "r < length a"
    using n H by (auto simp: nrSegs_def segPerm_def)
  from lr show ?thesis
  proof (cases rule: sortPartition_cases)
    case stuck
    with n have "\<not> segDistinct L H a0" by (auto simp: nrSegs_def)
    with stuck show ?thesis by (simp add: v nrStep_def nrInv_def nrMeasure_def)
  next
    case (split b key)
    let ?new = "(if key + 1 < r then [(key + 1, r)] else []) @
      (if l < key - 1 then [(l, key - 1)] else []) @ segs"
    have step: "nrStep (Some (a, vs)) = Some (b, flatSegs ?new)"
      using split(1) by (simp add: v nrStep_def)
    have "nrSegs L H a0 b ?new"
      by (rule nrSegs_split [OF n H split(2-4) split(6-8)])
    then have "nrInv L H a0 (nrStep (Some (a, vs)))" unfolding step nrInv_def by (simp only: option.case prod.case) blast
    moreover have "nrMeasure (Some (b, flatSegs ?new)) < nrMeasure (Some (a, vs))"
      using split(3,4) lr by (cases "key + 1 < r"; cases "l < key - 1") (simp_all add: v nrMeasure_def)
    ultimately show ?thesis by (simp add: step)
  qed
qed

lemma nonRecursion_quickSort_cases:
  "(if distinct a then \<exists>b. nonRecursion_quickSort a 0 (length a - 1) = Some b \<and> sorted b \<and> mset b = mset a
    else nonRecursion_quickSort a 0 (length a - 1) = None)"
proof (cases "length a \<le> 1")
  case True
  then show ?thesis by (cases a) (auto simp: nonRecursion_quickSort_def)
next
  case False
  define H where "H = length a - 1"
  have H: "0 < H" "H < length a" "a \<noteq> []" using False by (auto simp: H_def)
  let ?b = "\<lambda>s. case s of None \<Rightarrow> False | Some (a, vs) \<Rightarrow> vs \<noteq> []"
  let ?s = "Some (a, [H, 0])"
  have start: "nrInv 0 H a ?s"
    by (auto simp: nrInv_def nrSegs_def H intro!: exI [of _ "[(0, H)]"])
  have step: "nrInv 0 H a (nrStep s) \<and> nrMeasure (nrStep s) < nrMeasure s" if "nrInv 0 H a s" "?b s" for s
    using that nrStep_inv [OF _ _ H(2)] by (auto split: option.splits prod.splits)
  obtain t where w: "while_option ?b nrStep ?s = Some t"
    using measure_while_option_Some [where P = "nrInv 0 H a" and b = ?b and c = nrStep
      and f = nrMeasure and s = ?s] start step by blast
  have inv: "nrInv 0 H a t" using while_option_rule [where P = "nrInv 0 H a", OF _ w start] step by blast
  have stop: "\<not> ?b t" by (rule while_option_stop [OF w])
  have res: "nonRecursion_quickSort a 0 H = map_option fst t"
    using H w by (simp add: nonRecursion_quickSort_def)
  show ?thesis
  proof (cases t)
    case None
    then have "\<not> distinct a" using inv segDistinct_all [OF H(3)] by (simp add: nrInv_def H_def)
    with None res show ?thesis by (simp add: H_def)
  next
    case (Some u)
    then obtain b where t: "t = Some (b, [])" using stop by (cases u) auto
    then have "nrSegs 0 H a b []" using inv by (auto simp: nrInv_def) (metis segsOf.simps(2) segsOf_flatSegs)
    then have b: "segPerm 0 H a b" "segSorted 0 H b" "segDistinct 0 H a"
      by (auto simp: nrSegs_def segSorted_def)
    then have "sorted b" "mset b = mset a" using segSorted_all [of b] by (auto simp: segPerm_def H_def)
    moreover have "distinct a" using segDistinct_all [OF H(3)] b(3) by (simp add: H_def)
    ultimately show ?thesis using res t by (simp add: H_def)
  qed
qed

text \<open>The quick sort with an explicit stack also returns the sorted permutation exactly of
  the arrays whose elements are pairwise distinct.\<close>
theorem nonRecursion_quickSort_returns_iff_distinct:
  "(if distinct a then \<exists>b. nonRecursion_quickSort a 0 (length a - 1) = Some b \<and> sorted b \<and> mset b = mset a
    else nonRecursion_quickSort a 0 (length a - 1) = None)"
  by (rule nonRecursion_quickSort_cases)

section \<open>Heap sort\<close>

text \<open>\<open>heapFrom k len a\<close>: below \<open>len\<close>, every node from \<open>k\<close> on is at least its children.\<close>

definition heapFrom :: "nat \<Rightarrow> nat \<Rightarrow> 'a::linorder list \<Rightarrow> bool" where
  "heapFrom k len a \<longleftrightarrow> (\<forall>i c. k \<le> i \<longrightarrow> c = 2 * i + 1 \<or> c = 2 * i + 2 \<longrightarrow> c < len \<longrightarrow> a ! c \<le> a ! i)"

text \<open>The same with a hole: node \<open>x\<close> may be smaller than its children, but its parent is not.\<close>

definition heapHole :: "nat \<Rightarrow> nat \<Rightarrow> nat \<Rightarrow> 'a::linorder list \<Rightarrow> bool" where
  "heapHole k len x a \<longleftrightarrow>
     (\<forall>i c. k \<le> i \<longrightarrow> c = 2 * i + 1 \<or> c = 2 * i + 2 \<longrightarrow> c < len \<longrightarrow> i \<noteq> x \<longrightarrow> a ! c \<le> a ! i) \<and>
     (\<forall>i c. k \<le> i \<longrightarrow> x = 2 * i + 1 \<or> x = 2 * i + 2 \<longrightarrow>
        c = 2 * x + 1 \<or> c = 2 * x + 2 \<longrightarrow> c < len \<longrightarrow> a ! c \<le> a ! i)"

definition maxChild :: "'a::linorder list \<Rightarrow> nat \<Rightarrow> nat \<Rightarrow> nat" where
  "maxChild arr len index =
     (let m1 = (if 2 * index + 1 < len \<and> arr ! (2 * index + 1) > arr ! index then 2 * index + 1 else index)
      in if 2 * index + 2 < len \<and> arr ! (2 * index + 2) > arr ! m1 then 2 * index + 2 else m1)"

lemma adjust_rec:
  "adjust arr len index = (if maxChild arr len index \<noteq> index
     then adjust (swap_at arr (maxChild arr len index) index) len (maxChild arr len index) else arr)"
  unfolding maxChild_def by (subst adjust.simps) (simp only: Let_def)

lemma maxChild_spec:
  "maxChild a len x = x \<or> maxChild a len x < len \<and> x < maxChild a len x \<and>
     (maxChild a len x = 2 * x + 1 \<or> maxChild a len x = 2 * x + 2) \<and> a ! x < a ! maxChild a len x"
  "a ! x \<le> a ! maxChild a len x"
  "c = 2 * x + 1 \<or> c = 2 * x + 2 \<Longrightarrow> c < len \<Longrightarrow> a ! c \<le> a ! maxChild a len x"
  by (auto simp: maxChild_def Let_def)

lemma adjust_induct:
  assumes "\<And>a x. (maxChild a len x \<noteq> x \<Longrightarrow> P (swap_at a (maxChild a len x) x) (maxChild a len x)) \<Longrightarrow> P a x"
  shows "P a x"
proof (induction "len - x" arbitrary: a x rule: less_induct)
  case less
  show ?case
  proof (rule assms)
    assume "maxChild a len x \<noteq> x"
    then have "x < maxChild a len x" "maxChild a len x < len" using maxChild_spec(1) [of a len x] by auto
    then show "P (swap_at a (maxChild a len x) x) (maxChild a len x)" by (intro less) arith
  qed
qed

lemma adjust_perm:
  "x < len \<Longrightarrow> len \<le> length a \<Longrightarrow>
   length (adjust a len x) = length a \<and> mset (adjust a len x) = mset a \<and>
   (\<forall>i. len \<le> i \<longrightarrow> i < length a \<longrightarrow> adjust a len x ! i = a ! i)"
proof (induction a x rule: adjust_induct [where len = len])
  case (1 a x)
  let ?m = "maxChild a len x"
  show ?case
  proof (cases "?m = x")
    case True then show ?thesis by (subst (1 2 3) adjust_rec) simp
  next
    case False
    then have m: "?m < len" using maxChild_spec(1) [of a len x] by auto
    with False 1 show ?thesis
      by (subst (1 2 3) adjust_rec) (auto simp: mset_swap_at nth_swap_at)
  qed
qed

lemma adjust_heap:
  "x < len \<Longrightarrow> len \<le> length a \<Longrightarrow> k \<le> x \<Longrightarrow> heapHole k len x a \<Longrightarrow> heapFrom k len (adjust a len x)"
proof (induction a x rule: adjust_induct [where len = len])
  case (1 a x)
  let ?m = "maxChild a len x"
  show ?case
  proof (cases "?m = x")
    case True
    have "a ! c \<le> a ! i" if "k \<le> i" "c = 2 * i + 1 \<or> c = 2 * i + 2" "c < len" for i c
      using 1(5) maxChild_spec(3) [of c x len a] True that unfolding heapHole_def by (cases "i = x") auto
    with True show ?thesis by (subst adjust_rec) (auto simp: heapFrom_def)
  next
    case False
    then have m: "?m < len" "x < ?m" "?m = 2 * x + 1 \<or> ?m = 2 * x + 2" "a ! x < a ! ?m"
      using maxChild_spec(1) [of a len x] by auto
    let ?b = "swap_at a ?m x"
    have nth: "?b ! i = (if i = x then a ! ?m else if i = ?m then a ! x else a ! i)" if "i < len" for i
      using that 1(2,3) m by (simp add: nth_swap_at)
    have hole1: "a ! c \<le> a ! i" if "k \<le> i" "c = 2 * i + 1 \<or> c = 2 * i + 2" "c < len" "i \<noteq> x" for i c
      using 1(5) that unfolding heapHole_def by blast
    have hole2: "a ! c \<le> a ! i" if "k \<le> i" "x = 2 * i + 1 \<or> x = 2 * i + 2"
      "c = 2 * x + 1 \<or> c = 2 * x + 2" "c < len" for i c
      using 1(5) that unfolding heapHole_def by blast
    have "heapHole k len ?m ?b" unfolding heapHole_def
    proof (intro conjI allI impI)
      fix i c assume i: "k \<le> i" "c = 2 * i + 1 \<or> c = 2 * i + 2" "c < len" "i \<noteq> ?m"
      then have il: "i < len" by auto
      consider "i = x" | "i \<noteq> x" "c = x" | "i \<noteq> x" "c \<noteq> x" by blast
      then show "?b ! c \<le> ?b ! i"
      proof cases
        case 1
        then show ?thesis using maxChild_spec(3) [of c x len a] i m by (auto simp: nth)
      next
        case 2
        with hole2 [of i ?m] i m il show ?thesis by (simp add: nth)
      next
        case 3
        with hole1 [OF i(1-3)] i m il show ?thesis by (auto simp: nth)
      qed
    next
      fix i c assume i: "k \<le> i" "?m = 2 * i + 1 \<or> ?m = 2 * i + 2" "c = 2 * ?m + 1 \<or> c = 2 * ?m + 2" "c < len"
      then have ix: "i = x" using m(3) by presburger
      have "a ! c \<le> a ! ?m" using hole1 [of ?m c] i m 1(4) by auto
      with i m ix show "?b ! c \<le> ?b ! i" by (auto simp: nth)
    qed
    with False 1 m show ?thesis by (subst adjust_rec) simp
  qed
qed

lemma heapFrom_root: "heapFrom 0 len a \<Longrightarrow> i < len \<Longrightarrow> a ! i \<le> a ! 0"
proof (induction i rule: less_induct)
  case (less i)
  show ?case
  proof (cases "i = 0")
    case False
    let ?p = "(i - 1) div 2"
    have "?p < i" "i = 2 * ?p + 1 \<or> i = 2 * ?p + 2" using False by presburger+
    moreover from this less.prems have "a ! i \<le> a ! ?p" unfolding heapFrom_def by blast
    ultimately show ?thesis using less.IH [of ?p] less.prems by force
  qed simp
qed

definition heapify :: "'a::linorder list \<Rightarrow> 'a list" where
  "heapify arr = fold (\<lambda>i a. adjust a (length arr) i) (rev [0..<length arr div 2]) arr"

lemma heapify_heap:
  "length (heapify arr) = length arr \<and> mset (heapify arr) = mset arr \<and>
   heapFrom 0 (length arr) (heapify arr)"
  unfolding heapify_def
proof (rule fold_rev_upt_invariant [where P = "\<lambda>k a. length a = length arr \<and> mset a = mset arr \<and>
    heapFrom k (length arr) a"])
  show "length arr = length arr \<and> mset arr = mset arr \<and> heapFrom (length arr div 2) (length arr) arr"
    by (auto simp: heapFrom_def)
next
  fix k and a :: "'a list"
  assume k: "k < length arr div 2" and a: "length a = length arr \<and> mset a = mset arr \<and>
    heapFrom (Suc k) (length arr) a"
  have "heapHole k (length arr) k a"
    unfolding heapHole_def
  proof (intro conjI allI impI)
    fix i c assume "k \<le> i" "c = 2 * i + 1 \<or> c = 2 * i + 2" "c < length arr" "i \<noteq> k"
    moreover from this have "Suc k \<le> i" by simp
    ultimately show "a ! c \<le> a ! i" using a unfolding heapFrom_def by blast
  qed arith
  with k a show "length (adjust a (length arr) k) = length arr \<and> mset (adjust a (length arr) k) = mset arr \<and>
    heapFrom k (length arr) (adjust a (length arr) k)"
    using adjust_perm [of k "length arr" a] adjust_heap [of k "length arr" a k] by auto
qed simp

text \<open>After the extraction loop has come down to \<open>i\<close>: \<open>[0, i)\<close> is a heap, the rest is sorted and
  no smaller than anything in the heap.\<close>

definition extractInv :: "'a::linorder list \<Rightarrow> nat \<Rightarrow> 'a list \<Rightarrow> bool" where
  "extractInv arr i a \<longleftrightarrow> length a = length arr \<and> mset a = mset arr \<and> heapFrom 0 i a \<and>
     (\<forall>p q. p < q \<longrightarrow> i \<le> q \<longrightarrow> q < length arr \<longrightarrow> a ! p \<le> a ! q)"

lemma extract_step:
  assumes "0 < i" "i < length arr" "extractInv arr (Suc i) a"
  shows "extractInv arr i (adjust (swap_at a 0 i) i 0)"
proof -
  let ?b = "swap_at a 0 i" let ?c = "adjust ?b i 0"
  have "0 < length arr" using assms by arith
  note assms = assms this
  have I: "length a = length arr" "mset a = mset arr" "heapFrom 0 (Suc i) a"
    "\<And>p q. p < q \<Longrightarrow> Suc i \<le> q \<Longrightarrow> q < length arr \<Longrightarrow> a ! p \<le> a ! q"
    using assms(3) by (auto simp: extractInv_def)
  have perm: "length ?c = length arr" "mset ?c = mset arr" and tail: "\<And>j. i \<le> j \<Longrightarrow> j < length arr \<Longrightarrow> ?c ! j = ?b ! j"
    using adjust_perm [of 0 i ?b] mset_swap_at [of 0 a i] assms I by (auto simp del: length_greater_0_conv)
  have "heapHole 0 i 0 ?b"
    using I(1,3) assms unfolding heapFrom_def heapHole_def by (auto simp: nth_swap_at)
  then have heap: "heapFrom 0 i ?c" using adjust_heap [of 0 i ?b 0] assms I by simp
  have seg: "segPerm 0 (i - 1) ?b ?c"
    using adjust_perm [of 0 i ?b] assms I by (auto simp: segPerm_def)
  have ord: "?c ! p \<le> ?c ! q" if pq: "p < q" "i \<le> q" "q < length arr" for p q
  proof (cases "p < i")
    case True
    have "?b ! p' \<le> ?b ! q" if "p' \<le> i - 1" for p'
    proof (cases "q = i")
      case True
      have "a ! j \<le> a ! 0" if "j \<le> i" for j using heapFrom_root [OF I(3)] that by simp
      with True that assms I pq show ?thesis by (auto simp: nth_swap_at)
    next
      case False
      with that assms I pq show ?thesis by (auto simp: nth_swap_at)
    qed
    then have "?c ! p \<le> ?b ! q"
      using segPerm_all [OF seg, of "\<lambda>x. x \<le> ?b ! q" p] True I assms by simp
    with tail pq show ?thesis by simp
  next
    case False
    then have "?c ! p = ?b ! p" "?c ! q = ?b ! q" using tail pq by auto
    moreover have "?b ! p \<le> ?b ! q"
      using I(4) [of p q] I(4) [of 0 q] False pq assms I by (auto simp: nth_swap_at)
    ultimately show ?thesis by simp
  qed
  show ?thesis using perm heap ord by (simp add: extractInv_def)
qed

text \<open>heap sort returns the sorted permutation, duplicates included.\<close>
lemma heapSort_sorts: "sorted (heapSort arr) \<and> mset (heapSort arr) = mset arr"
proof -
  have eq: "heapSort arr = fold (\<lambda>i a. adjust (swap_at a 0 i) i 0) (rev [1..<length arr]) (heapify arr)"
    by (simp add: heapSort_def heapify_def Let_def)
  show ?thesis
  proof (cases "length arr \<le> 1")
    case True
    then show ?thesis using heapify_heap [of arr] short_sorted [of "heapify arr"] by (simp add: eq)
  next
    case False
    have "extractInv arr 1 (heapSort arr)" unfolding eq
      by (rule fold_rev_upt_invariant)
         (use False heapify_heap [of arr] extract_step in \<open>auto simp: extractInv_def [of _ "length arr"] Suc_le_eq\<close>)
    then show ?thesis
      by (auto simp: extractInv_def sorted_iff_nth_mono_less)
  qed
qed

section \<open>The contract of a sort\<close>

locale sorter =
  fixes srt :: "'a::linorder list \<Rightarrow> 'a list"
  assumes sorts: "sorted (srt a)" and permutes: "mset (srt a) = mset a"
begin

lemma is_sort: "srt a = sort a"
  using sorts permutes by (metis properties_for_sort)

lemma keeps_length: "length (srt a) = length a"
  using permutes by (metis size_mset)

lemma least_first: "a \<noteq> [] \<Longrightarrow> x \<in> set a \<Longrightarrow> srt a ! 0 \<le> x"
  using sorts permutes keeps_length
  by (metis hd_conv_nth length_greater_0_conv mset_eq_prefix_le)

lemma idempotent: "srt (srt a) = srt a"
  by (metis is_sort permutes properties_for_sort sorts)

end

interpretation insertion: sorter "\<lambda>a. fst (insertionSort a)"
  by unfold_locales (simp_all add: insertionSort_sorts)

interpretation shell: sorter "\<lambda>a. fst (shellSort a)"
  by unfold_locales (simp_all add: shellSort_sorts)

interpretation selection: sorter "\<lambda>a. fst (selectSort a)"
  by unfold_locales (simp_all add: selectSort_sorts)

interpretation bubble: sorter "\<lambda>a. fst (bubbleSort a)"
  by unfold_locales (simp_all add: bubbleSort_sorts)

interpretation heap: sorter heapSort
  by unfold_locales (simp_all add: heapSort_sorts)

lemma distinct_sort_eq:
  assumes "if distinct a then \<exists>b. r = Some b \<and> sorted b \<and> mset b = mset a else r = None"
  shows "r = (if distinct a then Some (sort a) else None)"
  using assms by (auto split: if_splits dest: properties_for_sort)

lemma quickSort_eq: "quickSort a 0 (length a - 1) = (if distinct a then Some (sort a) else None)"
  by (rule distinct_sort_eq [OF quickSort_cases])

lemma nonRecursion_quickSort_eq:
  "nonRecursion_quickSort a 0 (length a - 1) = (if distinct a then Some (sort a) else None)"
  by (rule distinct_sort_eq [OF nonRecursion_quickSort_cases])

text \<open>C17: the seven sorts agree: insertion sort, shell sort, selection sort, bubble sort and heap sort
  compute the list library's \<open>sort\<close> of every array, and the two quick sorts compute it together on the
  arrays without equal elements and fail to return together on the others.\<close>
theorem all_sorts_agree:
  "fst (insertionSort a) = sort a \<and> fst (shellSort a) = sort a \<and> fst (selectSort a) = sort a \<and>
   snd (selectSort a) = 3 * length a \<and> fst (bubbleSort a) = sort a \<and> heapSort a = sort a \<and>
   quickSort a 0 (length a - 1) = (if distinct a then Some (sort a) else None) \<and>
   nonRecursion_quickSort a 0 (length a - 1) = quickSort a 0 (length a - 1)"
  by (simp add: insertion.is_sort shell.is_sort selection.is_sort selectSort_sorts bubble.is_sort heap.is_sort
      quickSort_eq nonRecursion_quickSort_eq del: One_nat_def)

text \<open>Insertion sort and shell sort (with whatever increments the array length gives) both
  compute the sorted permutation of their array.\<close>
theorem insertion_and_shell_sort:
  "fst (insertionSort a) = sort a \<and> fst (shellSort a) = sort a"
  by (simp add: insertion.is_sort shell.is_sort)

text \<open>Selection sort and bubble sort compute the sorted permutation, and selection sort
  reports three steps for each element.\<close>
theorem selection_and_bubble_sort:
  "fst (selectSort a) = sort a \<and> snd (selectSort a) = 3 * length a \<and> fst (bubbleSort a) = sort a"
  by (simp add: selection.is_sort bubble.is_sort selectSort_sorts)

text \<open>Heap sort computes the sorted permutation, equal elements included.\<close>
theorem heapSort_is_sort: "heapSort arr = sort arr"
  by (rule heap.is_sort)

end
