(* ===== verification/Bitree.thy ===== *)
theory Bitree
  imports Prelude
begin

text \<open>
  \<open>MyBitree.h\<close>: a binary tree of nodes that are allocated one by one and linked by pointers.  The heap
  is the list of all nodes ever allocated, \<open>None\<close> where one has been deleted; a pointer is an index
  into it or \<open>None\<close> for \<open>nullptr\<close>.  A function of the model returns \<open>None\<close> when a deleted node is
  used or the code does not return.  What the traversals print is their result.
\<close>

section \<open>Nodes\<close>

record 'a bitree =
  m_value :: 'a
  m_lchild :: "nat option"
  m_rchild :: "nat option"

type_synonym 'a nodes = "'a bitree option list"

definition deref :: "'a nodes \<Rightarrow> nat \<Rightarrow> 'a bitree option" where
  "deref h p = (if p < length h then h ! p else None)"

definition MyBitree :: "'a \<Rightarrow> 'a bitree" where
  "MyBitree v = \<lparr>m_value = v, m_lchild = None, m_rchild = None\<rparr>"

section \<open>Building\<close>

partial_function (option) insertOne :: "nat option \<Rightarrow> 'a::linorder \<Rightarrow> 'a nodes \<Rightarrow> 'a nodes option" where
  "insertOne bt value h = (case bt of None \<Rightarrow> Some h | Some p \<Rightarrow> (case deref h p of None \<Rightarrow> None | Some n \<Rightarrow>
     if value < m_value n
     then (case m_lchild n of
         None \<Rightarrow> Some ((h @ [Some (MyBitree value)])[p := Some (n\<lparr>m_lchild := Some (length h)\<rparr>)])
       | Some l \<Rightarrow> insertOne (Some l) value h)
     else (case m_rchild n of
         None \<Rightarrow> Some ((h @ [Some (MyBitree value)])[p := Some (n\<lparr>m_rchild := Some (length h)\<rparr>)])
       | Some r \<Rightarrow> insertOne (Some r) value h)))"

text \<open>The loop of \<open>insertFull\<close> over its queue; \<open>node\<close> is the new node.\<close>

partial_function (option) insertFull_loop :: "nat list \<Rightarrow> nat \<Rightarrow> 'a nodes \<Rightarrow> 'a nodes option" where
  "insertFull_loop tmpQ node h = (case tmpQ of [] \<Rightarrow> Some h | pos # q \<Rightarrow> (case deref h pos of None \<Rightarrow> None | Some n \<Rightarrow>
     (case m_lchild n of None \<Rightarrow> Some (h[pos := Some (n\<lparr>m_lchild := Some node\<rparr>)])
      | Some l \<Rightarrow> (case m_rchild n of None \<Rightarrow> Some (h[pos := Some (n\<lparr>m_rchild := Some node\<rparr>)])
         | Some r \<Rightarrow> insertFull_loop (q @ [l, r]) node h))))"

definition insertFull :: "nat option \<Rightarrow> 'a \<Rightarrow> 'a nodes \<Rightarrow> 'a nodes option" where
  "insertFull bt value h = (case bt of None \<Rightarrow> Some h
     | Some p \<Rightarrow> insertFull_loop [p] (length h) (h @ [Some (MyBitree value)]))"

primrec insertFull_all :: "nat option \<Rightarrow> 'a list \<Rightarrow> 'a nodes \<Rightarrow> 'a nodes option" where
  "insertFull_all bt [] h = Some h"
| "insertFull_all bt (v # vs) h = (case insertFull bt v h of None \<Rightarrow> None | Some h1 \<Rightarrow> insertFull_all bt vs h1)"

text \<open>\<open>init\<close>, for an array of \<open>n\<close> elements.\<close>

definition bitree_init :: "nat option \<Rightarrow> 'a list \<Rightarrow> 'a nodes \<Rightarrow> 'a nodes option" where
  "bitree_init bt arr h = (case bt of None \<Rightarrow> Some h | Some p \<Rightarrow> (case arr of [] \<Rightarrow> Some h | v # vs \<Rightarrow>
     (case deref h p of None \<Rightarrow> None | Some n \<Rightarrow> insertFull_all bt vs (h[p := Some (n\<lparr>m_value := v\<rparr>)]))))"

section \<open>Traversals\<close>

partial_function (option) pre_loop :: "nat \<Rightarrow> nat list \<Rightarrow> 'a nodes \<Rightarrow> 'a list \<Rightarrow> 'a list option" where
  "pre_loop pos tmp h out = (case tmp of [] \<Rightarrow> Some out | _ \<Rightarrow> (case deref h pos of None \<Rightarrow> None | Some n \<Rightarrow>
     let tmp1 = (case m_rchild n of None \<Rightarrow> tmp | Some r \<Rightarrow> r # tmp); out1 = out @ [m_value n] in
     (case m_lchild n of Some l \<Rightarrow> pre_loop l tmp1 h out1
      | None \<Rightarrow> (case tmp1 of [] \<Rightarrow> pre_loop pos tmp1 h out1 | p # tmp2 \<Rightarrow> pre_loop p tmp2 h out1))))"

definition preTraversal :: "nat option \<Rightarrow> 'a nodes \<Rightarrow> 'a list option" where
  "preTraversal bt h = (case bt of None \<Rightarrow> Some [] | Some p \<Rightarrow> pre_loop p [p] h [])"

partial_function (option) midTraversal :: "nat option \<Rightarrow> 'a nodes \<Rightarrow> 'a list option" where
  "midTraversal bt h = (case bt of None \<Rightarrow> Some [] | Some p \<Rightarrow> (case deref h p of None \<Rightarrow> None | Some n \<Rightarrow>
     Option.bind (midTraversal (m_lchild n) h) (\<lambda>xs.
       Option.bind (midTraversal (m_rchild n) h) (\<lambda>ys. Some (xs @ [m_value n] @ ys)))))"

text \<open>\<open>postTraversal\<close>: the loop to the left, the loop upwards, which may return, and the loop around
  them.  It prints \<open>bt->m_value\<close>, whichever node it is at; \<open>v\<close> is that value.\<close>

partial_function (option) post_down :: "nat \<Rightarrow> nat list \<Rightarrow> 'a nodes \<Rightarrow> (nat \<times> nat list) option" where
  "post_down pos tmp h = (case deref h pos of None \<Rightarrow> None | Some n \<Rightarrow>
     (case m_lchild n of None \<Rightarrow> Some (pos, tmp) | Some l \<Rightarrow> post_down l (pos # tmp) h))"

partial_function (option) post_up ::
  "nat \<Rightarrow> nat \<Rightarrow> nat list \<Rightarrow> 'a nodes \<Rightarrow> 'a \<Rightarrow> 'a list \<Rightarrow> ('a list + nat \<times> nat \<times> nat list \<times> nat \<times> 'a list) option" where
  "post_up pos q tmp h v out = (case deref h pos of None \<Rightarrow> None | Some n \<Rightarrow>
     (case m_rchild n of
        None \<Rightarrow> (case tmp of [] \<Rightarrow> Some (Inl (out @ [v])) | p # tmp1 \<Rightarrow> post_up p pos tmp1 h v (out @ [v]))
      | Some r \<Rightarrow> if r = q
          then (case tmp of [] \<Rightarrow> Some (Inl (out @ [v])) | p # tmp1 \<Rightarrow> post_up p pos tmp1 h v (out @ [v]))
          else Some (Inr (pos, q, tmp, r, out))))"

partial_function (option) post_loop :: "nat \<Rightarrow> nat \<Rightarrow> nat list \<Rightarrow> 'a nodes \<Rightarrow> 'a \<Rightarrow> 'a list \<Rightarrow> 'a list option" where
  "post_loop pos q tmp h v out = (case post_down pos tmp h of None \<Rightarrow> None | Some (pos1, tmp1) \<Rightarrow>
     (case post_up pos1 q tmp1 h v out of None \<Rightarrow> None | Some (Inl out1) \<Rightarrow> Some out1
      | Some (Inr (pos2, q2, tmp2, r, out2)) \<Rightarrow> post_loop r q2 (pos2 # tmp2) h v out2))"

definition postTraversal :: "nat option \<Rightarrow> 'a nodes \<Rightarrow> 'a list option" where
  "postTraversal bt h = (case bt of None \<Rightarrow> Some [] | Some p \<Rightarrow> (case deref h p of None \<Rightarrow> None
     | Some n \<Rightarrow> post_loop p p [p] h (m_value n) []))"

partial_function (option) breadth_loop :: "nat list \<Rightarrow> 'a nodes \<Rightarrow> 'a list \<Rightarrow> 'a list option" where
  "breadth_loop tmp h out = (case tmp of [] \<Rightarrow> Some out | p # q \<Rightarrow> (case deref h p of None \<Rightarrow> None | Some n \<Rightarrow>
     breadth_loop (q @ (case m_lchild n of None \<Rightarrow> [] | Some l \<Rightarrow> [l]) @ (case m_rchild n of None \<Rightarrow> [] | Some r \<Rightarrow> [r]))
       h (out @ [m_value n])))"

definition breadthTraversal :: "nat option \<Rightarrow> 'a nodes \<Rightarrow> 'a list option" where
  "breadthTraversal bt h = (case bt of None \<Rightarrow> Some [] | Some p \<Rightarrow> breadth_loop [p] h [])"

section \<open>Deleting\<close>

text \<open>The list of nodes that \<open>deleteTree\<close> builds, while it runs over it from position \<open>i\<close>.\<close>

partial_function (option) collect :: "nat list \<Rightarrow> nat \<Rightarrow> 'a nodes \<Rightarrow> nat list option" where
  "collect tmpList i h = (case deref h (tmpList ! i) of None \<Rightarrow> None | Some n \<Rightarrow>
     let l = tmpList @ (case m_lchild n of None \<Rightarrow> [] | Some c \<Rightarrow> [c]) @ (case m_rchild n of None \<Rightarrow> [] | Some c \<Rightarrow> [c]) in
     if i + 1 = length l then Some l else collect l (i + 1) h)"

text \<open>The children of a node are forgotten before it is deleted, so its destructor deletes no more.\<close>

primrec delete_all :: "nat list \<Rightarrow> 'a nodes \<Rightarrow> 'a nodes option" where
  "delete_all [] h = Some h"
| "delete_all (p # ps) h = (if deref h p = None then None else delete_all ps (h[p := None]))"

definition deleteTree :: "nat option \<Rightarrow> 'a nodes \<Rightarrow> 'a nodes option" where
  "deleteTree bt h = (case bt of None \<Rightarrow> Some h | Some p \<Rightarrow> (case deref h p of None \<Rightarrow> None | Some n \<Rightarrow>
     if m_lchild n = None \<and> m_rchild n = None then Some h
     else (case collect [p] 0 h of None \<Rightarrow> None | Some tmpList \<Rightarrow> delete_all (rev tmpList) h)))"

text \<open>The form that keeps the root.\<close>

definition deleteTree_this :: "nat \<Rightarrow> 'a nodes \<Rightarrow> 'a nodes option" where
  "deleteTree_this this h = (case deref h this of None \<Rightarrow> None | Some n \<Rightarrow>
     if m_lchild n = None \<and> m_rchild n = None then Some h
     else (case collect [this] 0 h of None \<Rightarrow> None | Some tmpList \<Rightarrow>
       (case delete_all (rev (tl tmpList)) h of None \<Rightarrow> None
        | Some h1 \<Rightarrow> Some (h1[this := Some (n\<lparr>m_lchild := None, m_rchild := None\<rparr>)]))))"

definition MyBitree_dtor :: "nat \<Rightarrow> 'a nodes \<Rightarrow> 'a nodes option" where
  "MyBitree_dtor this h = (case deref h this of None \<Rightarrow> None | Some n \<Rightarrow>
     (case deleteTree (m_lchild n) h of None \<Rightarrow> None | Some h1 \<Rightarrow> deleteTree (m_rchild n) h1))"

end
