(* ===== verification/BitreeProps.thy ===== *)
theory BitreeProps
  imports Bitree "HOL-Library.Tree" "HOL-Library.Multiset"
begin

text \<open>
  Properties of \<open>MyBitree\<close>.  \<open>bitree_at h p t\<close> says that the nodes reachable from \<open>p\<close> form the tree
  \<open>t\<close>, whose labels are pairs of an address and a value; the operations are then compared with
  functions on trees.
\<close>

section \<open>Trees in the heap\<close>

fun bitree_at :: "'a nodes \<Rightarrow> nat option \<Rightarrow> (nat \<times> 'a) tree \<Rightarrow> bool" where
  "bitree_at h p Leaf \<longleftrightarrow> p = None"
| "bitree_at h p (Node l (a, v) r) \<longleftrightarrow> p = Some a \<and> (case deref h a of None \<Rightarrow> False
     | Some n \<Rightarrow> m_value n = v \<and> bitree_at h (m_lchild n) l \<and> bitree_at h (m_rchild n) r)"

abbreviation addrs :: "(nat \<times> 'a) tree \<Rightarrow> nat set" where "addrs t \<equiv> fst ` set_tree t"

definition addr_list :: "(nat \<times> 'a) tree \<Rightarrow> nat list" where "addr_list t = map fst (inorder t)"

abbreviation vals :: "(nat \<times> 'a) tree \<Rightarrow> 'a list" where "vals t \<equiv> map snd (inorder t)"

lemma set_addr_list [simp]: "set (addr_list t) = addrs t" by (simp add: addr_list_def)

lemma addr_list_simps [simp]: "addr_list Leaf = []" "addr_list (Node l x r) = addr_list l @ fst x # addr_list r"
  by (simp_all add: addr_list_def)

text \<open>A pointer and its tree determine each other's shape.\<close>

lemma bitree_at_None [simp]: "bitree_at h None t \<longleftrightarrow> t = Leaf"
  by (cases t) auto

lemma bitree_at_Some: "bitree_at h (Some a) t \<longleftrightarrow>
    (\<exists>n l r. deref h a = Some n \<and> t = Node l (a, m_value n) r \<and> bitree_at h (m_lchild n) l \<and> bitree_at h (m_rchild n) r)"
  by (cases t) (auto split: option.splits)

lemma bitree_at_child: "bitree_at h p t \<Longrightarrow> p = None \<longleftrightarrow> t = Leaf"
  by (cases t) (auto split: option.splits)

lemma bitree_at_frame: "(\<And>a. a \<in> addrs t \<Longrightarrow> deref h' a = deref h a) \<Longrightarrow> bitree_at h' p t = bitree_at h p t"
proof (induction t arbitrary: p)
  case (Node l x r)
  have "deref h' (fst x) = deref h (fst x)" using Node.prems by simp
  moreover have "bitree_at h' q l = bitree_at h q l" "bitree_at h' q r = bitree_at h q r" for q
    using Node.prems by (auto intro!: Node.IH)
  ultimately show ?case by (cases x) (simp split: option.split)
qed simp

lemma bitree_at_bound: "bitree_at h p t \<Longrightarrow> a \<in> addrs t \<Longrightarrow> a < length h"
proof (induction t arbitrary: p)
  case (Node l x r)
  then show ?case by (cases x) (auto simp: deref_def split: option.splits if_splits)
qed simp

lemma deref_simps [simp]:
  "deref (h[p := x]) q = (if q = p \<and> p < length h then x else deref h q)"
  "deref (h @ [y]) q = (if q = length h then y else deref h q)"
  by (auto simp: deref_def nth_append nth_list_update)

lemma deref_bound: "deref h p = Some n \<Longrightarrow> p < length h"
  by (auto simp: deref_def split: if_splits)

text \<open>A new node.\<close>

definition twig :: "nat \<Rightarrow> 'a \<Rightarrow> (nat \<times> 'a) tree" where "twig a v = Node Leaf (a, v) Leaf"

section \<open>Traversals\<close>

lemma midTraversal_simps [simp]:
  "midTraversal None h = Some []"
  "midTraversal (Some p) h = (case deref h p of None \<Rightarrow> None | Some n \<Rightarrow>
     Option.bind (midTraversal (m_lchild n) h) (\<lambda>xs.
       Option.bind (midTraversal (m_rchild n) h) (\<lambda>ys. Some (xs @ [m_value n] @ ys))))"
  by (subst midTraversal.simps, simp)+

lemma midTraversal_inorder: "bitree_at h p t \<Longrightarrow> midTraversal p h = Some (vals t)"
proof (induction t arbitrary: p)
  case (Node l x r)
  then show ?case by (cases x) (auto split: option.splits)
qed simp

text \<open>Lists of nodes, each the root of a tree.\<close>

definition forest_at :: "'a nodes \<Rightarrow> nat list \<Rightarrow> (nat \<times> 'a) tree list \<Rightarrow> bool" where
  "forest_at h ps ts \<longleftrightarrow> list_all2 (\<lambda>p. bitree_at h (Some p)) ps ts"

lemma forest_at_simps [simp]:
  "forest_at h [] ts \<longleftrightarrow> ts = []" "forest_at h ps [] \<longleftrightarrow> ps = []"
  "forest_at h (p # ps) ts \<longleftrightarrow> (\<exists>t us. ts = t # us \<and> bitree_at h (Some p) t \<and> forest_at h ps us)"
  "forest_at h ps (t # us) \<longleftrightarrow> (\<exists>p qs. ps = p # qs \<and> bitree_at h (Some p) t \<and> forest_at h qs us)"
  by (simp_all add: forest_at_def list_all2_Cons1 list_all2_Cons2)

lemma forest_at_append: "forest_at h ps ts \<Longrightarrow> forest_at h qs us \<Longrightarrow> forest_at h (ps @ qs) (ts @ us)"
  unfolding forest_at_def by (rule list_all2_appendI)

text \<open>The children of a node, from left to right.\<close>

definition kids :: "'b tree \<Rightarrow> 'b tree \<Rightarrow> 'b tree list" where
  "kids l r = filter (\<lambda>t. t \<noteq> Leaf) [l, r]"

definition kid_ptrs :: "'a bitree \<Rightarrow> nat list" where
  "kid_ptrs n = (case m_lchild n of None \<Rightarrow> [] | Some l \<Rightarrow> [l]) @ (case m_rchild n of None \<Rightarrow> [] | Some r \<Rightarrow> [r])"

lemma forest_at_kids: "bitree_at h (m_lchild n) l \<Longrightarrow> bitree_at h (m_rchild n) r \<Longrightarrow> forest_at h (kid_ptrs n) (kids l r)"
  by (auto simp: kids_def kid_ptrs_def bitree_at_child split: option.splits)

text \<open>The queue of \<open>breadthTraversal\<close>, on trees.\<close>

function levels :: "'b tree list \<Rightarrow> 'b list" where
  "levels [] = []"
| "levels (Leaf # ts) = levels ts"
| "levels (Node l x r # ts) = x # levels (ts @ kids l r)"
  by pat_completeness auto
termination by (relation "measure (\<lambda>ts. sum_list (map (\<lambda>t. 2 * size t + 1) ts))") (auto simp: kids_def)

lemma breadth_loop_levels: "forest_at h ps ts \<Longrightarrow> breadth_loop ps h out = Some (out @ map snd (levels ts))"
proof (induction ts arbitrary: ps out rule: levels.induct)
  case 1
  then show ?case by (subst breadth_loop.simps) simp
next
  case (2 ts)
  then show ?case by auto
next
  case (3 l x r ts)
  then obtain p qs where p: "ps = p # qs" "bitree_at h (Some p) (Node l x r)" "forest_at h qs ts" by auto
  then obtain n where n: "deref h p = Some n" "x = (p, m_value n)" "forest_at h (kid_ptrs n) (kids l r)"
    using forest_at_kids [where h = h] by (fastforce simp: bitree_at_Some)
  from 3(1) [OF forest_at_append [OF p(3) n(3)]] n show ?case
    unfolding p(1) by (subst breadth_loop.simps) (simp add: kid_ptrs_def)
qed

lemma breadthTraversal_levels: "bitree_at h p t \<Longrightarrow> breadthTraversal p h = Some (map snd (levels [t]))"
  using breadth_loop_levels [of h "[_]" "[t]" "[]"] by (cases p) (auto simp: breadthTraversal_def)

text \<open>The stack of \<open>preTraversal\<close>: below the nodes to come lies the root, which is only a sentinel.\<close>

lemma pre_loop_preorder:
  "bitree_at h (Some pos) t \<Longrightarrow> forest_at h ps ts \<Longrightarrow>
   pre_loop pos (ps @ [b]) h out = Some (out @ map snd (preorder t) @ concat (map (\<lambda>t. map snd (preorder t)) ts))"
proof (induction "size t + sum_list (map size ts)" arbitrary: pos t ps ts out rule: less_induct)
  case less
  from less.prems(1) obtain n l r where n: "deref h pos = Some n" "t = Node l (pos, m_value n) r"
      "bitree_at h (m_lchild n) l" "bitree_at h (m_rchild n) r"
    by (auto simp: bitree_at_Some)
  let ?ps = "case m_rchild n of None \<Rightarrow> ps | Some r \<Rightarrow> r # ps"
  let ?ts = "if r = Leaf then ts else r # ts"
  have f: "forest_at h ?ps ?ts" using less.prems(2) n(4) by (auto simp: bitree_at_child split: option.splits)
  have tmp: "(case m_rchild n of None \<Rightarrow> ps @ [b] | Some r \<Rightarrow> r # ps @ [b]) = ?ps @ [b]" by (simp split: option.split)
  have size_ts: "sum_list (map size ?ts) = size r + sum_list (map size ts)" by simp
  have out_ts: "concat (map (\<lambda>t. map snd (preorder t)) ?ts) = map snd (preorder r) @ concat (map (\<lambda>t. map snd (preorder t)) ts)"
    by simp
  obtain c cs where nonempty: "ps @ [b] = c # cs" by (cases ps) auto
  show ?case
  proof (cases "m_lchild n")
    case (Some q)
    with n(3) have "size l + sum_list (map size ?ts) < size t + sum_list (map size ts)" "bitree_at h (Some q) l"
      using n(2) size_ts by auto
    from less.hyps [OF this f] Some n nonempty show ?thesis
      by (subst pre_loop.simps) (simp add: tmp out_ts Let_def del: append.simps)
  next
    case None
    then have l: "l = Leaf" using n(3) by simp
    show ?thesis
    proof (cases ?ts)
      case Nil
      then have "?ps = []" "r = Leaf" "ts = []" using f by (auto split: if_splits)
      with None l n nonempty show ?thesis
        by (subst pre_loop.simps) (simp add: tmp Let_def, subst pre_loop.simps, simp)
    next
      case (Cons u us)
      then obtain p qs where p: "?ps = p # qs" "bitree_at h (Some p) u" "forest_at h qs us" using f by auto
      have "size u + sum_list (map size us) < size t + sum_list (map size ts)"
        using size_ts l n(2) unfolding Cons by simp
      from less.hyps [OF this p(2,3), of "out @ [m_value n]"] None l n nonempty p(1) Cons out_ts show ?thesis
        by (subst pre_loop.simps) (simp add: tmp Let_def)
    qed
  qed
qed

lemma preTraversal_preorder: "bitree_at h p t \<Longrightarrow> preTraversal p h = Some (map snd (preorder t))"
  using pre_loop_preorder [of h _ t "[]" "[]" _ "[]"] by (cases p) (auto simp: preTraversal_def)

section \<open>Insertion by order\<close>

fun bst_ins :: "nat \<Rightarrow> 'a::linorder \<Rightarrow> (nat \<times> 'a) tree \<Rightarrow> (nat \<times> 'a) tree" where
  "bst_ins a v Leaf = twig a v"
| "bst_ins a v (Node l x r) = (if v < snd x then Node (bst_ins a v l) x r else Node l x (bst_ins a v r))"

lemma bst_ins_props: "set_tree (bst_ins a v t) = insert (a, v) (set_tree t)"
  by (induction t) (auto simp: twig_def)

lemma insertOne_simps:
  "insertOne None v h = Some h"
  "insertOne (Some p) v h = (case deref h p of None \<Rightarrow> None | Some n \<Rightarrow>
     if v < m_value n
     then (case m_lchild n of
         None \<Rightarrow> Some ((h @ [Some (MyBitree v)])[p := Some (n\<lparr>m_lchild := Some (length h)\<rparr>)])
       | Some l \<Rightarrow> insertOne (Some l) v h)
     else (case m_rchild n of
         None \<Rightarrow> Some ((h @ [Some (MyBitree v)])[p := Some (n\<lparr>m_rchild := Some (length h)\<rparr>)])
       | Some r \<Rightarrow> insertOne (Some r) v h))"
  by (subst insertOne.simps, simp)+

text \<open>The new heap: the tree with the new node, and nothing else changed.\<close>

lemma insertOne_bst_ins:
  "bitree_at h (Some p) t \<Longrightarrow> distinct (addr_list t) \<Longrightarrow>
   \<exists>h'. insertOne (Some p) v h = Some h' \<and> bitree_at h' (Some p) (bst_ins (length h) v t) \<and> length h' = Suc (length h) \<and>
     (\<forall>a. a \<notin> addrs t \<longrightarrow> a < length h \<longrightarrow> deref h' a = deref h a)"
proof (induction t arbitrary: p)
  case (Node l x r)
  then obtain n where n: "deref h p = Some n" "x = (p, m_value n)" "bitree_at h (m_lchild n) l" "bitree_at h (m_rchild n) r"
    by (auto simp: bitree_at_Some)
  have p: "p < length h" "p \<notin> addrs l" "p \<notin> addrs r" "addrs l \<inter> addrs r = {}"
    using deref_bound [OF n(1)] Node.prems(2) n(2) by auto
  have fresh: "length h \<notin> addrs l" "length h \<notin> addrs r"
    using bitree_at_bound n(3,4) by blast+
  let ?new = "\<lambda>n'. (h @ [Some (MyBitree v)])[p := Some n']"
  have at_l: "deref (?new n') a = deref h a" if "a \<in> addrs l" for n' a
    using that p(2) bitree_at_bound [OF n(3) that] by auto
  have at_r: "deref (?new n') a = deref h a" if "a \<in> addrs r" for n' a
    using that p(3) bitree_at_bound [OF n(4) that] by auto
  have same: "bitree_at (?new n') q l = bitree_at h q l" "bitree_at (?new n') q r = bitree_at h q r" for n' q
    by (rule bitree_at_frame, erule at_l) (rule bitree_at_frame, erule at_r)
  have sub: ?case if q: "bitree_at h (Some q) u" "distinct (addr_list u)"
      and IH: "\<And>q. bitree_at h (Some q) u \<Longrightarrow> distinct (addr_list u) \<Longrightarrow>
        \<exists>h'. insertOne (Some q) v h = Some h' \<and> bitree_at h' (Some q) (bst_ins (length h) v u) \<and> length h' = Suc (length h) \<and>
        (\<forall>a. a \<notin> addrs u \<longrightarrow> a < length h \<longrightarrow> deref h' a = deref h a)"
      and side: "v < m_value n \<and> m_lchild n = Some q \<and> u = l \<or> \<not> v < m_value n \<and> m_rchild n = Some q \<and> u = r" for q u
  proof -
    obtain h' where h': "insertOne (Some q) v h = Some h'" "bitree_at h' (Some q) (bst_ins (length h) v u)"
        "length h' = Suc (length h)" "\<And>a. a \<notin> addrs u \<Longrightarrow> a < length h \<Longrightarrow> deref h' a = deref h a"
      using IH [OF q] by auto
    have other: "bitree_at h' s w = bitree_at h s w" if "addrs w \<inter> addrs u = {}" "\<And>a. a \<in> addrs w \<Longrightarrow> a < length h" for s w
      using that h'(4) by (intro bitree_at_frame) blast
    have "deref h' p = Some n" using h'(4) [of p] p side n(1) by auto
    moreover have "bitree_at h' (m_lchild n) l" if "u = r"
      using other [of l "m_lchild n"] that p(4) bitree_at_bound [OF n(3)] n(3) by auto
    moreover have "bitree_at h' (m_rchild n) r" if "u = l"
      using other [of r "m_rchild n"] that p(4) bitree_at_bound [OF n(4)] n(4) by auto
    moreover have "insertOne (Some p) v h = Some h'" using side h'(1) n(1) by (auto simp: insertOne_simps(2) [of p])
    moreover have "\<forall>a. a \<notin> addrs (Node l x r) \<longrightarrow> a < length h \<longrightarrow> deref h' a = deref h a"
      using h'(4) side by auto
    ultimately show ?case
      using side h'(2,3) unfolding n(2) by (intro exI [of _ h'] conjI) (elim disjE conjE; simp)+
  qed
  show ?case
  proof (cases "v < m_value n")
    case True
    show ?thesis
    proof (cases "m_lchild n")
      case None
      then have "l = Leaf" using n(3) by simp
      with True None n p same show ?thesis
        by (intro exI [of _ "?new (n\<lparr>m_lchild := Some (length h)\<rparr>)"]) (auto simp: insertOne_simps twig_def MyBitree_def)
    next
      case (Some q)
      show ?thesis by (rule sub [of q l]) (use Some True n Node in auto)
    qed
  next
    case False
    show ?thesis
    proof (cases "m_rchild n")
      case None
      then have "r = Leaf" using n(4) by simp
      with False None n p same show ?thesis
        by (intro exI [of _ "?new (n\<lparr>m_rchild := Some (length h)\<rparr>)"]) (auto simp: insertOne_simps twig_def MyBitree_def)
    next
      case (Some q)
      show ?thesis by (rule sub [of q r]) (use Some False n Node in auto)
    qed
  qed
qed simp

lemma mset_bst_ins: "mset (vals (bst_ins a v t)) = add_mset v (mset (vals t))"
  by (induction t) (auto simp: twig_def)

lemma sorted_bst_ins: "sorted (vals t) \<Longrightarrow> sorted (vals (bst_ins a v t))"
proof (induction t)
  case (Node l x r)
  have "set (vals (bst_ins a v u)) = insert v (set (vals u))" for u
    using arg_cong [OF mset_bst_ins [of a v u], of set_mset] by simp
  with Node show ?case by (fastforce simp: sorted_append)
qed (simp add: twig_def)

lemma distinct_bst_ins: "distinct (addr_list t) \<Longrightarrow> a \<notin> addrs t \<Longrightarrow> distinct (addr_list (bst_ins a v t))"
proof (induction t)
  case (Node l x r)
  then show ?case by (auto simp: bst_ins_props)
qed (simp add: twig_def)

text \<open>On a search tree, \<open>insertOne\<close> allocates one node and leaves a search tree, whose in-order
  traversal prints the old values with the new one in its place.\<close>
theorem insertOne_sorted:
  assumes "bitree_at h (Some p) t" "distinct (addr_list t)" "sorted (vals t)"
  shows "\<exists>h' t'. insertOne (Some p) v h = Some h' \<and> length h' = Suc (length h) \<and>
    bitree_at h' (Some p) t' \<and> distinct (addr_list t') \<and> sorted (vals t') \<and>
    midTraversal (Some p) h' = Some (insort v (vals t))"
proof -
  let ?t = "bst_ins (length h) v t"
  obtain h' where h': "insertOne (Some p) v h = Some h'" "bitree_at h' (Some p) ?t" "length h' = Suc (length h)"
    using insertOne_bst_ins [OF assms(1,2)] by blast
  have "length h \<notin> addrs t" using bitree_at_bound [OF assms(1)] by blast
  moreover have "vals ?t = insort v (vals t)"
    using sorted_bst_ins [OF assms(3)] sorted_insort [of v "vals t"] assms(3) mset_bst_ins [of "length h" v t]
    by (metis mset_insort properties_for_sort)
  ultimately show ?thesis
    using h' midTraversal_inorder [OF h'(2)] distinct_bst_ins [OF assms(2)] sorted_bst_ins [OF assms(3)]
    by (intro exI [of _ h'] exI [of _ ?t]) (simp add: sorted_insort assms(3) del: midTraversal_simps)
qed

section \<open>Insertion in level order\<close>

text \<open>\<open>graft x ts\<close>: \<open>x\<close> is hung into the first free place of the forest, in level order.\<close>

function graft :: "'b tree \<Rightarrow> 'b tree list \<Rightarrow> 'b tree list" where
  "graft x [] = []"
| "graft x (Leaf # ts) = Leaf # graft x ts"
| "graft x (Node l a r # ts) =
    (if l = Leaf then Node x a r # ts
     else if r = Leaf then Node l a x # ts
     else (let us = graft x (ts @ [l, r]); n = length ts in Node (us ! n) a (us ! (n + 1)) # take n us))"
  by pat_completeness auto
termination by (relation "measure (\<lambda>(x, ts). sum_list (map (\<lambda>t. 2 * size t + 1) ts))") auto

lemma length_graft [simp]: "length (graft x ts) = length ts"
  by (induction x ts rule: graft.induct) (auto simp: Let_def)

lemma insertFull_loop_simps:
  "insertFull_loop [] node h = Some h"
  "insertFull_loop (pos # q) node h = (case deref h pos of None \<Rightarrow> None | Some n \<Rightarrow>
     (case m_lchild n of None \<Rightarrow> Some (h[pos := Some (n\<lparr>m_lchild := Some node\<rparr>)])
      | Some l \<Rightarrow> (case m_rchild n of None \<Rightarrow> Some (h[pos := Some (n\<lparr>m_rchild := Some node\<rparr>)])
         | Some r \<Rightarrow> insertFull_loop (q @ [l, r]) node h)))"
  by (subst insertFull_loop.simps, simp)+

definition forest_addrs :: "(nat \<times> 'a) tree list \<Rightarrow> nat list" where
  "forest_addrs ts = concat (map addr_list ts)"

lemma forest_addrs_simps [simp]:
  "forest_addrs [] = []" "forest_addrs (t # ts) = addr_list t @ forest_addrs ts"
  "forest_addrs (ts @ us) = forest_addrs ts @ forest_addrs us"
  by (simp_all add: forest_addrs_def)

lemma forest_at_frame: "(\<And>a. a \<in> set (forest_addrs ts) \<Longrightarrow> deref h' a = deref h a) \<Longrightarrow> forest_at h' ps ts = forest_at h ps ts"
proof (induction ts arbitrary: ps)
  case (Cons t ts)
  have "bitree_at h' (Some p) t = bitree_at h (Some p) t" for p
    using Cons.prems by (intro bitree_at_frame) auto
  with Cons show ?case by auto
qed simp

lemma bitree_at_update: "p \<notin> addrs t \<Longrightarrow> bitree_at (h[p := x]) q t = bitree_at h q t"
  by (rule bitree_at_frame) (metis deref_simps(1))

lemma forest_at_update: "p \<notin> set (forest_addrs ts) \<Longrightarrow> forest_at (h[p := x]) qs ts = forest_at h qs ts"
  by (rule forest_at_frame) (metis deref_simps(1))

lemma forest_at_nth: "forest_at h ps ts \<Longrightarrow> i < length ps \<Longrightarrow> bitree_at h (Some (ps ! i)) (ts ! i)"
  unfolding forest_at_def by (rule list_all2_nthD)

lemma forest_at_take: "forest_at h ps ts \<Longrightarrow> forest_at h (take n ps) (take n ts)"
  unfolding forest_at_def by (rule list_all2_takeI)

lemma insertFull_loop_graft:
  assumes "forest_at h ps ts" "distinct (forest_addrs ts)" "node \<notin> set (forest_addrs ts)"
    "deref h node = Some (MyBitree v)" "ts \<noteq> []"
  shows "\<exists>h'. insertFull_loop ps node h = Some h' \<and> forest_at h' ps (graft (twig node v) ts) \<and> length h' = length h \<and>
    (\<forall>a. a \<notin> set (forest_addrs ts) \<longrightarrow> deref h' a = deref h a)"
  using assms
proof (induction "twig node v" ts arbitrary: ps rule: graft.induct)
  case (2 ts)
  then show ?case by auto
next
  case (3 l x r ts)
  obtain p qs where p: "ps = p # qs" "bitree_at h (Some p) (Node l x r)" "forest_at h qs ts" using 3(2) by auto
  then obtain n where n: "deref h p = Some n" "x = (p, m_value n)" "bitree_at h (m_lchild n) l" "bitree_at h (m_rchild n) r"
    by (auto simp: bitree_at_Some)
  have dist: "p \<notin> addrs l" "p \<notin> addrs r" "p \<notin> set (forest_addrs ts)" "p \<noteq> node" "p < length h"
    using 3(3,4) n(2) deref_bound [OF n(1)] by auto
  let ?set = "\<lambda>n'. h[p := Some n']"
  have l: "bitree_at (?set n') q l = bitree_at h q l" and r: "bitree_at (?set n') q r = bitree_at h q r"
    and f: "forest_at (?set n') qs ts" for n' q
    using dist p(3) by (simp_all add: bitree_at_update forest_at_update)
  have tw: "bitree_at (?set n') (Some node) (twig node v)" for n'
    using dist(4) 3(5) by (simp add: twig_def MyBitree_def)
  show ?case
  proof (cases "l = Leaf \<or> r = Leaf")
    case True
    let ?h = "?set (if l = Leaf then n\<lparr>m_lchild := Some node\<rparr> else n\<lparr>m_rchild := Some node\<rparr>)"
    have "insertFull_loop ps node h = Some ?h"
      using True n bitree_at_child [OF n(3)] bitree_at_child [OF n(4)]
      unfolding p(1) by (auto simp: insertFull_loop_simps split: option.split)
    moreover have "forest_at ?h ps (graft (twig node v) (Node l x r # ts))"
      using True n p(1) dist l r f tw by auto
    moreover have "deref ?h a = deref h a" if "a \<notin> set (forest_addrs (Node l x r # ts))" for a
      using that n(2) by auto
    ultimately show ?thesis by (intro exI [of _ ?h]) auto
  next
    case False
    then obtain pl pr where c: "m_lchild n = Some pl" "m_rchild n = Some pr"
      using bitree_at_child [OF n(3)] bitree_at_child [OF n(4)] by auto
    have "forest_at h (qs @ [pl, pr]) (ts @ [l, r])"
      using n(3,4) c p(3) by (intro forest_at_append) simp_all
    moreover have "distinct (forest_addrs (ts @ [l, r]))" "node \<notin> set (forest_addrs (ts @ [l, r]))"
      using 3(3,4) by auto
    moreover have "ts @ [l, r] \<noteq> []" by simp
    ultimately obtain h' where h': "insertFull_loop (qs @ [pl, pr]) node h = Some h'"
        "forest_at h' (qs @ [pl, pr]) (graft (twig node v) (ts @ [l, r]))" "length h' = length h"
        "\<And>a. a \<notin> set (forest_addrs (ts @ [l, r])) \<Longrightarrow> deref h' a = deref h a"
      using 3(1) [OF _ _ _ _ _ 3(5)] False by metis
    let ?us = "graft (twig node v) (ts @ [l, r])" let ?n = "length ts"
    have len: "length qs = ?n" using p(3) by (auto simp: forest_at_def dest: list_all2_lengthD)
    have "insertFull_loop ps node h = Some h'" using n(1) c h'(1) unfolding p(1) by (simp add: insertFull_loop_simps)
    moreover have "deref h' p = Some n" using h'(4) [of p] dist n(1) by auto
    moreover have "bitree_at h' (m_lchild n) (?us ! ?n)" "bitree_at h' (m_rchild n) (?us ! (?n + 1))"
      using forest_at_nth [OF h'(2), of ?n] forest_at_nth [OF h'(2), of "?n + 1"] len c by (simp_all add: nth_append)
    moreover have "forest_at h' qs (take ?n ?us)" using forest_at_take [OF h'(2), of ?n] len by simp
    ultimately show ?thesis
      using False h'(3,4) n(2) p(1) by (intro exI [of _ h']) (auto simp: Let_def)
  qed
qed auto

text \<open>Forests whose levels are full up to a point in the last one.\<close>

definition childless :: "'b tree \<Rightarrow> bool" where
  "childless t \<longleftrightarrow> (case t of Leaf \<Rightarrow> False | Node l x r \<Rightarrow> l = Leaf \<and> r = Leaf)"

function level_full :: "'b tree list \<Rightarrow> bool" where
  "level_full [] \<longleftrightarrow> True"
| "level_full (Leaf # ts) \<longleftrightarrow> False"
| "level_full (Node l x r # ts) \<longleftrightarrow>
    (if l = Leaf then r = Leaf \<and> list_all childless ts
     else if r = Leaf then list_all childless (ts @ [l])
     else level_full (ts @ [l, r]))"
  by pat_completeness auto
termination by (relation "measure (\<lambda>ts. sum_list (map (\<lambda>t. 2 * size t + 1) ts))") auto

lemma childless_iff: "childless t \<longleftrightarrow> (\<exists>x. t = Node Leaf x Leaf)"
  by (auto simp: childless_def split: tree.split)

lemma levels_childless: "list_all childless ts \<Longrightarrow> levels ts = map (\<lambda>t. value t) ts"
  by (induction ts) (auto simp: childless_iff kids_def)

lemma levels_childless_append: "list_all childless ts \<Longrightarrow> levels (ts @ us) = map (\<lambda>t. value t) ts @ levels us"
proof (induction ts)
  case (Cons t ts)
  then show ?case by (auto simp: childless_iff kids_def)
qed simp

lemma level_full_childless: "list_all childless ts \<Longrightarrow> level_full ts"
  by (cases ts) (auto simp: childless_iff)

lemma kids_both [simp]: "l \<noteq> Leaf \<Longrightarrow> r \<noteq> Leaf \<Longrightarrow> kids l r = [l, r]"
  "l \<noteq> Leaf \<Longrightarrow> kids l Leaf = [l]" "kids Leaf Leaf = []"
  by (simp_all add: kids_def)

lemma graft_no_leaf: "Leaf \<notin> set ts \<Longrightarrow> x \<noteq> Leaf \<Longrightarrow> Leaf \<notin> set (graft x ts)"
proof (induction x ts rule: graft.induct)
  case (3 x l a r ts)
  then show ?case by (auto simp: Let_def dest: in_set_takeD)
qed auto

lemma level_full_no_leaf: "level_full ts \<Longrightarrow> Leaf \<notin> set ts"
proof (induction ts rule: level_full.induct)
  case (3 l x r ts)
  then show ?case by (auto simp: list_all_iff childless_def split: if_splits)
qed auto

text \<open>Grafting into such a forest adds the new value at the end of the level order.\<close>

lemma graft_level_full:
  "level_full ts \<Longrightarrow> ts \<noteq> [] \<Longrightarrow> childless x \<Longrightarrow> level_full (graft x ts) \<and> levels (graft x ts) = levels ts @ [value x]"
proof (induction x ts rule: graft.induct)
  case (3 x l a r ts)
  have x: "x \<noteq> Leaf" "levels [x] = [value x]" using 3(4) by (auto simp: childless_iff kids_def)
  consider (none) "l = Leaf" "r = Leaf" "list_all childless ts" | (left) "l \<noteq> Leaf" "r = Leaf" "list_all childless (ts @ [l])"
    | (both) "l \<noteq> Leaf" "r \<noteq> Leaf" "level_full (ts @ [l, r])"
    using 3(2) by (auto split: if_splits)
  then show ?case
  proof cases
    case none
    then show ?thesis using x 3(4) levels_childless_append [OF none(3), of "[x]"] levels_childless [OF none(3)] by simp
  next
    case left
    have "level_full (ts @ [l, x])" using left 3(4) by (intro level_full_childless) simp
    then show ?thesis
      using left x levels_childless_append [OF left(3), of "[x]"] levels_childless [OF left(3)] by simp
  next
    case both
    let ?us = "graft x (ts @ [l, r])" let ?n = "length ts"
    have IH: "level_full ?us" "levels ?us = levels (ts @ [l, r]) @ [value x]"
      using 3(1) [OF both(1,2)] both 3(4) by auto
    have us: "?us = take ?n ?us @ [?us ! ?n, ?us ! (?n + 1)]"
    proof (rule nth_equalityI)
      fix i assume "i < length ?us"
      then consider "i < ?n" | "i = ?n" | "i = ?n + 1" by fastforce
      then show "?us ! i = (take ?n ?us @ [?us ! ?n, ?us ! (?n + 1)]) ! i"
        by cases (simp_all add: nth_append)
    qed simp
    have "Leaf \<notin> set ?us" using graft_no_leaf [OF level_full_no_leaf [OF both(3)] x(1)] .
    moreover have "?us ! ?n \<in> set ?us" "?us ! (?n + 1) \<in> set ?us" by (rule nth_mem, simp)+
    ultimately have nl: "?us ! ?n \<noteq> Leaf" "?us ! (?n + 1) \<noteq> Leaf" by metis+
    show ?thesis using both nl IH us by (simp add: Let_def)
  qed
qed auto

lemma insertFull_graft:
  assumes "bitree_at h (Some p) t" "distinct (addr_list t)"
  shows "\<exists>h'. insertFull (Some p) v h = Some h' \<and> bitree_at h' (Some p) (hd (graft (twig (length h) v) [t])) \<and>
    length h' = Suc (length h) \<and> (\<forall>a < length h. a \<notin> addrs t \<longrightarrow> deref h' a = deref h a)"
proof -
  let ?h = "h @ [Some (MyBitree v)]"
  have fresh: "length h \<notin> addrs t" using bitree_at_bound [OF assms(1)] by blast
  have "bitree_at ?h (Some p) t = bitree_at h (Some p) t"
    by (rule bitree_at_frame) (use fresh in \<open>metis deref_simps(2)\<close>)
  with assms fresh obtain h' where h': "insertFull_loop [p] (length h) ?h = Some h'"
      "forest_at h' [p] (graft (twig (length h) v) [t])" "length h' = length ?h"
      "\<And>a. a \<notin> addrs t \<Longrightarrow> deref h' a = deref ?h a"
    using insertFull_loop_graft [of ?h "[p]" "[t]" "length h" v] by auto
  then show ?thesis
    by (intro exI [of _ h']) (auto simp: insertFull_def split: list.splits)
qed

lemma mset_graft: "Leaf \<notin> set ts \<Longrightarrow> ts \<noteq> [] \<Longrightarrow>
    mset (concat (map inorder (graft x ts))) = mset (inorder x) + mset (concat (map inorder ts))"
proof (induction x ts rule: graft.induct)
  case (3 x l a r ts)
  show ?case
  proof (cases "l = Leaf \<or> r = Leaf")
    case False
    let ?us = "graft x (ts @ [l, r])" let ?n = "length ts"
    have IH: "mset (concat (map inorder ?us)) = mset (inorder x) + mset (concat (map inorder (ts @ [l, r])))"
      using 3(1) 3(2) False by auto
    have us: "?us = take ?n ?us @ [?us ! ?n, ?us ! (?n + 1)]"
    proof (rule nth_equalityI)
      fix i assume "i < length ?us"
      then consider "i < ?n" | "i = ?n" | "i = ?n + 1" by fastforce
      then show "?us ! i = (take ?n ?us @ [?us ! ?n, ?us ! (?n + 1)]) ! i" by cases (simp_all add: nth_append)
    qed simp
    have "mset (concat (map inorder ?us)) = mset (concat (map inorder (take ?n ?us))) +
        mset (inorder (?us ! ?n)) + mset (inorder (?us ! (?n + 1)))"
      by (subst us) simp
    with IH False show ?thesis by (simp add: Let_def ac_simps)
  qed auto
qed auto

lemma insertFull_all_levels:
  assumes "bitree_at h (Some p) t" "distinct (addr_list t)" "level_full [t]"
  shows "\<exists>h' t'. insertFull_all (Some p) vs h = Some h' \<and> bitree_at h' (Some p) t' \<and>
    map snd (levels [t']) = map snd (levels [t]) @ vs \<and> length h' = length h + length vs"
  using assms
proof (induction vs arbitrary: h t)
  case Nil
  then show ?case by auto
next
  case (Cons v vs)
  let ?x = "twig (length h) v" let ?ts = "graft ?x [t]"
  obtain h1 where h1: "insertFull (Some p) v h = Some h1" "bitree_at h1 (Some p) (hd ?ts)" "length h1 = Suc (length h)"
    using insertFull_graft [OF Cons.prems(1,2)] by blast
  have "length ?ts = Suc 0" by simp
  then obtain t1 where t1: "?ts = [t1]" by (auto simp only: length_Suc_conv length_0_conv)
  have x: "childless ?x" "value ?x = (length h, v)" "inorder ?x = [(length h, v)]" by (simp_all add: twig_def childless_def)
  have lf: "level_full [t1]" "levels [t1] = levels [t] @ [(length h, v)]"
    using graft_level_full [OF Cons.prems(3) _ x(1)] x(2) unfolding t1 by simp_all
  have "mset (inorder t1) = add_mset (length h, v) (mset (inorder t))"
    using mset_graft [of "[t]" ?x] level_full_no_leaf [OF Cons.prems(3)] x(3) unfolding t1 by simp
  then have m: "mset (addr_list t1) = add_mset (length h) (mset (addr_list t))"
    by (simp add: addr_list_def)
  have "length h \<notin> set (addr_list t)" using bitree_at_bound [OF Cons.prems(1)] by auto
  then have "distinct (addr_list t1)"
    using Cons.prems(2) m by (metis distinct.simps(2) mset.simps(2) mset_eq_imp_distinct_iff)
  moreover have "bitree_at h1 (Some p) t1" using h1(2) t1 by simp
  ultimately obtain h' t' where "insertFull_all (Some p) vs h1 = Some h'" "bitree_at h' (Some p) t'"
      "map snd (levels [t']) = map snd (levels [t1]) @ vs" "length h' = length h1 + length vs"
    using Cons.IH lf(1) by blast
  with h1 lf(2) show ?case by (intro exI [of _ h'] exI [of _ t']) simp
qed

text \<open>\<open>init\<close> makes of a single node a tree that \<open>breadthTraversal\<close> prints in the order of the
  array; it allocates a node for each further element.\<close>
theorem init_breadth:
  assumes "deref h p = Some n" "m_lchild n = None" "m_rchild n = None" "arr \<noteq> []"
  shows "\<exists>h'. bitree_init (Some p) arr h = Some h' \<and> breadthTraversal (Some p) h' = Some arr \<and>
    length h' + 1 = length h + length arr"
proof -
  obtain v vs where arr: "arr = v # vs" using assms(4) by (cases arr) auto
  let ?h = "h[p := Some (n\<lparr>m_value := v\<rparr>)]" let ?t = "twig p v"
  have "bitree_at ?h (Some p) ?t" using assms(1-3) deref_bound [OF assms(1)] by (simp add: twig_def)
  moreover have "distinct (addr_list ?t)" "level_full [?t]" "levels [?t] = [(p, v)]" by (simp_all add: twig_def)
  ultimately obtain h' t' where "insertFull_all (Some p) vs ?h = Some h'" "bitree_at h' (Some p) t'"
      "map snd (levels [t']) = v # vs" "length h' = length h + length vs"
    using insertFull_all_levels [of ?h p ?t vs] by auto
  then show ?thesis
    using breadthTraversal_levels [of h' "Some p" t'] assms(1) arr by (intro exI [of _ h']) (simp add: bitree_init_def)
qed

section \<open>Deleting\<close>

lemma mset_levels: "mset (levels ts) = mset (concat (map inorder ts))"
  by (induction ts rule: levels.induct) (auto simp: kids_def)

lemma collect_levels:
  "forest_at h (drop i l) ts \<Longrightarrow> i < length l \<Longrightarrow> collect l i h = Some (take i l @ map fst (levels ts))"
proof (induction ts arbitrary: i l rule: levels.induct)
  case (3 tl x tr ts)
  then obtain p qs where p: "drop i l = p # qs" "bitree_at h (Some p) (Node tl x tr)" "forest_at h qs ts" by auto
  then obtain n where n: "deref h p = Some n" "x = (p, m_value n)" "bitree_at h (m_lchild n) tl" "bitree_at h (m_rchild n) tr"
    by (auto simp: bitree_at_Some)
  have l: "l ! i = p" "drop (Suc i) l = qs" using p(1) by (metis nth_via_drop, metis drop_Suc tl_drop list.sel(3))
  let ?l = "l @ kid_ptrs n"
  have "forest_at h (drop (i + 1) ?l) (ts @ kids tl tr)"
    using forest_at_append [OF p(3) forest_at_kids [OF n(3,4)]] l(2) 3(3) by simp
  note IH = 3(1) [OF this]
  have take: "take (i + 1) ?l = take i l @ [p]" using l(1) 3(3) by (simp add: take_Suc_conv_app_nth)
  show ?case
  proof (cases "i + 1 = length ?l")
    case True
    then have "ts @ kids tl tr = []" using \<open>forest_at h (drop (i + 1) ?l) _\<close> by simp
    moreover have "?l = take i l @ [p]" using take True by simp
    ultimately show ?thesis
      using True n l(1) by (subst collect.simps) (simp add: Let_def kid_ptrs_def)
  next
    case False
    then have "collect ?l (i + 1) h = Some (take (i + 1) ?l @ map fst (levels (ts @ kids tl tr)))"
      using 3(3) by (intro IH) simp
    then show ?thesis
      using False n l(1) take by (subst collect.simps) (simp add: Let_def kid_ptrs_def)
  qed
qed auto

lemma delete_all_frees:
  "distinct ps \<Longrightarrow> (\<And>p. p \<in> set ps \<Longrightarrow> deref h p \<noteq> None) \<Longrightarrow>
   \<exists>h'. delete_all ps h = Some h' \<and> (\<forall>a. deref h' a = (if a \<in> set ps then None else deref h a))"
proof (induction ps arbitrary: h)
  case (Cons p ps)
  have "deref (h[p := None]) q \<noteq> None" if "q \<in> set ps" for q
    using Cons.prems that by auto
  then obtain h' where h': "delete_all ps (h[p := None]) = Some h'"
      "\<forall>a. deref h' a = (if a \<in> set ps then None else deref (h[p := None]) a)"
    using Cons.IH [of "h[p := None]"] Cons.prems(1) by auto
  then have "delete_all (p # ps) h = Some h'" using Cons.prems(2) [of p] by simp
  moreover have "p < length h" using Cons.prems(2) [of p] by (auto simp: deref_def split: if_splits)
  then have "deref h' a = (if a \<in> set (p # ps) then None else deref h a)" for a
    using h'(2) by simp
  ultimately show ?case by blast
qed simp

lemma collect_tree: "bitree_at h (Some p) t \<Longrightarrow> collect [p] 0 h = Some (map fst (levels [t]))"
  using collect_levels [of h 0 "[p]" "[t]"] by simp

lemma levels_addrs: "distinct (addr_list t) \<Longrightarrow> distinct (map fst (levels [t])) \<and> set (map fst (levels [t])) = addrs t"
proof -
  have "mset (map fst (levels [t])) = mset (addr_list t)" using mset_levels [of "[t]"] by (simp add: addr_list_def)
  then show "distinct (addr_list t) \<Longrightarrow> ?thesis"
    using mset_eq_imp_distinct_iff mset_eq_setD set_addr_list by metis
qed

lemma bitree_at_alive: "bitree_at h p t \<Longrightarrow> a \<in> addrs t \<Longrightarrow> deref h a \<noteq> None"
proof (induction t arbitrary: p)
  case (Node l x r)
  obtain n where "deref h (fst x) = Some n" "bitree_at h (m_lchild n) l" "bitree_at h (m_rchild n) r"
    using Node.prems(1) by (cases x) (auto split: option.splits)
  with Node.IH(1) [OF this(2)] Node.IH(2) [OF this(3)] Node.prems(2) show ?case by auto
qed simp

lemma size_one_iff: "size t = 1 \<longleftrightarrow> childless t"
  by (cases t) (auto simp: childless_def)

text \<open>What \<open>deleteTree\<close> frees: everything, except a root without children.\<close>

lemma deleteTree_frees:
  assumes "bitree_at h p t" "distinct (addr_list t)"
  shows "\<exists>h'. deleteTree p h = Some h' \<and> (\<forall>a. deref h' a = (if a \<in> addrs t \<and> size t \<noteq> 1 then None else deref h a))"
proof (cases p)
  case None
  then show ?thesis using assms(1) by (simp add: deleteTree_def)
next
  case (Some q)
  with assms(1) obtain n l r where n: "deref h q = Some n" "t = Node l (q, m_value n) r"
      "bitree_at h (m_lchild n) l" "bitree_at h (m_rchild n) r" by (auto simp: bitree_at_Some)
  show ?thesis
  proof (cases "size t = 1")
    case True
    then show ?thesis using Some n by (intro exI [of _ h]) (auto simp: deleteTree_def size_one_iff childless_def bitree_at_child)
  next
    case False
    then have "\<not> (m_lchild n = None \<and> m_rchild n = None)"
      using n bitree_at_child [OF n(3)] bitree_at_child [OF n(4)] by (auto simp: size_one_iff childless_def)
    moreover obtain h' where "delete_all (rev (map fst (levels [t]))) h = Some h'"
        "\<forall>a. deref h' a = (if a \<in> addrs t then None else deref h a)"
      using delete_all_frees [of "rev (map fst (levels [t]))" h] levels_addrs [OF assms(2)] bitree_at_alive [OF assms(1)] by auto
    ultimately show ?thesis
      using False Some n(1) collect_tree [of h q t] assms(1) by (intro exI [of _ h']) (auto simp: deleteTree_def)
  qed
qed

text \<open>C18: the destructor frees every node of the two subtrees, once, except that a child without
  children of its own is not freed: it leaks.\<close>
theorem MyBitree_dtor_frees:
  assumes "bitree_at h (Some p) (Node l (p, v) r)" "distinct (addr_list (Node l (p, v) r))"
  shows "\<exists>h'. MyBitree_dtor p h = Some h' \<and> (\<forall>a. deref h' a =
    (if a \<in> addrs l \<and> size l \<noteq> 1 \<or> a \<in> addrs r \<and> size r \<noteq> 1 then None else deref h a))"
proof -
  obtain n where n: "deref h p = Some n" "bitree_at h (m_lchild n) l" "bitree_at h (m_rchild n) r"
    using assms(1) by (auto split: option.splits)
  have d: "distinct (addr_list l)" "distinct (addr_list r)" "addrs l \<inter> addrs r = {}" using assms(2) by auto
  obtain h1 where h1: "deleteTree (m_lchild n) h = Some h1"
      "\<forall>a. deref h1 a = (if a \<in> addrs l \<and> size l \<noteq> 1 then None else deref h a)"
    using deleteTree_frees [OF n(2) d(1)] by blast
  have "deref h1 a = deref h a" if "a \<in> addrs r" for a using h1(2) d(3) that by auto
  then have "bitree_at h1 (m_rchild n) r = bitree_at h (m_rchild n) r" by (rule bitree_at_frame)
  then obtain h2 where h2: "deleteTree (m_rchild n) h1 = Some h2"
      "\<forall>a. deref h2 a = (if a \<in> addrs r \<and> size r \<noteq> 1 then None else deref h1 a)"
    using deleteTree_frees [OF _ d(2)] n(3) by blast
  then show ?thesis using n(1) h1 by (intro exI [of _ h2]) (auto simp: MyBitree_dtor_def)
qed

section \<open>The traversals together\<close>

text \<open>On a tree, \<open>preTraversal\<close> with its stack prints what the recursive traversal in its comment
  would, \<open>midTraversal\<close> prints the in-order list, and \<open>breadthTraversal\<close> the levels; all three
  return.\<close>
theorem traversals:
  assumes "bitree_at h p t"
  shows "preTraversal p h = Some (map snd (preorder t)) \<and> midTraversal p h = Some (map snd (inorder t)) \<and>
    breadthTraversal p h = Some (map snd (levels [t]))"
  using preTraversal_preorder [OF assms] midTraversal_inorder [OF assms] breadthTraversal_levels [OF assms] by simp

text \<open>\<open>postTraversal\<close> prints nothing but the value of the root.\<close>

definition only :: "'a \<Rightarrow> 'a list \<Rightarrow> bool" where
  "only v out \<longleftrightarrow> set out \<subseteq> {v}"

lemma only_append: "only v out \<Longrightarrow> only v (out @ [v])"
  by (simp add: only_def)

lemma post_up_only:
  assumes "post_up pos q tmp h v out = Some r"
  shows "only v out \<longrightarrow> (case r of Inl out1 \<Rightarrow> only v out1 | Inr (p2, q2, t2, c, out2) \<Rightarrow> only v out2)"
proof (rule post_up.raw_induct [OF _ assms, where P = "\<lambda>pos q tmp h v out r. only v out \<longrightarrow>
      (case r of Inl out1 \<Rightarrow> only v out1 | Inr (p2, q2, t2, c, out2) \<Rightarrow> only v out2)"], goal_cases)
  case (1 rec pos q tmp h v out r)
  note IH = 1(1) [of _ pos _ h v "out @ [v]" r]
  show ?case
    using 1(2) only_append [of v out] IH by (auto split: option.splits list.splits if_splits sum.splits)
qed

lemma post_loop_only:
  assumes "post_loop pos q tmp h v out = Some r"
  shows "only v out \<longrightarrow> only v r"
proof (rule post_loop.raw_induct [OF _ assms, where P = "\<lambda>pos q tmp h v out r. only v out \<longrightarrow> only v r"], goal_cases)
  case (1 rec pos q tmp h v out r)
  then show ?case
    by (auto split: option.splits sum.splits dest!: post_up_only)
qed

text \<open>\<open>postTraversal\<close> prints the value of the root whichever node it visits, and visits a tree of one
  node twice.\<close>
theorem postTraversal_prints_root:
  assumes "deref h p = Some n"
  shows "(\<forall>out. postTraversal (Some p) h = Some out \<longrightarrow> set out \<subseteq> {m_value n}) \<and>
    (m_lchild n = None \<and> m_rchild n = None \<longrightarrow> postTraversal (Some p) h = Some [m_value n, m_value n])"
proof (intro conjI allI impI)
  fix out assume "postTraversal (Some p) h = Some out"
  then have "post_loop p p [p] h (m_value n) [] = Some out" using assms by (simp add: postTraversal_def)
  from post_loop_only [OF this] show "set out \<subseteq> {m_value n}" by (simp add: only_def)
next
  assume leaf: "m_lchild n = None \<and> m_rchild n = None"
  have "post_down p [p] h = Some (p, [p])" using assms leaf by (subst post_down.simps) simp
  moreover have "post_up p p [] h (m_value n) [m_value n] = Some (Inl [m_value n, m_value n])"
    using assms leaf by (subst post_up.simps) simp
  then have "post_up p p [p] h (m_value n) [] = Some (Inl [m_value n, m_value n])"
    using assms leaf by (subst post_up.simps) simp
  ultimately show "postTraversal (Some p) h = Some [m_value n, m_value n]"
    using assms by (simp add: postTraversal_def post_loop.simps)
qed

section \<open>Witnesses\<close>

text \<open>A root with one child, and a single node.\<close>

definition sample_nodes :: "nat nodes" where
  "sample_nodes = [Some \<lparr>m_value = 2, m_lchild = Some 1, m_rchild = None\<rparr>, Some (MyBitree 1)]"

definition sample_tree :: "(nat \<times> nat) tree" where
  "sample_tree = Node (twig 1 1) (0, 2) Leaf"

lemma sample_at: "bitree_at sample_nodes (Some 0) sample_tree" "distinct (addr_list sample_tree)"
  by (simp_all add: sample_nodes_def sample_tree_def twig_def MyBitree_def deref_def)

theorem insertOne_sorted_witness:
  "\<exists>h'. insertOne (Some 0) 3 sample_nodes = Some h' \<and> midTraversal (Some 0) h' = Some [1, 2, 3]"
  using insertOne_sorted [OF sample_at, of 3] by (auto simp: sample_tree_def twig_def)

theorem init_breadth_witness:
  "\<exists>h'. bitree_init (Some 0) [3, 1, 2] [Some (MyBitree (0 :: nat))] = Some h' \<and> breadthTraversal (Some 0) h' = Some [3, 1, 2]"
  using init_breadth [of "[Some (MyBitree (0 :: nat))]" 0 "MyBitree 0" "[3, 1, 2]"] by (auto simp: deref_def MyBitree_def)

theorem MyBitree_dtor_frees_witness: "\<exists>h'. MyBitree_dtor 0 sample_nodes = Some h' \<and> deref h' 1 = Some (MyBitree 1)"
  using MyBitree_dtor_frees [OF sample_at [unfolded sample_tree_def]]
  by (auto simp: twig_def) (simp add: sample_nodes_def deref_def)

theorem traversals_witness: "preTraversal (Some 0) sample_nodes = Some [2, 1]"
  using traversals [OF sample_at(1)] by (simp add: sample_tree_def twig_def)

theorem postTraversal_prints_root_witness: "postTraversal (Some 0) [Some (MyBitree 5)] = Some [5, 5 :: nat]"
  using postTraversal_prints_root [of "[Some (MyBitree (5 :: nat))]" 0 "MyBitree 5"] by (simp add: deref_def MyBitree_def)

end
