(* ===== verification/Backtracking.thy ===== *)
theory Backtracking
  imports Prelude "HOL-Library.Signed_Division" "HOL-Library.Multiset"
begin

unbundle bit_operations_syntax

text \<open>
  \<open>backtracking.cpp\<close>: the subsets of a vector by bit masks and by backtracking, and the conversions
  between a number and its binary digits written in decimal.  \<open>int\<close> has 32 bits; an overflow is
  \<open>None\<close>.
\<close>

section \<open>Subsets\<close>

text \<open>What \<open>subset\<close> prints for one mask, and for all masks, one line each.\<close>

definition subset_line :: "'a list \<Rightarrow> nat \<Rightarrow> 'a list" where
  "subset_line nums msk = map (\<lambda>i. nums ! i) (filter (\<lambda>i. msk AND push_bit i 1 \<noteq> 0) [0..<length nums])"

definition subset_lines :: "'a list \<Rightarrow> 'a list list" where
  "subset_lines nums = map (subset_line nums) [0..<push_bit (length nums) 1]"

definition subset_fun :: "int list list" where
  "subset_fun = subset_lines [3, 5, 12, 31, 44]"

text \<open>The globals \<open>t\<close> and \<open>ans\<close> are passed along; \<open>None\<close>: \<open>cur\<close> is beyond the end.\<close>

function backtracing :: "nat \<Rightarrow> 'a list \<Rightarrow> 'a list \<times> 'a list list \<Rightarrow> ('a list \<times> 'a list list) option" where
  "backtracing cur nums (t, ans) =
     (if cur = length nums then Some (t, ans @ [t])
      else if length nums < cur then None
      else (case backtracing (cur + 1) nums (t @ [nums ! cur], ans) of None \<Rightarrow> None
        | Some (t1, ans1) \<Rightarrow> backtracing (cur + 1) nums (butlast t1, ans1)))"
  by pat_completeness auto
termination by (relation "measure (\<lambda>(cur, nums, s). length nums - cur)") auto

declare backtracing.simps [simp del]

lemma backtracing_subseqs:
  "cur \<le> length nums \<Longrightarrow> backtracing cur nums (t, ans) = Some (t, ans @ map ((@) t) (subseqs (drop cur nums)))"
proof (induction "length nums - cur" arbitrary: cur t ans)
  case 0
  then show ?case by (subst backtracing.simps) simp
next
  case (Suc n)
  then have cur: "cur < length nums" "drop cur nums = nums ! cur # drop (cur + 1) nums"
    by (simp_all add: Cons_nth_drop_Suc)
  have IH: "backtracing (cur + 1) nums (u, as) = Some (u, as @ map ((@) u) (subseqs (drop (cur + 1) nums)))" for u as
    using Suc by simp
  show ?case
    unfolding cur(2) using cur(1) by (subst backtracing.simps) (simp add: IH [simplified] Let_def comp_def)
qed

lemma upt_double: "mset (map f [0..<2 * k]) = mset (map (\<lambda>m. f (2 * m)) [0..<k]) + mset (map (\<lambda>m. f (2 * m + 1)) [0..<k])"
  by (induction k) (simp_all add: ac_simps)

lemma subset_line_Cons:
  "subset_line (x # xs) (2 * m) = subset_line xs m" "subset_line (x # xs) (2 * m + 1) = x # subset_line xs m"
proof -
  have bit: "msk AND push_bit i 1 \<noteq> 0 \<longleftrightarrow> bit msk i" for msk i :: nat
    by (rule bit_iff_and_push_bit_not_eq_0 [symmetric])
  have upt: "[0..<length (x # xs)] = 0 # map Suc [0..<length xs]" by (simp add: upt_conv_Cons map_Suc_upt del: upt_Suc)
  show "subset_line (x # xs) (2 * m) = subset_line xs m" "subset_line (x # xs) (2 * m + 1) = x # subset_line xs m"
    unfolding subset_line_def bit upt by (simp_all add: filter_map comp_def bit_Suc bit_0)
qed

lemma subset_lines_subseqs: "mset (subset_lines nums) = mset (subseqs nums)"
proof (induction nums)
  case Nil
  then show ?case by (simp add: subset_lines_def subset_line_def)
next
  case (Cons x xs)
  let ?k = "push_bit (length xs) (1 :: nat)"
  have k: "push_bit (length (x # xs)) 1 = 2 * ?k" by (simp add: push_bit_eq_mult)
  have "mset (subset_lines (x # xs)) = mset (map (subset_line xs) [0..<?k]) + mset (map (\<lambda>m. x # subset_line xs m) [0..<?k])"
    unfolding subset_lines_def k upt_double subset_line_Cons ..
  also have "mset (map (\<lambda>m. x # subset_line xs m) [0..<?k]) = image_mset ((#) x) (mset (subset_lines xs))"
    by (simp add: subset_lines_def image_mset.compositionality comp_def)
  also have "mset (map (subset_line xs) [0..<?k]) = mset (subset_lines xs)" by (simp add: subset_lines_def)
  finally show ?case unfolding Cons.IH by (simp add: Let_def)
qed

text \<open>From the start, backtracking collects the subsequences of the vector, each once for each
  choice of positions, and leaves \<open>t\<close> as it was; the bit masks print the same ones.\<close>
theorem subsets_agree:
  "\<exists>ans1. backtracing 0 nums (t, ans) = Some (t, ans @ map ((@) t) ans1) \<and> ans1 = subseqs nums \<and>
    mset (subset_lines nums) = mset ans1"
  using backtracing_subseqs [of 0 nums t ans] subset_lines_subseqs by auto

section \<open>Binary digits\<close>

definition i32 :: "int \<Rightarrow> int option" where
  "i32 x = (if - (2 ^ 31) \<le> x \<and> x < 2 ^ 31 then Some x else None)"

lemma sdiv_less: "d \<noteq> (0 :: int) \<Longrightarrow> k > 1 \<Longrightarrow> nat \<bar>d sdiv k\<bar> < nat \<bar>d\<bar>"
proof -
  assume d: "d \<noteq> 0" "k > 1"
  then have "0 \<le> \<bar>d\<bar> div k" "\<bar>d\<bar> div k < \<bar>d\<bar>"
    using int_div_less_self [of "\<bar>d\<bar>" k] by (simp_all add: pos_imp_zdiv_nonneg_iff)
  with d show ?thesis by (simp add: signed_divide_int_def abs_mult abs_sgn_eq)
qed

function decimalToBinary_loop :: "int \<Rightarrow> int \<Rightarrow> int \<Rightarrow> int option" where
  "decimalToBinary_loop d bin i =
     (if d = 0 then Some bin
      else (case i32 (bin + (d smod 2) * i) of None \<Rightarrow> None | Some bin1 \<Rightarrow>
        (case i32 (i * 10) of None \<Rightarrow> None | Some i1 \<Rightarrow> decimalToBinary_loop (d sdiv 2) bin1 i1)))"
  by pat_completeness auto
termination
proof (relation "measure (\<lambda>(d, bin, i). nat \<bar>d\<bar>)", goal_cases)
  case (2 d bin i)
  then show ?case using sdiv_less [of d 2] by simp
qed simp

definition decimalToBinary :: "int \<Rightarrow> int option" where
  "decimalToBinary d = decimalToBinary_loop d 0 1"

function binaryToDecimal_loop :: "int \<Rightarrow> int \<Rightarrow> int \<Rightarrow> int option" where
  "binaryToDecimal_loop bin d i =
     (if bin = 0 then Some d
      else (case i32 ((bin smod 10) * i) of None \<Rightarrow> None | Some x \<Rightarrow>
        (case i32 (d + x) of None \<Rightarrow> None | Some d1 \<Rightarrow>
          (case i32 (i * 2) of None \<Rightarrow> None | Some i1 \<Rightarrow> binaryToDecimal_loop (bin sdiv 10) d1 i1))))"
  by pat_completeness auto
termination
proof (relation "measure (\<lambda>(bin, d, i). nat \<bar>bin\<bar>)", goal_cases)
  case (2 bin d i)
  then show ?case using sdiv_less [of bin 10] by simp
qed simp

definition binaryToDecimal :: "int \<Rightarrow> int option" where
  "binaryToDecimal bin = binaryToDecimal_loop bin 0 1"

declare decimalToBinary_loop.simps [simp del] binaryToDecimal_loop.simps [simp del]

lemma i32_small: "0 \<le> x \<Longrightarrow> x < 2147483648 \<Longrightarrow> i32 x = Some x"
  by (simp add: i32_def)

text \<open>The number that has the binary digits of \<open>n\<close> as its decimal digits.\<close>

fun bcd :: "nat \<Rightarrow> nat" where
  "bcd n = (if n = 0 then 0 else n mod 2 + 10 * bcd (n div 2))"

declare bcd.simps [simp del]

lemma bcd_bound: "n < 2 ^ k \<Longrightarrow> bcd n < 10 ^ k"
proof (induction k arbitrary: n)
  case 0
  then show ?case by (simp add: bcd.simps)
next
  case (Suc k)
  have "bcd (n div 2) < 10 ^ k" using Suc.prems by (intro Suc.IH) (simp add: less_mult_imp_div_less)
  moreover have "n mod 2 \<le> 1" by simp
  ultimately have "n mod 2 + 10 * bcd (n div 2) < 10 ^ Suc k" by simp
  then show ?case by (subst bcd.simps) simp
qed

lemma bcd_zero: "bcd n = 0 \<Longrightarrow> n = 0"
proof (induction n rule: less_induct)
  case (less n)
  show ?case
  proof (rule ccontr)
    assume n: "n \<noteq> 0"
    then have "n mod 2 = 0" "bcd (n div 2) = 0" using less.prems by (auto simp: bcd.simps [of n])
    moreover from n have "n div 2 < n" by simp
    ultimately show False using less.IH [of "n div 2"] n by presburger
  qed
qed

lemma pow_bound: "k \<le> 9 \<Longrightarrow> (10 :: int) ^ k \<le> 1000000000" "k \<le> 9 \<Longrightarrow> (2 :: int) ^ k \<le> 512"
  using power_increasing [of k 9 "10 :: int"] power_increasing [of k 9 "2 :: int"] by simp_all

lemma sdiv_nat: "int n sdiv 2 = int (n div 2)" "int n smod 2 = int (n mod 2)"
    "int n sdiv 10 = int (n div 10)" "int n smod 10 = int (n mod 10)"
  by (simp_all add: signed_divide_int_def signed_modulo_int_def zdiv_int zmod_int sgn_if)

text \<open>The loops, from the digit \<open>k\<close> on.\<close>

lemma decimalToBinary_loop_bcd:
  "n < 2 ^ (9 - k) \<Longrightarrow> k \<le> 9 \<Longrightarrow> b < 10 ^ k \<Longrightarrow>
   decimalToBinary_loop (int n) (int b) (10 ^ k) = Some (int (b + 10 ^ k * bcd n))"
proof (induction n arbitrary: k b rule: less_induct)
  case (less n)
  show ?case
  proof (cases "n = 0")
    case True
    then show ?thesis by (subst decimalToBinary_loop.simps) (simp add: bcd.simps)
  next
    case False
    then have k: "k < 9" using less.prems(1,2) by (cases "k = 9") auto
    let ?b = "b + n mod 2 * 10 ^ k"
    have b: "?b < 10 ^ (k + 1)" using less.prems(3) by (cases "even n") (simp_all add: mod_2_eq_odd)
    moreover have "(10 :: int) ^ (k + 1) \<le> 1000000000" by (rule pow_bound) (use k in simp)
    moreover have "int ?b < 10 ^ (k + 1)" using b by (metis of_nat_less_iff of_nat_numeral of_nat_power)
    ultimately have "int ?b < 2147483648" "(10 :: int) ^ (k + 1) < 2147483648" by linarith+
    then have i: "i32 (int ?b) = Some (int ?b)" "i32 (10 ^ k * 10) = Some (10 ^ (k + 1))"
      using i32_small [of "int ?b"] i32_small [of "10 ^ (k + 1)"] by (simp_all add: mult.commute)
    have sum: "int b + int (n mod 2) * 10 ^ k = int ?b" by simp
    have nn: "n div 2 < 2 ^ (9 - (k + 1))"
    proof -
      have "9 - k = Suc (9 - (k + 1))" using k by simp
      then show ?thesis using less.prems(1) by (simp add: less_mult_imp_div_less)
    qed
    have "decimalToBinary_loop (int (n div 2)) (int ?b) (10 ^ (k + 1)) = Some (int (?b + 10 ^ (k + 1) * bcd (n div 2)))"
      using less.IH [OF _ nn _ b] False k by simp
    moreover have "b + 10 ^ k * bcd n = ?b + 10 ^ (k + 1) * bcd (n div 2)"
      using False by (subst bcd.simps) (simp add: algebra_simps)
    ultimately show ?thesis
      using False by (subst decimalToBinary_loop.simps) (simp only: sum i option.case sdiv_nat of_nat_eq_0_iff if_False)
  qed
qed

lemma decimalToBinary_loop_overflow:
  "2 ^ (9 - k) \<le> n \<Longrightarrow> k \<le> 9 \<Longrightarrow> decimalToBinary_loop (int n) b (10 ^ k) = None"
proof (induction "9 - k" arbitrary: k n b)
  case 0
  then have "k = 9" "0 < n" by auto
  then show ?case by (subst decimalToBinary_loop.simps) (simp add: i32_def split: option.split)
next
  case (Suc j)
  then have k: "k < 9" "9 - (k + 1) = j" "9 - k = Suc j" by auto
  have "0 < n" using Suc.prems(1) by (metis gr0I le_zero_eq power_not_zero zero_neq_numeral)
  moreover have "2 ^ (9 - (k + 1)) \<le> n div 2" using Suc.prems(1) k by simp
  then have "decimalToBinary_loop (int (n div 2)) b' (10 ^ (k + 1)) = None" for b'
    using Suc.hyps(1) [of "k + 1" "n div 2" b'] k by simp
  moreover have "i32 (10 ^ k * 10) = Some (10 ^ (k + 1))" using pow_bound(1) [of "k + 1"] k i32_small [of "10 ^ (k + 1)"] by (simp add: mult.commute)
  ultimately show ?case
    by (subst decimalToBinary_loop.simps) (simp add: sdiv_nat split: option.split)
qed

lemma binaryToDecimal_loop_bcd:
  "n < 2 ^ (9 - k) \<Longrightarrow> k \<le> 9 \<Longrightarrow> d < 2 ^ k \<Longrightarrow>
   binaryToDecimal_loop (int (bcd n)) (int d) (2 ^ k) = Some (int (d + 2 ^ k * n))"
proof (induction n arbitrary: k d rule: less_induct)
  case (less n)
  show ?case
  proof (cases "n = 0")
    case True
    then show ?thesis by (subst binaryToDecimal_loop.simps) (simp add: bcd.simps)
  next
    case False
    then have k: "k < 9" using less.prems(1,2) by (cases "k = 9") auto
    have bcd: "bcd n = n mod 2 + 10 * bcd (n div 2)" using False by (subst bcd.simps) simp
    have digits: "bcd n mod 10 = n mod 2" "bcd n div 10 = bcd (n div 2)"
      unfolding bcd by (simp_all add: mod_less [of "n mod 2" 10])
    have pos: "bcd n \<noteq> 0" using False bcd_zero by blast
    let ?d = "d + n mod 2 * 2 ^ k"
    have d: "?d < 2 ^ (k + 1)" using less.prems(3) by (cases "even n") (simp_all add: mod_2_eq_odd)
    moreover have "(2 :: int) ^ (k + 1) \<le> 512" by (rule pow_bound) (use k in simp)
    moreover have "int ?d < 2 ^ (k + 1)" using d by (metis of_nat_less_iff of_nat_numeral of_nat_power)
    ultimately have "int ?d < 2147483648" "(2 :: int) ^ (k + 1) < 2147483648" by linarith+
    moreover have "int (n mod 2 * 2 ^ k) \<le> int ?d" by simp
    ultimately have i: "i32 (int (n mod 2 * 2 ^ k)) = Some (int (n mod 2 * 2 ^ k))" "i32 (int ?d) = Some (int ?d)"
        "i32 (2 ^ k * 2) = Some (2 ^ (k + 1))"
      using i32_small [of "int ?d"] i32_small [of "2 ^ (k + 1)"] i32_small [of "int (n mod 2 * 2 ^ k)"]
      by (simp_all add: mult.commute)
    have sum: "int (bcd n) smod 10 * 2 ^ k = int (n mod 2 * 2 ^ k)" "int d + int (n mod 2 * 2 ^ k) = int ?d"
        "int (bcd n) sdiv 10 = int (bcd (n div 2))"
      by (simp_all add: sdiv_nat digits)
    have nn: "n div 2 < 2 ^ (9 - (k + 1))"
    proof -
      have "9 - k = Suc (9 - (k + 1))" using k by simp
      then show ?thesis using less.prems(1) by (simp add: less_mult_imp_div_less)
    qed
    have "binaryToDecimal_loop (int (bcd (n div 2))) (int ?d) (2 ^ (k + 1)) = Some (int (?d + 2 ^ (k + 1) * (n div 2)))"
      using less.IH [OF _ nn _ d] False k by simp
    moreover have "2 ^ k * (a + 2 * c) = a * 2 ^ k + 2 ^ (k + 1) * c" for a c :: nat
      by (simp add: algebra_simps)
    from this [of "n mod 2" "n div 2"] have "d + 2 ^ k * n = ?d + 2 ^ (k + 1) * (n div 2)" by simp
    ultimately show ?thesis
      using pos by (subst binaryToDecimal_loop.simps) (simp only: sum i option.case of_nat_eq_0_iff if_False)
  qed
qed

text \<open>Below 512 the conversion to binary digits succeeds, and converting back gives the number;
  from 512 on the weight of the next digit overflows, also when it is not needed any more.\<close>
theorem binary_roundtrip:
  "if n < 512 then decimalToBinary (int n) = Some (int (bcd n)) \<and> binaryToDecimal (int (bcd n)) = Some (int n)
   else decimalToBinary (int n) = None"
  using decimalToBinary_loop_bcd [of n 0 0] binaryToDecimal_loop_bcd [of n 0 0] decimalToBinary_loop_overflow [of 0 n 0]
  by (simp add: decimalToBinary_def binaryToDecimal_def)

end
