(* ===== verification/Containers.thy ===== *)
theory Containers
  imports Prelude
begin

text \<open>
  \<open>container/testStack.cpp\<close>: a queue made of two stacks, and \<open>container/testVector.cpp\<close>: the two
  binary searches.  A stack is the list of its elements from the top; the bounds of a search are
  unbounded, which is exact for vectors of fewer than 2 ^ 30 elements.
\<close>

section \<open>First in, first out\<close>

text \<open>What a client of a queue relies on: \<open>contents\<close> is the list of what is in it.  \<open>pop\<close> of an empty
  queue returns an arbitrary value.\<close>

locale fifo =
  fixes new :: "'q" and push :: "'a \<Rightarrow> 'q \<Rightarrow> 'q" and pop :: "'q \<Rightarrow> 'a option \<times> 'q"
    and contents :: "'q \<Rightarrow> 'a list" and inv :: "'q \<Rightarrow> bool"
  assumes new_inv: "inv new" and new_contents: "contents new = []"
    and push_inv: "inv q \<Longrightarrow> inv (push x q)" and push_contents: "inv q \<Longrightarrow> contents (push x q) = contents q @ [x]"
    and pop_inv: "inv q \<Longrightarrow> inv (snd (pop q))"
    and pop_value: "inv q \<Longrightarrow> fst (pop q) = (case contents q of [] \<Rightarrow> None | x # _ \<Rightarrow> Some x)"
    and pop_contents: "inv q \<Longrightarrow> contents (snd (pop q)) = tl (contents q)"
begin

text \<open>A run of operations: \<open>Some x\<close> pushes, \<open>None\<close> pops.  Beside it, the same run on a list.\<close>

primrec runs :: "'a option list \<Rightarrow> 'q \<Rightarrow> 'a option list \<times> 'q" where
  "runs [] q = ([], q)"
| "runs (c # cs) q = (case c of Some x \<Rightarrow> runs cs (push x q)
     | None \<Rightarrow> (let r = runs cs (snd (pop q)) in (fst (pop q) # fst r, snd r)))"

primrec spec :: "'a option list \<Rightarrow> 'a list \<Rightarrow> 'a option list \<times> 'a list" where
  "spec [] xs = ([], xs)"
| "spec (c # cs) xs = (case c of Some x \<Rightarrow> spec cs (xs @ [x])
     | None \<Rightarrow> (let r = spec cs (tl xs) in ((case xs of [] \<Rightarrow> None | x # _ \<Rightarrow> Some x) # fst r, snd r)))"

lemma runs_spec: "inv q \<Longrightarrow> fst (runs cs q) = fst (spec cs (contents q)) \<and> inv (snd (runs cs q)) \<and>
    contents (snd (runs cs q)) = snd (spec cs (contents q))"
proof (induction cs arbitrary: q)
  case (Cons c cs)
  show ?case
  proof (cases c)
    case None
    then show ?thesis using Cons.IH [OF pop_inv [OF Cons.prems]] Cons.prems
      by (simp add: Let_def pop_value pop_contents)
  next
    case (Some x)
    then show ?thesis using Cons.IH [OF push_inv [OF Cons.prems, of x]] Cons.prems by (simp add: push_contents)
  qed
qed simp

end

section \<open>The queue of two stacks\<close>

record myqueue =
  stack1 :: "int list"
  stack2 :: "int list"

text \<open>The loop that empties one stack into another.\<close>

primrec pour :: "int list \<Rightarrow> int list \<Rightarrow> int list" where
  "pour [] to = to"
| "pour (x # from1) to = pour from1 (x # to)"

definition myqueue_new :: myqueue where
  "myqueue_new = \<lparr>stack1 = [], stack2 = []\<rparr>"

definition myqueue_push :: "int \<Rightarrow> myqueue \<Rightarrow> myqueue" where
  "myqueue_push node q =
     (let s1 = pour (stack2 q) (stack1 q); s2 = pour (node # s1) [] in \<lparr>stack1 = [], stack2 = s2\<rparr>)"

text \<open>\<open>None\<close>: the value that is returned has not been set.\<close>

definition myqueue_pop :: "myqueue \<Rightarrow> int option \<times> myqueue" where
  "myqueue_pop q = (case stack2 q of [] \<Rightarrow> (None, q) | n # s \<Rightarrow> (Some n, q\<lparr>stack2 := s\<rparr>))"

lemma pour_rev: "pour xs ys = rev xs @ ys"
  by (induction xs arbitrary: ys) auto

interpretation two_stacks: fifo myqueue_new myqueue_push myqueue_pop stack2 "\<lambda>q. stack1 q = []"
  by unfold_locales (auto simp: myqueue_new_def myqueue_push_def myqueue_pop_def pour_rev Let_def split: list.splits)

primrec myqueue_runs :: "int option list \<Rightarrow> myqueue \<Rightarrow> int option list \<times> myqueue" where
  "myqueue_runs [] q = ([], q)"
| "myqueue_runs (c # cs) q = (case c of Some x \<Rightarrow> myqueue_runs cs (myqueue_push x q)
     | None \<Rightarrow> (let r = myqueue_runs cs (snd (myqueue_pop q)) in (fst (myqueue_pop q) # fst r, snd r)))"

primrec list_queue :: "int option list \<Rightarrow> int list \<Rightarrow> int option list \<times> int list" where
  "list_queue [] xs = ([], xs)"
| "list_queue (c # cs) xs = (case c of Some x \<Rightarrow> list_queue cs (xs @ [x])
     | None \<Rightarrow> (let r = list_queue cs (tl xs) in ((case xs of [] \<Rightarrow> None | x # _ \<Rightarrow> Some x) # fst r, snd r)))"

lemma runs_eq: "two_stacks.runs cs q = myqueue_runs cs q" "two_stacks.spec cs xs = list_queue cs xs"
  by (induction cs arbitrary: q xs) (simp_all split: option.split)

text \<open>Any sequence of pushes and pops on a new queue of two stacks returns what the same sequence on
  a list returns, where a push appends and a pop takes the head.\<close>
theorem myqueue_is_fifo:
  "fst (myqueue_runs cs myqueue_new) = fst (list_queue cs []) \<and>
   stack2 (snd (myqueue_runs cs myqueue_new)) = snd (list_queue cs [])"
  using two_stacks.runs_spec [OF two_stacks.new_inv, of cs] by (simp add: runs_eq two_stacks.new_contents)

section \<open>Binary search\<close>

text \<open>\<open>None\<close>: an element outside the vector is read.\<close>

definition at :: "int list \<Rightarrow> int \<Rightarrow> int option" where
  "at vec i = (if 0 \<le> i \<and> i < int (length vec) then Some (vec ! nat i) else None)"

function binarySearch_loop :: "int list \<Rightarrow> int \<Rightarrow> int \<Rightarrow> int \<Rightarrow> int option" where
  "binarySearch_loop vec num left right =
     (if left \<le> right then
        (let mid = (left + right) div 2 in
         case at vec mid of None \<Rightarrow> None | Some x \<Rightarrow>
           if x = num then Some mid
           else if x < num then binarySearch_loop vec num (mid + 1) right
           else binarySearch_loop vec num left (mid - 1))
      else Some (- 1))"
  by pat_completeness auto
termination by (relation "measure (\<lambda>(vec, num, left, right). nat (right - left + 1))") auto

definition binarySearch :: "int list \<Rightarrow> int \<Rightarrow> int option" where
  "binarySearch vec num =
     (let right = int (length vec) - 1 in
      case at vec 0 of None \<Rightarrow> None | Some x0 \<Rightarrow>
        if num \<le> x0 then Some 0
        else (case at vec right of None \<Rightarrow> None | Some xr \<Rightarrow>
          if xr \<le> num then Some right else binarySearch_loop vec num 0 right))"

function binaryCompare_loop :: "int list \<Rightarrow> int \<Rightarrow> int \<Rightarrow> int \<Rightarrow> int option" where
  "binaryCompare_loop vec num left right =
     (if left \<le> right then
        (let mid = (left + right) div 2 in
         case at vec (mid - 1) of None \<Rightarrow> None | Some y \<Rightarrow> (case at vec mid of None \<Rightarrow> None | Some x \<Rightarrow>
           if y \<le> num \<and> num < x then Some mid
           else if x < num then binaryCompare_loop vec num (mid + 1) right
           else binaryCompare_loop vec num left (mid - 1)))
      else Some 0)"
  by pat_completeness auto
termination by (relation "measure (\<lambda>(vec, num, left, right). nat (right - left + 1))") auto

definition binaryCompare :: "int list \<Rightarrow> int \<Rightarrow> int option" where
  "binaryCompare vec num =
     (let right = int (length vec) - 1 in
      case at vec 0 of None \<Rightarrow> None | Some x0 \<Rightarrow>
        if num \<le> x0 then Some 0
        else (case at vec right of None \<Rightarrow> None | Some xr \<Rightarrow>
          if xr \<le> num then Some right else binaryCompare_loop vec num 0 right))"

declare binarySearch_loop.simps [simp del] binaryCompare_loop.simps [simp del]

text \<open>The loop keeps everything equal to \<open>num\<close> between its bounds.\<close>

lemma binarySearch_loop_finds:
  assumes "sorted vec" "0 \<le> left" "right < int (length vec)"
    "\<And>i. i < length vec \<Longrightarrow> vec ! i = num \<Longrightarrow> left \<le> int i \<and> int i \<le> right"
  shows "if num \<in> set vec then \<exists>i < length vec. binarySearch_loop vec num left right = Some (int i) \<and> vec ! i = num
    else binarySearch_loop vec num left right = Some (- 1)"
  using assms
proof (induction vec num left right rule: binarySearch_loop.induct)
  case (1 vec num left right)
  show ?case
  proof (cases "left \<le> right")
    case False
    then have "num \<notin> set vec" using 1(6) by (fastforce simp: in_set_conv_nth)
    with False show ?thesis by (simp add: binarySearch_loop.simps)
  next
    case True
    let ?mid = "(left + right) div 2"
    let ?m = "nat ?mid"
    have mid: "left \<le> ?mid" "?mid \<le> right" "0 \<le> ?mid" "?m < length vec" "int ?m = ?mid"
      using True 1(4,5) by auto
    have at: "at vec ?mid = Some (vec ! ?m)" using mid 1(5) by (simp add: at_def)
    have mono: "i \<le> j \<Longrightarrow> j < length vec \<Longrightarrow> vec ! i \<le> vec ! j" for i j
      using 1(3) by (simp add: sorted_nth_mono)
    have step: "binarySearch_loop vec num left right = (if vec ! ?m = num then Some ?mid
        else if vec ! ?m < num then binarySearch_loop vec num (?mid + 1) right
        else binarySearch_loop vec num left (?mid - 1))"
      using True at by (subst binarySearch_loop.simps) (simp add: Let_def)
    consider "vec ! ?m = num" | "vec ! ?m < num" | "num < vec ! ?m" by linarith
    then show ?thesis
    proof cases
      case 1
      then show ?thesis using step mid by (auto intro!: exI [of _ ?m])
    next
      case 2
      have "?mid + 1 \<le> int i" if "i < length vec" "vec ! i = num" for i
        using mono [of i ?m] that mid 2 by (cases "i \<le> ?m") auto
      then show ?thesis
        using "1.IH"(1) [OF True refl at] 2 True mid at "1.prems" by (simp add: step)
    next
      case 3
      have "int i \<le> ?mid - 1" if "i < length vec" "vec ! i = num" for i
        using mono [of ?m i] that mid 3 by (cases "?m \<le> i") auto
      then show ?thesis
        using "1.IH"(2) [OF True refl at] 3 True mid at "1.prems" by (simp add: step)
    qed
  qed
qed

lemma binarySearch_ends:
  assumes "vec \<noteq> []"
  shows "binarySearch vec num = (if num \<le> hd vec then Some 0 else if last vec \<le> num then Some (int (length vec) - 1)
    else binarySearch_loop vec num 0 (int (length vec) - 1))"
proof -
  have r: "int (length vec) - 1 = int (length vec - 1)" "length vec - 1 < length vec" using assms by (cases vec; simp)+
  have "at vec 0 = Some (hd vec)" "at vec (int (length vec) - 1) = Some (last vec)"
    unfolding r(1) using assms r(2) by (simp_all add: at_def hd_conv_nth last_conv_nth)
  then show ?thesis by (simp add: binarySearch_def Let_def)
qed

lemma sorted_ends:
  assumes "sorted vec" "x \<in> set vec"
  shows "hd vec \<le> x" "x \<le> last vec"
proof -
  have ne: "vec \<noteq> []" using assms(2) by auto
  show "hd vec \<le> x" "x \<le> last vec"
    using assms unfolding hd_conv_nth [OF ne] last_conv_nth [OF ne]
    by (auto simp: in_set_conv_nth intro!: sorted_nth_mono)
qed

text \<open>On a sorted vector that is not empty, \<open>binarySearch\<close> returns the index of an element equal to
  \<open>num\<close> if there is one; it returns -1 only for a missing number that lies strictly between the first
  and the last element, and an index of the vector for every other missing number.\<close>
theorem binarySearch_finds:
  assumes "sorted vec" "vec \<noteq> []"
  shows "if num \<in> set vec then \<exists>i < length vec. binarySearch vec num = Some (int i) \<and> vec ! i = num
    else binarySearch vec num = Some (if num < hd vec then 0 else if last vec < num then int (length vec) - 1 else - 1)"
proof -
  let ?r = "length vec - 1"
  have ends: "vec ! 0 = hd vec" "vec ! ?r = last vec" "?r < length vec" "int (length vec) - 1 = int ?r"
    using assms(2) by (simp add: hd_conv_nth, simp add: last_conv_nth, (cases vec; simp)+)
  have eq: "num = hd vec" if "num \<in> set vec" "num \<le> hd vec" using that sorted_ends(1) [OF assms(1)] by force
  have eq': "num = last vec" if "num \<in> set vec" "last vec \<le> num" using that sorted_ends(2) [OF assms(1)] by force
  have ends_in: "hd vec \<in> set vec" "last vec \<in> set vec" using assms(2) by simp_all
  consider "num \<le> hd vec" | "hd vec < num" "last vec \<le> num" | "hd vec < num" "num < last vec" by linarith
  then show ?thesis
  proof cases
    case 1
    then have "binarySearch vec num = Some (int 0)" by (simp add: binarySearch_ends [OF assms(2)])
    with 1 eq ends(1) assms(2) ends_in(1) show ?thesis by (cases "num = hd vec") auto
  next
    case 2
    then have "binarySearch vec num = Some (int ?r)"
      unfolding ends(4) [symmetric] by (simp add: binarySearch_ends [OF assms(2)])
    with 2 eq' ends ends_in(2) show ?thesis by (cases "num = last vec") (auto simp del: of_nat_diff)
  next
    case 3
    then show ?thesis using binarySearch_loop_finds [OF assms(1), of 0 "int (length vec) - 1" num]
      by (auto simp: binarySearch_ends [OF assms(2)])
  qed
qed

theorem binarySearch_finds_witness: "\<exists>i < 3. binarySearch [1, 4, 9] 4 = Some (int i) \<and> [1, 4, 9 :: int] ! i = 4"
  using binarySearch_finds [of "[1, 4, 9]" 4] by (simp add: numeral_3_eq_3)

text \<open>\<open>binaryCompare\<close> reads before the beginning of the vector when its loop gets to position 0.\<close>

lemma binaryCompare_reads_before: "binaryCompare [1, 5] 3 = None"
  by (simp add: binaryCompare_def at_def binaryCompare_loop.simps)

end
