(* ===== verification/StrFun.thy ===== *)
theory StrFun
  imports Prelude "HOL-Library.Sublist"
begin

text \<open>
  \<open>stringHandle/str_fun.cpp\<close>: functions on C strings and \<open>std::string\<close>.  A buffer is the list of its
  characters, the terminating NUL and what is after it included.  \<open>None\<close>: memory outside the buffer
  is touched, or the function does not return.  Lengths and positions are below 2^31.  The functions
  that convert between encodings only call the operating system.
\<close>

section \<open>Buffers\<close>

abbreviation NUL :: char where "NUL \<equiv> CHR 0x00"

definition rd :: "string \<Rightarrow> nat \<Rightarrow> char option" where
  "rd mem i = (if i < length mem then Some (mem ! i) else None)"

definition wr :: "string \<Rightarrow> nat \<Rightarrow> char \<Rightarrow> string option" where
  "wr mem i c = (if i < length mem then Some (mem[i := c]) else None)"

fun strlen :: "string \<Rightarrow> nat option" where
  "strlen [] = None"
| "strlen (c # mem) = (if c = NUL then Some 0 else map_option Suc (strlen mem))"

text \<open>Whether \<open>strchr\<close> finds the character.\<close>

fun strchr :: "string \<Rightarrow> char \<Rightarrow> bool option" where
  "strchr [] c = None"
| "strchr (x # mem) c = (if x = c then Some True else if x = NUL then Some False else strchr mem c)"

text \<open>Where \<open>strstr\<close> finds the second string in the first.\<close>

fun strstr :: "string \<Rightarrow> string \<Rightarrow> nat option" where
  "strstr [] pat = (if pat = [] then Some 0 else None)"
| "strstr (x # txt1) pat = (if take (length pat) (x # txt1) = pat then Some 0 else map_option Suc (strstr txt1 pat))"

section \<open>Comparing\<close>

text \<open>\<open>char\<close> is signed.\<close>

definition schar :: "char \<Rightarrow> int" where "schar c = sint (of_char c :: 8 word)"

fun str_compare :: "string \<Rightarrow> string \<Rightarrow> int option" where
  "str_compare (a # str1) (b # str2) =
     (if a \<noteq> NUL \<and> b \<noteq> NUL
      then (let ret = schar a - schar b in if ret \<noteq> 0 then Some ret else str_compare str1 str2)
      else if a = NUL \<and> b = NUL then Some 0
      else if a = NUL then Some (schar b) else Some (schar a))"
| "str_compare _ _ = None"

section \<open>Escaping in place\<close>

definition quoted :: "char \<Rightarrow> bool" where
  "quoted c \<longleftrightarrow> c = CHR 0x27 \<or> c = CHR 0x5C \<or> c = CHR 0x22"

text \<open>Moves \<open>n\<close> characters from \<open>lo\<close> up by \<open>d\<close>, the last one first.\<close>

primrec shift_up :: "nat \<Rightarrow> nat \<Rightarrow> nat \<Rightarrow> string \<Rightarrow> string option" where
  "shift_up 0 lo d mem = Some mem"
| "shift_up (Suc n) lo d mem = (case rd mem (lo + n) of None \<Rightarrow> None | Some c \<Rightarrow>
     (case wr mem (lo + n + d) c of None \<Rightarrow> None | Some mem1 \<Rightarrow> shift_up n lo d mem1))"

primrec replace_loop :: "nat \<Rightarrow> nat list \<Rightarrow> string \<Rightarrow> string option" where
  "replace_loop 0 index mem = Some mem"
| "replace_loop (Suc m) index mem =
     (case shift_up (index ! Suc m - index ! m) (index ! m) (Suc m) mem of None \<Rightarrow> None | Some mem1 \<Rightarrow>
       (case wr mem1 (index ! m + m) (CHR 0x5C) of None \<Rightarrow> None | Some mem2 \<Rightarrow> replace_loop m index mem2))"

definition str_replace :: "string \<Rightarrow> nat \<Rightarrow> nat \<Rightarrow> (int \<times> string) option" where
  "str_replace str size1 strlenth =
     (case strchr str (CHR 0x27) of None \<Rightarrow> None | Some q \<Rightarrow>
       (case (if q then Some True else strchr str (CHR 0x22)) of None \<Rightarrow> None | Some q \<Rightarrow>
         (case (if q then Some True else strchr str (CHR 0x5C)) of None \<Rightarrow> None | Some q \<Rightarrow>
           if \<not> q then Some (0, str)
           else if length str < strlenth then None
           else (let index = filter (\<lambda>i. quoted (str ! i)) [0..<strlenth];
                     free_space = int size1 - int strlenth - 1;
                     npos = length index in
             if 0 < int npos - free_space then Some (- 1, str)
             else (case replace_loop npos (index @ [strlenth + 1]) str of None \<Rightarrow> None
                   | Some mem \<Rightarrow> Some (0, mem))))))"

section \<open>Removing\<close>

text \<open>Moves \<open>n\<close> characters down to \<open>j\<close> from \<open>d\<close> above it, the first one first.\<close>

primrec shift_down :: "nat \<Rightarrow> nat \<Rightarrow> nat \<Rightarrow> string \<Rightarrow> string option" where
  "shift_down 0 j d mem = Some mem"
| "shift_down (Suc n) j d mem = (case rd mem (j + d) of None \<Rightarrow> None | Some c \<Rightarrow>
     (case wr mem j c of None \<Rightarrow> None | Some mem1 \<Rightarrow> shift_down n (j + 1) d mem1))"

partial_function (option) blank_loop :: "nat \<Rightarrow> nat \<Rightarrow> nat \<Rightarrow> string \<Rightarrow> string option" where
  "blank_loop nlen i nCountBlank str =
     (if i < nlen then (case rd str i of None \<Rightarrow> None | Some c \<Rightarrow>
        if c \<noteq> CHR '' '' then blank_loop nlen (i + 1) 0 str
        else if 2 \<le> nCountBlank + 1
        then (case shift_down (nlen - i) i 1 str of None \<Rightarrow> None
              | Some str1 \<Rightarrow> blank_loop nlen i (nCountBlank + 1) str1)
        else blank_loop nlen (i + 1) (nCountBlank + 1) str)
      else Some str)"

definition strRemoveBlank :: "string \<Rightarrow> string option" where
  "strRemoveBlank str = (case strlen str of None \<Rightarrow> None | Some nlen \<Rightarrow> blank_loop nlen 0 0 str)"

text \<open>The positions that \<open>strDel\<close> collects in a text, from \<open>pos\<close> on.\<close>

partial_function (option) del_index :: "string \<Rightarrow> string \<Rightarrow> nat \<Rightarrow> nat list option" where
  "del_index src str pos = (case strstr (drop pos src) str of None \<Rightarrow> Some []
     | Some k \<Rightarrow> Option.bind (del_index src str (pos + k + length str)) (\<lambda>index. Some ((pos + k) # index)))"

fun del_loop :: "nat \<Rightarrow> nat \<Rightarrow> nat list \<Rightarrow> string \<Rightarrow> string option" where
  "del_loop len n [] src = Some src"
| "del_loop len n (pos # index) src = (case shift_down (len - 1 - pos) pos n src of None \<Rightarrow> None
     | Some src1 \<Rightarrow> del_loop len n index src1)"

definition strDel :: "string \<Rightarrow> string \<Rightarrow> string option" where
  "strDel src str = (case strlen src of None \<Rightarrow> None | Some len \<Rightarrow> (case strlen str of None \<Rightarrow> None | Some n \<Rightarrow>
     (case del_index (take len src) (take n str) 0 of None \<Rightarrow> None | Some index \<Rightarrow> del_loop len n (rev index) src)))"

section \<open>The longest part without a repeated character\<close>

definition erase_range :: "string \<Rightarrow> nat \<Rightarrow> nat \<Rightarrow> (char \<Rightarrow> nat option) \<Rightarrow> char \<Rightarrow> nat option" where
  "erase_range str from1 to m = fold (\<lambda>tmp m. m(str ! tmp := None)) [from1..<to] m"

partial_function (option) substr_loop ::
  "string \<Rightarrow> string \<Rightarrow> nat \<Rightarrow> (char \<Rightarrow> nat option) \<Rightarrow> nat \<Rightarrow> nat \<Rightarrow> (string \<times> nat \<times> nat) option" where
  "substr_loop str substr maxLen indexMap posBegin i =
     (if i < length str then
        (case indexMap (str ! i) of
           Some p \<Rightarrow>
             (let longer = maxLen < i - posBegin;
                  substr1 = (if longer then take (i - posBegin) (drop posBegin str) else substr);
                  maxLen1 = (if longer then i - posBegin else maxLen);
                  lastBegin = posBegin; posBegin1 = p + 1 in
              substr_loop str substr1 maxLen1 (erase_range str lastBegin posBegin1 indexMap) posBegin1 i)
         | None \<Rightarrow> substr_loop str substr maxLen (indexMap(str ! i \<mapsto> i)) posBegin (i + 1))
      else Some (substr, maxLen, posBegin))"

definition maxSubStr :: "string \<Rightarrow> string option" where
  "maxSubStr str = (case substr_loop str [] 0 (\<lambda>_. None) 0 0 of None \<Rightarrow> None
     | Some (substr, maxLen, posBegin) \<Rightarrow>
         Some (if maxLen < length str - posBegin then take (length str - posBegin) (drop posBegin str) else substr))"

end
