(* ===== verification/StrFunProps.thy ===== *)
theory StrFunProps
  imports StrFun
begin

text \<open>
  What the string functions compute: the longest part of a string without a repeated character, the
  escaped and the collapsed string, and where \<open>str_compare\<close> and \<open>strDel\<close> go wrong.
\<close>

section \<open>The window of \<open>maxSubStr\<close>\<close>

definition part :: "'a list \<Rightarrow> nat \<Rightarrow> nat \<Rightarrow> 'a list" where
  "part xs a b = take (b - a) (drop a xs)"

lemma length_part [simp]: "b \<le> length xs \<Longrightarrow> length (part xs a b) = b - a"
  by (simp add: part_def)

lemma distinct_part: "b \<le> length xs \<Longrightarrow>
    distinct (part xs a b) \<longleftrightarrow> (\<forall>j k. a \<le> j \<and> j < k \<and> k < b \<longrightarrow> xs ! j \<noteq> xs ! k)"
  (is "_ \<Longrightarrow> _ \<longleftrightarrow> ?R")
proof -
  assume b: "b \<le> length xs"
  have "distinct (part xs a b) \<longleftrightarrow> (\<forall>j < b - a. \<forall>k < b - a. j < k \<longrightarrow> xs ! (a + j) \<noteq> xs ! (a + k))"
  proof -
    have "part xs a b ! j = xs ! (a + j)" if "j < b - a" for j using that b by (simp add: part_def)
    then show ?thesis using b by (simp add: distinct_conv_nth) (metis nat_neq_iff)
  qed
  also have "\<dots> \<longleftrightarrow> ?R"
  proof (intro iffI allI impI)
    fix j k assume h: "\<forall>j < b - a. \<forall>k < b - a. j < k \<longrightarrow> xs ! (a + j) \<noteq> xs ! (a + k)" and ord: "a \<le> j \<and> j < k \<and> k < b"
    have "j - a < k - a" "k - a < b - a" using ord by linarith+
    then show "xs ! j \<noteq> xs ! k" using h [rule_format, of "j - a" "k - a"] ord by simp
  next
    fix j k assume "?R" "j < b - a" "k < b - a" "j < k"
    then show "xs ! (a + j) \<noteq> xs ! (a + k)" by simp
  qed
  finally show ?thesis .
qed

lemma repeats_part: "b \<le> length xs \<Longrightarrow> a \<le> j \<Longrightarrow> j < k \<Longrightarrow> k < b \<Longrightarrow> xs ! j = xs ! k \<Longrightarrow> \<not> distinct (part xs a b)"
  unfolding distinct_part by blast

lemma repeats_longer: "\<not> distinct (part xs a b) \<Longrightarrow> b \<le> c \<Longrightarrow> c \<le> length xs \<Longrightarrow> \<not> distinct (part xs a c)"
  unfolding distinct_part [OF le_trans] distinct_part by (metis less_le_trans)

lemma part_is_sublist: "sublist (part xs a b) xs"
  unfolding part_def sublist_def by (metis append_take_drop_id)

lemma sublist_is_part:
  assumes "sublist t xs"
  shows "\<exists>a b. a \<le> b \<and> b \<le> length xs \<and> t = part xs a b"
proof -
  obtain ps ss where "xs = ps @ t @ ss" using assms by (auto simp: sublist_def)
  then show ?thesis
    by (intro exI [of _ "length ps"] exI [of _ "length ps + length t"]) (simp add: part_def)
qed

text \<open>The state between two steps: the window is free of repetitions, the map has its positions, no part
  before \<open>i\<close> is longer than the window or the part kept, and no longer window can be extended.\<close>

definition window_inv :: "string \<Rightarrow> string \<Rightarrow> nat \<Rightarrow> (char \<Rightarrow> nat option) \<Rightarrow> nat \<Rightarrow> nat \<Rightarrow> bool" where
  "window_inv str sub mx ix p i \<longleftrightarrow> p \<le> i \<and> i \<le> length str \<and> distinct (part str p i) \<and>
     (\<forall>c k. ix c = Some k \<longleftrightarrow> p \<le> k \<and> k < i \<and> str ! k = c) \<and>
     (\<forall>a b. a \<le> b \<and> b \<le> i \<and> distinct (part str a b) \<longrightarrow> b - a \<le> max mx (i - p)) \<and>
     sublist sub str \<and> distinct sub \<and> length sub = mx \<and>
     (i < length str \<longrightarrow> (\<forall>a < p. \<not> distinct (part str a (i + 1))))"

lemma erase_range_Some: "from1 \<le> to \<Longrightarrow> erase_range str from1 to m c =
    (if \<exists>k. from1 \<le> k \<and> k < to \<and> str ! k = c then None else m c)"
proof (induction "to - from1" arbitrary: to)
  case 0
  then have "to = from1" by simp
  then show ?case by (auto simp: erase_range_def)
next
  case (Suc n)
  then obtain t where t: "to = Suc t" "from1 \<le> t" by (cases to) auto
  have "erase_range str from1 to m c = ((erase_range str from1 t m)(str ! t := None)) c"
    using t by (simp add: erase_range_def)
  then show ?case using Suc(1) [of t] Suc(2) t by (auto simp: less_Suc_eq)
qed

lemma window_grow:
  assumes "window_inv str sub mx ix p i" "i < length str" "ix (str ! i) = None"
  shows "window_inv str sub mx (ix(str ! i \<mapsto> i)) p (i + 1)"
proof -
  let ?c = "str ! i"
  have inv: "p \<le> i" "distinct (part str p i)" "\<And>c k. ix c = Some k \<longleftrightarrow> p \<le> k \<and> k < i \<and> str ! k = c"
    "\<And>a b. a \<le> b \<Longrightarrow> b \<le> i \<Longrightarrow> distinct (part str a b) \<Longrightarrow> b - a \<le> max mx (i - p)"
    "sublist sub str" "distinct sub" "length sub = mx" "\<And>a. a < p \<Longrightarrow> \<not> distinct (part str a (i + 1))"
    using assms(1,2) by (auto simp: window_inv_def)
  have new: "str ! k \<noteq> ?c" if "p \<le> k" "k < i" for k using inv(3) [of ?c k] that assms(3) by auto
  have "distinct (part str p (i + 1))"
    using inv(2) new assms(2) by (auto simp: distinct_part less_Suc_eq)
  moreover have "(ix(?c \<mapsto> i)) c = Some k \<longleftrightarrow> p \<le> k \<and> k < i + 1 \<and> str ! k = c" for c k
    using inv(1,3) new by (auto simp: less_Suc_eq)
  moreover have "b - a \<le> max mx (i + 1 - p)" if ab: "a \<le> b" "b \<le> i + 1" "distinct (part str a b)" for a b
  proof (cases "b \<le> i")
    case True then show ?thesis using inv(4) [OF ab(1) True ab(3)] by simp
  next
    case False
    then have "b = i + 1" using ab(2) by simp
    moreover have "p \<le> a" using inv(8) [of a] ab(3) \<open>b = i + 1\<close> by (meson not_le)
    ultimately show ?thesis by simp
  qed
  moreover have "\<not> distinct (part str a (i + 1 + 1))" if "a < p" "i + 1 < length str" for a
    using repeats_longer [OF inv(8) [OF that(1)]] that(2) by simp
  ultimately show ?thesis using assms(2) inv(1,5-7) unfolding window_inv_def by auto
qed

lemma window_jump:
  assumes "window_inv str sub mx ix p i" "i < length str" "ix (str ! i) = Some k"
  shows "window_inv str (if mx < i - p then part str p i else sub) (if mx < i - p then i - p else mx)
      (erase_range str p (k + 1) ix) (k + 1) i" "erase_range str p (k + 1) ix (str ! i) = None"
proof -
  have inv: "p \<le> i" "distinct (part str p i)" "\<And>c k. ix c = Some k \<longleftrightarrow> p \<le> k \<and> k < i \<and> str ! k = c"
    "\<And>a b. a \<le> b \<Longrightarrow> b \<le> i \<Longrightarrow> distinct (part str a b) \<Longrightarrow> b - a \<le> max mx (i - p)"
    "sublist sub str" "distinct sub" "length sub = mx" "\<And>a. a < p \<Longrightarrow> \<not> distinct (part str a (i + 1))"
    using assms(1,2) by (auto simp: window_inv_def)
  have k: "p \<le> k" "k < i" "str ! k = str ! i" using inv(3) assms(3) by blast+
  have ne: "str ! j \<noteq> str ! l" if "p \<le> j" "j < l" "l < i" for j l
    using inv(2) that assms(2) by (simp add: distinct_part)
  have er: "erase_range str p (k + 1) ix c = Some l \<longleftrightarrow> k + 1 \<le> l \<and> l < i \<and> str ! l = c" for c l
  proof -
    have "(\<exists>j. p \<le> j \<and> j < k + 1 \<and> str ! j = c) \<Longrightarrow> \<not> (k + 1 \<le> l \<and> l < i \<and> str ! l = c)"
      using ne k by (metis Suc_eq_plus1 Suc_le_lessD le_less_trans less_le_trans not_less)
    moreover have "\<not> (\<exists>j. p \<le> j \<and> j < k + 1 \<and> str ! j = c) \<Longrightarrow> ix c = Some l \<longleftrightarrow> k + 1 \<le> l \<and> l < i \<and> str ! l = c"
      using inv(3) [of c l] k(1) by (metis le_trans not_less le_add1)
    ultimately show ?thesis using erase_range_Some [of p "k + 1" str ix c] k(1) by auto
  qed
  show "erase_range str p (k + 1) ix (str ! i) = None"
    using erase_range_Some [of p "k + 1" str ix "str ! i"] k by auto
  have "distinct (part str (k + 1) i)" using ne k(1) assms(2) by (simp add: distinct_part)
  moreover have "\<not> distinct (part str a (i + 1))" if "a < k + 1" for a
    using repeats_part [of "i + 1" str a k i] k that assms(2) by simp
  moreover have "b - a \<le> max (max mx (i - p)) (i - (k + 1))" if "a \<le> b" "b \<le> i" "distinct (part str a b)" for a b
    using inv(4) [OF that] by linarith
  ultimately show "window_inv str (if mx < i - p then part str p i else sub) (if mx < i - p then i - p else mx)
      (erase_range str p (k + 1) ix) (k + 1) i"
    using k inv(2,5-7) assms(2) er part_is_sublist unfolding window_inv_def by (auto simp: max_def)
qed

text \<open>Each turn moves the end of the window on or empties the map of the character there.\<close>

lemma substr_loop_inv:
  assumes "window_inv str sub mx ix p i"
  shows "\<exists>sub' mx' p' ix'. substr_loop str sub mx ix p i = Some (sub', mx', p') \<and> window_inv str sub' mx' ix' p' (length str)"
  using assms
proof (induction "2 * (length str - i) + (if i < length str \<and> ix (str ! i) \<noteq> None then 1 else 0)"
    arbitrary: sub mx ix p i rule: less_induct)
  case less
  show ?case
  proof (cases "i < length str")
    case False
    then have "i = length str" using less.prems by (simp add: window_inv_def)
    then show ?thesis using less.prems by (subst substr_loop.simps) auto
  next
    case True
    show ?thesis
    proof (cases "ix (str ! i)")
      case None
      have "2 * (length str - (i + 1)) + (if P then 1 else 0) <
          2 * (length str - i) + (if i < length str \<and> ix (str ! i) \<noteq> None then 1 else 0)" for P
        using True None by (cases P) simp_all
      from less.hyps [OF this window_grow [OF less.prems True None]] show ?thesis
        using True None by (subst substr_loop.simps) simp
    next
      case (Some k)
      note jump = window_jump [OF less.prems True Some]
      show ?thesis
        using less.hyps [OF _ jump(1)] jump(2) True Some
        by (subst substr_loop.simps) (simp add: Let_def part_def split: if_splits)
    qed
  qed
qed

text \<open>C20: \<open>maxSubStr\<close> returns a part of the string in which no character is repeated, and no such part is
  longer.\<close>
theorem maxSubStr_longest:
  "\<exists>r. maxSubStr str = Some r \<and> sublist r str \<and> distinct r \<and>
    (\<forall>t. sublist t str \<and> distinct t \<longrightarrow> length t \<le> length r)"
proof -
  let ?n = "length str"
  have "window_inv str [] 0 (\<lambda>_. None) 0 0" by (simp add: window_inv_def part_def)
  then obtain sub mx p ix where loop: "substr_loop str [] 0 (\<lambda>_. None) 0 0 = Some (sub, mx, p)"
    and inv: "window_inv str sub mx ix p ?n" using substr_loop_inv by blast
  let ?r = "if mx < ?n - p then part str p ?n else sub"
  have "maxSubStr str = Some ?r" using loop by (simp add: maxSubStr_def part_def)
  moreover have "sublist ?r str \<and> distinct ?r \<and> length ?r = max mx (?n - p)"
    using inv part_is_sublist by (auto simp: window_inv_def max_def)
  moreover have "length t \<le> max mx (?n - p)" if "sublist t str" "distinct t" for t
    using sublist_is_part [OF that(1)] that(2) inv by (auto simp: window_inv_def)
  ultimately show ?thesis by metis
qed

theorem maxSubStr_longest_witness: "\<exists>r. maxSubStr ''abcb'' = Some r \<and> 3 \<le> length r \<and> distinct r"
proof -
  have "sublist ''abc'' ''abcb''" unfolding sublist_def by (rule exI [of _ "[]"], rule exI [of _ "''b''"]) simp
  moreover have "distinct ''abc''" "length ''abc'' = 3" by simp_all
  ultimately show ?thesis using maxSubStr_longest [of "''abcb''"] by metis
qed

section \<open>Escaping\<close>

definition esc :: "string \<Rightarrow> string" where
  "esc s = concat (map (\<lambda>c. if quoted c then [CHR 0x5C, c] else [c]) s)"

lemma esc_simps [simp]: "esc [] = []" "esc (c # s) = (if quoted c then [CHR 0x5C, c] else [c]) @ esc s"
  "esc (s @ t) = esc s @ esc t"
  by (simp_all add: esc_def)

lemma esc_plain: "\<forall>c \<in> set s. \<not> quoted c \<Longrightarrow> esc s = s"
  by (induction s) auto

lemma shift_up_moves: "0 < d \<Longrightarrow> lo + n + d \<le> length mem \<Longrightarrow>
    shift_up n lo d mem = Some (take (lo + d) mem @ take n (drop lo mem) @ drop (lo + n + d) mem)"
proof (induction n arbitrary: mem)
  case (Suc n)
  let ?mem = "mem[lo + n + d := mem ! (lo + n)]"
  have "take n (drop lo ?mem) = take n (drop lo mem)" using Suc.prems(1) by (simp add: drop_update_swap take_update_cancel)
  moreover have "drop (lo + n + d) ?mem = mem ! (lo + n) # drop (Suc (lo + n + d)) mem"
    using Suc.prems(2) by (simp add: drop_update_swap Cons_nth_drop_Suc [symmetric])
  moreover have "take (Suc n) (drop lo mem) = take n (drop lo mem) @ [mem ! (lo + n)]"
    using Suc.prems(2) by (simp add: take_Suc_conv_app_nth)
  ultimately show ?case using Suc.IH [of ?mem] Suc.prems by (simp add: rd_def wr_def)
qed simp

text \<open>The positions of the characters with \<open>P\<close> and the end: they increase, and there is no such character
  in between or before the first one.\<close>

definition marks :: "(nat \<Rightarrow> bool) \<Rightarrow> nat \<Rightarrow> nat list" where
  "marks P n = filter P [0..<n] @ [n]"

lemma marks_Suc: "marks P (Suc n) = (if P n then marks P n @ [Suc n] else butlast (marks P n) @ [Suc n])"
  by (simp add: marks_def)

lemma marks_between: "m < length (filter P [0..<n]) \<Longrightarrow>
    P (marks P n ! m) \<and> marks P n ! m < marks P n ! Suc m \<and> marks P n ! Suc m \<le> n \<and>
    (\<forall>j. marks P n ! m < j \<and> j < marks P n ! Suc m \<longrightarrow> \<not> P j)"
proof (induction n)
  case (Suc n)
  let ?F = "filter P [0..<n]"
  show ?case
  proof (cases "m < length ?F")
    case True
    define a b where "a = marks P n ! m" and "b = marks P n ! Suc m"
    have ih: "P a" "a < b" "b \<le> n" "\<And>j. a < j \<Longrightarrow> j < b \<Longrightarrow> \<not> P j"
      using Suc.IH [OF True] by (simp_all add: a_def b_def)
    have "marks P (Suc n) ! m = a" using True by (simp add: marks_def nth_append a_def)
    moreover have "marks P (Suc n) ! Suc m = (if P n \<or> Suc m < length ?F then b else Suc n)"
      using True by (auto simp: marks_def nth_append b_def)
    moreover have "b = n" if "\<not> Suc m < length ?F" using True that by (simp add: marks_def nth_append b_def)
    ultimately show ?thesis using ih by (auto simp: less_Suc_eq)
  next
    case False
    then have "P n" "m = length ?F" using Suc.prems by (auto split: if_splits)
    then show ?thesis by (auto simp: marks_def nth_append)
  qed
qed simp

lemma marks_before: "j < marks P n ! 0 \<Longrightarrow> \<not> P j"
proof (induction n)
  case (Suc n)
  then show ?case by (cases "filter P [0..<n]") (auto simp: marks_def less_Suc_eq split: if_splits)
qed (simp add: marks_def)

lemma marks_last: "marks P n ! length (filter P [0..<n]) = n"
  by (simp add: marks_def nth_append)

text \<open>The loop over the marks, from the last to the first.\<close>

lemma replace_loop_escapes:
  assumes "T = s @ [NUL]" "k = length (filter (\<lambda>j. quoted (T ! j)) [0..<length T])" "k \<le> length r" "m \<le> k"
    "ix = marks (\<lambda>j. quoted (T ! j)) (length T)"
    "length mem = length T + length r" "take (ix ! m) mem = take (ix ! m) T"
    "drop (ix ! m + m) mem = esc (drop (ix ! m) T) @ drop k r"
  shows "replace_loop m ix mem = Some (esc T @ drop k r)"
  using assms(4,6-8)
proof (induction m arbitrary: mem)
  case 0
  have "esc (take (ix ! 0) T) = take (ix ! 0) T"
    using marks_before [of _ "\<lambda>j. quoted (T ! j)" "length T"] unfolding assms(5)
    by (intro esc_plain) (auto simp: in_set_conv_nth)
  then have "take (ix ! 0) mem @ drop (ix ! 0) mem = esc (take (ix ! 0) T @ drop (ix ! 0) T) @ drop k r"
    using 0 unfolding esc_simps by simp
  then show ?case by simp
next
  case (Suc m)
  let ?lo = "ix ! m" and ?hi = "ix ! Suc m"
  have b: "quoted (T ! ?lo)" "?lo < ?hi" "?hi \<le> length T" "\<And>j. ?lo < j \<Longrightarrow> j < ?hi \<Longrightarrow> \<not> quoted (T ! j)"
  proof -
    have "m < length (filter (\<lambda>j. quoted (T ! j)) [0..<length T])" using Suc.prems(1) assms(2) by simp
    from marks_between [OF this, folded assms(5)]
    show "quoted (T ! ?lo)" "?lo < ?hi" "?hi \<le> length T" "\<And>j. ?lo < j \<Longrightarrow> j < ?hi \<Longrightarrow> \<not> quoted (T ! j)" by blast+
  qed
  let ?v = "take (?hi - ?lo) (drop ?lo T)"
  have v: "?v = T ! ?lo # take (?hi - Suc ?lo) (drop (Suc ?lo) T)"
    using b(2,3) by (simp add: Cons_nth_drop_Suc [symmetric] take_Cons')
  have "\<not> quoted c" if "c \<in> set (take (?hi - Suc ?lo) (drop (Suc ?lo) T))" for c
    using that b(3,4) by (auto simp: in_set_conv_nth)
  then have ev: "esc ?v = CHR 0x5C # ?v" unfolding v using b(1) esc_plain by simp
  have hi: "?hi + Suc m \<le> length mem" using b(3) Suc.prems(1,2) assms(3) by simp
  have vm: "take (?hi - ?lo) (drop ?lo mem) = ?v"
    using Suc.prems(3) by (metis drop_take)
  have low: "take ?lo mem = take ?lo T"
    using Suc.prems(3) b(2) by (metis less_imp_le min.absorb1 take_take)
  let ?mem1 = "take (?lo + Suc m) mem @ ?v @ drop (?hi + Suc m) mem"
  have s1: "shift_up (?hi - ?lo) ?lo (Suc m) mem = Some ?mem1"
    using shift_up_moves [of "Suc m" ?lo "?hi - ?lo" mem] hi b(2) vm by simp
  have "?mem1[?lo + m := CHR 0x5C] = take (?lo + m) mem @ CHR 0x5C # ?v @ drop (?hi + Suc m) mem"
    using hi b(2) by (simp add: list_update_append take_Suc_conv_app_nth [of "?lo + m"])
  then have s2: "wr ?mem1 (?lo + m) (CHR 0x5C) = Some (take (?lo + m) mem @ CHR 0x5C # ?v @ drop (?hi + Suc m) mem)"
    using hi b(2) by (simp add: wr_def)
  let ?mem2 = "take (?lo + m) mem @ CHR 0x5C # ?v @ drop (?hi + Suc m) mem"
  have dT: "drop ?lo T = ?v @ drop ?hi T" using b(2) by (metis append_take_drop_id drop_drop le_add_diff_inverse2 less_imp_le)
  have edT: "esc (drop ?lo T) = CHR 0x5C # ?v @ esc (drop ?hi T)"
    using arg_cong [OF dT, of esc] by (simp only: esc_simps(3) ev append_Cons)
  have "replace_loop m ix ?mem2 = Some (esc T @ drop k r)"
  proof (rule Suc.IH)
    show "drop (?lo + m) ?mem2 = esc (drop ?lo T) @ drop k r"
      using hi b(2) Suc.prems(4) edT by (simp del: esc_simps)
    show "take ?lo ?mem2 = take ?lo T" using hi b(2) low by simp
    show "length ?mem2 = length T + length r" using hi b(2,3) Suc.prems(2) by simp
  qed (use Suc.prems(1) in simp)
  then show ?case by (simp only: replace_loop.simps s1 s2 option.case)
qed

lemma strchr_content: "NUL \<notin> set s \<Longrightarrow> c \<noteq> NUL \<Longrightarrow> strchr (s @ NUL # r) c = Some (c \<in> set s)"
  by (induction s) auto

lemma count_marks: "length (filter (\<lambda>j. P ((s @ t) ! j)) [0..<length s]) = length (filter P s)"
proof -
  have "filter P s = map (\<lambda>j. s ! j) (filter (\<lambda>j. P (s ! j)) [0..<length s])"
    by (metis (mono_tags, lifting) comp_apply filter_cong filter_map map_nth)
  moreover have "filter (\<lambda>j. P ((s @ t) ! j)) [0..<length s] = filter (\<lambda>j. P (s ! j)) [0..<length s]"
    by (rule filter_cong) (simp_all add: nth_append)
  ultimately show ?thesis by (metis length_map)
qed

text \<open>C21: on a buffer with a string of which the right length is given and \<open>r\<close> octets after it,
  \<open>str_replace\<close> puts a backslash before each quote and backslash, in place, when there is room for
  them, and otherwise changes nothing and returns -1.\<close>
theorem str_replace_escapes:
  assumes "NUL \<notin> set s"
  shows "str_replace (s @ NUL # r) (length s + 1 + length r) (length s) =
    Some (if length (filter quoted s) \<le> length r then (0, esc s @ NUL # drop (length (filter quoted s)) r)
      else (- 1, s @ NUL # r))"
proof (cases "filter quoted s = []")
  case True
  then have "\<forall>c \<in> set s. \<not> quoted c" by (simp add: filter_empty_conv)
  moreover from this have "CHR 0x27 \<notin> set s" "CHR 0x22 \<notin> set s" "CHR 0x5C \<notin> set s" by (auto simp: quoted_def)
  ultimately show ?thesis using assms True by (simp add: str_replace_def strchr_content esc_plain)
next
  case False
  let ?T = "s @ [NUL]" and ?k = "length (filter quoted s)"
  let ?ix = "filter (\<lambda>i. quoted ((s @ NUL # r) ! i)) [0..<length s]"
  have k: "length ?ix = ?k" using count_marks [of quoted s "NUL # r"] by simp
  have ix: "?ix @ [length s + 1] = marks (\<lambda>j. quoted (?T ! j)) (length ?T)"
  proof -
    have "?ix = filter (\<lambda>j. quoted (?T ! j)) [0..<length s]" by (rule filter_cong) (simp_all add: nth_append)
    then show ?thesis by (simp add: marks_def quoted_def)
  qed
  have kT: "?k = length (filter (\<lambda>j. quoted (?T ! j)) [0..<length ?T])"
    using count_marks [of quoted s "[NUL]"] by (simp add: nth_append quoted_def)
  have some: "CHR 0x27 \<in> set s \<or> CHR 0x22 \<in> set s \<or> CHR 0x5C \<in> set s"
    using False by (auto simp: filter_empty_conv quoted_def)
  have found: "str_replace (s @ NUL # r) (length s + 1 + length r) (length s) =
    (if 0 < int ?k - int (length r) then Some (- 1, s @ NUL # r)
     else case replace_loop ?k (?ix @ [length s + 1]) (s @ NUL # r) of None \<Rightarrow> None | Some mem \<Rightarrow> Some (0, mem))"
    using some assms by (auto simp: str_replace_def strchr_content Let_def k)
  show ?thesis
  proof (cases "?k \<le> length r")
    case True
    have last: "marks (\<lambda>j. quoted (?T ! j)) (length ?T) ! ?k = length ?T" unfolding kT by (rule marks_last)
    have "replace_loop ?k (?ix @ [length s + 1]) (s @ NUL # r) = Some (esc ?T @ drop ?k r)"
      unfolding ix by (rule replace_loop_escapes [OF refl kT True order_refl refl]) ((simp_all only: last)?, simp_all)
    with True found show ?thesis by (simp add: quoted_def)
  next
    case False
    then show ?thesis unfolding found by simp
  qed
qed

theorem str_replace_escapes_witness:
  "str_replace (''it'' @ [CHR 0x27] @ ''s'' @ NUL # ''xy'') 7 4 = Some (0, ''it'' @ [CHR 0x5C, CHR 0x27] @ ''s'' @ NUL # ''y'')"
  using str_replace_escapes [of "''it'' @ [CHR 0x27] @ ''s''" "''xy''"] by (simp add: quoted_def eval_nat_numeral)

section \<open>Removing\<close>

lemma shift_down_moves: "0 < d \<Longrightarrow> j + n + d \<le> length mem \<Longrightarrow>
    shift_down n j d mem = Some (take j mem @ take n (drop (j + d) mem) @ drop (j + n) mem)"
proof (induction n arbitrary: j mem)
  case (Suc n)
  let ?mem = "mem[j := mem ! (j + d)]"
  have "drop (Suc j + d) ?mem = drop (Suc j + d) mem" "drop (Suc j + n) ?mem = drop (Suc j + n) mem"
    by simp_all
  moreover have "take (Suc j) ?mem = take j mem @ [mem ! (j + d)]"
    using Suc.prems by (simp add: take_Suc_conv_app_nth)
  moreover have "take (Suc n) (drop (j + d) mem) = mem ! (j + d) # take n (drop (Suc j + d) mem)"
    using Suc.prems by (simp add: Cons_nth_drop_Suc [symmetric])
  ultimately show ?case using Suc.IH [of "Suc j" ?mem] Suc.prems by (simp add: rd_def wr_def)
qed simp

lemma shift_down_outside: "0 < n \<Longrightarrow> length mem < j + n + d \<Longrightarrow> shift_down n j d mem = None"
proof (induction n arbitrary: j mem)
  case (Suc n)
  show ?case
  proof (cases "n = 0")
    case True then show ?thesis using Suc.prems by (simp add: rd_def)
  next
    case False then show ?thesis using Suc.IH [of _ "Suc j"] Suc.prems by (auto simp: rd_def wr_def split: option.splits)
  qed
qed simp

text \<open>Runs of blanks become one blank; \<open>b\<close>: a blank has just been kept.\<close>

fun collapse :: "bool \<Rightarrow> string \<Rightarrow> string" where
  "collapse b [] = []"
| "collapse b (c # s) = (if c \<noteq> CHR '' '' then c # collapse False s else if b then collapse True s else c # collapse True s)"

lemma length_collapse: "length (collapse b s) \<le> length s"
  by (induction b s rule: collapse.induct) auto

lemma blank_loop_collapses:
  "NUL \<notin> set t \<Longrightarrow> length u + length t + z = n \<Longrightarrow>
    blank_loop n (length u) k (u @ t @ replicate (z + 1) NUL @ r) =
      Some (u @ collapse (0 < k) t @ replicate (n + 1 - length u - length (collapse (0 < k) t)) NUL @ r)"
proof (induction "n - length u + length t" arbitrary: u t z k rule: less_induct)
  case less
  show ?case
  proof (cases t)
    case Nil
    show ?thesis
    proof (cases z)
      case 0
      then show ?thesis using less.prems Nil by (subst blank_loop.simps) simp
    next
      case (Suc y)
      then show ?thesis using less.hyps [of "u @ [NUL]" "[]" y 0] less.prems Nil
        by (subst blank_loop.simps) (simp add: rd_def nth_append Suc_diff_le)
    qed
  next
    case (Cons c t1)
    have c: "rd (u @ t @ replicate (z + 1) NUL @ r) (length u) = Some c" "length u < n"
      using Cons less.prems(2) by (simp_all add: rd_def nth_append)
    consider "c \<noteq> CHR '' ''" | "c = CHR '' ''" "k = 0" | "c = CHR '' ''" "0 < k" by blast
    then show ?thesis
    proof cases
      case 1
      then show ?thesis using less.hyps [of "u @ [c]" t1 z 0] less.prems Cons c by (subst blank_loop.simps) simp
    next
      case 2
      then show ?thesis using less.hyps [of "u @ [c]" t1 z 1] less.prems Cons c by (subst blank_loop.simps) simp
    next
      case 3
      have "shift_down (n - length u) (length u) 1 (u @ t @ replicate (z + 1) NUL @ r) =
        Some (u @ t1 @ replicate (z + 2) NUL @ r)"
      proof -
        have n: "n = length u + Suc (length t1 + z)" using less.prems(2) Cons by simp
        show ?thesis unfolding n Cons
          using shift_down_moves [of 1 "length u" "Suc (length t1 + z)" "u @ (c # t1) @ replicate (z + 1) NUL @ r"]
          by (simp add: replicate_append_same [symmetric])
      qed
      then show ?thesis using less.hyps [of u t1 "z + 1" "k + 1"] less.prems Cons c 3
        by (subst blank_loop.simps) simp
    qed
  qed
qed

lemma strlen_content: "NUL \<notin> set s \<Longrightarrow> strlen (s @ NUL # r) = Some (length s)"
  by (induction s) auto

text \<open>\<open>strRemoveBlank\<close> leaves one blank of each run of blanks.\<close>
theorem strRemoveBlank_collapses:
  assumes "NUL \<notin> set s"
  shows "strRemoveBlank (s @ NUL # r) =
    Some (collapse False s @ NUL # replicate (length s - length (collapse False s)) NUL @ r)"
  using blank_loop_collapses [of s "[]" 0 "length s" 0 r] assms length_collapse [of False s]
  by (simp add: strRemoveBlank_def strlen_content Suc_diff_le)

lemma strstr_fits: "strstr hay pat = Some k \<Longrightarrow> k + length pat \<le> length hay"
  by (induction hay pat arbitrary: k rule: strstr.induct)
    (auto split: if_splits dest!: arg_cong [where f = length])

lemma strstr_None: "strstr hay pat = None \<longleftrightarrow> \<not> sublist pat hay"
proof (induction hay pat rule: strstr.induct)
  case (2 x hay pat)
  have "prefix pat (x # hay) \<longleftrightarrow> take (length pat) (x # hay) = pat" by (metis prefix_def append_eq_conv_conj take_is_prefix)
  then show ?case using 2 by (auto simp: sublist_Cons_right)
qed simp

lemma del_index_positions: "str \<noteq> [] \<Longrightarrow> pos \<le> length src \<Longrightarrow>
    \<exists>index. del_index src str pos = Some index \<and> (\<forall>p \<in> set index. p + length str \<le> length src) \<and>
      (index = [] \<longleftrightarrow> \<not> sublist str (drop pos src))"
proof (induction "length src - pos" arbitrary: pos rule: less_induct)
  case less
  show ?case
  proof (cases "strstr (drop pos src) str")
    case None
    then show ?thesis using strstr_None [of "drop pos src" str] by (subst del_index.simps) simp
  next
    case (Some k)
    have fits: "pos + k + length str \<le> length src" using strstr_fits [OF Some] less.prems by simp
    have "length src - (pos + k + length str) < length src - pos" using less.prems fits by (cases str) simp_all
    from less.hyps [OF this less.prems(1) fits] obtain index where
      "del_index src str (pos + k + length str) = Some index" "\<forall>p \<in> set index. p + length str \<le> length src" by blast
    moreover have "sublist str (drop pos src)" using Some strstr_None [of "drop pos src" str] by simp
    ultimately show ?thesis using Some fits by (subst del_index.simps) simp
  qed
qed

text \<open>\<open>strDel\<close> of a text of three or more characters reads beyond the terminator of the string: on a
  buffer that ends there it leaves the buffer whenever the text occurs at all.\<close>
theorem strDel_overruns:
  assumes "NUL \<notin> set s" "NUL \<notin> set pat" "3 \<le> length pat"
  shows "strDel (s @ [NUL]) (pat @ [NUL]) = (if sublist pat s then None else Some (s @ [NUL]))"
proof -
  obtain index where ix: "del_index s pat 0 = Some index" "\<forall>p \<in> set index. p + length pat \<le> length s"
    "index = [] \<longleftrightarrow> \<not> sublist pat s"
    using del_index_positions [of pat 0 s] assms(3) by force
  have del: "strDel (s @ [NUL]) (pat @ [NUL]) = del_loop (length s) (length pat) (rev index) (s @ [NUL])"
    using assms(1,2) ix(1) by (simp add: strDel_def strlen_content)
  show ?thesis
  proof (cases index rule: rev_cases)
    case Nil then show ?thesis using del ix(3) by simp
  next
    case (snoc ps p)
    then have "p + length pat \<le> length s" using ix(2) by simp
    then have "shift_down (length s - 1 - p) p (length pat) (s @ [NUL]) = None"
      using assms(3) by (intro shift_down_outside) simp_all
    then show ?thesis using del ix(3) snoc by simp
  qed
qed

theorem strDel_overruns_witness: "strDel (''xabcy'' @ [NUL]) (''abc'' @ [NUL]) = None"
proof -
  have "sublist ''abc'' ''xabcy''" unfolding sublist_def by (rule exI [of _ "''x''"], rule exI [of _ "''y''"]) simp
  then show ?thesis using strDel_overruns [of "''xabcy''" "''abc''"] by simp
qed

text \<open>A single character is deleted, but the last character stays behind.\<close>

lemma strDel_one: "strDel (''abc'' @ [NUL]) (''b'' @ [NUL]) = Some (''acc'' @ [NUL])"
proof -
  have "del_index ''abc'' ''b'' (Suc (Suc 0)) = Some []" by (subst del_index.simps) simp
  then have "del_index ''abc'' ''b'' 0 = Some [1]" by (subst del_index.simps) simp
  then show ?thesis by (simp add: strDel_def rd_def wr_def)
qed

section \<open>Comparing\<close>

text \<open>\<open>str_compare\<close> of a string and a longer one that begins with it has the same sign both ways.\<close>
theorem str_compare_prefix:
  assumes "NUL \<notin> set s" "c \<noteq> NUL"
  shows "str_compare (s @ NUL # r) (s @ c # t) = Some (schar c) \<and> str_compare (s @ c # t) (s @ NUL # r) = Some (schar c)"
  using assms by (induction s) auto

end
