(* ===== verification/ThreadPool.thy ===== *)
theory ThreadPool
  imports Prelude
begin

text \<open>
  \<open>ThreadPool.h\<close>: a pool of worker threads that take tasks from a queue.  Everything that is done
  between taking a mutex and giving it back, or going to sleep on a condition variable, is one step; the
  threads' steps interleave (\<open>pool_step\<close>).  An entry of \<open>workers\<close> is \<open>None\<close> for a \<open>std::thread\<close> that is not
  joinable, and otherwise the worker number and the place of the thread that runs in it.  A client is
  a thread in a call of a public operation.  \<open>failed\<close>: an assertion did not hold, or a thread was
  detached that is not joinable.  \<open>enqueued\<close>, \<open>started\<close> and \<open>finished\<close> record the tasks; the tasks
  themselves and the threads that a program may start are arbitrary.  Counters are unbounded.
\<close>

section \<open>State\<close>

text \<open>A worker is about to take the mutex, asleep on \<open>condition_consumers\<close>, has taken a task and may have
  to notify the producers, runs a task, or has to signal that nothing is in flight.\<close>

datatype 'a phase = Ready | Sleeping | Popped 'a bool | Running 'a | Signalling

datatype 'a client =
    Enqueue 'a | Enqueue_waits 'a
  | Wait_until_empty | Empty_waits
  | Wait_until_idle | Idle_waits
  | Set_queue_size_limit nat | Set_pool_size nat
  | Dtor | Dtor_check | Dtor_waits
  | Returned | Thrown

record 'a pool =
  workers :: "(nat \<times> 'a phase) option list"
  pool_size :: nat
  tasks :: "'a list"
  max_queue_size :: nat
  stop :: bool
  in_flight :: nat
  clients :: "nat \<Rightarrow> 'a client option"
  failed :: bool
  enqueued :: "'a list"
  started :: "'a list"
  finished :: "'a list"

definition put :: "nat \<Rightarrow> nat \<Rightarrow> 'a phase \<Rightarrow> 'a pool \<Rightarrow> 'a pool" where
  "put k n p s = s\<lparr>workers := (workers s)[k := Some (n, p)]\<rparr>"

definition set_client :: "nat \<Rightarrow> 'a client \<Rightarrow> 'a pool \<Rightarrow> 'a pool" where
  "set_client c x s = s\<lparr>clients := (clients s)(c \<mapsto> x)\<rparr>"

section \<open>Condition variables\<close>

fun woken :: "'a phase \<Rightarrow> 'a phase" where
  "woken Sleeping = Ready"
| "woken p = p"

fun consumer_woken :: "'a client \<Rightarrow> 'a client" where
  "consumer_woken Dtor_waits = Dtor_check"
| "consumer_woken c = c"

fun producer_woken :: "'a client \<Rightarrow> 'a client" where
  "producer_woken (Enqueue_waits t) = Enqueue t"
| "producer_woken Empty_waits = Wait_until_empty"
| "producer_woken c = c"

fun idle_woken :: "'a client \<Rightarrow> 'a client" where
  "idle_woken Idle_waits = Wait_until_idle"
| "idle_woken c = c"

definition wake_clients :: "('a client \<Rightarrow> 'a client) \<Rightarrow> 'a pool \<Rightarrow> 'a pool" where
  "wake_clients f s = s\<lparr>clients := (\<lambda>c. map_option f (clients s c))\<rparr>"

definition notify_all_consumers :: "'a pool \<Rightarrow> 'a pool" where
  "notify_all_consumers s = wake_clients consumer_woken
     (s\<lparr>workers := map (map_option (\<lambda>(n, p). (n, woken p))) (workers s)\<rparr>)"

definition notify_all_producers :: "'a pool \<Rightarrow> 'a pool" where
  "notify_all_producers = wake_clients producer_woken"

definition notify_all_idle :: "'a pool \<Rightarrow> 'a pool" where
  "notify_all_idle = wake_clients idle_woken"

text \<open>\<open>notify_one\<close> wakes one of the threads that sleep, a worker or a client, if there is any.\<close>

definition sleeps :: "'a pool \<Rightarrow> nat \<Rightarrow> bool" where
  "sleeps s k \<longleftrightarrow> k < length (workers s) \<and> (case workers s ! k of Some (n, Sleeping) \<Rightarrow> True | _ \<Rightarrow> False)"

definition may_wake :: "(nat + nat) option \<Rightarrow> 'a pool \<Rightarrow> bool" where
  "may_wake w s \<longleftrightarrow> (case w of
       Some (Inl k) \<Rightarrow> sleeps s k
     | Some (Inr c) \<Rightarrow> clients s c = Some Dtor_waits
     | None \<Rightarrow> (\<forall>k < length (workers s). \<not> sleeps s k) \<and> (\<forall>c. clients s c \<noteq> Some Dtor_waits))"

definition notify_one_consumer :: "(nat + nat) option \<Rightarrow> 'a pool \<Rightarrow> 'a pool" where
  "notify_one_consumer w s = (case w of
       None \<Rightarrow> s
     | Some (Inl k) \<Rightarrow> s\<lparr>workers := (workers s)[k := map_option (\<lambda>(n, p). (n, woken p)) (workers s ! k)]\<rparr>
     | Some (Inr c) \<Rightarrow> set_client c Dtor_check s)"

section \<open>The pool\<close>

definition start_worker :: "nat \<Rightarrow> 'a pool \<Rightarrow> 'a pool" where
  "start_worker n s =
     (if length (workers s) < n then s\<lparr>failed := True\<rparr>
      else if n < length (workers s)
      then (if workers s ! n = None then put n n Ready s else s)
      else s\<lparr>workers := workers s @ [Some (n, Ready)]\<rparr>)"

definition new_pool :: "nat \<Rightarrow> 'a pool" where
  "new_pool threads = \<lparr>workers = [], pool_size = threads, tasks = [], max_queue_size = 100000, stop = False,
     in_flight = 0, clients = (\<lambda>_. None), failed = False, enqueued = [], started = [], finished = []\<rparr>"

definition ThreadPool :: "nat \<Rightarrow> 'a pool" where
  "ThreadPool threads = fold start_worker [0..<threads] (new_pool threads)"

section \<open>Workers\<close>

fun pop_stopped :: "nat \<Rightarrow> 'b option list \<Rightarrow> 'b option list" where
  "pop_stopped size1 ws = (if size1 < length ws \<and> last ws = None then pop_stopped size1 (butlast ws) else ws)"

declare pop_stopped.simps [simp del]

definition leave :: "nat \<Rightarrow> 'a pool \<Rightarrow> 'a pool" where
  "leave n s =
     (if n < length (workers s) \<and> workers s ! n \<noteq> None
      then (let s1 = s\<lparr>workers := pop_stopped (pool_size s) ((workers s)[n := None])\<rparr> in
        if workers s1 = [] then notify_all_consumers s1 else s1)
      else s\<lparr>failed := True\<rparr>)"

definition worker_turn :: "nat \<Rightarrow> nat \<Rightarrow> 'a pool \<Rightarrow> 'a pool" where
  "worker_turn k n s =
     (if \<not> (stop s \<or> tasks s \<noteq> [] \<or> pool_size s < n + 1) then put k n Sleeping s
      else if (stop s \<and> tasks s = []) \<or> (\<not> stop s \<and> pool_size s < n + 1) then leave n s
      else (case tasks s of
          t # ts \<Rightarrow> put k n (Popped t (length ts + 1 = max_queue_size s \<or> ts = [])) (s\<lparr>tasks := ts, started := started s @ [t]\<rparr>)
        | [] \<Rightarrow> s))"

definition worker_notify :: "nat \<Rightarrow> nat \<Rightarrow> 'a \<Rightarrow> bool \<Rightarrow> 'a pool \<Rightarrow> 'a pool" where
  "worker_notify k n t notify s = put k n (Running t) (if notify then notify_all_producers s else s)"

text \<open>The task returns; the count of tasks in flight goes down, and the last one has to signal it.\<close>

definition worker_done :: "nat \<Rightarrow> nat \<Rightarrow> 'a \<Rightarrow> 'a pool \<Rightarrow> 'a pool" where
  "worker_done k n t s = put k n (if in_flight s = 1 then Signalling else Ready)
     (s\<lparr>in_flight := in_flight s - 1, finished := finished s @ [t]\<rparr>)"

definition worker_signal :: "nat \<Rightarrow> nat \<Rightarrow> 'a pool \<Rightarrow> 'a pool" where
  "worker_signal k n s = put k n Ready (notify_all_idle s)"

section \<open>Public operations\<close>

definition enqueue :: "(nat + nat) option \<Rightarrow> nat \<Rightarrow> 'a \<Rightarrow> 'a pool \<Rightarrow> 'a pool" where
  "enqueue w c t s =
     (if max_queue_size s \<le> length (tasks s) \<and> \<not> stop s then set_client c (Enqueue_waits t) s
      else if stop s then set_client c Thrown s
      else set_client c Returned (notify_one_consumer w
        (s\<lparr>tasks := tasks s @ [t], in_flight := in_flight s + 1, enqueued := enqueued s @ [t]\<rparr>)))"

definition wait_until_empty :: "nat \<Rightarrow> 'a pool \<Rightarrow> 'a pool" where
  "wait_until_empty c s = set_client c (if tasks s = [] then Returned else Empty_waits) s"

definition wait_until_nothing_in_flight :: "nat \<Rightarrow> 'a pool \<Rightarrow> 'a pool" where
  "wait_until_nothing_in_flight c s = set_client c (if in_flight s = 0 then Returned else Idle_waits) s"

definition set_queue_size_limit :: "nat \<Rightarrow> 'a pool \<Rightarrow> 'a pool" where
  "set_queue_size_limit limit s =
     (if stop s then s
      else (let s1 = s\<lparr>max_queue_size := max limit 1\<rparr> in
        if max_queue_size s < max_queue_size s1 then notify_all_producers s1 else s1))"

definition set_pool_size :: "nat \<Rightarrow> 'a pool \<Rightarrow> 'a pool" where
  "set_pool_size limit0 s =
     (let limit = (if limit0 < 1 then 1 else limit0) in
      if stop s then s
      else (let old_size = pool_size s;
                s1 = (if length (workers s) < old_size then s\<lparr>failed := True\<rparr> else s)\<lparr>pool_size := limit\<rparr> in
        if old_size < limit then fold start_worker [old_size..<limit] s1
        else if limit < old_size then notify_all_consumers s1
        else s1))"

text \<open>The destructor: once it has set \<open>stop\<close> it waits for the workers to be gone.\<close>

definition dtor_check :: "nat \<Rightarrow> 'a pool \<Rightarrow> 'a pool" where
  "dtor_check c s =
     (if workers s = [] then set_client c Returned (if in_flight s = 0 then s else s\<lparr>failed := True\<rparr>)
      else set_client c Dtor_waits s)"

definition dtor :: "nat \<Rightarrow> 'a pool \<Rightarrow> 'a pool" where
  "dtor c s = dtor_check c (notify_all_producers (notify_all_consumers (s\<lparr>stop := True, pool_size := 0\<rparr>)))"

section \<open>Interleaving\<close>

fun call :: "'a client \<Rightarrow> bool" where
  "call (Enqueue t) = True"
| "call Wait_until_empty = True"
| "call Wait_until_idle = True"
| "call (Set_queue_size_limit l) = True"
| "call (Set_pool_size l) = True"
| "call Dtor = True"
| "call _ = False"

fun client_turn :: "(nat + nat) option \<Rightarrow> nat \<Rightarrow> 'a client \<Rightarrow> 'a pool \<Rightarrow> 'a pool" where
  "client_turn w c (Enqueue t) s = enqueue w c t s"
| "client_turn w c Wait_until_empty s = wait_until_empty c s"
| "client_turn w c Wait_until_idle s = wait_until_nothing_in_flight c s"
| "client_turn w c (Set_queue_size_limit l) s = set_client c Returned (set_queue_size_limit l s)"
| "client_turn w c (Set_pool_size l) s = set_client c Returned (set_pool_size l s)"
| "client_turn w c Dtor s = dtor c s"
| "client_turn w c Dtor_check s = dtor_check c s"
| "client_turn w c x s = s"

text \<open>Sleeping threads may wake up without being notified.\<close>

inductive pool_step :: "'a pool \<Rightarrow> 'a pool \<Rightarrow> bool" where
  turn: "k < length (workers s) \<Longrightarrow> workers s ! k = Some (n, Ready) \<Longrightarrow> pool_step s (worker_turn k n s)"
| notify: "k < length (workers s) \<Longrightarrow> workers s ! k = Some (n, Popped t b) \<Longrightarrow> pool_step s (worker_notify k n t b s)"
| run: "k < length (workers s) \<Longrightarrow> workers s ! k = Some (n, Running t) \<Longrightarrow> pool_step s (worker_done k n t s)"
| signal: "k < length (workers s) \<Longrightarrow> workers s ! k = Some (n, Signalling) \<Longrightarrow> pool_step s (worker_signal k n s)"
| spurious: "k < length (workers s) \<Longrightarrow> workers s ! k = Some (n, Sleeping) \<Longrightarrow> pool_step s (put k n Ready s)"
| calls: "clients s c = None \<Longrightarrow> call x \<Longrightarrow> pool_step s (set_client c x s)"
| client: "clients s c = Some x \<Longrightarrow> may_wake w s \<Longrightarrow> pool_step s (client_turn w c x s)"
| spurious_client: "clients s c = Some x \<Longrightarrow>
    pool_step s (set_client c (consumer_woken (producer_woken (idle_woken x))) s)"

inductive pool_run :: "'a pool \<Rightarrow> 'a pool \<Rightarrow> bool" where
  run_none: "pool_run s s"
| run_step: "pool_run s s1 \<Longrightarrow> pool_step s1 s2 \<Longrightarrow> pool_run s s2"

inductive_cases pool_stepE: "pool_step s s'"

end
