(* ===== verification/ThreadPoolProps.thy ===== *)
theory ThreadPoolProps
  imports ThreadPool
begin

text \<open>
  The invariant of the thread pool, and what follows from it: no wake-up is lost, tasks are started once
  each and in order, and the destructor returns only when all are done.
\<close>

section \<open>The invariant\<close>

fun executing :: "(nat \<times> 'a phase) option \<Rightarrow> 'a list" where
  "executing (Some (n, Popped t b)) = [t]"
| "executing (Some (n, Running t)) = [t]"
| "executing _ = []"

definition executed :: "'a pool \<Rightarrow> 'a list" where
  "executed s = concat (map executing (workers s))"

definition awake :: "(nat \<times> 'a phase) option \<Rightarrow> bool" where
  "awake w \<longleftrightarrow> w \<noteq> None \<and> (\<forall>n. w \<noteq> Some (n, Sleeping))"

text \<open>A worker that is about to notify the producers, and one that is about to signal.\<close>

definition pending :: "'a pool \<Rightarrow> bool" where
  "pending s \<longleftrightarrow> (\<exists>n t. Some (n, Popped t True) \<in> set (workers s))"

definition signalling :: "'a pool \<Rightarrow> bool" where
  "signalling s \<longleftrightarrow> (\<exists>n. Some (n, Signalling) \<in> set (workers s))"

definition slots_ok :: "'a pool \<Rightarrow> bool" where
  "slots_ok s \<longleftrightarrow> (\<forall>k < length (workers s). \<forall>n p. workers s ! k = Some (n, p) \<longrightarrow> n = k \<and>
     (p = Sleeping \<longrightarrow> \<not> stop s \<and> k < pool_size s))"

definition size_ok :: "'a pool \<Rightarrow> bool" where
  "size_ok s \<longleftrightarrow> (stop s \<longrightarrow> pool_size s = 0) \<and>
   (\<not> stop s \<longrightarrow> 0 < pool_size s \<and> pool_size s \<le> length (workers s) \<and> (\<forall>k < pool_size s. workers s ! k \<noteq> None)) \<and>
   (workers s \<noteq> [] \<longrightarrow> last (workers s) \<noteq> None) \<and> 0 < max_queue_size s \<and> \<not> failed s"

definition tasks_ok :: "'a pool \<Rightarrow> bool" where
  "tasks_ok s \<longleftrightarrow> in_flight s = length (tasks s) + length (executed s) \<and> enqueued s = started s @ tasks s \<and>
     mset (started s) = mset (finished s) + mset (executed s) \<and>
     (tasks s \<noteq> [] \<and> \<not> stop s \<longrightarrow> (\<exists>k < pool_size s. awake (workers s ! k))) \<and>
     (stop s \<and> workers s = [] \<longrightarrow> tasks s = [])"

definition client_ok :: "'a pool \<Rightarrow> 'a client \<Rightarrow> bool" where
  "client_ok s x \<longleftrightarrow> (case x of
       Enqueue_waits t \<Rightarrow> \<not> stop s \<and> (max_queue_size s \<le> length (tasks s) \<or> pending s)
     | Empty_waits \<Rightarrow> tasks s \<noteq> [] \<or> pending s
     | Idle_waits \<Rightarrow> in_flight s \<noteq> 0 \<or> signalling s
     | Dtor_waits \<Rightarrow> stop s \<and> workers s \<noteq> []
     | Dtor_check \<Rightarrow> stop s
     | _ \<Rightarrow> True)"

definition clients_ok :: "'a pool \<Rightarrow> bool" where
  "clients_ok s \<longleftrightarrow> (\<forall>c x. clients s c = Some x \<longrightarrow> client_ok s x)"

definition pool_ok :: "'a pool \<Rightarrow> bool" where
  "pool_ok s \<longleftrightarrow> slots_ok s \<and> size_ok s \<and> tasks_ok s \<and> clients_ok s"

lemmas pool_ok_defs = pool_ok_def slots_ok_def size_ok_def tasks_ok_def clients_ok_def

lemma slots_ok_cong: "workers s' = workers s \<Longrightarrow> stop s' = stop s \<Longrightarrow> pool_size s' = pool_size s \<Longrightarrow> slots_ok s' = slots_ok s"
  by (simp add: slots_ok_def)

lemma size_ok_cong: "workers s' = workers s \<Longrightarrow> stop s' = stop s \<Longrightarrow> pool_size s' = pool_size s \<Longrightarrow>
    max_queue_size s' = max_queue_size s \<Longrightarrow> failed s' = failed s \<Longrightarrow> size_ok s' = size_ok s"
  by (simp add: size_ok_def)

lemma size_okD:
  assumes "size_ok s"
  shows "stop s \<Longrightarrow> pool_size s = 0" "\<not> stop s \<Longrightarrow> 0 < pool_size s" "\<not> stop s \<Longrightarrow> pool_size s \<le> length (workers s)"
    "\<not> stop s \<Longrightarrow> k < pool_size s \<Longrightarrow> workers s ! k \<noteq> None" "workers s \<noteq> [] \<Longrightarrow> last (workers s) \<noteq> None"
    "0 < max_queue_size s" "\<not> failed s"
  using assms by (simp_all add: size_ok_def)

lemma size_okI:
  assumes "stop s \<Longrightarrow> pool_size s = 0" "\<not> stop s \<Longrightarrow> 0 < pool_size s" "\<not> stop s \<Longrightarrow> pool_size s \<le> length (workers s)"
    "\<And>k. \<not> stop s \<Longrightarrow> k < pool_size s \<Longrightarrow> workers s ! k \<noteq> None" "workers s \<noteq> [] \<Longrightarrow> last (workers s) \<noteq> None"
    "0 < max_queue_size s" "\<not> failed s"
  shows "size_ok s"
  using assms by (simp add: size_ok_def)

lemma tasks_okI:
  assumes "in_flight s = length (tasks s) + length (executed s)" "enqueued s = started s @ tasks s"
    "mset (started s) = mset (finished s) + mset (executed s)"
    "tasks s \<noteq> [] \<Longrightarrow> \<not> stop s \<Longrightarrow> \<exists>k < pool_size s. awake (workers s ! k)" "stop s \<Longrightarrow> workers s = [] \<Longrightarrow> tasks s = []"
  shows "tasks_ok s"
  using assms by (simp add: tasks_ok_def)

lemma tasks_okD:
  assumes "tasks_ok s"
  shows "in_flight s = length (tasks s) + length (executed s)" "enqueued s = started s @ tasks s"
    "mset (started s) = mset (finished s) + mset (executed s)"
    "tasks s \<noteq> [] \<Longrightarrow> \<not> stop s \<Longrightarrow> \<exists>k < pool_size s. awake (workers s ! k)" "stop s \<Longrightarrow> workers s = [] \<Longrightarrow> tasks s = []"
  using assms by (simp_all add: tasks_ok_def)

lemma executed_put: "k < length (workers s) \<Longrightarrow> mset (executed (put k n p s)) + mset (executing (workers s ! k)) =
    mset (executed s) + mset (executing (Some (n, p)))"
proof -
  assume k: "k < length (workers s)"
  have "workers s = take k (workers s) @ workers s ! k # drop (Suc k) (workers s)" using k by (simp add: id_take_nth_drop)
  then have "executed s = concat (map executing (take k (workers s) @ workers s ! k # drop (Suc k) (workers s)))"
    unfolding executed_def by simp
  moreover have "executed (put k n p s) = concat (map executing (take k (workers s) @ Some (n, p) # drop (Suc k) (workers s)))"
    using k by (simp add: executed_def put_def upd_conv_take_nth_drop)
  ultimately show ?thesis by (simp add: ac_simps)
qed

section \<open>Workers\<close>

lemma put_simps [simp]:
  "workers (put k n p s) = (workers s)[k := Some (n, p)]" "pool_size (put k n p s) = pool_size s" "tasks (put k n p s) = tasks s"
  "max_queue_size (put k n p s) = max_queue_size s" "stop (put k n p s) = stop s" "in_flight (put k n p s) = in_flight s"
  "clients (put k n p s) = clients s" "failed (put k n p s) = failed s" "enqueued (put k n p s) = enqueued s"
  "started (put k n p s) = started s" "finished (put k n p s) = finished s"
  by (simp_all add: put_def)

lemma set_client_simps [simp]:
  "workers (set_client c x s) = workers s" "pool_size (set_client c x s) = pool_size s" "tasks (set_client c x s) = tasks s"
  "max_queue_size (set_client c x s) = max_queue_size s" "stop (set_client c x s) = stop s" "in_flight (set_client c x s) = in_flight s"
  "clients (set_client c x s) = (clients s)(c \<mapsto> x)" "failed (set_client c x s) = failed s" "enqueued (set_client c x s) = enqueued s"
  "started (set_client c x s) = started s" "finished (set_client c x s) = finished s"
  by (simp_all add: set_client_def)

lemma wake_clients_simps [simp]:
  "workers (wake_clients f s) = workers s" "pool_size (wake_clients f s) = pool_size s" "tasks (wake_clients f s) = tasks s"
  "max_queue_size (wake_clients f s) = max_queue_size s" "stop (wake_clients f s) = stop s" "in_flight (wake_clients f s) = in_flight s"
  "clients (wake_clients f s) = (\<lambda>c. map_option f (clients s c))" "failed (wake_clients f s) = failed s"
  "enqueued (wake_clients f s) = enqueued s" "started (wake_clients f s) = started s" "finished (wake_clients f s) = finished s"
  by (simp_all add: wake_clients_def)

lemma executed_eq: "workers s = workers s' \<Longrightarrow> executed s = executed s'"
  by (simp add: executed_def)

lemma pending_eq: "workers s = workers s' \<Longrightarrow> pending s = pending s'" "workers s = workers s' \<Longrightarrow> signalling s = signalling s'"
  by (simp_all add: pending_def signalling_def)

text \<open>A waiting client stays justified when its reason does.\<close>

lemma client_ok_mono:
  assumes "client_ok s x" "stop s' = stop s"
    "max_queue_size s \<le> length (tasks s) \<or> pending s \<Longrightarrow> max_queue_size s' \<le> length (tasks s') \<or> pending s'"
    "tasks s \<noteq> [] \<or> pending s \<Longrightarrow> tasks s' \<noteq> [] \<or> pending s'"
    "in_flight s \<noteq> 0 \<or> signalling s \<Longrightarrow> in_flight s' \<noteq> 0 \<or> signalling s'"
    "workers s \<noteq> [] \<Longrightarrow> workers s' \<noteq> []"
  shows "client_ok s' x"
  using assms by (cases x) (simp_all add: client_ok_def)

lemma slots_put: "slots_ok s \<Longrightarrow> k < length (workers s) \<Longrightarrow> workers s ! k = Some (n, p0) \<Longrightarrow>
    p = Sleeping \<Longrightarrow> \<not> stop s \<and> k < pool_size s \<Longrightarrow> slots_ok (put k n p s)"
  by (auto simp: slots_ok_def nth_list_update)

lemma slots_put_awake: "slots_ok s \<Longrightarrow> k < length (workers s) \<Longrightarrow> workers s ! k = Some (n, p0) \<Longrightarrow>
    p \<noteq> Sleeping \<Longrightarrow> slots_ok (put k n p s)"
  by (auto simp: slots_ok_def nth_list_update)

lemma size_put: "size_ok s \<Longrightarrow> k < length (workers s) \<Longrightarrow> size_ok (put k n p s)"
  by (auto simp: size_ok_def nth_list_update last_list_update)

lemma awake_put: "\<exists>j < m. awake (ws ! j) \<Longrightarrow> p \<noteq> Sleeping \<Longrightarrow> \<exists>j < m. awake (ws[k := Some (n, p)] ! j)"
  by (metis awake_def list_update_beyond not_le nth_list_update_eq nth_list_update_neq option.discI option.inject prod.inject)

lemma pending_put:
  assumes "k < length (workers s)" "workers s ! k = Some (n, p0)"
  shows "(\<And>t. p0 \<noteq> Popped t True) \<Longrightarrow> pending s \<Longrightarrow> pending (put k n p s)"
    "p0 \<noteq> Signalling \<Longrightarrow> signalling s \<Longrightarrow> signalling (put k n p s)"
    "pending (put k n (Popped t True) s)" "signalling (put k n Signalling s)"
  using assms by (auto simp: pending_def signalling_def in_set_conv_nth nth_list_update; metis option.inject prod.inject)+

lemma executed_put_same: "k < length (workers s) \<Longrightarrow> workers s ! k = Some (n, p0) \<Longrightarrow>
    executing (Some (n, p0)) = executing (Some (n, p)) \<Longrightarrow> mset (executed (put k n p s)) = mset (executed s)"
  using executed_put [of k s n p] by simp

lemma length_mset: "mset xs = mset ys \<Longrightarrow> length xs = length ys"
  by (metis size_mset)

lemma sleep_ok:
  assumes "pool_ok s" "k < length (workers s)" "workers s ! k = Some (n, Ready)"
    "\<not> (stop s \<or> tasks s \<noteq> [] \<or> pool_size s < n + 1)"
  shows "pool_ok (put k n Sleeping s)"
proof -
  have ok: "slots_ok s" "size_ok s" "tasks_ok s" "clients_ok s" using assms(1) by (simp_all add: pool_ok_def)
  have "n = k" using ok(1) assms(2,3) by (auto simp: slots_ok_def)
  have ex: "mset (executed (put k n Sleeping s)) = mset (executed s)" using executed_put_same [OF assms(2,3)] by simp
  have "client_ok (put k n Sleeping s) x" if "client_ok s x" for x
    by (rule client_ok_mono [OF that]) (use assms(2) pending_put [OF assms(2,3)] in auto)
  moreover have "tasks_ok (put k n Sleeping s)"
    using ok(3) ex length_mset [OF ex] assms(2,4) by (auto simp: tasks_ok_def)
  ultimately show ?thesis
    using slots_put [OF ok(1) assms(2,3) refl] size_put [OF ok(2) assms(2)] ok(4) assms(4) \<open>n = k\<close>
    by (auto simp: pool_ok_def clients_ok_def)
qed

lemma awake_phase: "n = k \<Longrightarrow> k < m \<Longrightarrow> k < length ws \<Longrightarrow> p \<noteq> Sleeping \<Longrightarrow> \<exists>j < m. awake (ws[k := Some (n, p)] ! j)"
  by (auto simp: awake_def intro!: exI [of _ k])

lemma pop_ok:
  assumes "pool_ok s" "k < length (workers s)" "workers s ! k = Some (n, Ready)" "tasks s = t # ts"
    "\<not> (\<not> stop s \<and> pool_size s < n + 1)"
  shows "pool_ok (put k n (Popped t (length ts + 1 = max_queue_size s \<or> ts = [])) (s\<lparr>tasks := ts, started := started s @ [t]\<rparr>))"
    (is "pool_ok (put k n (Popped t ?b) ?s)")
proof -
  let ?s' = "put k n (Popped t ?b) ?s"
  have ok: "slots_ok s" "size_ok s" "tasks_ok s" "clients_ok s" using assms(1) by (simp_all add: pool_ok_def)
  have nk: "n = k" using ok(1) assms(2,3) by (auto simp: slots_ok_def)
  have ex: "mset (executed ?s') = mset (executed s) + {#t#}"
    using executed_put [of k ?s n "Popped t ?b"] assms(2,3) by (simp add: executed_def)
  have len: "length (executed ?s') = Suc (length (executed s))" using arg_cong [OF ex, of size] by simp
  have w: "workers ?s = workers s" by simp
  have pend: "pending s \<or> ?b \<Longrightarrow> pending ?s'"
    using pending_put(1,3) [of k ?s n Ready] assms(2,3) pending_eq(1) [OF w] by (cases ?b) auto
  have sig: "signalling s \<Longrightarrow> signalling ?s'"
    using pending_put(2) [of k ?s n Ready] assms(2,3) pending_eq(2) [OF w] by auto
  have "client_ok ?s' x" if "client_ok s x" for x
  proof (rule client_ok_mono [OF that])
    show "max_queue_size s \<le> length (tasks s) \<or> pending s \<Longrightarrow> max_queue_size ?s' \<le> length (tasks ?s') \<or> pending ?s'"
      using pend assms(4) by (auto simp: le_Suc_eq)
    show "tasks s \<noteq> [] \<or> pending s \<Longrightarrow> tasks ?s' \<noteq> [] \<or> pending ?s'" using pend by auto
  qed (use sig assms(2) in auto)
  moreover have "tasks_ok ?s'"
  proof (rule tasks_okI)
    show "in_flight ?s' = length (tasks ?s') + length (executed ?s')" using tasks_okD(1) [OF ok(3)] len assms(4) by simp
    show "enqueued ?s' = started ?s' @ tasks ?s'" using tasks_okD(2) [OF ok(3)] assms(4) by simp
    show "mset (started ?s') = mset (finished ?s') + mset (executed ?s')" using tasks_okD(3) [OF ok(3)] ex by simp
    show "\<exists>j < pool_size ?s'. awake (workers ?s' ! j)" if "\<not> stop ?s'"
      using awake_phase [OF nk _ assms(2), of "pool_size s" "Popped t ?b"] assms(5) nk that by simp
    show "tasks ?s' = []" if "workers ?s' = []" using that assms(2) by simp
  qed
  moreover have "slots_ok ?s'" "size_ok ?s'"
    using slots_put_awake [of ?s k n Ready "Popped t ?b"] size_put [of ?s k n "Popped t ?b"] ok(1,2) assms(2,3)
      slots_ok_cong [of ?s s] size_ok_cong [of ?s s] by simp_all
  ultimately show ?thesis using ok(4) by (simp add: pool_ok_def clients_ok_def)
qed

text \<open>A step of an awake worker that touches no counter.\<close>

lemma move_ok:
  assumes "pool_ok s" "k < length (workers s)" "workers s ! k = Some (n, p0)" "p \<noteq> Sleeping"
    "executing (Some (n, p0)) = executing (Some (n, p))"
    "\<And>c x. clients s' c = Some x \<Longrightarrow> client_ok (put k n p s) x"
    "s' = (put k n p s)\<lparr>clients := clients s'\<rparr>"
  shows "pool_ok s'"
proof -
  let ?s = "put k n p s"
  have ok: "slots_ok s" "size_ok s" "tasks_ok s" using assms(1) by (simp_all add: pool_ok_def)
  have ex: "mset (executed ?s) = mset (executed s)" using executed_put_same [OF assms(2,3,5)] .
  have f: "workers s' = workers ?s" "pool_size s' = pool_size s" "tasks s' = tasks s" "max_queue_size s' = max_queue_size s"
    "stop s' = stop s" "in_flight s' = in_flight s" "failed s' = failed s" "enqueued s' = enqueued s" "started s' = started s"
    "finished s' = finished s"
    by (subst assms(7); simp)+
  have "client_ok s' x = client_ok ?s x" for x
    using f pending_eq [OF f(1)] by (cases x) (simp_all add: client_ok_def)
  then have "clients_ok s'" using assms(6) by (simp add: clients_ok_def)
  moreover have "slots_ok ?s" "size_ok ?s" using slots_put_awake [OF ok(1) assms(2,3,4)] size_put [OF ok(2) assms(2)] by simp_all
  then have "slots_ok s'" "size_ok s'" using slots_ok_cong [of s' ?s] size_ok_cong [of s' ?s] f by simp_all
  moreover have "tasks_ok s'"
  proof (rule tasks_okI)
    show "in_flight s' = length (tasks s') + length (executed s')"
      unfolding f executed_eq [OF f(1)] length_mset [OF ex] by (rule tasks_okD(1) [OF ok(3)])
    show "enqueued s' = started s' @ tasks s'" unfolding f by (rule tasks_okD(2) [OF ok(3)])
    show "mset (started s') = mset (finished s') + mset (executed s')"
      unfolding f executed_eq [OF f(1)] ex by (rule tasks_okD(3) [OF ok(3)])
    show "\<exists>j < pool_size s'. awake (workers s' ! j)" if "tasks s' \<noteq> []" "\<not> stop s'"
      using awake_put [OF tasks_okD(4) [OF ok(3)] assms(4)] that unfolding f by simp
    show "tasks s' = []" if "workers s' = []" using that assms(2) unfolding f by simp
  qed
  ultimately show ?thesis by (simp add: pool_ok_def)
qed

lemma client_put: "client_ok s x \<Longrightarrow> k < length (workers s) \<Longrightarrow> workers s ! k = Some (n, p0) \<Longrightarrow>
    (\<And>t. p0 \<noteq> Popped t True) \<Longrightarrow> p0 \<noteq> Signalling \<Longrightarrow> client_ok (put k n p s) x"
  by (rule client_ok_mono) (auto dest: pending_put(1,2))

lemma notify_ok:
  assumes "pool_ok s" "k < length (workers s)" "workers s ! k = Some (n, Popped t b)"
  shows "pool_ok (worker_notify k n t b s)"
proof (cases b)
  case False
  then show ?thesis
    using move_ok [OF assms, of "Running t" "put k n (Running t) s"] client_put [OF _ assms(2,3)] assms(1)
    by (simp add: worker_notify_def pool_ok_def clients_ok_def)
next
  case True
  have "client_ok (put k n (Running t) s) (producer_woken x)" if "client_ok s x" for x
    using that assms(2) pending_put(2) [OF assms(2,3), of "Running t"] by (cases x) (auto simp: client_ok_def)
  then show ?thesis
    using True move_ok [OF assms, of "Running t" "worker_notify k n t b s"] assms(1)
    by (auto simp: worker_notify_def pool_ok_def clients_ok_def notify_all_producers_def put_def wake_clients_def)
qed

lemma signal_ok:
  assumes "pool_ok s" "k < length (workers s)" "workers s ! k = Some (n, Signalling)"
  shows "pool_ok (worker_signal k n s)"
proof -
  have "client_ok (put k n Ready s) (idle_woken x)" if "client_ok s x" for x
    using that assms(2) pending_put(1) [OF assms(2,3), of Ready] by (cases x) (auto simp: client_ok_def)
  then show ?thesis
    using move_ok [OF assms, of Ready "worker_signal k n s"] assms(1)
    by (auto simp: worker_signal_def pool_ok_def clients_ok_def notify_all_idle_def put_def wake_clients_def)
qed

lemma spurious_ok:
  assumes "pool_ok s" "k < length (workers s)" "workers s ! k = Some (n, Sleeping)"
  shows "pool_ok (put k n Ready s)"
  using move_ok [OF assms, of Ready "put k n Ready s"] client_put [OF _ assms(2,3)] assms(1)
  by (simp add: pool_ok_def clients_ok_def)

lemma done_ok:
  assumes "pool_ok s" "k < length (workers s)" "workers s ! k = Some (n, Running t)"
  shows "pool_ok (worker_done k n t s)"
proof -
  let ?p = "if in_flight s = 1 then Signalling else Ready"
  let ?s = "s\<lparr>in_flight := in_flight s - 1, finished := finished s @ [t]\<rparr>"
  let ?s' = "put k n ?p ?s"
  have ok: "slots_ok s" "size_ok s" "tasks_ok s" "clients_ok s" using assms(1) by (simp_all add: pool_ok_def)
  have w: "workers ?s = workers s" by simp
  have ex: "mset (executed ?s') + {#t#} = mset (executed s)"
    using executed_put [of k ?s n ?p] assms(2,3) executed_eq [OF w] by simp
  have len: "length (executed s) = length (executed ?s') + 1" using arg_cong [OF ex, of size] by simp
  then have pos: "1 \<le> in_flight s" using ok(3) by (simp add: tasks_ok_def)
  have pend: "pending s \<Longrightarrow> pending ?s'" "signalling s \<Longrightarrow> signalling ?s'" "in_flight s = 1 \<Longrightarrow> signalling ?s'"
    using pending_put(1,2,4) [of k ?s n "Running t"] assms(2,3) pending_eq [OF w] by auto
  have "client_ok ?s' x" if "client_ok s x" for x
    by (rule client_ok_mono [OF that]) (use pend pos assms(2) in auto)
  moreover have "tasks_ok ?s'"
  proof (rule tasks_okI)
    show "in_flight ?s' = length (tasks ?s') + length (executed ?s')" using tasks_okD(1) [OF ok(3)] len by simp
    show "enqueued ?s' = started ?s' @ tasks ?s'" using tasks_okD(2) [OF ok(3)] by simp
    show "mset (started ?s') = mset (finished ?s') + mset (executed ?s')"
      using tasks_okD(3) [OF ok(3)] unfolding ex [symmetric] by simp
    show "\<exists>j < pool_size ?s'. awake (workers ?s' ! j)" if "tasks ?s' \<noteq> []" "\<not> stop ?s'"
      using awake_put [OF tasks_okD(4) [OF ok(3)], of ?p k n] that by simp
    show "tasks ?s' = []" if "workers ?s' = []" using that assms(2) by simp
  qed
  moreover have "slots_ok ?s'" "size_ok ?s'"
    using slots_put_awake [of ?s k n "Running t" ?p] size_put [of ?s k n ?p] ok(1,2) assms(2,3)
      slots_ok_cong [of ?s s] size_ok_cong [of ?s s] by simp_all
  ultimately show ?thesis using ok(4) by (simp add: pool_ok_def clients_ok_def worker_done_def)
qed

section \<open>Leaving\<close>

lemma pop_stopped_spec: "\<exists>j. ws = pop_stopped m ws @ replicate j None \<and> min m (length ws) \<le> length (pop_stopped m ws) \<and>
    (m < length (pop_stopped m ws) \<longrightarrow> last (pop_stopped m ws) \<noteq> None)"
proof (induction m ws rule: pop_stopped.induct)
  case (1 m ws)
  show ?case
  proof (cases "m < length ws \<and> last ws = None")
    case False
    then show ?thesis by (subst (1 2 3 4) pop_stopped.simps) auto
  next
    case True
    then have ws: "ws = butlast ws @ [None]" by (metis append_butlast_last_id less_nat_zero_code list.size(3))
    obtain j where "butlast ws = pop_stopped m (butlast ws) @ replicate j None" "min m (length (butlast ws)) \<le> length (pop_stopped m (butlast ws))"
      "m < length (pop_stopped m (butlast ws)) \<longrightarrow> last (pop_stopped m (butlast ws)) \<noteq> None"
      using "1.IH" [OF True] by blast
    moreover have "pop_stopped m ws = pop_stopped m (butlast ws)" using True by (subst pop_stopped.simps) simp
    moreover from calculation ws have "ws = pop_stopped m ws @ replicate (Suc j) None"
      by (metis append_assoc replicate_append_same replicate_Suc)
    ultimately show ?thesis using True by (intro exI [of _ "Suc j"]) auto
  qed
qed

text \<open>The workers after one of them has left.\<close>

lemma left_workers:
  fixes ws :: "(nat \<times> 'a phase) option list" and m :: nat
  assumes "k < length ws" "ws ! k = Some (n, Ready)"
  defines "ws' \<equiv> pop_stopped m (ws[k := None])"
  shows "concat (map executing ws') = concat (map executing ws)" "Some (i, p) \<in> set ws' \<longleftrightarrow> Some (i, p) \<in> set (ws[k := None])"
    "p \<noteq> Ready \<Longrightarrow> Some (i, p) \<in> set ws' \<longleftrightarrow> Some (i, p) \<in> set ws"
    "min m (length ws) \<le> length ws'" "m < length ws' \<Longrightarrow> last ws' \<noteq> None"
    "\<And>j. j < length ws' \<Longrightarrow> ws' ! j = ws[k := None] ! j" "length ws' \<le> length ws"
proof -
  obtain j where j: "ws[k := None] = ws' @ replicate j None" "min m (length (ws[k := None])) \<le> length ws'"
    "m < length ws' \<longrightarrow> last ws' \<noteq> None"
    using pop_stopped_spec [of "ws[k := None]" m] unfolding ws'_def by blast
  have "concat (map executing (ws[k := None])) = concat (map executing ws)"
  proof -
    have "(map executing ws)[k := []] = map executing ws" using assms(1,2) by (simp add: list_update_same_conv)
    then show ?thesis by (simp add: map_update)
  qed
  then show "concat (map executing ws') = concat (map executing ws)" unfolding j(1) by simp
  show eq: "Some (i, p) \<in> set ws' \<longleftrightarrow> Some (i, p) \<in> set (ws[k := None])" for i p unfolding j(1) by auto
  show "Some (i, p) \<in> set ws' \<longleftrightarrow> Some (i, p) \<in> set ws" if "p \<noteq> Ready"
    unfolding eq using that assms(1,2) by (auto simp: in_set_conv_nth nth_list_update; metis option.inject prod.inject)
  show "min m (length ws) \<le> length ws'" "m < length ws' \<Longrightarrow> last ws' \<noteq> None" using j(2,3) by simp_all
  show "ws' ! j = ws[k := None] ! j" if "j < length ws'" for j unfolding j(1) using that by (simp add: nth_append)
  show "length ws' \<le> length ws" using arg_cong [OF j(1), of length] by simp
qed

lemma map_woken_simps [simp]: "workers (notify_all_consumers s) = map (map_option (\<lambda>(n, p). (n, woken p))) (workers s)"
  "pool_size (notify_all_consumers s) = pool_size s" "tasks (notify_all_consumers s) = tasks s"
  "max_queue_size (notify_all_consumers s) = max_queue_size s" "stop (notify_all_consumers s) = stop s"
  "in_flight (notify_all_consumers s) = in_flight s" "clients (notify_all_consumers s) = (\<lambda>c. map_option consumer_woken (clients s c))"
  "failed (notify_all_consumers s) = failed s" "enqueued (notify_all_consumers s) = enqueued s"
  "started (notify_all_consumers s) = started s" "finished (notify_all_consumers s) = finished s"
  by (simp_all add: notify_all_consumers_def wake_clients_def)

lemma executing_woken [simp]: "executing (map_option (\<lambda>(n, p). (n, woken p)) w) = executing w"
  by (cases w rule: executing.cases) auto

lemma awake_woken: "k < length (workers s) \<Longrightarrow> workers s ! k \<noteq> None \<Longrightarrow> awake (workers (notify_all_consumers s) ! k)"
  by (cases "workers s ! k"; cases "snd (the (workers s ! k))") (auto simp: awake_def)

lemma executed_woken [simp]: "executed (notify_all_consumers s) = executed s"
  by (simp add: executed_def comp_def)

lemma phase_woken: "p \<noteq> Sleeping \<Longrightarrow> p \<noteq> Ready \<Longrightarrow> Some (i, p) = map_option (\<lambda>(n, p). (n, woken p)) w \<longleftrightarrow> w = Some (i, p)"
proof -
  assume "p \<noteq> Sleeping" "p \<noteq> Ready"
  then have "woken q = p \<longleftrightarrow> q = p" for q by (cases q) auto
  then show ?thesis by (cases w) (auto, metis)
qed

lemma pending_woken [simp]: "pending (notify_all_consumers s) = pending s" "signalling (notify_all_consumers s) = signalling s"
  by (auto simp: pending_def signalling_def image_iff phase_woken)

lemma leave_ok:
  assumes "pool_ok s" "k < length (workers s)" "workers s ! k = Some (n, Ready)"
    "(stop s \<and> tasks s = []) \<or> (\<not> stop s \<and> pool_size s < n + 1)"
  shows "pool_ok (leave n s)"
proof -
  have ok: "slots_ok s" "size_ok s" "tasks_ok s" "clients_ok s" using assms(1) by (simp_all add: pool_ok_def)
  have nk: "n = k" using ok(1) assms(2,3) by (auto simp: slots_ok_def)
  let ?ws = "pop_stopped (pool_size s) ((workers s)[k := None])"
  let ?s = "s\<lparr>workers := ?ws\<rparr>"
  note left = left_workers [OF assms(2,3), where m = "pool_size s"]
  have ex: "executed ?s = executed s" using left(1) by (simp add: executed_def)
  have pend: "pending ?s = pending s" "signalling ?s = signalling s"
    using left(3) by (simp_all add: pending_def signalling_def)
  have slots: "slots_ok ?s"
    unfolding slots_ok_def
  proof (intro allI impI)
    fix j i p assume j: "j < length (workers ?s)" "workers ?s ! j = Some (i, p)"
    then have "j < length (workers s)" "workers s ! j = Some (i, p)"
      using left(6,7) assms(2) by (auto simp: nth_list_update split: if_splits)
    then show "i = j \<and> (p = Sleeping \<longrightarrow> \<not> stop ?s \<and> j < pool_size ?s)" using ok(1) by (auto simp: slots_ok_def)
  qed
  have kept: "?ws ! j = workers s ! j \<and> j < length ?ws" if "\<not> stop s" "j < pool_size s" for j
  proof -
    have "j < length ?ws" "j \<noteq> k" using that left(4) size_okD(3) [OF ok(2)] assms(4) nk by auto
    then show ?thesis using left(6) by simp
  qed
  have run: "stop s" if "?ws = []" using kept [of 0] that size_okD(2) [OF ok(2)] by (cases "stop s") auto
  have last: "last ?ws \<noteq> None" if "?ws \<noteq> []"
  proof (cases "pool_size s < length ?ws")
    case False
    then have "\<not> stop s" using that size_okD(1) [OF ok(2)] by auto
    moreover have "length ?ws - 1 < pool_size s" using False that by (cases ?ws) auto
    ultimately show ?thesis using kept [of "length ?ws - 1"] that size_okD(4) [OF ok(2)] by (simp add: last_conv_nth)
  qed (use left(5) in blast)
  have size: "size_ok ?s"
  proof (rule size_okI)
    show "pool_size ?s \<le> length (workers ?s)" if "\<not> stop ?s" using that left(4) size_okD(3) [OF ok(2)] by simp
    show "workers ?s ! j \<noteq> None" if "\<not> stop ?s" "j < pool_size ?s" for j
      using that kept [of j] size_okD(4) [OF ok(2)] by simp
  qed (use size_okD [OF ok(2)] last in simp_all)
  have tasks: "tasks_ok ?s"
  proof (rule tasks_okI)
    show "\<exists>j < pool_size ?s. awake (workers ?s ! j)" if h: "tasks ?s \<noteq> []" "\<not> stop ?s"
    proof -
      obtain j where "j < pool_size s" "awake (workers s ! j)" using tasks_okD(4) [OF ok(3)] h by auto
      then show ?thesis using kept [of j] h by auto
    qed
    show "tasks ?s = []" if "stop ?s" using assms(4) that by auto
  qed (use tasks_okD(1-3) [OF ok(3)] ex in simp_all)
  show ?thesis
  proof (cases "?ws = []")
    case False
    have "client_ok ?s x" if "client_ok s x" for x
      by (rule client_ok_mono [OF that]) (use pend False in auto)
    then show ?thesis using False slots size tasks ok(4) assms(2,3) nk
      by (simp add: leave_def Let_def pool_ok_def clients_ok_def)
  next
    case True
    let ?t = "notify_all_consumers ?s"
    have "client_ok ?t (consumer_woken x)" if "client_ok s x" for x
      using that run [OF True] pend by (cases x) (auto simp: client_ok_def)
    then have "clients_ok ?t" using ok(4) by (auto simp: clients_ok_def)
    moreover have "slots_ok ?t" "size_ok ?t" "tasks_ok ?t"
      using True size_okD [OF size] tasks ex run [OF True] by (simp_all add: slots_ok_def size_ok_def tasks_ok_def)
    ultimately have "pool_ok ?t" by (simp add: pool_ok_def)
    then show ?thesis using True assms(2,3) nk by (simp add: leave_def Let_def)
  qed
qed

lemma turn_ok:
  assumes "pool_ok s" "k < length (workers s)" "workers s ! k = Some (n, Ready)"
  shows "pool_ok (worker_turn k n s)"
proof -
  consider "\<not> (stop s \<or> tasks s \<noteq> [] \<or> pool_size s < n + 1)"
    | "(stop s \<and> tasks s = []) \<or> (\<not> stop s \<and> pool_size s < n + 1)"
    | t ts where "tasks s = t # ts" "\<not> (\<not> stop s \<and> pool_size s < n + 1)"
    by (cases "tasks s") auto
  then show ?thesis
  proof cases
    case 1 then show ?thesis using sleep_ok [OF assms 1] by (simp add: worker_turn_def)
  next
    case 2
    then have "\<not> \<not> (stop s \<or> tasks s \<noteq> [] \<or> pool_size s < n + 1)" by blast
    with 2 show ?thesis using leave_ok [OF assms 2] by (simp add: worker_turn_def)
  next
    case 3 then show ?thesis using pop_ok [OF assms 3] by (auto simp: worker_turn_def)
  qed
qed

section \<open>Public operations\<close>

text \<open>A client that goes on to a state that needs no reason.\<close>

lemma set_client_ok: "pool_ok s \<Longrightarrow> client_ok s x \<Longrightarrow> pool_ok (set_client c x s)"
proof -
  assume s: "pool_ok s" "client_ok s x"
  let ?s = "set_client c x s"
  have w: "workers ?s = workers s" by simp
  have "client_ok ?s y = client_ok s y" for y using pending_eq [OF w] by (cases y) (simp_all add: client_ok_def)
  then show ?thesis using s slots_ok_cong [of ?s s] size_ok_cong [of ?s s] executed_eq [OF w]
    by (auto simp: pool_ok_def clients_ok_def tasks_ok_def)
qed

lemma wait_ok: "pool_ok s \<Longrightarrow> pool_ok (wait_until_empty c s)" "pool_ok s \<Longrightarrow> pool_ok (wait_until_nothing_in_flight c s)"
  by (auto simp: wait_until_empty_def wait_until_nothing_in_flight_def client_ok_def intro: set_client_ok)

lemma dtor_check_ok: "pool_ok s \<Longrightarrow> stop s \<Longrightarrow> pool_ok (dtor_check c s)"
proof (cases "workers s = []")
  case True
  assume s: "pool_ok s" "stop s"
  then have "in_flight s = 0" using True tasks_okD(1,5) [of s] by (simp add: pool_ok_def executed_def)
  then show ?thesis using s True by (auto simp: dtor_check_def client_ok_def intro: set_client_ok)
next
  case False
  assume "pool_ok s" "stop s"
  then show ?thesis using False by (auto simp: dtor_check_def client_ok_def intro: set_client_ok)
qed

lemma dtor_ok:
  assumes "pool_ok s"
  shows "pool_ok (dtor c s)"
proof -
  have ok: "slots_ok s" "size_ok s" "tasks_ok s" "clients_ok s" using assms by (simp_all add: pool_ok_def)
  let ?s = "notify_all_producers (notify_all_consumers (s\<lparr>stop := True, pool_size := 0\<rparr>))"
  have f: "workers ?s = map (map_option (\<lambda>(n, p). (n, woken p))) (workers s)" "stop ?s" "pool_size ?s = 0" "tasks ?s = tasks s"
    "in_flight ?s = in_flight s" "enqueued ?s = enqueued s" "started ?s = started s" "finished ?s = finished s"
    "max_queue_size ?s = max_queue_size s" "failed ?s = failed s"
    "clients ?s = (\<lambda>c. map_option producer_woken (map_option consumer_woken (clients s c)))"
    by (simp_all add: notify_all_producers_def)
  have ex: "executed ?s = executed s" by (simp add: executed_def f comp_def)
  have pend: "pending ?s = pending s" "signalling ?s = signalling s"
    by (auto simp: pending_def signalling_def f image_iff phase_woken)
  have nonempty: "workers s \<noteq> []" if "\<not> stop s" using size_okD(2,3) [OF ok(2) that] by auto
  have "slots_ok ?s" unfolding slots_ok_def
  proof (intro allI impI)
    fix k n p assume k: "k < length (workers ?s)" "workers ?s ! k = Some (n, p)"
    then obtain q where q: "workers s ! k = Some (n, q)" "p = woken q" unfolding f(1) by auto
    have "woken q \<noteq> Sleeping" by (cases q) simp_all
    then show "n = k \<and> (p = Sleeping \<longrightarrow> \<not> stop ?s \<and> k < pool_size ?s)"
      using q k(1) ok(1) unfolding f(1) by (auto simp: slots_ok_def)
  qed
  moreover have "size_ok ?s"
    by (rule size_okI) (use f size_okD(5-7) [OF ok(2)] in \<open>auto simp: last_map\<close>)
  moreover have "tasks_ok ?s"
    by (rule tasks_okI) (use f ex tasks_okD(1-3,5) [OF ok(3)] nonempty in auto)
  moreover have "client_ok ?s (producer_woken (consumer_woken x))" if "client_ok s x" for x
    using that pend f by (cases x) (auto simp: client_ok_def)
  then have "clients_ok ?s" using ok(4) unfolding clients_ok_def f(11) by auto
  ultimately have "pool_ok ?s" by (simp add: pool_ok_def)
  then show ?thesis unfolding dtor_def using dtor_check_ok f(2) by blast
qed

lemma limit_ok:
  assumes "pool_ok s"
  shows "pool_ok (set_queue_size_limit l s)"
proof (cases "stop s")
  case True then show ?thesis using assms by (simp add: set_queue_size_limit_def)
next
  case False
  have ok: "slots_ok s" "size_ok s" "tasks_ok s" "clients_ok s" using assms by (simp_all add: pool_ok_def)
  let ?s = "s\<lparr>max_queue_size := max l 1\<rparr>"
  have w: "workers ?s = workers s" by simp
  have base: "slots_ok ?s" "size_ok ?s" "tasks_ok ?s"
    using ok(1-3) executed_eq [OF w] by (simp_all add: slots_ok_def size_ok_def tasks_ok_def)
  show ?thesis
  proof (cases "max_queue_size s < max l 1")
    case False
    have "client_ok ?s x" if "client_ok s x" for x
      by (rule client_ok_mono [OF that]) (use False pending_eq [OF w] in auto)
    then show ?thesis using \<open>\<not> stop s\<close> False base ok(4)
      by (simp add: set_queue_size_limit_def Let_def pool_ok_def clients_ok_def)
  next
    case True
    let ?t = "notify_all_producers ?s"
    have wt: "workers ?t = workers s" by (simp add: notify_all_producers_def)
    have "client_ok ?t (producer_woken x)" if "client_ok s x" for x
      using that pending_eq [OF wt] by (cases x) (auto simp: client_ok_def notify_all_producers_def)
    then have "clients_ok ?t" using ok(4) by (auto simp: clients_ok_def notify_all_producers_def)
    moreover have "slots_ok ?t" "size_ok ?t" "tasks_ok ?t"
      using base executed_eq [OF wt] executed_eq [OF w]
      by (simp_all add: slots_ok_def size_ok_def tasks_ok_def notify_all_producers_def)
    ultimately show ?thesis using \<open>\<not> stop s\<close> True by (simp add: set_queue_size_limit_def Let_def pool_ok_def)
  qed
qed

section \<open>Starting workers\<close>

text \<open>\<open>ws'\<close> has the workers of \<open>ws\<close> and new ones about to begin.\<close>

definition grown :: "(nat \<times> 'a phase) option list \<Rightarrow> (nat \<times> 'a phase) option list \<Rightarrow> bool" where
  "grown ws ws' \<longleftrightarrow> length ws \<le> length ws' \<and> (\<forall>k < length ws. ws ! k \<noteq> None \<longrightarrow> ws' ! k = ws ! k) \<and>
     (\<forall>k < length ws'. \<forall>n p. ws' ! k = Some (n, p) \<longrightarrow> (k < length ws \<and> ws ! k = Some (n, p)) \<or> (n = k \<and> p = Ready)) \<and>
     concat (map executing ws') = concat (map executing ws) \<and>
     (ws = [] \<or> last ws \<noteq> None \<longrightarrow> ws' = [] \<or> last ws' \<noteq> None)"

lemma grown_refl: "grown ws ws" by (simp add: grown_def)

lemma grown_trans:
  assumes "grown ws ws1" "grown ws1 ws2"
  shows "grown ws ws2"
proof -
  have a: "length ws \<le> length ws1" "length ws1 \<le> length ws2" "\<And>k. k < length ws \<Longrightarrow> ws ! k \<noteq> None \<Longrightarrow> ws1 ! k = ws ! k"
    "\<And>k. k < length ws1 \<Longrightarrow> ws1 ! k \<noteq> None \<Longrightarrow> ws2 ! k = ws1 ! k"
    "\<And>k n p. k < length ws1 \<Longrightarrow> ws1 ! k = Some (n, p) \<Longrightarrow> (k < length ws \<and> ws ! k = Some (n, p)) \<or> (n = k \<and> p = Ready)"
    "\<And>k n p. k < length ws2 \<Longrightarrow> ws2 ! k = Some (n, p) \<Longrightarrow> (k < length ws1 \<and> ws1 ! k = Some (n, p)) \<or> (n = k \<and> p = Ready)"
    using assms by (simp_all add: grown_def)
  have "ws2 ! k = ws ! k" if "k < length ws" "ws ! k \<noteq> None" for k
    using a(3) [OF that] a(4) [of k] a(1) that by simp
  moreover have "(k < length ws \<and> ws ! k = Some (n, p)) \<or> (n = k \<and> p = Ready)" if "k < length ws2" "ws2 ! k = Some (n, p)" for k n p
    using a(5,6) that by blast
  ultimately show ?thesis using a(1,2) assms unfolding grown_def by auto
qed

lemma grown_pending:
  assumes "grown (workers s) (workers s')"
  shows "pending s' = pending s" "signalling s' = signalling s" "executed s' = executed s"
proof -
  have len: "length (workers s) \<le> length (workers s')"
    and keep: "\<And>k. k < length (workers s) \<Longrightarrow> workers s ! k \<noteq> None \<Longrightarrow> workers s' ! k = workers s ! k"
    and new: "\<And>k n p. k < length (workers s') \<Longrightarrow> workers s' ! k = Some (n, p) \<Longrightarrow>
      (k < length (workers s) \<and> workers s ! k = Some (n, p)) \<or> (n = k \<and> p = Ready)"
    using assms by (simp_all add: grown_def)
  have "Some (n, p) \<in> set (workers s') \<longleftrightarrow> Some (n, p) \<in> set (workers s)" if "p \<noteq> Ready" for n p
  proof
    assume "Some (n, p) \<in> set (workers s')"
    then obtain k where "k < length (workers s')" "workers s' ! k = Some (n, p)" by (metis in_set_conv_nth)
    then show "Some (n, p) \<in> set (workers s)" using new that nth_mem by metis
  next
    assume "Some (n, p) \<in> set (workers s)"
    then obtain k where k: "k < length (workers s)" "workers s ! k = Some (n, p)" by (metis in_set_conv_nth)
    then have "workers s' ! k = Some (n, p)" using keep [of k] by simp
    then show "Some (n, p) \<in> set (workers s')" using k(1) len nth_mem [of k "workers s'"] by simp
  qed
  then show "pending s' = pending s" "signalling s' = signalling s" by (simp_all add: pending_def signalling_def)
  show "executed s' = executed s" using assms by (simp add: grown_def executed_def)
qed

lemma start_worker_grows:
  assumes "n \<le> length (workers s)"
  shows "\<exists>ws. start_worker n s = s\<lparr>workers := ws\<rparr> \<and> grown (workers s) ws \<and> n < length ws \<and> ws ! n \<noteq> None"
proof -
  consider "n = length (workers s)" | "n < length (workers s)" "workers s ! n = None" | "n < length (workers s)" "workers s ! n \<noteq> None"
    using assms by linarith
  then show ?thesis
  proof cases
    case 1
    then show ?thesis
      by (intro exI [of _ "workers s @ [Some (n, Ready)]"]) (auto simp: start_worker_def grown_def nth_append split: if_splits)
  next
    case 2
    have "(map executing (workers s))[n := []] = map executing (workers s)" using 2 by (simp add: list_update_same_conv)
    then have ex: "map executing ((workers s)[n := Some (n, Ready)]) = map executing (workers s)" by (simp add: map_update)
    let ?ws = "(workers s)[n := Some (n, Ready)]"
    have "workers s \<noteq> []" using 2(1) by auto
    then have "last ?ws \<noteq> None" if "last (workers s) \<noteq> None" using that by (simp add: last_list_update)
    then have "grown (workers s) ?ws" using 2 ex unfolding grown_def by (simp add: nth_list_update)
    then show ?thesis using 2 by (intro exI [of _ ?ws]) (simp add: start_worker_def put_def)
  next
    case 3 then show ?thesis by (intro exI [of _ "workers s"]) (auto simp: start_worker_def grown_refl)
  qed
qed

lemma start_workers_grow:
  assumes "a \<le> length (workers s)" "a \<le> b" "\<forall>k < a. workers s ! k \<noteq> None"
  shows "\<exists>ws. fold start_worker [a..<b] s = s\<lparr>workers := ws\<rparr> \<and> grown (workers s) ws \<and> b \<le> length ws \<and> (\<forall>k < b. ws ! k \<noteq> None)"
  using assms(2)
proof (induction b)
  case 0
  then show ?case using assms(1) by (intro exI [of _ "workers s"]) (simp add: grown_refl)
next
  case (Suc b)
  show ?case
  proof (cases "a = Suc b")
    case True
    then show ?thesis using assms(1,3) by (intro exI [of _ "workers s"]) (simp add: grown_refl)
  next
    case False
    then obtain ws where ws: "fold start_worker [a..<b] s = s\<lparr>workers := ws\<rparr>" "grown (workers s) ws" "b \<le> length ws" "\<forall>k < b. ws ! k \<noteq> None"
      using Suc by auto
    obtain ws' where ws': "start_worker b (s\<lparr>workers := ws\<rparr>) = s\<lparr>workers := ws'\<rparr>" "grown ws ws'" "b < length ws'" "ws' ! b \<noteq> None"
      using start_worker_grows [of b "s\<lparr>workers := ws\<rparr>"] ws(3) by auto
    have "ws' ! k \<noteq> None" if "k < Suc b" for k
      using that ws(3,4) ws'(2,4) by (cases "k = b") (auto simp: grown_def)
    then show ?thesis using ws ws' grown_trans [OF ws(2) ws'(2)] False Suc.prems
      by (intro exI [of _ ws']) (simp add: Suc_le_eq)
  qed
qed

lemma set_pool_size_ok:
  assumes "pool_ok s"
  shows "pool_ok (set_pool_size l s)"
proof (cases "stop s")
  case True then show ?thesis using assms by (simp add: set_pool_size_def)
next
  case False
  have ok: "slots_ok s" "size_ok s" "tasks_ok s" "clients_ok s" using assms by (simp_all add: pool_ok_def)
  let ?l = "if l < 1 then 1 else l" and ?old = "pool_size s"
  let ?s = "s\<lparr>pool_size := ?l\<rparr>"
  have l: "0 < ?l" by simp
  have old: "0 < ?old" "?old \<le> length (workers s)" "\<And>k. k < ?old \<Longrightarrow> workers s ! k \<noteq> None" using size_okD(2-4) [OF ok(2) False] by auto
  have w: "workers ?s = workers s" by simp
  have eq: "set_pool_size l s = (if ?old < ?l then fold start_worker [?old..<?l] ?s
      else if ?l < ?old then notify_all_consumers ?s else s)"
    using False old(2) by (simp add: set_pool_size_def Let_def)
  consider "?old < ?l" | "?l < ?old" | "?l = ?old" by linarith
  then show ?thesis
  proof cases
    case 1
    obtain ws where ws: "fold start_worker [?old..<?l] ?s = ?s\<lparr>workers := ws\<rparr>" "grown (workers s) ws" "?l \<le> length ws"
      "\<forall>k < ?l. ws ! k \<noteq> None"
      using start_workers_grow [of ?old ?s ?l] old 1 by auto
    let ?t = "?s\<lparr>workers := ws\<rparr>"
    have g: "grown (workers s) (workers ?t)" using ws(2) by simp
    note same = grown_pending [OF g]
    have "slots_ok ?t"
    proof -
      have "n = k \<and> (p = Sleeping \<longrightarrow> k < ?l)" if h: "k < length ws" "ws ! k = Some (n, p)" for k n p
      proof -
        consider "k < length (workers s)" "workers s ! k = Some (n, p)" | "n = k" "p = Ready" using ws(2) h unfolding grown_def by blast
        then show ?thesis by cases (use ok(1) 1 in \<open>auto simp: slots_ok_def\<close>)
      qed
      then show ?thesis using False by (simp add: slots_ok_def)
    qed
    moreover have "size_ok ?t"
      by (rule size_okI) (use False l ws size_okD(5-7) [OF ok(2)] in \<open>auto simp: grown_def\<close>)
    moreover have "tasks_ok ?t"
    proof (rule tasks_okI)
      show "\<exists>k < pool_size ?t. awake (workers ?t ! k)" if h: "tasks ?t \<noteq> []"
      proof -
        obtain k where k: "k < ?old" "awake (workers s ! k)" using tasks_okD(4) [OF ok(3)] h False by auto
        then have "ws ! k = workers s ! k" using ws(2) old(2,3) by (simp add: grown_def)
        then show ?thesis using k 1 by (intro exI [of _ k]) simp
      qed
    qed (use tasks_okD(1-3) [OF ok(3)] same False in simp_all)
    moreover have "client_ok ?t x" if "client_ok s x" for x
      by (rule client_ok_mono [OF that]) (use same ws(3) l in auto)
    then have "clients_ok ?t" using ok(4) by (simp add: clients_ok_def)
    ultimately show ?thesis unfolding eq using 1 ws(1) by (simp add: pool_ok_def)
  next
    case 2
    let ?t = "notify_all_consumers ?s"
    have "woken q \<noteq> Sleeping" for q :: "'a phase" by (cases q) simp_all
    then have wk: "workers ?t ! k \<noteq> Some (n, Sleeping)" if "k < length (workers s)" for k n using that by auto
    have "slots_ok ?t"
    proof -
      have "n = k \<and> (p = Sleeping \<longrightarrow> False)" if "k < length (workers s)" "workers ?t ! k = Some (n, p)" for k n p
        using wk [OF that(1), of n] that ok(1) by (auto simp: slots_ok_def)
      then show ?thesis by (simp add: slots_ok_def)
    qed
    moreover have "size_ok ?t"
      by (rule size_okI) (use False l 2 old size_okD(5-7) [OF ok(2)] in \<open>auto simp: last_map\<close>)
    moreover have "tasks_ok ?t"
    proof (rule tasks_okI)
      have "awake (workers ?t ! 0)" by (rule awake_woken) (use old(1,2) old(3) [of 0] in auto)
      then show "\<exists>k < pool_size ?t. awake (workers ?t ! k)" using l by auto
    qed (use tasks_okD(1-3) [OF ok(3)] False executed_eq [OF w] in simp_all)
    moreover have "client_ok ?t (consumer_woken x)" if "client_ok s x" for x
      using that False pending_eq [OF w] by (cases x) (auto simp: client_ok_def)
    then have "clients_ok ?t" using ok(4) by (auto simp: clients_ok_def)
    ultimately show ?thesis unfolding eq using 2 by (simp add: pool_ok_def)
  next
    case 3 then show ?thesis unfolding eq using assms by simp
  qed
qed

section \<open>Enqueueing, and every step\<close>

lemma add_task_ok:
  assumes "pool_ok s" "\<not> stop s" "\<exists>k < pool_size s. awake (workers s ! k)"
  shows "pool_ok (s\<lparr>tasks := tasks s @ [t], in_flight := in_flight s + 1, enqueued := enqueued s @ [t]\<rparr>)" (is "pool_ok ?s")
proof -
  have ok: "slots_ok s" "size_ok s" "tasks_ok s" "clients_ok s" using assms(1) by (simp_all add: pool_ok_def)
  have w: "workers ?s = workers s" by simp
  have "client_ok ?s x" if "client_ok s x" for x
    by (rule client_ok_mono [OF that]) (use pending_eq [OF w] in auto)
  moreover have "tasks_ok ?s"
    by (rule tasks_okI) (use assms tasks_okD(1-3) [OF ok(3)] executed_eq [OF w] in auto)
  ultimately show ?thesis using ok slots_ok_cong [of ?s s] size_ok_cong [of ?s s] by (simp add: pool_ok_def clients_ok_def)
qed

lemma sleeps_iff: "sleeps s k \<longleftrightarrow> k < length (workers s) \<and> (\<exists>n. workers s ! k = Some (n, Sleeping))"
  by (auto simp: sleeps_def split: option.splits prod.splits phase.splits)

lemma enqueue_ok:
  assumes "pool_ok s" "may_wake w s"
  shows "pool_ok (enqueue w c t s)"
proof -
  have ok: "slots_ok s" "size_ok s" "tasks_ok s" "clients_ok s" using assms(1) by (simp_all add: pool_ok_def)
  consider "max_queue_size s \<le> length (tasks s)" "\<not> stop s" | "stop s" | "length (tasks s) < max_queue_size s" "\<not> stop s" by linarith
  then show ?thesis
  proof cases
    case 1 then show ?thesis using assms(1) by (auto simp: enqueue_def client_ok_def intro: set_client_ok)
  next
    case 2 then show ?thesis using assms(1) by (auto simp: enqueue_def client_ok_def intro: set_client_ok)
  next
    case 3
    let ?add = "\<lambda>s. s\<lparr>tasks := tasks s @ [t], in_flight := in_flight s + 1, enqueued := enqueued s @ [t]\<rparr>"
    have "pool_ok (notify_one_consumer w (?add s))"
    proof (cases w)
      case None
      have "workers s ! 0 \<noteq> None" "0 < length (workers s)" "0 < pool_size s" using size_okD(2-4) [OF ok(2) 3(2)] by auto
      moreover have "\<not> sleeps s 0" using assms(2) None calculation(2) by (simp add: may_wake_def)
      ultimately have "awake (workers s ! 0)" by (auto simp: sleeps_def awake_def)
      then show ?thesis using add_task_ok [OF assms(1) 3(2)] None \<open>0 < pool_size s\<close> by (auto simp: notify_one_consumer_def)
    next
      case (Some a)
      show ?thesis
      proof (cases a)
        case (Inl k)
        then obtain n where k: "k < length (workers s)" "workers s ! k = Some (n, Sleeping)"
          using assms(2) Some by (auto simp: may_wake_def sleeps_iff)
        then have "k < pool_size s" using ok(1) by (auto simp: slots_ok_def)
        then have "pool_ok (?add (put k n Ready s))"
          by (intro add_task_ok spurious_ok [OF assms(1) k] exI [of _ k]) (use 3(2) k(1) in \<open>simp_all add: awake_def\<close>)
        moreover have "notify_one_consumer w (?add s) = ?add (put k n Ready s)"
          using k Some Inl by (cases s) (simp add: notify_one_consumer_def put_def)
        ultimately show ?thesis by simp
      next
        case (Inr d)
        then have "clients s d = Some Dtor_waits" using assms(2) Some by (simp add: may_wake_def)
        then have "client_ok s Dtor_waits" using ok(4) by (simp add: clients_ok_def)
        then show ?thesis using 3(2) by (simp add: client_ok_def)
      qed
    qed
    then show ?thesis using 3 by (auto simp: enqueue_def client_ok_def intro: set_client_ok)
  qed
qed

lemma ThreadPool_ok: "0 < threads \<Longrightarrow> pool_ok (ThreadPool threads :: 'a pool)"
proof -
  assume t: "0 < threads"
  obtain ws where ws: "(ThreadPool threads :: 'a pool) = (new_pool threads)\<lparr>workers := ws\<rparr>" "grown [] ws" "threads \<le> length ws" "\<forall>k < threads. ws ! k \<noteq> None"
    using start_workers_grow [of 0 "new_pool threads :: 'a pool" threads] by (auto simp: ThreadPool_def new_pool_def)
  have g: "concat (map executing ws) = []" "ws = [] \<or> last ws \<noteq> None" "\<And>k n p. k < length ws \<Longrightarrow> ws ! k = Some (n, p) \<Longrightarrow> n = k \<and> p = Ready"
    using ws(2) by (auto simp: grown_def)
  let ?s = "ThreadPool threads :: 'a pool"
  have f: "workers ?s = ws" "pool_size ?s = threads" "tasks ?s = []"
    "max_queue_size ?s = 100000" "\<not> stop ?s" "in_flight ?s = 0"
    "clients ?s = (\<lambda>_. None)" "\<not> failed ?s" "enqueued ?s = []"
    "started ?s = []" "finished ?s = []" "executed ?s = []"
    using g(1) by (simp_all add: ws(1) new_pool_def executed_def)
  have "slots_ok ?s" using g(3) unfolding slots_ok_def f(1,2) by (metis phase.distinct(1))
  moreover have "size_ok ?s" using g(2) ws(3,4) t by (auto simp: size_ok_def f)
  moreover have "tasks_ok ?s" by (rule tasks_okI) (simp_all add: f)
  ultimately show ?thesis by (simp add: pool_ok_def clients_ok_def f(7))
qed

lemma client_turn_ok:
  assumes "pool_ok s" "clients s c = Some x" "may_wake w s"
  shows "pool_ok (client_turn w c x s)"
proof -
  have "client_ok s x" using assms(1,2) by (simp add: pool_ok_def clients_ok_def)
  then show ?thesis using assms(1,3)
    by (cases x) (auto simp: client_ok_def intro: enqueue_ok wait_ok set_client_ok limit_ok set_pool_size_ok dtor_ok dtor_check_ok)
qed

lemma pool_step_ok: "pool_step s s' \<Longrightarrow> pool_ok s \<Longrightarrow> pool_ok s'"
proof (induction rule: pool_step.induct)
  case (calls s c x)
  then show ?case by (cases x) (auto simp: client_ok_def intro!: set_client_ok)
next
  case (spurious_client s c x)
  then have "client_ok s x" by (simp add: pool_ok_def clients_ok_def)
  then have "client_ok s (consumer_woken (producer_woken (idle_woken x)))" by (cases x) (auto simp: client_ok_def)
  then show ?case using spurious_client by (auto intro: set_client_ok)
qed (blast intro: turn_ok notify_ok done_ok signal_ok spurious_ok client_turn_ok)+

lemma pool_run_ok: "pool_run s s' \<Longrightarrow> pool_ok s \<Longrightarrow> pool_ok s'"
  by (induction rule: pool_run.induct) (auto intro: pool_step_ok)

section \<open>The workers run down\<close>

text \<open>The steps of the workers alone, and what they have left to do.\<close>

inductive worker_step :: "'a pool \<Rightarrow> 'a pool \<Rightarrow> bool" where
  "k < length (workers s) \<Longrightarrow> workers s ! k = Some (n, Ready) \<Longrightarrow> worker_step s (worker_turn k n s)"
| "k < length (workers s) \<Longrightarrow> workers s ! k = Some (n, Popped t b) \<Longrightarrow> worker_step s (worker_notify k n t b s)"
| "k < length (workers s) \<Longrightarrow> workers s ! k = Some (n, Running t) \<Longrightarrow> worker_step s (worker_done k n t s)"
| "k < length (workers s) \<Longrightarrow> workers s ! k = Some (n, Signalling) \<Longrightarrow> worker_step s (worker_signal k n s)"

inductive_cases worker_stepE: "worker_step s s'"

fun phase_weight :: "(nat \<times> 'a phase) option \<Rightarrow> nat" where
  "phase_weight (Some (n, Ready)) = 1"
| "phase_weight (Some (n, Signalling)) = 2"
| "phase_weight (Some (n, Running t)) = 3"
| "phase_weight (Some (n, Popped t b)) = 4"
| "phase_weight _ = 0"

definition weight :: "'a pool \<Rightarrow> nat" where
  "weight s = 4 * length (tasks s) + sum_list (map phase_weight (workers s))"

lemma worker_step_pool_step: "worker_step s s' \<Longrightarrow> pool_step s s'"
  by (induction rule: worker_step.induct) (auto intro: pool_step.intros)

lemma worker_steps_run: "worker_step\<^sup>*\<^sup>* s s' \<Longrightarrow> pool_run s0 s \<Longrightarrow> pool_run s0 s'"
  by (induction rule: rtranclp_induct) (auto intro: run_step worker_step_pool_step)

lemma weight_put: "k < length ws \<Longrightarrow>
    sum_list (map phase_weight (ws[k := w])) + phase_weight (ws ! k) = sum_list (map phase_weight ws) + phase_weight w"
proof -
  assume k: "k < length ws"
  have "ws = take k ws @ ws ! k # drop (Suc k) ws" using k by (simp add: id_take_nth_drop)
  then have "sum_list (map phase_weight ws) = sum_list (map phase_weight (take k ws @ ws ! k # drop (Suc k) ws))" by simp
  then show ?thesis using k by (simp add: upd_conv_take_nth_drop)
qed

lemma weight_pop: "sum_list (map phase_weight (pop_stopped m ws)) = sum_list (map phase_weight ws)"
proof (induction m ws rule: pop_stopped.induct)
  case (1 m ws)
  show ?case
  proof (cases "m < length ws \<and> last ws = None")
    case True
    then have "ws = butlast ws @ [None]" by (metis append_butlast_last_id length_0_conv not_less0)
    then have "sum_list (map phase_weight ws) = sum_list (map phase_weight (butlast ws @ [None]))" by simp
    then show ?thesis using 1 True by (simp add: pop_stopped.simps [of m ws])
  next
    case False then show ?thesis by (subst pop_stopped.simps) auto
  qed
qed

lemma weight_leave:
  assumes "k < length (workers s)" "workers s ! k = Some (k, Ready)"
  shows "weight (leave k s) < weight s"
proof -
  let ?ws = "pop_stopped (pool_size s) ((workers s)[k := None])"
  have "sum_list (map phase_weight ?ws) + 1 = sum_list (map phase_weight (workers s))"
    using weight_put [OF assms(1), of None] assms(2) weight_pop [of "pool_size s" "(workers s)[k := None]"] by simp
  then show ?thesis using assms by (auto simp: leave_def Let_def weight_def)
qed

lemma weight_step:
  assumes "worker_step s s'" "pool_ok s"
  shows "weight s' < weight s"
  using assms(1)
proof (cases rule: worker_step.cases)
  case (1 k n)
  then have "n = k" using assms(2) by (auto simp: pool_ok_def slots_ok_def)
  note w = weight_put [OF 1(2)]
  show ?thesis
    using 1 \<open>n = k\<close> w [of "Some (n, Sleeping)"] w [of "Some (n, Popped (hd (tasks s)) b)" for b] weight_leave [of k s]
    by (auto simp: worker_turn_def weight_def split: list.splits)
next
  case (2 k n t b)
  then show ?thesis using weight_put [OF 2(2), of "Some (n, Running t)"]
    by (auto simp: worker_notify_def weight_def notify_all_producers_def)
next
  case (3 k n t)
  then show ?thesis using weight_put [OF 3(2), of "Some (n, if in_flight s = 1 then Signalling else Ready)"]
    by (auto simp: worker_done_def weight_def split: if_splits)
next
  case (4 k n)
  then show ?thesis using weight_put [OF 4(2), of "Some (n, Ready)"]
    by (auto simp: worker_signal_def weight_def notify_all_idle_def)
qed

lemma weight_steps: "(worker_step ^^ m) s s' \<Longrightarrow> pool_ok s \<Longrightarrow> m + weight s' \<le> weight s \<and> pool_ok s'"
proof (induction m arbitrary: s')
  case (Suc m)
  then obtain s1 where "(worker_step ^^ m) s s1" "worker_step s1 s'" by auto
  then show ?case using Suc weight_step [of s1 s'] pool_step_ok [OF worker_step_pool_step] by fastforce
qed simp

text \<open>A worker that is awake can make a step; when none can, the work is done.\<close>

lemma awake_steps: "k < length (workers s) \<Longrightarrow> awake (workers s ! k) \<Longrightarrow> \<exists>s'. worker_step s s'"
proof -
  assume k: "k < length (workers s)" "awake (workers s ! k)"
  then obtain n p where w: "workers s ! k = Some (n, p)" "p \<noteq> Sleeping" by (auto simp: awake_def)
  then show ?thesis by (cases p) (metis k(1) worker_step.intros)+
qed

lemma in_workers_awake: "Some (n, p) \<in> set (workers s) \<Longrightarrow> p \<noteq> Sleeping \<Longrightarrow> \<exists>k < length (workers s). awake (workers s ! k)"
  by (auto simp: in_set_conv_nth awake_def)

lemma executed_awake: "executed s \<noteq> [] \<Longrightarrow> \<exists>k < length (workers s). awake (workers s ! k)"
proof -
  assume "executed s \<noteq> []"
  then obtain w where w: "w \<in> set (workers s)" "executing w \<noteq> []" by (auto simp: executed_def)
  then obtain n p where "w = Some (n, p)" "p \<noteq> Sleeping" by (cases w rule: executing.cases) auto
  then show ?thesis using in_workers_awake w(1) by blast
qed

lemma stopped_awake: "pool_ok s \<Longrightarrow> stop s \<Longrightarrow> workers s \<noteq> [] \<Longrightarrow> \<exists>k < length (workers s). awake (workers s ! k)"
proof -
  assume s: "pool_ok s" "stop s" "workers s \<noteq> []"
  then have "last (workers s) \<noteq> None" by (simp add: pool_ok_def size_ok_def)
  then obtain n p where w: "workers s ! (length (workers s) - 1) = Some (n, p)" using s(3) by (auto simp: last_conv_nth)
  moreover have "length (workers s) - 1 < length (workers s)" using s(3) by simp
  ultimately have "p \<noteq> Sleeping" using s(1,2) unfolding pool_ok_def slots_ok_def by metis
  then show ?thesis using w s(3) in_workers_awake [of n p s] nth_mem [of "length (workers s) - 1" "workers s"] by simp
qed

fun waits :: "'a client \<Rightarrow> bool" where
  "waits (Enqueue_waits t) = True"
| "waits Empty_waits = True"
| "waits Idle_waits = True"
| "waits Dtor_waits = True"
| "waits _ = False"

lemma quiescent:
  assumes "pool_ok s" "\<And>s'. \<not> worker_step s s'"
  shows "tasks s = []" "executed s = []" "in_flight s = 0" "stop s \<Longrightarrow> workers s = []" "clients s c = Some x \<Longrightarrow> \<not> waits x"
proof -
  have ok: "size_ok s" "tasks_ok s" "clients_ok s" using assms(1) by (simp_all add: pool_ok_def)
  have no: "\<not> (\<exists>k < length (workers s). awake (workers s ! k))" using assms(2) awake_steps by blast
  show ex: "executed s = []" using no executed_awake by blast
  show st: "workers s = []" if "stop s" using no stopped_awake [OF assms(1)] that by blast
  show ts: "tasks s = []"
  proof (cases "stop s")
    case True then show ?thesis using st tasks_okD(5) [OF ok(2)] by simp
  next
    case False
    then show ?thesis using no tasks_okD(4) [OF ok(2)] size_okD(3) [OF ok(1)] by (meson less_le_trans)
  qed
  show fl: "in_flight s = 0" using ex ts tasks_okD(1) [OF ok(2)] by simp
  have "\<not> pending s" "\<not> signalling s" using no in_workers_awake [of _ _ s] unfolding pending_def signalling_def by (metis phase.distinct)+
  then show "\<not> waits x" if "clients s c = Some x"
    using ok(3) ts fl st size_okD(6) [OF ok(1)] that by (cases x) (force simp: clients_ok_def client_ok_def)+
qed

section \<open>The pool as its clients see it\<close>

text \<open>The state after one client has enqueued a task in a pool of one thread, for the witnesses.\<close>

definition one_task :: "nat pool" where
  "one_task = client_turn None 0 (Enqueue 7) (set_client 0 (Enqueue 7) (ThreadPool 1))"

lemma ThreadPool_one: "ThreadPool 1 = (new_pool 1)\<lparr>workers := [Some (0, Ready)]\<rparr>"
  by (simp add: ThreadPool_def start_worker_def new_pool_def)

lemma one_task_eq: "one_task = (new_pool 1)\<lparr>workers := [Some (0, Ready)], tasks := [7], in_flight := 1,
    clients := [0 \<mapsto> Returned], enqueued := [7]\<rparr>"
  unfolding one_task_def ThreadPool_one
  by (simp add: enqueue_def notify_one_consumer_def set_client_def new_pool_def)

lemma one_task_reachable: "pool_run (ThreadPool 1) one_task"
  unfolding one_task_def
  by (rule run_step [OF run_step [OF run_none calls] client])
     (simp_all add: ThreadPool_one [unfolded One_nat_def] new_pool_def set_client_def may_wake_def sleeps_def)

definition worked :: "nat pool" where
  "worked = worker_turn 0 0 (worker_signal 0 0 (worker_done 0 0 7 (worker_notify 0 0 7 True (worker_turn 0 0 one_task))))"

lemma worked_eq: "worked = (new_pool 1)\<lparr>workers := [Some (0, Sleeping)], clients := [0 \<mapsto> Returned],
    enqueued := [7], started := [7], finished := [7]\<rparr>"
  unfolding worked_def one_task_eq
  by (simp add: worker_turn_def worker_signal_def worker_done_def worker_notify_def put_def notify_all_producers_def
      notify_all_idle_def wake_clients_def new_pool_def fun_eq_iff)

lemma worked_steps: "worker_step\<^sup>*\<^sup>* one_task worked"
proof -
  let ?a = "worker_turn 0 0 one_task"
  let ?b = "worker_notify 0 0 7 True ?a"
  let ?c = "worker_done 0 0 7 ?b"
  let ?d = "worker_signal 0 0 ?c"
  note d = worker_turn_def worker_signal_def worker_done_def worker_notify_def put_def notify_all_producers_def
      notify_all_idle_def wake_clients_def new_pool_def one_task_eq
  have "worker_step one_task ?a" "worker_step ?a ?b" "worker_step ?b ?c" "worker_step ?c ?d" "worker_step ?d worked"
    unfolding worked_def by (rule worker_step.intros; simp add: d)+
  then show ?thesis by (meson rtranclp.rtrancl_refl rtranclp.rtrancl_into_rtrancl)
qed

lemma worked_done: "\<not> worker_step worked s'"
  by (auto simp: worked_eq new_pool_def elim!: worker_stepE)

text \<open>C22: in every state that a pool of at least one thread can reach, whatever its threads and clients
  do and in whatever order, no assertion has failed, \<open>in_flight\<close> is the number of tasks that wait or are being run,
  tasks are taken in the order in which they were enqueued, each once, and those taken are finished or being run.\<close>
theorem pool_invariant:
  assumes "0 < threads" "pool_run (ThreadPool threads) s"
  shows "\<not> failed s \<and> in_flight s = length (tasks s) + length (executed s) \<and> enqueued s = started s @ tasks s \<and>
    mset (started s) = mset (finished s) + mset (executed s)"
  using pool_run_ok [OF assms(2) ThreadPool_ok [OF assms(1)]] by (simp add: pool_ok_def size_ok_def tasks_ok_def)

theorem pool_invariant_witness:
  "\<not> failed one_task \<and> in_flight one_task = length (tasks one_task) + length (executed one_task) \<and>
    enqueued one_task = started one_task @ tasks one_task \<and>
    mset (started one_task) = mset (finished one_task) + mset (executed one_task)"
  by (rule pool_invariant [OF _ one_task_reachable]) simp

text \<open>C23: no wake-up is lost.  From a reachable state the workers, left alone, make at most \<open>weight s\<close> steps, whatever
  their order, and when they can make no more every enqueued task has been finished, nothing is in flight and no
  client sleeps: neither one that waits for room, for the queue to be empty or for the last task, nor the destructor.\<close>
theorem workers_finish:
  assumes "0 < threads" "pool_run (ThreadPool threads) s" "(worker_step ^^ m) s s'"
  shows "m \<le> weight s \<and> ((\<forall>t. \<not> worker_step s' t) \<longrightarrow>
    tasks s' = [] \<and> in_flight s' = 0 \<and> mset (finished s') = mset (enqueued s') \<and> (stop s' \<longrightarrow> workers s' = []) \<and>
    (\<forall>c x. clients s' c = Some x \<longrightarrow> \<not> waits x))"
proof -
  have w: "m + weight s' \<le> weight s" "pool_ok s'"
    using weight_steps [OF assms(3) pool_run_ok [OF assms(2) ThreadPool_ok [OF assms(1)]]] by auto
  have "mset (finished s') = mset (enqueued s')" if "\<forall>t. \<not> worker_step s' t"
    using quiescent(1,2) [OF w(2)] that w(2) by (simp add: pool_ok_def tasks_ok_def)
  then show ?thesis using w(1) quiescent [OF w(2)] by auto
qed

theorem workers_finish_witness:
  "tasks worked = [] \<and> mset (finished worked) = mset (enqueued worked) \<and> enqueued worked = [7]"
proof -
  obtain m where "(worker_step ^^ m) one_task worked" using worked_steps by (auto simp: rtranclp_power)
  then show ?thesis using workers_finish [OF _ one_task_reachable] worked_done by (simp add: worked_eq new_pool_def)
qed

text \<open>C24: once the pool is being stopped the destructor returns only when no worker is left, and then every
  task that was ever enqueued has been finished and its assertion holds.\<close>
theorem dtor_drains:
  assumes "0 < threads" "pool_run (ThreadPool threads) s" "stop s" "clients (dtor_check c s) c = Some Returned"
  shows "workers s = [] \<and> tasks s = [] \<and> mset (finished s) = mset (enqueued s) \<and> \<not> failed (dtor_check c s)"
proof -
  have s: "pool_ok s" by (rule pool_run_ok [OF assms(2) ThreadPool_ok [OF assms(1)]])
  have w: "workers s = []" using assms(4) by (auto simp: dtor_check_def split: if_splits)
  then have "executed s = []" by (simp add: executed_def)
  moreover have "\<not> failed (dtor_check c s)" using dtor_check_ok [OF s assms(3)] by (simp add: pool_ok_def size_ok_def)
  ultimately show ?thesis using s w assms(3) by (simp add: pool_ok_def tasks_ok_def)
qed

definition drained :: "nat pool" where
  "drained = worker_turn 0 0 (client_turn (Some (Inl 0)) 1 Dtor (set_client 1 Dtor worked))"

lemma drained_eq: "drained = worked\<lparr>workers := [], pool_size := 0, stop := True, clients := [0 \<mapsto> Returned, 1 \<mapsto> Dtor_check]\<rparr>"
  unfolding drained_def worked_eq
  by (simp add: dtor_def dtor_check_def worker_turn_def leave_def pop_stopped.simps set_client_def notify_all_producers_def
      notify_all_consumers_def wake_clients_def new_pool_def fun_eq_iff)

lemma drained_reachable: "pool_run (ThreadPool 1) drained"
  unfolding drained_def
  by (rule run_step [OF run_step [OF run_step [OF worker_steps_run [OF worked_steps one_task_reachable] calls] client] turn])
     (simp_all add: worked_eq new_pool_def set_client_def may_wake_def sleeps_def dtor_def dtor_check_def
      notify_all_producers_def notify_all_consumers_def wake_clients_def)

theorem dtor_drains_witness: "tasks drained = [] \<and> mset (finished drained) = mset (enqueued drained) \<and> enqueued drained = [7]"
  using dtor_drains [OF _ drained_reachable, of 1]
  by (simp add: drained_eq worked_eq new_pool_def dtor_check_def set_client_def)

text \<open>A pool without threads takes a task that no thread will ever run; its destructor returns at once, and the
  assertion on \<open>in_flight\<close> fails.\<close>
theorem no_threads_lose_tasks:
  "clients (enqueue None 0 t (ThreadPool 0)) 0 = Some Returned" "tasks (enqueue None 0 t (ThreadPool 0)) = [t]"
  "\<not> worker_step (enqueue None 0 t (ThreadPool 0)) s'"
  "failed (dtor 1 (enqueue None 0 t (ThreadPool 0)))"
  by (auto simp: ThreadPool_def new_pool_def enqueue_def notify_one_consumer_def dtor_def dtor_check_def
      notify_all_producers_def notify_all_consumers_def wake_clients_def elim!: worker_stepE)

end
