(* ===== verification/Md5.thy ===== *)
theory Md5
  imports MsgBuffers
begin

unbundle bit_operations_syntax

text \<open>
  \<open>src-linux/md5.cpp\<close>: the class \<open>MD5\<close>.  An object is a record of its members; the words are 32 bits
  wide and wrap.  \<open>None\<close>: memory outside a buffer is touched, or a loop does not end.  What an object
  has in \<open>buffer\<close> and \<open>digest\<close> before it is used is arbitrary, so the constructors take the memory they
  initialise.  Logging is left out.
\<close>

section \<open>The basic functions\<close>

definition F :: "32 word \<Rightarrow> 32 word \<Rightarrow> 32 word \<Rightarrow> 32 word" where "F x y z = (x AND y) OR (NOT x AND z)"
definition G :: "32 word \<Rightarrow> 32 word \<Rightarrow> 32 word \<Rightarrow> 32 word" where "G x y z = (x AND z) OR (y AND NOT z)"
definition H :: "32 word \<Rightarrow> 32 word \<Rightarrow> 32 word \<Rightarrow> 32 word" where "H x y z = x XOR y XOR z"
definition I :: "32 word \<Rightarrow> 32 word \<Rightarrow> 32 word \<Rightarrow> 32 word" where "I x y z = y XOR (x OR NOT z)"

definition rotate_left :: "32 word \<Rightarrow> nat \<Rightarrow> 32 word" where
  "rotate_left x n = push_bit n x OR drop_bit (32 - n) x"

type_synonym md5_round = "32 word \<Rightarrow> 32 word \<Rightarrow> 32 word \<Rightarrow> 32 word \<Rightarrow> 32 word \<Rightarrow> nat \<Rightarrow> 32 word \<Rightarrow> 32 word"

text \<open>The new value of the first argument.\<close>

definition FF :: md5_round where "FF a b c d x s ac = rotate_left (a + F b c d + x + ac) s + b"
definition GG :: md5_round where "GG a b c d x s ac = rotate_left (a + G b c d + x + ac) s + b"
definition HH :: md5_round where "HH a b c d x s ac = rotate_left (a + H b c d + x + ac) s + b"
definition II :: md5_round where "II a b c d x s ac = rotate_left (a + I b c d + x + ac) s + b"

section \<open>Blocks\<close>

fun decode :: "bytes \<Rightarrow> 32 word list" where
  "decode (b0 # b1 # b2 # b3 # input) =
     (ucast b0 OR push_bit 8 (ucast b1) OR push_bit 16 (ucast b2) OR push_bit 24 (ucast b3)) # decode input"
| "decode _ = []"

primrec encode :: "32 word list \<Rightarrow> bytes" where
  "encode [] = []"
| "encode (w # input) = ucast (w AND 0xff) # ucast (drop_bit 8 w AND 0xff) # ucast (drop_bit 16 w AND 0xff) #
     ucast (drop_bit 24 w AND 0xff) # encode input"

text \<open>The calls of \<open>transform\<close> in their order: the function, the variables it is given, the index of the
  word of the block, the number of bits to rotate by and the constant.\<close>

abbreviation (input) "ra \<equiv> 0 :: nat"
abbreviation (input) "rb \<equiv> 1 :: nat"
abbreviation (input) "rc \<equiv> 2 :: nat"
abbreviation (input) "rd \<equiv> 3 :: nat"

abbreviation (input) "S11 \<equiv> 7 :: nat"
abbreviation (input) "S12 \<equiv> 12 :: nat"
abbreviation (input) "S13 \<equiv> 17 :: nat"
abbreviation (input) "S14 \<equiv> 22 :: nat"
abbreviation (input) "S21 \<equiv> 5 :: nat"
abbreviation (input) "S22 \<equiv> 9 :: nat"
abbreviation (input) "S23 \<equiv> 14 :: nat"
abbreviation (input) "S24 \<equiv> 20 :: nat"
abbreviation (input) "S31 \<equiv> 4 :: nat"
abbreviation (input) "S32 \<equiv> 11 :: nat"
abbreviation (input) "S33 \<equiv> 16 :: nat"
abbreviation (input) "S34 \<equiv> 23 :: nat"
abbreviation (input) "S41 \<equiv> 6 :: nat"
abbreviation (input) "S42 \<equiv> 10 :: nat"
abbreviation (input) "S43 \<equiv> 15 :: nat"
abbreviation (input) "S44 \<equiv> 21 :: nat"

type_synonym md5_call = "md5_round \<times> nat \<times> nat \<times> nat \<times> nat \<times> nat \<times> nat \<times> 32 word"

definition transform_calls :: "md5_call list" where
  "transform_calls = [
    (FF, ra, rb, rc, rd, 0, S11, 0xd76aa478), (FF, rd, ra, rb, rc, 1, S12, 0xe8c7b756),
    (FF, rc, rd, ra, rb, 2, S13, 0x242070db), (FF, rb, rc, rd, ra, 3, S14, 0xc1bdceee),
    (FF, ra, rb, rc, rd, 4, S11, 0xf57c0faf), (FF, rd, ra, rb, rc, 5, S12, 0x4787c62a),
    (FF, rc, rd, ra, rb, 6, S13, 0xa8304613), (FF, rb, rc, rd, ra, 7, S14, 0xfd469501),
    (FF, ra, rb, rc, rd, 8, S11, 0x698098d8), (FF, rd, ra, rb, rc, 9, S12, 0x8b44f7af),
    (FF, rc, rd, ra, rb, 10, S13, 0xffff5bb1), (FF, rb, rc, rd, ra, 11, S14, 0x895cd7be),
    (FF, ra, rb, rc, rd, 12, S11, 0x6b901122), (FF, rd, ra, rb, rc, 13, S12, 0xfd987193),
    (FF, rc, rd, ra, rb, 14, S13, 0xa679438e), (FF, rb, rc, rd, ra, 15, S14, 0x49b40821),
    (GG, ra, rb, rc, rd, 1, S21, 0xf61e2562), (GG, rd, ra, rb, rc, 6, S22, 0xc040b340),
    (GG, rc, rd, ra, rb, 11, S23, 0x265e5a51), (GG, rb, rc, rd, ra, 0, S24, 0xe9b6c7aa),
    (GG, ra, rb, rc, rd, 5, S21, 0xd62f105d), (GG, rd, ra, rb, rc, 10, S22, 0x2441453),
    (GG, rc, rd, ra, rb, 15, S23, 0xd8a1e681), (GG, rb, rc, rd, ra, 4, S24, 0xe7d3fbc8),
    (GG, ra, rb, rc, rd, 9, S21, 0x21e1cde6), (GG, rd, ra, rb, rc, 14, S22, 0xc33707d6),
    (GG, rc, rd, ra, rb, 3, S23, 0xf4d50d87), (GG, rb, rc, rd, ra, 8, S24, 0x455a14ed),
    (GG, ra, rb, rc, rd, 13, S21, 0xa9e3e905), (GG, rd, ra, rb, rc, 2, S22, 0xfcefa3f8),
    (GG, rc, rd, ra, rb, 7, S23, 0x676f02d9), (GG, rb, rc, rd, ra, 12, S24, 0x8d2a4c8a),
    (HH, ra, rb, rc, rd, 5, S31, 0xfffa3942), (HH, rd, ra, rb, rc, 8, S32, 0x8771f681),
    (HH, rc, rd, ra, rb, 11, S33, 0x6d9d6122), (HH, rb, rc, rd, ra, 14, S34, 0xfde5380c),
    (HH, ra, rb, rc, rd, 1, S31, 0xa4beea44), (HH, rd, ra, rb, rc, 4, S32, 0x4bdecfa9),
    (HH, rc, rd, ra, rb, 7, S33, 0xf6bb4b60), (HH, rb, rc, rd, ra, 10, S34, 0xbebfbc70),
    (HH, ra, rb, rc, rd, 13, S31, 0x289b7ec6), (HH, rd, ra, rb, rc, 0, S32, 0xeaa127fa),
    (HH, rc, rd, ra, rb, 3, S33, 0xd4ef3085), (HH, rb, rc, rd, ra, 6, S34, 0x4881d05),
    (HH, ra, rb, rc, rd, 9, S31, 0xd9d4d039), (HH, rd, ra, rb, rc, 12, S32, 0xe6db99e5),
    (HH, rc, rd, ra, rb, 15, S33, 0x1fa27cf8), (HH, rb, rc, rd, ra, 2, S34, 0xc4ac5665),
    (II, ra, rb, rc, rd, 0, S41, 0xf4292244), (II, rd, ra, rb, rc, 7, S42, 0x432aff97),
    (II, rc, rd, ra, rb, 14, S43, 0xab9423a7), (II, rb, rc, rd, ra, 5, S44, 0xfc93a039),
    (II, ra, rb, rc, rd, 12, S41, 0x655b59c3), (II, rd, ra, rb, rc, 3, S42, 0x8f0ccc92),
    (II, rc, rd, ra, rb, 10, S43, 0xffeff47d), (II, rb, rc, rd, ra, 1, S44, 0x85845dd1),
    (II, ra, rb, rc, rd, 8, S41, 0x6fa87e4f), (II, rd, ra, rb, rc, 15, S42, 0xfe2ce6e0),
    (II, rc, rd, ra, rb, 6, S43, 0xa3014314), (II, rb, rc, rd, ra, 13, S44, 0x4e0811a1),
    (II, ra, rb, rc, rd, 4, S41, 0xf7537e82), (II, rd, ra, rb, rc, 11, S42, 0xbd3af235),
    (II, rc, rd, ra, rb, 2, S43, 0x2ad7d2bb), (II, rb, rc, rd, ra, 9, S44, 0xeb86d391)]"

fun transform_call :: "32 word list \<Rightarrow> md5_call \<Rightarrow> 32 word list \<Rightarrow> 32 word list" where
  "transform_call x (f, a, b, c, d, k, s, ac) r = r[a := f (r ! a) (r ! b) (r ! c) (r ! d) (x ! k) s ac]"

definition transform :: "bytes \<Rightarrow> 32 word list \<Rightarrow> 32 word list" where
  "transform block st = map2 (+) st (fold (transform_call (decode block)) transform_calls st)"

section \<open>The object\<close>

record MD5 =
  finalized :: bool
  buffer :: bytes
  count0 :: "32 word"
  count1 :: "32 word"
  state :: "32 word list"
  digest :: bytes

definition md5_init :: "MD5 \<Rightarrow> MD5" where
  "md5_init m = m\<lparr>finalized := False, count0 := 0, count1 := 0,
     state := [0x67452301, 0xefcdab89, 0x98badcfe, 0x10325476]\<rparr>"

definition memcpy :: "bytes \<Rightarrow> nat \<Rightarrow> bytes \<Rightarrow> nat \<Rightarrow> nat \<Rightarrow> bytes option" where
  "memcpy dst to src from1 n = (if from1 + n \<le> length src \<and> to + n \<le> length dst
     then Some (take to dst @ take n (drop from1 src) @ drop (to + n) dst) else None)"

text \<open>The loop over the whole blocks of the input; its index has 32 bits.\<close>

partial_function (option) update_loop :: "32 word \<Rightarrow> 32 word \<Rightarrow> bytes \<Rightarrow> 32 word list \<Rightarrow> (32 word \<times> 32 word list) option" where
  "update_loop i len input st =
     (if i + 64 \<le> len
      then (if unat i + 64 \<le> length input
            then update_loop (i + 64) len input (transform (take 64 (drop (unat i) input)) st) else None)
      else Some (i, st))"

definition update :: "bytes \<Rightarrow> 32 word \<Rightarrow> MD5 \<Rightarrow> MD5 option" where
  "update input len m =
     (let index = count0 m div 8 mod 64;
          c0 = count0 m + push_bit 3 len;
          c1 = (if c0 < push_bit 3 len then count1 m + 1 else count1 m) + drop_bit 29 len;
          m1 = m\<lparr>count0 := c0, count1 := c1\<rparr>;
          firstpart = 64 - index in
      if firstpart \<le> len then
        (case memcpy (buffer m) (unat index) input 0 (unat firstpart) of None \<Rightarrow> None | Some b \<Rightarrow>
          (case update_loop firstpart len input (transform b (state m)) of None \<Rightarrow> None | Some (i, st) \<Rightarrow>
            (case memcpy b 0 input (unat i) (unat (len - i)) of None \<Rightarrow> None
             | Some b1 \<Rightarrow> Some (m1\<lparr>buffer := b1, state := st\<rparr>))))
      else (case memcpy (buffer m) (unat index) input 0 (unat len) of None \<Rightarrow> None
            | Some b \<Rightarrow> Some (m1\<lparr>buffer := b\<rparr>)))"

definition padding :: bytes where "padding = 0x80 # replicate 63 0"

definition finalize :: "MD5 \<Rightarrow> MD5 option" where
  "finalize m =
     (if finalized m then Some m
      else (let bits = encode [count0 m, count1 m];
                index = count0 m div 8 mod 64;
                padLen = (if index < 56 then 56 - index else 120 - index) in
        case update padding padLen m of None \<Rightarrow> None | Some m1 \<Rightarrow>
          (case update bits 8 m1 of None \<Rightarrow> None | Some m2 \<Rightarrow>
            Some (m2\<lparr>digest := encode (state m2), buffer := replicate 64 0, count0 := 0, count1 := 0, finalized := True\<rparr>))))"

definition hex2 :: "8 word \<Rightarrow> string" where
  "hex2 b = [''0123456789abcdef'' ! unat (b div 16), ''0123456789abcdef'' ! unat (b mod 16)]"

definition hexdigest :: "MD5 \<Rightarrow> string" where
  "hexdigest m = (if finalized m then concat (map hex2 (digest m)) else [])"

text \<open>The constructor from a text, whose length is cut to 32 bits, and the function \<open>md5\<close>.\<close>

definition MD5_text :: "bytes \<Rightarrow> MD5 \<Rightarrow> MD5 option" where
  "MD5_text txt1 m = (case update txt1 (of_nat (length txt1)) (md5_init m) of None \<Rightarrow> None | Some m1 \<Rightarrow> finalize m1)"

definition md5 :: "bytes \<Rightarrow> MD5 \<Rightarrow> string option" where
  "md5 str m = map_option hexdigest (MD5_text str m)"

section \<open>Files\<close>

datatype file_at = Is_dir | No_stat | No_open | Contents bytes

function file_loop :: "bytes \<Rightarrow> MD5 \<Rightarrow> MD5 option" where
  "file_loop fr m = (if fr = [] then Some m
     else (case update (take 10239999 fr) (of_nat (length (take 10239999 fr))) m of None \<Rightarrow> None
           | Some m1 \<Rightarrow> file_loop (drop 10239999 fr) m1))"
  by pat_completeness auto
termination by (relation "measure (\<lambda>(fr, m). length fr)") auto

declare file_loop.simps [simp del]

definition fileMD5 :: "file_at \<Rightarrow> MD5 \<Rightarrow> (string \<times> MD5) option" where
  "fileMD5 f m = (case f of Contents fr \<Rightarrow>
       (case file_loop fr m of None \<Rightarrow> None | Some m1 \<Rightarrow>
         (case finalize m1 of None \<Rightarrow> None | Some m2 \<Rightarrow> Some (hexdigest m2, m2)))
     | _ \<Rightarrow> Some ([], m))"

end
