(* ===== verification/Md5Props.thy ===== *)
theory Md5Props
  imports Md5
begin

unbundle bit_operations_syntax

text \<open>
  The digest of RFC 1321 as a function of the whole message, and the class \<open>MD5\<close> as an implementation of
  it: however the message is cut into the inputs of \<open>update\<close>, the object computes its digest.
\<close>

section \<open>The digest of a message\<close>

abbreviation md5_start :: "32 word list" where
  "md5_start \<equiv> [0x67452301, 0xefcdab89, 0x98badcfe, 0x10325476]"

text \<open>The whole blocks of a sequence of octets, one after the other.\<close>

function compress :: "bytes \<Rightarrow> 32 word list \<Rightarrow> 32 word list" where
  "compress bs st = (if length bs < 64 then st else compress (drop 64 bs) (transform (take 64 bs) st))"
  by pat_completeness auto
termination by (relation "measure (\<lambda>(bs, st). length bs)") auto

declare compress.simps [simp del]

definition md5_pad :: "nat \<Rightarrow> bytes" where
  "md5_pad n = 0x80 # replicate ((119 - n mod 64) mod 64) 0 @ le 8 (of_nat (8 * n) :: 64 word)"

definition md5_digest :: "bytes \<Rightarrow> bytes" where
  "md5_digest msg = encode (compress (msg @ md5_pad (length msg)) md5_start)"

definition hex :: "bytes \<Rightarrow> string" where "hex bs = concat (map hex2 bs)"

lemma compress_short [simp]: "length bs < 64 \<Longrightarrow> compress bs st = st"
  by (simp add: compress.simps)

lemma compress_append: "64 dvd length xs \<Longrightarrow> compress (xs @ ys) st = compress ys (compress xs st)"
proof (induction xs st rule: compress.induct)
  case (1 xs st)
  show ?case
  proof (cases "length xs < 64")
    case True
    with 1(2) have "xs = []" by (metis dvd_imp_le length_greater_0_conv not_le)
    then show ?thesis by simp
  next
    case False
    moreover have "64 dvd length xs - 64" using 1(2) by (rule dvd_diff_nat) simp
    ultimately show ?thesis using 1(1) by (subst (1 3) compress.simps) simp
  qed
qed

lemma compress_block: "length b = 64 \<Longrightarrow> compress (b @ ys) st = compress ys (transform b st)"
  by (subst compress.simps) simp

text \<open>What remains of a sequence after its whole blocks.\<close>

definition rest :: "bytes \<Rightarrow> bytes" where "rest bs = drop (64 * (length bs div 64)) bs"

lemma length_rest [simp]: "length (rest bs) = length bs mod 64"
  by (simp add: rest_def modulo_nat_def mult.commute)

lemma blocks_rest: "\<exists>xs. bs = xs @ rest bs \<and> 64 dvd length xs"
  by (rule exI [of _ "take (64 * (length bs div 64)) bs"]) (simp add: rest_def min_absorb2)

lemma compress_rest: "compress (bs @ ys) st = compress (rest bs @ ys) (compress bs st)"
proof -
  obtain xs where xs: "bs = xs @ rest bs" "64 dvd length xs" using blocks_rest by blast
  have "compress bs st = compress xs st" by (subst xs(1)) (simp add: compress_append [OF xs(2)])
  moreover have "compress (bs @ ys) st = compress (rest bs @ ys) (compress xs st)"
    by (subst xs(1)) (simp add: compress_append [OF xs(2)])
  ultimately show ?thesis by simp
qed

lemma rest_append: "rest (bs @ ys) = rest (rest bs @ ys)"
proof -
  obtain xs k where xs: "bs = xs @ rest bs" "length xs = 64 * k" using blocks_rest by (blast elim: dvdE)
  have "rest (xs @ zs) = rest zs" for zs by (simp add: rest_def xs(2))
  from this [of "rest bs @ ys"] show ?thesis by (subst xs(1)) simp
qed

lemma rest_short [simp]: "length bs < 64 \<Longrightarrow> rest bs = bs" by (simp add: rest_def)

lemma rest_block: "length b = 64 \<Longrightarrow> rest (b @ ys) = rest ys"
  by (simp add: rest_def div_add_self1)

section \<open>The loop over blocks\<close>

lemma update_loop_compress:
  assumes "k \<le> length input" "length input < 2 ^ 32" "length input - (length input - k) mod 64 + 64 < 2 ^ 32"
  shows "update_loop (of_nat k) (of_nat (length input)) input st =
    Some (of_nat (length input - length (rest (drop k input))), compress (drop k input) st)"
  using assms(1,3)
proof (induction "length input - k" arbitrary: k st rule: less_induct)
  case less
  have u: "unat (of_nat j :: 32 word) = j" if "j < 2 ^ 32" for j
    using that by (simp add: unat_of_nat)
  have i: "of_nat k + 64 = (of_nat (k + 64) :: 32 word)" by simp
  have le: "(of_nat k + 64 \<le> (of_nat (length input) :: 32 word)) \<longleftrightarrow> k + 64 \<le> length input"
  proof (cases "k + 64 < 2 ^ 32")
    case True
    then show ?thesis unfolding i word_le_nat_alt using u [of "k + 64"] u [of "length input"] assms(2) by simp
  next
    case False
    then have "64 \<le> length input - k" using less.prems by (cases "length input - k < 64") auto
    with False assms(2) less.prems(1) show ?thesis by simp
  qed
  show ?case
  proof (cases "k + 64 \<le> length input")
    case False
    then show ?thesis using less.prems by (subst update_loop.simps) (simp add: le)
  next
    case True
    have "update_loop (of_nat (k + 64)) (of_nat (length input)) input (transform (take 64 (drop k input)) st) =
      Some (of_nat (length input - length (rest (drop (k + 64) input))), compress (drop (k + 64) input) (transform (take 64 (drop k input)) st))"
      using less.hyps [of "k + 64"] less.prems(2) True le_mod_geq [of 64 "length input - k"] by simp
    moreover have "drop k input = take 64 (drop k input) @ drop (k + 64) input"
      by (metis add.commute append_take_drop_id drop_drop)
    then have "compress (drop k input) st = compress (drop (k + 64) input) (transform (take 64 (drop k input)) st)"
      "rest (drop k input) = rest (drop (k + 64) input)"
      using True compress_block [of "take 64 (drop k input)" "drop (k + 64) input" st]
        rest_block [of "take 64 (drop k input)" "drop (k + 64) input"] by simp_all
    ultimately show ?thesis using True u [of k] assms(2) by (subst update_loop.simps) (simp add: le add.commute)
  qed
qed

section \<open>What an object has taken in\<close>

definition absorbed :: "bytes \<Rightarrow> MD5 \<Rightarrow> bool" where
  "absorbed msg m \<longleftrightarrow> length (buffer m) = 64 \<and> count0 m = of_nat (8 * length msg) \<and>
     count1 m = of_nat (8 * length msg div 2 ^ 32) \<and> take (length msg mod 64) (buffer m) = rest msg \<and>
     state m = compress msg md5_start"

lemma index_absorbed: "(of_nat (8 * n) :: 32 word) div 8 mod 64 = of_nat (n mod 64)"
proof -
  have "(8 * n) mod 2 ^ 32 div 8 mod 64 = n mod 64"
    by (simp add: mod_mult_mult1 [of 8 n "2 ^ 29", simplified] mod_mod_cancel)
  then show ?thesis by (simp add: word_unat_eq_iff unat_div unat_mod unat_of_nat del: of_nat_mult)
qed

lemma carry_div:
  fixes a b M :: nat
  assumes "0 < M"
  shows "(a + b) div M = a div M + b div M + (if (a + b) mod M < b mod M then 1 else 0)"
proof (cases "a mod M + b mod M < M")
  case True
  then have "(a + b) mod M = a mod M + b mod M" by (metis mod_add_eq mod_less)
  with True show ?thesis by (simp add: div_add1_eq [of a b M])
next
  case False
  let ?s = "a mod M + b mod M"
  have s: "?s - M < b mod M" "?s < 2 * M" using assms False mod_less_divisor [of M a] mod_less_divisor [of M b] by linarith+
  then have "?s div M = 1" "?s mod M = ?s - M"
    using False by (simp_all add: div_nat_eqI le_mod_geq)
  moreover have "(a + b) mod M = ?s mod M" by (simp add: mod_add_eq)
  ultimately show ?thesis using s(1) by (simp add: div_add1_eq [of a b M])
qed

text \<open>The two words of the counter are one number.\<close>

lemma count_carry:
  fixes n l :: nat
  assumes "l < 2 ^ 32"
  shows "(if (of_nat n + push_bit 3 (of_nat l) :: 32 word) < push_bit 3 (of_nat l) then of_nat (n div 2 ^ 32) + 1
      else of_nat (n div 2 ^ 32)) + drop_bit 29 (of_nat l) = (of_nat ((n + 8 * l) div 2 ^ 32) :: 32 word)"
proof -
  have p: "push_bit 3 (of_nat l :: 32 word) = of_nat (8 * l)" by (simp add: push_bit_eq_mult)
  have d: "drop_bit 29 (of_nat l :: 32 word) = of_nat (8 * l div 2 ^ 32)"
  proof -
    have "8 * l div 2 ^ 32 = l div 2 ^ 29" by (simp add: div_mult2_eq [of _ 8, symmetric])
    moreover have "unat (drop_bit 29 (of_nat l :: 32 word)) = l div 2 ^ 29"
      unfolding unat_drop_bit_eq using assms by (simp add: unat_of_nat drop_bit_eq_div)
    moreover have "l div 2 ^ 29 < 2 ^ 32" using assms by (simp add: div_less_iff_less_mult)
    ultimately show ?thesis by (simp add: word_unat_eq_iff unat_of_nat)
  qed
  have c: "(of_nat n + of_nat (8 * l) :: 32 word) < of_nat (8 * l) \<longleftrightarrow> (n + 8 * l) mod 2 ^ 32 < 8 * l mod 2 ^ 32"
    unfolding word_less_nat_alt of_nat_add [symmetric] unat_of_nat by simp
  show ?thesis unfolding p d c by (subst carry_div) simp_all
qed

lemma memcpy_Some: "length dst = 64 \<Longrightarrow> to + length src \<le> 64 + k \<Longrightarrow> k + n = length src \<Longrightarrow>
    memcpy dst to src k n = Some (take to dst @ drop k src @ drop (to + n) dst)"
  by (auto simp: memcpy_def)

text \<open>\<open>update\<close> with its words read as numbers.\<close>

lemma update_short:
  assumes "count0 m div 8 mod 64 = of_nat j" "j + length c < 64" "length (buffer m) = 64"
  shows "update c (of_nat (length c)) m = Some (m\<lparr>count0 := count0 m + push_bit 3 (of_nat (length c)),
    count1 := (if count0 m + push_bit 3 (of_nat (length c)) < push_bit 3 (of_nat (length c)) then count1 m + 1 else count1 m) +
      drop_bit 29 (of_nat (length c)), buffer := take j (buffer m) @ c @ drop (j + length c) (buffer m)\<rparr>)"
proof -
  have u: "unat (of_nat k :: 32 word) = k" if "k \<le> 64" for k using that by (simp add: unat_of_nat)
  have f: "(64 - of_nat j :: 32 word) = of_nat (64 - j)" using assms(2) by simp
  have "\<not> (of_nat (64 - j) \<le> (of_nat (length c) :: 32 word))"
    using assms(2) u [of "64 - j"] u [of "length c"] unfolding word_le_nat_alt by simp
  moreover have "memcpy (buffer m) j c 0 (length c) = Some (take j (buffer m) @ c @ drop (j + length c) (buffer m))"
    using assms(2,3) by (simp add: memcpy_def)
  ultimately show ?thesis
    using u [of j] u [of "length c"] assms(2) unfolding update_def Let_def assms(1) f by simp
qed

lemma memcpy_start: "length dst = 64 \<Longrightarrow> k + n = length src \<Longrightarrow> n \<le> 64 \<Longrightarrow>
    memcpy dst 0 src k n = Some (drop k src @ drop n dst)"
  by (simp add: memcpy_def)

lemma whole_blocks: "f \<le> n \<Longrightarrow> 64 * ((n - f) div 64) + f = n - (n - f) mod (64 :: nat)"
proof -
  assume "f \<le> n"
  then obtain x where n: "n = x + f" by (metis add.commute le_Suc_ex)
  have "x - x mod 64 + f = x + f - x mod 64" by simp
  then show ?thesis unfolding n by (simp add: minus_mod_eq_mult_div)
qed

lemma residue_max:
  fixes u q j :: nat
  assumes "u = 64 * q + (if j = 0 then 0 else 64 - j)" "j < 64" "u < 2 ^ 32"
  shows "u \<le> (if j = 0 then 2 ^ 32 - 64 else 2 ^ 32 - j)"
proof (cases "j = 0")
  case True
  then have "64 * q < 64 * 2 ^ 26" using assms by simp
  then have "q < 2 ^ 26" by simp
  with True assms(1) show ?thesis by simp
next
  case False
  then have "64 * (q + 1) < 64 * (2 ^ 26 + 1)" using assms by simp
  then have "q + 1 \<le> 2 ^ 26" by simp
  with False assms show ?thesis by simp
qed

text \<open>The lengths for which the index of the loop does not wrap, when \<open>j\<close> octets wait in the buffer.\<close>

definition update_limit :: "nat \<Rightarrow> nat" where
  "update_limit j = 2 ^ 32 - (if j = 0 then 64 else j)"

lemma limit_less: "n < update_limit j \<Longrightarrow> n < 2 ^ 32"
  by (simp add: update_limit_def split: if_splits)

lemma limit_more: "n < 2 ^ 32 - 64 \<Longrightarrow> n < update_limit (k mod 64)"
proof -
  assume "n < 2 ^ 32 - 64"
  moreover have "k mod 64 < 64" by simp
  ultimately have "n + (if k mod 64 = 0 then 64 else k mod 64) < 2 ^ 32" by (simp split: if_split) linarith
  then show ?thesis by (simp add: update_limit_def less_diff_conv)
qed

lemma no_wrap:
  assumes "j < 64" "64 - j \<le> n" "n < update_limit j"
  shows "n - (n - (64 - j)) mod 64 + 64 < 2 ^ 32"
proof -
  let ?q = "(n - (64 - j)) div 64"
  have n: "n - (n - (64 - j)) mod 64 = 64 * ?q + (64 - j)" using whole_blocks [OF assms(2)] by simp
  have lim: "n < 2 ^ 32 - (if j = 0 then 64 else j)" using assms(3) by (simp add: update_limit_def)
  have "64 * ?q + (64 - j) \<le> n" using n by (metis diff_le_self)
  then have le: "64 * ?q + (64 - j) < 2 ^ 32 - (if j = 0 then 64 else j)" using lim by (rule le_less_trans)
  show ?thesis
  proof (cases "j = 0")
    case True
    then show ?thesis unfolding n using le by simp
  next
    case False
    then have "64 * (?q + 1) < 64 * 2 ^ 26" using le assms(1) by simp
    then have "64 * (?q + 2) \<le> 64 * 2 ^ 26" by simp
    then show ?thesis unfolding n using False assms(1) by simp
  qed
qed

lemma update_long:
  assumes "count0 m div 8 mod 64 = of_nat j" "j < 64" "64 - j \<le> length c" "length (buffer m) = 64" "length c < update_limit j"
  shows "\<exists>t. update c (of_nat (length c)) m = Some (m\<lparr>count0 := count0 m + push_bit 3 (of_nat (length c)),
    count1 := (if count0 m + push_bit 3 (of_nat (length c)) < push_bit 3 (of_nat (length c)) then count1 m + 1 else count1 m) +
      drop_bit 29 (of_nat (length c)), buffer := rest (drop (64 - j) c) @ t,
    state := compress (drop (64 - j) c) (transform (take j (buffer m) @ take (64 - j) c) (state m))\<rparr>) \<and>
    length (rest (drop (64 - j) c) @ t) = 64"
proof -
  let ?f = "64 - j" and ?n = "length c"
  let ?b = "take j (buffer m) @ take ?f c" and ?r = "length (rest (drop ?f c))"
  have u: "unat (of_nat k :: 32 word) = k" if "k < 2 ^ 32" for k
    using that by (simp add: unat_of_nat)
  have n: "?n < 2 ^ 32" using assms(5) by (rule limit_less)
  have f: "(64 - of_nat j :: 32 word) = of_nat ?f" using assms(2) by simp
  have le: "of_nat ?f \<le> (of_nat ?n :: 32 word)"
    unfolding word_le_nat_alt using u [of ?f] u [OF n] assms(3) by simp
  have r: "?r \<le> ?n - ?f" "?r < 64" "?r \<le> ?n" by (simp_all add: le_trans [OF mod_less_eq_dividend])
  have lb: "length ?b = 64" using assms(2-4) by simp
  have "rest (drop ?f c) = drop (?n - ?r) c"
  proof -
    have "rest (drop ?f c) = drop (64 * (length (drop ?f c) div 64) + ?f) c" by (simp add: rest_def)
    moreover have "64 * (length (drop ?f c) div 64) + ?f = ?n - ?r"
      unfolding length_drop length_rest by (rule whole_blocks [OF assms(3)])
    ultimately show ?thesis by simp
  qed
  then have m2: "memcpy ?b 0 c (?n - ?r) ?r = Some (rest (drop ?f c) @ drop ?r ?b)"
    using memcpy_start [OF lb, of "?n - ?r" ?r c] r(2,3) by simp
  have m1: "memcpy (buffer m) j c 0 ?f = Some ?b" using assms(2-4) by (simp add: memcpy_def)
  have d: "of_nat ?n - of_nat (?n - ?r) = (of_nat ?r :: 32 word)" using r(3) by (simp add: of_nat_diff)
  have un: "unat (of_nat j :: 32 word) = j" "unat (of_nat ?f :: 32 word) = ?f" "unat (of_nat ?r :: 32 word) = ?r"
    "unat (of_nat (?n - ?r) :: 32 word) = ?n - ?r"
    by (rule u; use assms(2,3) r n in simp)+
  note loop = update_loop_compress [OF assms(3) n no_wrap [OF assms(2,3,5)], of "transform ?b (state m)"]
  have "update c (of_nat ?n) m = Some (m\<lparr>count0 := count0 m + push_bit 3 (of_nat ?n),
    count1 := (if count0 m + push_bit 3 (of_nat ?n) < push_bit 3 (of_nat ?n) then count1 m + 1 else count1 m) +
      drop_bit 29 (of_nat ?n), buffer := rest (drop ?f c) @ drop ?r ?b, state := compress (drop ?f c) (transform ?b (state m))\<rparr>)"
    unfolding update_def Let_def assms(1) f
    by (simp only: le un m1 loop m2 d if_True option.case prod.case MD5.simps MD5.update_convs)
  moreover have "length (rest (drop ?f c) @ drop ?r ?b) = 64"
    unfolding length_append [of "rest (drop ?f c)"] length_drop [of ?r ?b] lb using r(2) by simp
  ultimately show ?thesis by blast
qed

text \<open>\<open>update\<close> appends its input to what the object has taken in.\<close>

lemma update_absorbed:
  assumes "absorbed msg m" "length c < update_limit (length msg mod 64)"
  shows "\<exists>m'. update c (of_nat (length c)) m = Some m' \<and> absorbed (msg @ c) m' \<and>
    finalized m' = finalized m \<and> digest m' = digest m"
proof -
  let ?n = "length c" and ?j = "length msg mod 64"
  have m: "length (buffer m) = 64" "count0 m = of_nat (8 * length msg)" "count1 m = of_nat (8 * length msg div 2 ^ 32)"
    "take ?j (buffer m) = rest msg" "state m = compress msg md5_start"
    using assms(1) by (simp_all add: absorbed_def)
  have j: "count0 m div 8 mod 64 = of_nat ?j" unfolding m(2) by (rule index_absorbed)
  have c0: "count0 m + push_bit 3 (of_nat ?n) = of_nat (8 * length (msg @ c))"
    by (simp add: m(2) push_bit_eq_mult distrib_left)
  have c1: "(if count0 m + push_bit 3 (of_nat ?n) < push_bit 3 (of_nat ?n) then count1 m + 1 else count1 m) + drop_bit 29 (of_nat ?n) =
    of_nat (8 * length (msg @ c) div 2 ^ 32)"
    using count_carry [of ?n "8 * length msg"] assms(2) limit_less unfolding m(2,3) by (simp add: distrib_left)
  have len: "length (msg @ c) mod 64 = length (rest (msg @ c))" by simp
  show ?thesis
  proof (cases "?j + ?n < 64")
    case True
    have "rest (msg @ c) = rest msg @ c" using True by (subst rest_append) simp
    moreover have "compress (msg @ c) md5_start = compress msg md5_start" using True by (subst compress_rest) simp
    moreover have "length (rest msg @ c) = ?j + ?n" by simp
    ultimately show ?thesis using True m(1,4,5) unfolding update_short [OF j True m(1), unfolded c1, unfolded c0] absorbed_def len
      by (simp del: length_rest length_append of_nat_mult) simp
  next
    case False
    then have f: "64 - ?j \<le> ?n" by simp
    obtain t where t: "update c (of_nat ?n) m = Some (m\<lparr>count0 := of_nat (8 * length (msg @ c)),
        count1 := of_nat (8 * length (msg @ c) div 2 ^ 32), buffer := rest (drop (64 - ?j) c) @ t,
        state := compress (drop (64 - ?j) c) (transform (rest msg @ take (64 - ?j) c) (state m))\<rparr>)"
      "length (rest (drop (64 - ?j) c) @ t) = 64"
      using update_long [OF j _ f m(1) assms(2), unfolded c1, unfolded c0 m(4)] by (metis mod_less_divisor zero_less_numeral)
    let ?b = "rest msg @ take (64 - ?j) c" and ?d = "drop (64 - ?j) c"
    have b: "length ?b = 64" "rest msg @ c = ?b @ ?d" using f by simp_all
    have r: "rest (msg @ c) = rest ?d" unfolding rest_append [of msg] b(2) by (rule rest_block [OF b(1)])
    have s: "compress (msg @ c) md5_start = compress ?d (transform ?b (state m))"
      unfolding compress_rest [of msg] b(2) m(5) by (rule compress_block [OF b(1)])
    show ?thesis unfolding t(1) absorbed_def len r s using t(2) by (simp del: length_rest length_append of_nat_mult)
  qed
qed

section \<open>Streams\<close>

text \<open>The calls of \<open>update\<close> for the pieces of a message.\<close>

primrec feed :: "bytes list \<Rightarrow> MD5 \<Rightarrow> MD5 option" where
  "feed [] m = Some m"
| "feed (c # cs) m = (case update c (of_nat (length c)) m of None \<Rightarrow> None | Some m1 \<Rightarrow> feed cs m1)"

lemma feed_absorbed: "absorbed msg m \<Longrightarrow> \<forall>c \<in> set cs. length c < 2 ^ 32 - 64 \<Longrightarrow>
    \<exists>m'. feed cs m = Some m' \<and> absorbed (msg @ concat cs) m' \<and> finalized m' = finalized m \<and> digest m' = digest m"
proof (induction cs arbitrary: msg m)
  case (Cons c cs)
  obtain m1 where m1: "update c (of_nat (length c)) m = Some m1" "absorbed (msg @ c) m1" "finalized m1 = finalized m" "digest m1 = digest m"
    using update_absorbed [OF Cons.prems(1) limit_more, of c] Cons.prems(2) by auto
  show ?case using Cons.IH [OF m1(2)] Cons.prems(2) m1 by auto
qed simp

lemma init_absorbed: "length (buffer m) = 64 \<Longrightarrow> absorbed [] (md5_init m) \<and> \<not> finalized (md5_init m)"
  by (simp add: absorbed_def md5_init_def rest_def)

lemma octet_mask: "(0xff :: 32 word) = mask 8"
  by (simp add: mask_eq_exp_minus_1)

lemma encode_counts: "encode [of_nat n, of_nat (n div 2 ^ 32)] = le 8 (of_nat n :: 64 word)"
proof -
  have lo: "ucast (drop_bit k (of_nat n :: 32 word) AND 0xff) = (ucast (drop_bit k (of_nat n :: 64 word)) :: 8 word)" if "k \<le> 24" for k
    unfolding octet_mask using that by (intro bit_word_eqI) (auto simp: bit_simps)
  have hi: "ucast (drop_bit k (of_nat (n div 2 ^ 32) :: 32 word) AND 0xff) = (ucast (drop_bit (k + 32) (of_nat n :: 64 word)) :: 8 word)"
    if "k \<le> 24" for k
    unfolding octet_mask drop_bit_eq_div [symmetric] using that by (intro bit_word_eqI) (auto simp: bit_simps ac_simps)
  have "[0..<8] = [0, 1, 2, 3, 4, 5, 6, 7 :: nat]" by (simp add: upt_rec)
  then show ?thesis
    using lo [of 0] lo [of 8] lo [of 16] lo [of 24] hi [of 0] hi [of 8] hi [of 16] hi [of 24]
    by (simp add: le_def)
qed

lemma padding_take: "n \<le> 64 \<Longrightarrow> 0 < n \<Longrightarrow> take n padding = 0x80 # replicate (n - 1) 0"
  by (cases n) (auto simp: padding_def min_def)

text \<open>What follows the input in memory does not matter.\<close>

lemma memcpy_prefix: "memcpy dst to xs k n = Some r \<Longrightarrow> memcpy dst to (xs @ ys) k n = Some r"
  by (auto simp: memcpy_def split: if_splits)

lemma update_loop_prefix:
  assumes "update_loop i len xs st = Some r"
  shows "update_loop i len (xs @ ys) st = Some r"
proof (rule update_loop.raw_induct [OF _ assms, where P = "\<lambda>i len xs st r. update_loop i len (xs @ ys) st = Some r"], goal_cases)
  case (1 f i len xs st r)
  then show ?case by (subst update_loop.simps) (auto split: if_splits)
qed

lemma update_prefix: "update xs len m = Some r \<Longrightarrow> update (xs @ ys) len m = Some r"
  unfolding update_def Let_def
  by (auto split: if_splits option.splits dest!: memcpy_prefix [of _ _ xs _ _ _ ys] update_loop_prefix [of _ _ xs _ _ ys])

lemma pad_length: "j < 64 \<Longrightarrow> (if j < 56 then 56 - j else 120 - j) - 1 = (119 - j) mod (64 :: nat)"
  by (cases "j < 56") (simp_all add: le_mod_geq)

text \<open>What \<open>finalize\<close> makes of an object that has taken in \<open>msg\<close>.\<close>

lemma finalize_absorbed:
  assumes "absorbed msg m" "\<not> finalized m"
  shows "\<exists>m'. finalize m = Some m' \<and> finalized m' \<and> digest m' = md5_digest msg \<and> length (buffer m') = 64"
proof -
  let ?j = "length msg mod 64"
  let ?p = "if ?j < 56 then 56 - ?j else 120 - ?j"
  let ?c = "take ?p padding"
  have j: "count0 m div 8 mod 64 = of_nat ?j" using assms(1) index_absorbed by (simp add: absorbed_def)
  have p: "0 < ?p" "?p \<le> 64" by auto
  have len: "length ?c = ?p" using p(2) by (simp add: padding_def)
  have pw: "(if of_nat ?j < (56 :: 32 word) then 56 - of_nat ?j else 120 - of_nat ?j) = (of_nat ?p :: 32 word)"
    by (simp add: word_less_nat_alt unat_of_nat)
  obtain m1 where m1: "update ?c (of_nat ?p) m = Some m1" "absorbed (msg @ ?c) m1" "finalized m1 = finalized m"
    using update_absorbed [OF assms(1) limit_more, of ?c] p unfolding len by auto
  have u1: "update padding (of_nat ?p) m = Some m1"
    using update_prefix [OF m1(1), of "drop ?p padding"] by simp
  have bits: "encode [count0 m, count1 m] = le 8 (of_nat (8 * length msg) :: 64 word)"
    using assms(1) encode_counts [of "8 * length msg"] by (simp add: absorbed_def)
  obtain m2 where m2: "update (le 8 (of_nat (8 * length msg) :: 64 word)) 8 m1 = Some m2"
    "absorbed ((msg @ ?c) @ le 8 (of_nat (8 * length msg) :: 64 word)) m2"
    using update_absorbed [OF m1(2) limit_more, of "le 8 (of_nat (8 * length msg) :: 64 word)"] by auto
  have "?p - 1 = (119 - ?j) mod 64" by (rule pad_length) simp
  then have "?c @ le 8 (of_nat (8 * length msg) :: 64 word) = md5_pad (length msg)"
    using padding_take [OF p(2,1)] by (simp add: md5_pad_def)
  with m2(2) have "state m2 = compress (msg @ md5_pad (length msg)) md5_start" by (simp add: absorbed_def)
  then show ?thesis using assms(2) u1 m2(1)
    unfolding finalize_def Let_def j pw bits by (simp add: md5_digest_def)
qed


definition blank_md5 :: MD5 where
  "blank_md5 = \<lparr>finalized = False, buffer = replicate 64 0, count0 = 0, count1 = 0, state = [], digest = []\<rparr>"


section \<open>Inputs that are too long\<close>

text \<open>Every index of the residue class of \<open>i\<close> is below \<open>len\<close>, so the loop goes round for ever.\<close>

lemma unat_add_64: "unat (i + 64 :: 32 word) mod 64 = unat i mod 64"
  by (simp add: unat_word_ariths mod_mod_cancel)

lemma update_loop_wraps:
  assumes "\<forall>w :: 32 word. unat w mod 64 = j \<longrightarrow> w \<le> len" "unat i mod 64 = j"
  shows "update_loop i len input st = None"
proof (rule ccontr)
  assume "update_loop i len input st \<noteq> None"
  then obtain r where r: "update_loop i len input st = Some r" by blast
  have "unat i mod 64 = j \<longrightarrow> (\<forall>w :: 32 word. unat w mod 64 = j \<longrightarrow> w \<le> len) \<longrightarrow> False"
  proof (rule update_loop.raw_induct [OF _ r, where
      P = "\<lambda>i len xs st r. unat i mod 64 = j \<longrightarrow> (\<forall>w :: 32 word. unat w mod 64 = j \<longrightarrow> w \<le> len) \<longrightarrow> False"], goal_cases)
    case (1 f i len xs st r)
    show ?case
    proof (intro impI)
      assume a: "unat i mod 64 = j" "\<forall>w :: 32 word. unat w mod 64 = j \<longrightarrow> w \<le> len"
      then have "i + 64 \<le> len" using unat_add_64 [of i] by simp
      then have "f (i + 64) len xs (transform (take 64 (drop (unat i) xs)) st) = Some r"
        using 1(2) by (simp split: if_splits)
      from 1(1) [OF this] a show False using unat_add_64 [of i] by simp
    qed
  qed
  with assms show False by blast
qed

lemma update_too_long:
  assumes "count0 m div 8 mod 64 = of_nat j" "j < 64" "update_limit j \<le> unat len"
  shows "update input len m = None"
proof -
  have f: "(64 - of_nat j :: 32 word) = of_nat (64 - j)" using assms(2) by simp
  have uf: "unat (of_nat (64 - j) :: 32 word) = 64 - j" by (simp add: unat_of_nat)
  have "w \<le> len" if w: "unat w mod 64 = (64 - j) mod 64" for w :: "32 word"
  proof -
    have "unat w < 2 ^ 32" using unsigned_less [of w] by simp
    moreover obtain q where "unat w = 64 * q + (64 - j) mod 64" using w by (metis mult_div_mod_eq)
    moreover have "(64 - j) mod 64 = (if j = 0 then 0 else 64 - j)" using assms(2) by simp
    ultimately have "unat w \<le> (if j = 0 then 2 ^ 32 - 64 else 2 ^ 32 - j)"
      using residue_max [of "unat w" q j] assms(2) by simp
    then have "unat w \<le> unat len" using assms(3) by (cases "j = 0"; simp add: update_limit_def)
    then show ?thesis by (simp add: word_le_nat_alt)
  qed
  then have "update_loop (of_nat (64 - j)) len input st = None" for st
    using update_loop_wraps [of "(64 - j) mod 64" len "of_nat (64 - j)"] uf by simp
  moreover have "of_nat (64 - j) \<le> len"
    using assms(2,3) unfolding word_le_nat_alt uf by (cases "j = 0") (simp_all add: update_limit_def)
  ultimately show ?thesis
    unfolding update_def Let_def assms(1) f by (simp split: option.split)
qed

text \<open>An object that has taken in a message takes in a further input of at most 2^32 - 1 octets
  exactly when its length is below 2^32 - 64, or below 2^32 - j when j > 0 octets wait in the buffer;
  for any longer one the 32-bit index of the loop of \<open>update\<close> wraps and the input is overrun.\<close>
theorem update_input_limit:
  assumes "absorbed msg m" "length c < 2 ^ 32"
  shows "if length c < update_limit (length msg mod 64) then \<exists>m'. update c (of_nat (length c)) m = Some m' \<and> absorbed (msg @ c) m'
    else update c (of_nat (length c)) m = None"
proof (cases "length c < update_limit (length msg mod 64)")
  case True
  then show ?thesis using update_absorbed [OF assms(1)] by fastforce
next
  case False
  moreover have "unat (of_nat (length c) :: 32 word) = length c" using assms(2) by (simp add: unat_of_nat)
  moreover have "count0 m div 8 mod 64 = of_nat (length msg mod 64)"
    using assms(1) index_absorbed by (simp add: absorbed_def)
  ultimately show ?thesis using update_too_long [of m "length msg mod 64" "of_nat (length c)" c] by simp
qed

theorem update_input_limit_witness: "\<exists>m'. update [1] 1 (md5_init blank_md5) = Some m' \<and> absorbed [1] m'"
  using update_input_limit [of "[]" "md5_init blank_md5" "[1]"] init_absorbed [of blank_md5]
  by (simp add: update_limit_def blank_md5_def)

section \<open>Files\<close>

text \<open>\<open>fileMD5\<close> of a file on an object that has just been initialised.\<close>

lemma file_loop_absorbed: "absorbed msg m \<Longrightarrow>
    \<exists>m'. file_loop fr m = Some m' \<and> absorbed (msg @ fr) m' \<and> finalized m' = finalized m \<and> digest m' = digest m"
proof (induction fr m arbitrary: msg rule: file_loop.induct)
  case (1 fr m)
  show ?case
  proof (cases "fr = []")
    case True then show ?thesis using "1.prems" by (simp add: file_loop.simps)
  next
    case False
    let ?c = "take 10239999 fr"
    have "length ?c < 2 ^ 32 - 64" by (rule le_less_trans [of _ 10239999]) simp_all
    then obtain m1 where m1: "update ?c (of_nat (length ?c)) m = Some m1" "absorbed (msg @ ?c) m1"
      "finalized m1 = finalized m" "digest m1 = digest m"
      using update_absorbed [OF "1.prems" limit_more] by blast
    show ?thesis using "1.IH" [OF False m1(1,2)] m1(1,3,4) False by (subst file_loop.simps) simp
  qed
qed

text \<open>Whatever it has taken in, an object keeps its digest while it takes in more.\<close>

lemma update_keeps:
  assumes "length (buffer m) = 64" "length c < 2 ^ 32 - 64"
  shows "\<exists>m'. update c (of_nat (length c)) m = Some m' \<and> length (buffer m') = 64 \<and> finalized m' = finalized m \<and> digest m' = digest m"
proof -
  let ?j = "unat (count0 m div 8 mod 64)"
  have j: "count0 m div 8 mod 64 = of_nat ?j" "?j < 64"
    by (simp only: of_nat_unat ucast_id) (simp add: unat_mod)
  show ?thesis
  proof (cases "?j + length c < 64")
    case True
    then show ?thesis using update_short [OF j(1) True assms(1)] assms(1) by (simp add: min_def)
  next
    case False
    have "?j = ?j mod 64" using j(2) by simp
    then have "length c < update_limit ?j" using limit_more [OF assms(2), of ?j] by simp
    moreover have "64 - ?j \<le> length c" using False by linarith
    ultimately obtain b st c0 c1 where "update c (of_nat (length c)) m =
        Some (m\<lparr>count0 := c0, count1 := c1, buffer := b, state := st\<rparr>)" "length b = 64"
      using update_long [OF j _ assms(1)] by blast
    then show ?thesis by simp
  qed
qed

lemma file_loop_keeps: "length (buffer m) = 64 \<Longrightarrow>
    \<exists>m'. file_loop fr m = Some m' \<and> finalized m' = finalized m \<and> digest m' = digest m"
proof (induction fr m rule: file_loop.induct)
  case (1 fr m)
  show ?case
  proof (cases "fr = []")
    case True then show ?thesis by (simp add: file_loop.simps)
  next
    case False
    let ?c = "take 10239999 fr"
    have "length ?c < 2 ^ 32 - 64" by (rule le_less_trans [of _ 10239999]) simp_all
    then obtain m1 where m1: "update ?c (of_nat (length ?c)) m = Some m1" "length (buffer m1) = 64"
      "finalized m1 = finalized m" "digest m1 = digest m"
      using update_keeps [OF "1.prems"] by blast
    show ?thesis using "1.IH" [OF False m1(1,2)] m1(1,3,4) False by (subst file_loop.simps) simp
  qed
qed

text \<open>\<open>fileMD5\<close> of a file on a fresh object is the digest of its contents.  The object is left
  finalized and is not initialised again, so \<open>fileMD5\<close> of any other file on it returns the digest of
  the first file again.\<close>
theorem fileMD5_stale:
  assumes "length (buffer m) = 64"
  shows "\<exists>m1. fileMD5 (Contents fr) (md5_init m) = Some (hex (md5_digest fr), m1) \<and>
    (\<forall>fr2. \<exists>m2. fileMD5 (Contents fr2) m1 = Some (hex (md5_digest fr), m2))"
proof -
  obtain m0 where m0: "file_loop fr (md5_init m) = Some m0" "absorbed fr m0" "\<not> finalized m0"
    using file_loop_absorbed [of "[]" "md5_init m" fr] init_absorbed [OF assms] by auto
  obtain m1 where m1: "finalize m0 = Some m1" "finalized m1" "digest m1 = md5_digest fr" "length (buffer m1) = 64"
    using finalize_absorbed [OF m0(2,3)] by blast
  have "fileMD5 (Contents fr) (md5_init m) = Some (hex (md5_digest fr), m1)"
    using m0(1) m1 by (simp add: fileMD5_def hexdigest_def hex_def)
  moreover have "\<exists>m2. fileMD5 (Contents fr2) m1 = Some (hex (md5_digest fr), m2)" for fr2
    using file_loop_keeps [OF m1(4), of fr2] m1(2,3) by (auto simp: fileMD5_def finalize_def hexdigest_def hex_def)
  ultimately show ?thesis by blast
qed

theorem fileMD5_stale_witness:
  "\<exists>m1 m2. fileMD5 (Contents [0x61]) (md5_init blank_md5) = Some (hex (md5_digest [0x61]), m1) \<and>
     fileMD5 (Contents [0x62]) m1 = Some (hex (md5_digest [0x61]), m2)"
  using fileMD5_stale [of blank_md5 "[0x61]"] by (fastforce simp: blank_md5_def)

end
