(* ===== verification/Icmp.thy ===== *)
theory Icmp
  imports MsgBuffers
begin

text \<open>
  The two programs that send ICMP echo requests: \<open>src-linux/ping.cpp\<close> with \<open>icmp_header.hpp\<close> and
  \<open>ipv4_header.hpp\<close>, and \<open>src-linux/RawSocket.cpp\<close> with \<open>myicmp.h\<close>.  The pinger is a state with the one
  asynchronous wait of its timer; the clock, the datagrams and the process number are arbitrary.
  Times are in microseconds.
\<close>

section \<open>The ICMP header\<close>

text \<open>The array \<open>rep_\<close> of eight octets.\<close>

definition new_icmp_header :: bytes where "new_icmp_header = replicate 8 0"

definition rep_decode :: "nat \<Rightarrow> nat \<Rightarrow> bytes \<Rightarrow> 16 word" where
  "rep_decode a b rep = push_bit 8 (ucast (rep ! a)) + ucast (rep ! b)"

definition rep_encode :: "nat \<Rightarrow> nat \<Rightarrow> 16 word \<Rightarrow> bytes \<Rightarrow> bytes" where
  "rep_encode a b n rep = (rep[a := ucast (drop_bit 8 n)])[b := ucast (n AND 0xFF)]"

definition icmp_type :: "bytes \<Rightarrow> byte" where "icmp_type rep = rep ! 0"
definition icmp_code :: "bytes \<Rightarrow> byte" where "icmp_code rep = rep ! 1"
definition icmp_checksum :: "bytes \<Rightarrow> 16 word" where "icmp_checksum = rep_decode 2 3"
definition icmp_identifier :: "bytes \<Rightarrow> 16 word" where "icmp_identifier = rep_decode 4 5"
definition icmp_sequence_number :: "bytes \<Rightarrow> 16 word" where "icmp_sequence_number = rep_decode 6 7"

definition set_icmp_type :: "byte \<Rightarrow> bytes \<Rightarrow> bytes" where "set_icmp_type n rep = rep[0 := n]"
definition set_icmp_code :: "byte \<Rightarrow> bytes \<Rightarrow> bytes" where "set_icmp_code n rep = rep[1 := n]"
definition set_icmp_checksum :: "16 word \<Rightarrow> bytes \<Rightarrow> bytes" where "set_icmp_checksum = rep_encode 2 3"
definition set_icmp_identifier :: "16 word \<Rightarrow> bytes \<Rightarrow> bytes" where "set_icmp_identifier = rep_encode 4 5"
definition set_icmp_sequence_number :: "16 word \<Rightarrow> bytes \<Rightarrow> bytes" where "set_icmp_sequence_number = rep_encode 6 7"

definition echo_reply :: byte where "echo_reply = 0"
definition echo_request :: byte where "echo_request = 8"

definition icmp_read :: "bytes \<Rightarrow> (bytes \<times> bytes) option" where
  "icmp_read is = (if length is < 8 then None else Some (take 8 is, drop 8 is))"

section \<open>Its checksum\<close>

fun body_sum :: "32 word \<Rightarrow> bytes \<Rightarrow> 32 word" where
  "body_sum acc [] = acc"
| "body_sum acc [a] = acc + push_bit 8 (ucast a)"
| "body_sum acc (a # b # body) = body_sum (acc + push_bit 8 (ucast a) + ucast b) body"

text \<open>The two carries and the complement, common to both programs.\<close>

definition folded :: "32 word \<Rightarrow> 32 word" where
  "folded s = (let s1 = drop_bit 16 s + (s AND 0xFFFF) in s1 + drop_bit 16 s1)"

definition compute_checksum :: "bytes \<Rightarrow> bytes \<Rightarrow> bytes" where
  "compute_checksum header body =
     (let s = push_bit 8 (ucast (icmp_type header)) + ucast (icmp_code header) + ucast (icmp_identifier header) +
                ucast (icmp_sequence_number header) in
      set_icmp_checksum (ucast (NOT (folded (body_sum s body)))) header)"

text \<open>\<open>RawSocket.cpp\<close> sums the 16-bit words of the memory, lowest octet first.\<close>

fun word_sum :: "32 word \<Rightarrow> bytes \<Rightarrow> 32 word" where
  "word_sum acc [] = acc"
| "word_sum acc [a] = acc + ucast a"
| "word_sum acc (a # b # buf) = word_sum (acc + ucast (unle [a, b] :: 16 word)) buf"

definition checksum :: "bytes \<Rightarrow> 16 word" where
  "checksum buf = ucast (NOT (folded (word_sum 0 buf)))"

text \<open>The buffer \<open>m_buff\<close> and the counter \<open>n\<close>; the packet handed to \<open>sendto\<close>.\<close>

definition hello :: bytes where "hello = ascii ''This is my ping.''"

definition sendPkt :: "16 word \<Rightarrow> memory \<Rightarrow> 16 word \<times> memory \<times> bytes" where
  "sendPkt n m_buff =
     (let m1 = put 0 [8, 0] m_buff;
          m2 = put 6 (le 2 n) (put 4 (le 2 (1 :: 16 word)) m1);
          m3 = put 16 hello (put 8 (le 4 (0x5E11C643 :: 32 word)) m2);
          len = 16 + length hello;
          m4 = put 2 (le 2 (0 :: 16 word)) m3;
          m5 = put 2 (le 2 (checksum (get 0 len m4))) m4 in
      (n + 1, m5, get 0 len m5))"

section \<open>The IPv4 header\<close>

definition ipv4_version :: "bytes \<Rightarrow> byte" where "ipv4_version rep = drop_bit 4 (rep ! 0) AND 0xF"
definition ipv4_header_length :: "bytes \<Rightarrow> nat" where "ipv4_header_length rep = unat (rep ! 0 AND 0xF) * 4"
definition ipv4_time_to_live :: "bytes \<Rightarrow> 32 word" where "ipv4_time_to_live rep = ucast (rep ! 8)"
definition ipv4_source_address :: "bytes \<Rightarrow> bytes" where "ipv4_source_address rep = [rep ! 12, rep ! 13, rep ! 14, rep ! 15]"

text \<open>\<open>None\<close>: the stream has failed.\<close>

definition ipv4_read :: "bytes \<Rightarrow> (bytes \<times> bytes) option" where
  "ipv4_read is =
     (if length is < 20 then None
      else (let header = take 20 is @ replicate 40 0 in
        if ipv4_version header \<noteq> 4 then None
        else (let options_length = int (ipv4_header_length header) - 20 in
          if options_length < 0 \<or> 40 < options_length then None
          else (let n = nat options_length in
            if length is - 20 < n then None
            else Some (take (20 + n) is @ replicate (40 - n) 0, drop (20 + n) is)))))"

section \<open>The pinger\<close>

text \<open>What the timer waits with: a handler to be called at some time, or one that is due because the
  wait was cancelled.\<close>

datatype handler = Handle_timeout | Start_send
datatype waiting = At nat handler | Cancelled handler

datatype printout = Request_timed_out
  | Bytes_from nat bytes "16 word" "32 word" nat

record pinger =
  now :: nat
  timer :: waiting
  sequence_number :: "16 word"
  time_sent :: nat
  num_replies :: nat
  requests :: "(nat \<times> bytes) list"
  cout :: "printout list"

definition ping_body :: bytes where
  "ping_body = ascii ([CHR 0x22] @ ''Hello!'' @ [CHR 0x22] @ '' from Asio ping.'')"

definition echo_packet :: "16 word \<Rightarrow> 16 word \<Rightarrow> bytes" where
  "echo_packet pid seq =
     compute_checksum (set_icmp_sequence_number seq (set_icmp_identifier pid (set_icmp_code 0
       (set_icmp_type echo_request new_icmp_header)))) ping_body @ ping_body"

definition start_send :: "16 word \<Rightarrow> pinger \<Rightarrow> pinger" where
  "start_send pid s = (let seq = sequence_number s + 1 in
     s\<lparr>sequence_number := seq, time_sent := now s, requests := requests s @ [(now s, echo_packet pid seq)],
       num_replies := 0, timer := At (now s + 5000000) Handle_timeout\<rparr>)"

definition handle_timeout :: "pinger \<Rightarrow> pinger" where
  "handle_timeout s =
     s\<lparr>cout := cout s @ (if num_replies s = 0 then [Request_timed_out] else []),
       timer := At (time_sent s + 1000000) Start_send\<rparr>"

fun cancel :: "waiting \<Rightarrow> waiting" where
  "cancel (At t h) = Cancelled h"
| "cancel (Cancelled h) = Cancelled h"

definition handle_receive :: "16 word \<Rightarrow> bytes \<Rightarrow> pinger \<Rightarrow> pinger" where
  "handle_receive pid reply_buffer s =
     (case ipv4_read reply_buffer of None \<Rightarrow> s | Some (ipv4_hdr, is) \<Rightarrow>
       (case icmp_read is of None \<Rightarrow> s | Some (icmp_hdr, _) \<Rightarrow>
         if icmp_type icmp_hdr = echo_reply \<and> icmp_identifier icmp_hdr = pid \<and>
            icmp_sequence_number icmp_hdr = sequence_number s
         then s\<lparr>timer := (if num_replies s = 0 then cancel (timer s) else timer s),
                num_replies := num_replies s + 1,
                cout := cout s @ [Bytes_from (length reply_buffer - ipv4_header_length ipv4_hdr)
                  (ipv4_source_address ipv4_hdr) (icmp_sequence_number icmp_hdr) (ipv4_time_to_live ipv4_hdr)
                  ((now s - time_sent s) div 1000)]\<rparr>
         else s))"

definition new_pinger :: "16 word \<Rightarrow> nat \<Rightarrow> pinger" where
  "new_pinger pid t = start_send pid \<lparr>now = t, timer = At t Start_send, sequence_number = 0, time_sent = t,
     num_replies = 0, requests = [], cout = []\<rparr>"

text \<open>The events: time passes, the handler of the timer is called, a datagram arrives.\<close>

fun due :: "nat \<Rightarrow> waiting \<Rightarrow> handler option" where
  "due t (At t0 h) = (if t0 \<le> t then Some h else None)"
| "due t (Cancelled h) = Some h"

fun call_handler :: "16 word \<Rightarrow> handler \<Rightarrow> pinger \<Rightarrow> pinger" where
  "call_handler pid Handle_timeout = handle_timeout"
| "call_handler pid Start_send = start_send pid"

inductive pinging :: "16 word \<Rightarrow> pinger \<Rightarrow> bool" for pid :: "16 word" where
  started: "pinging pid (new_pinger pid t)"
| passes: "pinging pid s \<Longrightarrow> pinging pid (s\<lparr>now := now s + d\<rparr>)"
| fires: "pinging pid s \<Longrightarrow> due (now s) (timer s) = Some h \<Longrightarrow> pinging pid (call_handler pid h s)"
| receives: "pinging pid s \<Longrightarrow> length datagram \<le> 65536 \<Longrightarrow> pinging pid (handle_receive pid datagram s)"

end
