(* ===== verification/IcmpProps.thy ===== *)
theory IcmpProps
  imports Icmp
begin

text \<open>
  The checksum routines against RFC 1071, the headers, and the invariant of the pinger.
\<close>

section \<open>The one's complement sum\<close>

text \<open>RFC 1071: the 16-bit words of the data, an odd octet padded with zero, are added with end-around
  carry; the checksum is the complement.\<close>

definition ones_add :: "16 word \<Rightarrow> 16 word \<Rightarrow> 16 word" where
  "ones_add x y = (let s = unat x + unat y in of_nat (s mod 65536 + s div 65536))"

fun be_words :: "bytes \<Rightarrow> 16 word list" where
  "be_words [] = []"
| "be_words [a] = [push_bit 8 (ucast a)]"
| "be_words (a # b # bs) = (push_bit 8 (ucast a) + ucast b) # be_words bs"

definition ones_sum :: "16 word list \<Rightarrow> 16 word" where
  "ones_sum ws = foldl ones_add 0 ws"

definition internet_checksum :: "bytes \<Rightarrow> 16 word" where
  "internet_checksum bs = NOT (ones_sum (be_words bs))"

text \<open>The same sum on natural numbers: a positive multiple of 65535 is represented by 65535.\<close>

definition rep16 :: "nat \<Rightarrow> nat" where
  "rep16 n = (if n = 0 then 0 else (n - 1) mod 65535 + 1)"

lemma rep16_0 [simp]: "rep16 0 = 0" by (simp add: rep16_def)

lemma rep16_small: "n \<le> 65535 \<Longrightarrow> rep16 n = n"
  by (cases n) (simp_all add: rep16_def)

lemma rep16_le: "rep16 n \<le> 65535" "rep16 n < 65536"
proof -
  have "(n - 1) mod 65535 < 65535" by simp
  then have "(n - 1) mod 65535 + 1 \<le> 65535" by linarith
  then show "rep16 n \<le> 65535" unfolding rep16_def by simp
  then show "rep16 n < 65536" by simp
qed

lemma rep16_mod: "rep16 n mod 65535 = n mod 65535"
proof (cases n)
  case (Suc m)
  then have "rep16 n mod 65535 = (m mod 65535 + 1) mod 65535" by (simp add: rep16_def)
  also have "\<dots> = (m + 1) mod 65535" by (rule mod_add_left_eq)
  finally show ?thesis using Suc by simp
qed simp

lemma rep16_eq_0 [simp]: "rep16 n = 0 \<longleftrightarrow> n = 0" by (simp add: rep16_def)

lemma u16_le: "unat w \<le> 65535" "unat w < 65536" for w :: "16 word"
proof -
  have "unat w < 2 ^ LENGTH(16)" by (rule unsigned_less)
  then show "unat w < 65536" "unat w \<le> 65535" by simp_all
qed

text \<open>A number below 65536 is determined by its remainder and by whether it is zero.\<close>

lemma rep16_unique:
  assumes "m \<le> 65535" "m mod 65535 = n mod 65535" "m = 0 \<longleftrightarrow> n = 0"
  shows "m = rep16 n"
proof (cases "n = 0")
  case False
  have k: "rep16 n mod 65535 = m mod 65535" "rep16 n \<noteq> 0" "m \<noteq> 0" "rep16 n \<le> 65535"
    using assms False rep16_mod rep16_le(1) by auto
  have "x = 65535" if "x mod 65535 = 0" "x \<noteq> 0" "x \<le> 65535" for x :: nat
    using that by (metis dvd_imp_le gr0I le_antisym mod_0_imp_dvd)
  then show ?thesis using k assms(1) by (metis le_neq_implies_less mod_less mod_self)
qed (use assms in simp)

lemma rep16_add: "rep16 (rep16 m + n) = rep16 (m + n)"
proof -
  have "(rep16 m + n) mod 65535 = (m + n) mod 65535" by (rule mod_add_cong [OF rep16_mod refl])
  then have "rep16 (rep16 m + n) mod 65535 = (m + n) mod 65535" by (simp only: rep16_mod)
  then show ?thesis by (rule rep16_unique [OF rep16_le(1)]) simp
qed

lemma unat_of_small: "n \<le> 65535 \<Longrightarrow> unat (of_nat n :: 16 word) = n"
  by (simp add: unat_of_nat take_bit_eq_mod)

lemma carry_mod: "(s mod 65536 + s div 65536) mod 65535 = s mod 65535" for s :: nat
proof -
  have "s = 65535 * (s div 65536) + (s mod 65536 + s div 65536)" by simp
  then show ?thesis by (metis mod_mult_self4)
qed

lemma unat_ones_add: "unat (ones_add x y) = rep16 (unat x + unat y)"
proof -
  let ?s = "unat x + unat y"
  have b: "unat x < 65536" "unat y < 65536" by (rule u16_le)+
  have d: "?s = 65536 * (?s div 65536) + ?s mod 65536" by simp
  have "?s div 65536 \<le> 1" using b by linarith
  then have e: "?s div 65536 = 0 \<or> ?s div 65536 = 1" by linarith
  have le: "?s mod 65536 + ?s div 65536 \<le> 65535" using e d b by linarith
  have "?s mod 65536 + ?s div 65536 = rep16 ?s"
  proof (rule rep16_unique [OF le])
    show "(?s mod 65536 + ?s div 65536) mod 65535 = ?s mod 65535" by (rule carry_mod)
    show "?s mod 65536 + ?s div 65536 = 0 \<longleftrightarrow> ?s = 0" using d by auto
  qed
  then show ?thesis using unat_of_small [OF le] by (simp only: ones_add_def Let_def)
qed

lemma unat_foldl: "unat (foldl ones_add acc ws) = rep16 (unat acc + sum_list (map unat ws))"
proof (induction ws arbitrary: acc)
  case Nil
  have "unat acc \<le> 65535" by (rule u16_le)
  then show ?case by (simp add: rep16_small)
next
  case (Cons w ws)
  then show ?case by (simp add: unat_ones_add rep16_add add.assoc)
qed

lemma unat_ones_sum: "unat (ones_sum ws) = rep16 (sum_list (map unat ws))"
  by (simp add: ones_sum_def unat_foldl)

lemma unat_folded: "unat (ucast (folded s) :: 16 word) = rep16 (unat s)"
proof -
  let ?h = "unat s div 65536" and ?l = "unat s mod 65536"
  let ?s1 = "drop_bit 16 s + (s AND 0xFFFF)"
  have "unat s < 2 ^ LENGTH(32)" by (rule unsigned_less)
  then have hl: "?h < 65536" "?l < 65536" by (simp_all add: less_mult_imp_div_less)
  have "s AND 0xFFFF = take_bit 16 s" by (simp add: take_bit_eq_mask mask_numeral)
  then have u: "unat (drop_bit 16 s) = ?h" "unat (s AND 0xFFFF) = ?l"
    by (simp_all only: unat_drop_bit_eq unsigned_take_bit_eq) (simp_all add: drop_bit_eq_div take_bit_eq_mod)
  have s1: "unat ?s1 = ?h + ?l" using hl u by (simp add: unat_add_lem [THEN iffD1])
  let ?c = "(?h + ?l) div 65536"
  have c: "?c = 0 \<or> ?c = 1" using hl by linarith
  have u2: "unat (drop_bit 16 ?s1) = ?c" by (simp only: unat_drop_bit_eq s1) (simp add: drop_bit_eq_div)
  have s2: "unat (folded s) = ?h + ?l + ?c"
    using hl c s1 u2 unfolding folded_def Let_def by (subst unat_add_lem [THEN iffD1]) auto
  have d: "?h + ?l = 65536 * ?c + (?h + ?l) mod 65536" by simp
  have le: "(?h + ?l) mod 65536 + ?c \<le> 65535" using c hl d by linarith
  then have "((?h + ?l) mod 65536 + ?c) mod 65536 = (?h + ?l) mod 65536 + ?c" by simp
  then have low: "(?h + ?l + ?c) mod 65536 = (?h + ?l) mod 65536 + ?c" by (simp only: mod_add_left_eq)
  have n: "unat s = 65535 * ?h + (?h + ?l)" by simp
  have "(?h + ?l) mod 65536 + ?c = rep16 (unat s)"
  proof (rule rep16_unique [OF le])
    have "((?h + ?l) mod 65536 + ?c) mod 65535 = (?h + ?l) mod 65535" by (rule carry_mod)
    also have "\<dots> = (?l + ?h) mod 65535" by (simp only: add.commute)
    also have "\<dots> = unat s mod 65535" by (rule carry_mod)
    finally show "((?h + ?l) mod 65536 + ?c) mod 65535 = unat s mod 65535" .
    have "(?h + ?l) mod 65536 + ?c = 0 \<longleftrightarrow> ?h + ?l = 0" using d by linarith
    also have "\<dots> \<longleftrightarrow> unat s = 0" using n by linarith
    finally show "(?h + ?l) mod 65536 + ?c = 0 \<longleftrightarrow> unat s = 0" .
  qed
  then show ?thesis by (simp only: unsigned_ucast_eq s2) (simp add: take_bit_eq_mod low)
qed

section \<open>The two sums of the programs\<close>

lemma length_be_words: "length (be_words bs) = (length bs + 1) div 2"
  by (induction bs rule: be_words.induct) simp_all

lemma unat_octet: "unat a < 256" "unat a \<le> 255" for a :: byte
proof -
  have "unat a < 2 ^ LENGTH(8)" by (rule unsigned_less)
  then show "unat a < 256" "unat a \<le> 255" by simp_all
qed

lemma unat_shifted: "unat (push_bit 8 (ucast a) :: 16 word) = 256 * unat a" "unat (push_bit 8 (ucast a) :: 32 word) = 256 * unat a"
  for a :: byte
  using unat_octet [of a] by (simp_all only: unsigned_push_bit_eq unsigned_ucast_eq)
    (simp_all add: push_bit_eq_mult take_bit_eq_mod)

lemma unat_widened: "unat (ucast b :: 16 word) = unat b" "unat (ucast b :: 32 word) = unat b" for b :: byte
  using unat_octet [of b] by (simp_all add: unsigned_ucast_eq take_bit_eq_mod)

lemma unat_plus_small: "unat x + unat y < 2 ^ LENGTH('a) \<Longrightarrow> unat (x + y) = unat x + unat y" for x y :: "'a::len word"
  by (simp add: unat_add_lem)

lemma unat_be_word: "unat (push_bit 8 (ucast a) + ucast b :: 16 word) = 256 * unat a + unat b" for a b :: byte
  using unat_octet [of a] unat_octet [of b] by (simp add: unat_plus_small unat_shifted unat_widened)

lemma unat_le_word: "unat (unle [a, b] :: 16 word) = unat a + 256 * unat b" for a b :: byte
proof -
  have "unle [a, b] = (ucast a OR push_bit 8 (ucast b) :: 16 word)" by simp
  also have "\<dots> = ucast a + push_bit 8 (ucast b)"
    by (rule disjunctive_add [symmetric]) (auto simp: bit_simps dest: bit_imp_le_length)
  finally show ?thesis using unat_octet [of a] unat_octet [of b] by (simp add: unat_plus_small unat_shifted unat_widened)
qed

fun be_value :: "bytes \<Rightarrow> nat" where
  "be_value [] = 0"
| "be_value [a] = 256 * unat a"
| "be_value (a # b # bs) = 256 * unat a + unat b + be_value bs"

fun le_value :: "bytes \<Rightarrow> nat" where
  "le_value [] = 0"
| "le_value [a] = unat a"
| "le_value (a # b # bs) = unat a + 256 * unat b + le_value bs"

lemma be_value: "sum_list (map unat (be_words bs)) = be_value bs"
  by (induction bs rule: be_words.induct) (simp_all add: unat_shifted unat_be_word)

lemma value_bounds: "be_value bs \<le> 65535 * ((length bs + 1) div 2)" "le_value bs \<le> 65535 * ((length bs + 1) div 2)"
proof (induction bs rule: be_words.induct)
  case (3 a b bs)
  { case 1 then show ?case using 3 unat_octet(2) [of a] unat_octet(2) [of b] by simp }
  { case 2 then show ?case using 3 unat_octet(2) [of a] unat_octet(2) [of b] by simp }
next
  case (2 a)
  { case 1 show ?case using unat_octet(2) [of a] by simp }
  { case 2 show ?case using unat_octet(2) [of a] by simp }
qed simp_all

lemma swapped_value: "le_value bs mod 65535 = 256 * be_value bs mod 65535" "le_value bs = 0 \<longleftrightarrow> be_value bs = 0"
proof (induction bs rule: be_words.induct)
  case (2 a)
  { case 1
    have "256 * be_value [a] = unat a + 65535 * unat a" by simp
    then show ?case by (metis le_value.simps(2) mod_mult_self2) }
  { case 2 show ?case by simp }
next
  case (3 a b bs)
  { case 1
    have "256 * be_value (a # b # bs) = unat a + 256 * unat b + 256 * be_value bs + 65535 * unat a" by simp
    then have "256 * be_value (a # b # bs) mod 65535 = (unat a + 256 * unat b + 256 * be_value bs) mod 65535" by (metis mod_mult_self2)
    also have "\<dots> = (unat a + 256 * unat b + le_value bs) mod 65535" by (rule mod_add_cong [OF refl 3(1) [symmetric]])
    finally show ?case by simp }
  { case 2 show ?case using 3(2) by simp }
qed simp_all

lemma unat_body_sum: "unat acc + be_value bs < 2 ^ 32 \<Longrightarrow> unat (body_sum acc bs) = unat acc + be_value bs"
proof (induction acc bs rule: body_sum.induct)
  case (3 acc a b bs)
  then have "unat (acc + push_bit 8 (ucast a)) = unat acc + 256 * unat a" by (simp add: unat_plus_small unat_shifted)
  moreover from this 3 have "unat (acc + push_bit 8 (ucast a) + ucast b) = unat acc + 256 * unat a + unat b"
    by (subst unat_plus_small) (simp_all add: unat_widened)
  ultimately show ?case using 3 by simp
qed (simp_all add: unat_plus_small unat_shifted)

lemma unat_word_sum: "unat acc + le_value bs < 2 ^ 32 \<Longrightarrow> unat (word_sum acc bs) = unat acc + le_value bs"
proof (induction acc bs rule: word_sum.induct)
  case (3 acc a b bs)
  have "unat (ucast (unle [a, b] :: 16 word) :: 32 word) = unat a + 256 * unat b"
    using unat_le_word [of a b] unat_octet [of a] unat_octet [of b] by (simp only: unsigned_ucast_eq) (simp add: take_bit_eq_mod)
  then have "unat (acc + ucast (unle [a, b] :: 16 word)) = unat acc + (unat a + 256 * unat b)" using 3(2)
    by (subst unat_plus_small) simp_all
  then show ?case using 3 by simp
qed (simp_all add: unat_plus_small unat_widened)

section \<open>The checksums of the programs\<close>

lemma octets_join16 [simp]: "push_bit 8 (ucast (ucast (drop_bit 8 n) :: byte)) + ucast (ucast (n AND 0xFF) :: byte) = n"
  for n :: "16 word"
proof -
  have "push_bit 8 (ucast (ucast (drop_bit 8 n) :: byte)) + ucast (ucast (n AND 0xFF) :: byte) =
      push_bit 8 (ucast (ucast (drop_bit 8 n) :: byte)) OR ucast (ucast (n AND 0xFF) :: byte)"
    by (rule disjunctive_add) (auto simp: bit_simps dest: bit_imp_le_length)
  also have "\<dots> = push_bit 8 (ucast (ucast (drop_bit 8 n) :: byte)) OR ucast (ucast (take_bit 8 n) :: byte)"
    by (simp add: take_bit_eq_mask mask_numeral)
  also have "\<dots> = n"
  proof (rule bit_word_eqI)
    fix k assume "k < LENGTH(16)"
    then show "bit (push_bit 8 (ucast (ucast (drop_bit 8 n) :: byte)) OR ucast (ucast (take_bit 8 n) :: byte) :: 16 word) k = bit n k"
      by (cases "k < 8") (auto simp: bit_simps)
  qed
  finally show ?thesis .
qed

lemma rep_decode_encode [simp]:
  "a < length rep \<Longrightarrow> b < length rep \<Longrightarrow> a \<noteq> b \<Longrightarrow> rep_decode a b (rep_encode a b n rep) = n"
  by (simp add: rep_decode_def rep_encode_def nth_list_update)

lemma rep_decode_other [simp]: "{c, d} \<inter> {a, b} = {} \<Longrightarrow> rep_decode a b (rep_encode c d n rep) = rep_decode a b rep"
  by (simp add: rep_decode_def rep_encode_def)

lemma length_rep_encode [simp]: "length (rep_encode a b n rep) = length rep"
  by (simp add: rep_encode_def)

lemma unat_not16: "unat (NOT w) = 65535 - unat w" for w :: "16 word"
proof -
  have "NOT w = - 1 - w" by (simp add: not_eq_complement)
  then show ?thesis using unat_sub [of w "- 1"] by (simp add: unsigned_minus_1_eq_mask mask_eq_exp_minus_1)
qed

lemma header_octets:
  assumes "length h = 8"
  shows "h = [h ! 0, h ! 1, h ! 2, h ! 3, h ! 4, h ! 5, h ! 6, h ! 7]"
  by (rule nth_equalityI) (use assms in \<open>auto simp: less_Suc_eq numeral_eq_Suc\<close>)

lemma unat_rep_decode: "unat (rep_decode a b rep) = 256 * unat (rep ! a) + unat (rep ! b)"
  unfolding rep_decode_def by (rule unat_be_word)

text \<open>The value of a packet is that of its header fields and its body.\<close>

lemma be_value_packet:
  assumes "length h = 8"
  shows "be_value (h @ body) = 256 * unat (icmp_type h) + unat (icmp_code h) + unat (icmp_checksum h) +
    unat (icmp_identifier h) + unat (icmp_sequence_number h) + be_value body"
  by (subst header_octets [OF assms])
    (simp add: icmp_type_def icmp_code_def icmp_checksum_def icmp_identifier_def icmp_sequence_number_def unat_rep_decode)

lemma header_fields [simp]:
  assumes "length h = 8"
  shows "icmp_checksum (set_icmp_checksum c h) = c" "icmp_type (set_icmp_checksum c h) = icmp_type h"
    "icmp_code (set_icmp_checksum c h) = icmp_code h" "icmp_identifier (set_icmp_checksum c h) = icmp_identifier h"
    "icmp_sequence_number (set_icmp_checksum c h) = icmp_sequence_number h" "length (set_icmp_checksum c h) = 8"
  using assms by (simp_all add: icmp_checksum_def set_icmp_checksum_def icmp_type_def icmp_code_def icmp_identifier_def
      icmp_sequence_number_def) (simp_all add: rep_encode_def)

lemma half_bound: "length body \<le> 131068 \<Longrightarrow> be_value body \<le> 65535 * 65534"
proof -
  assume "length body \<le> 131068"
  then have "(length body + 1) div 2 \<le> 65534" by linarith
  then show ?thesis using value_bounds(1) [of body] mult_le_mono2 [of "(length body + 1) div 2" 65534 65535] by linarith
qed

lemma compute_checksum_value:
  assumes "length header = 8" "length body \<le> 131068"
  shows "compute_checksum header body = set_icmp_checksum (NOT (ones_sum (be_words (set_icmp_checksum 0 header @ body)))) header"
proof -
  let ?acc = "push_bit 8 (ucast (icmp_type header)) + ucast (icmp_code header) + ucast (icmp_identifier header) +
      ucast (icmp_sequence_number header) :: 32 word"
  let ?fields = "256 * unat (icmp_type header) + unat (icmp_code header) + unat (icmp_identifier header) +
      unat (icmp_sequence_number header)"
  have w: "unat (ucast x :: 32 word) = unat x" for x :: "16 word"
    by (simp only: unsigned_ucast_eq) (use u16_le [of x] in \<open>simp add: take_bit_eq_mod\<close>)
  note b = unat_octet(2) [of "icmp_type header"] unat_octet(2) [of "icmp_code header"] u16_le(1) [of "icmp_identifier header"]
    u16_le(1) [of "icmp_sequence_number header"]
  have 1: "unat (push_bit 8 (ucast (icmp_type header)) + ucast (icmp_code header) :: 32 word) =
      256 * unat (icmp_type header) + unat (icmp_code header)"
    using b by (subst unat_plus_small) (simp_all add: unat_shifted unat_widened)
  have 2: "unat (push_bit 8 (ucast (icmp_type header)) + ucast (icmp_code header) + ucast (icmp_identifier header) :: 32 word) =
      256 * unat (icmp_type header) + unat (icmp_code header) + unat (icmp_identifier header)"
    using b 1 by (subst unat_plus_small) (simp_all add: w)
  have acc: "unat ?acc = ?fields" using b 2 by (subst unat_plus_small) (simp_all add: w)
  have "unat (body_sum ?acc body) = ?fields + be_value body"
    using unat_body_sum [of ?acc body] b half_bound [OF assms(2)] unfolding acc by simp
  also have "\<dots> = be_value (set_icmp_checksum 0 header @ body)" using assms(1) by (simp add: be_value_packet)
  finally have "unat (ucast (folded (body_sum ?acc body)) :: 16 word) =
      unat (ones_sum (be_words (set_icmp_checksum 0 header @ body)))"
    by (simp only: unat_folded unat_ones_sum be_value)
  then have "(ucast (folded (body_sum ?acc body)) :: 16 word) = ones_sum (be_words (set_icmp_checksum 0 header @ body))"
    by (simp only: word_unat_eq_iff)
  moreover have "(ucast (NOT v) :: 16 word) = NOT (ucast v)" for v :: "32 word"
    by (rule bit_word_eqI) (simp add: bit_simps)
  ultimately show ?thesis by (simp add: compute_checksum_def)
qed

text \<open>The checksum makes the words of the packet add up to all ones.\<close>

lemma complement_completes: "rep16 (v + (65535 - rep16 v)) = 65535"
proof -
  have "rep16 (rep16 v + (65535 - rep16 v)) = rep16 (v + (65535 - rep16 v))" by (rule rep16_add)
  then show ?thesis using rep16_le(1) [of v] by (simp add: rep16_small)
qed

lemma le_htons: "unat (htons w) = unat w div 256 + 256 * (unat w mod 256)"
proof -
  have "le 2 w = [ucast w, ucast (drop_bit 8 w)]" by (simp add: le_def upt_rec)
  then have "htons w = unle [ucast (drop_bit 8 w), ucast w]" by (simp add: htons_def)
  then have "unat (htons w) = unat (ucast (drop_bit 8 w) :: byte) + 256 * unat (ucast w :: byte)" by (simp only: unat_le_word)
  moreover have "unat (ucast (drop_bit 8 w) :: byte) = unat w div 256"
    using u16_le(2) [of w] by (simp only: unsigned_ucast_eq unat_drop_bit_eq)
      (simp add: drop_bit_eq_div take_bit_eq_mod less_mult_imp_div_less)
  moreover have "unat (ucast w :: byte) = unat w mod 256" by (simp only: unsigned_ucast_eq) (simp add: take_bit_eq_mod)
  ultimately show ?thesis by simp
qed

lemma htons_rep16: "unat (htons w) = rep16 (256 * unat w)"
proof (rule rep16_unique)
  show "unat (htons w) \<le> 65535" by (rule u16_le)
  have d: "unat w = 256 * (unat w div 256) + unat w mod 256" by simp
  then have "256 * unat w = unat (htons w) + 65535 * (unat w div 256)" using le_htons [of w] by linarith
  then show "unat (htons w) mod 65535 = 256 * unat w mod 65535" by (metis mod_mult_self2)
  show "unat (htons w) = 0 \<longleftrightarrow> 256 * unat w = 0" using d le_htons [of w] by linarith
qed

lemma htons_not: "NOT (htons w) = htons (NOT w)"
proof -
  have "unat (NOT (htons w)) = unat (htons (NOT w))"
  proof -
    define q r where "q = unat w div 256" and "r = unat w mod 256"
    have w: "unat w = 256 * q + r" "r < 256" "q < 256" using u16_le(2) [of w] by (auto simp: q_def r_def)
    have n: "unat (NOT w) = 256 * (255 - q) + (255 - r)" using w by (simp add: unat_not16)
    have m: "(255 - r) < 256" using w by simp
    have "unat (NOT w) div 256 = 255 - q" "unat (NOT w) mod 256 = 255 - r" unfolding n using m by simp_all
    then show ?thesis using w by (simp add: unat_not16 le_htons)
  qed
  then show ?thesis by (simp only: word_unat_eq_iff)
qed

lemma checksum_value:
  assumes "length buf \<le> 131074"
  shows "checksum buf = htons (internet_checksum buf)"
proof -
  have "(length buf + 1) div 2 \<le> 65537" using assms by linarith
  then have "le_value buf \<le> 65535 * 65537"
    using value_bounds(2) [of buf] mult_le_mono2 [of "(length buf + 1) div 2" 65537 65535] by linarith
  then have "le_value buf < 2 ^ 32" by simp
  then have "unat (word_sum 0 buf) = le_value buf" using unat_word_sum [of 0 buf] by simp
  then have u: "unat (ucast (folded (word_sum 0 buf)) :: 16 word) = rep16 (le_value buf)" by (simp only: unat_folded)
  have "rep16 (256 * rep16 n) = rep16 (256 * n)" for n
    by (rule rep16_unique [OF rep16_le(1)]) (auto simp: rep16_mod intro: mod_mult_cong [OF refl rep16_mod])
  then have "unat (htons (ones_sum (be_words buf))) = rep16 (256 * be_value buf)"
    by (simp only: htons_rep16 unat_ones_sum be_value)
  also have "\<dots> = rep16 (le_value buf)"
    by (rule rep16_unique [OF rep16_le(1), symmetric, THEN sym]) (auto simp: rep16_mod swapped_value)
  finally have "ucast (folded (word_sum 0 buf)) = htons (ones_sum (be_words buf))" using u by (simp only: word_unat_eq_iff)
  moreover have "(ucast (NOT v) :: 16 word) = NOT (ucast v)" for v :: "32 word"
    by (rule bit_word_eqI) (simp add: bit_simps)
  ultimately show ?thesis by (simp add: checksum_def internet_checksum_def htons_not)
qed

lemma all_ones: "unat w = 65535 \<Longrightarrow> w = - 1" for w :: "16 word"
  using word_unat_eq_iff [of w "- 1"] by (simp add: unsigned_minus_1_eq_mask mask_eq_exp_minus_1)

lemma completed_packet:
  assumes "length h = 8"
  shows "ones_sum (be_words (set_icmp_checksum (internet_checksum (set_icmp_checksum 0 h @ body)) h @ body)) = - 1"
proof (rule all_ones)
  let ?v = "be_value (set_icmp_checksum 0 h @ body)" and ?c = "internet_checksum (set_icmp_checksum 0 h @ body)"
  have "unat ?c = 65535 - rep16 ?v" by (simp add: internet_checksum_def unat_not16 unat_ones_sum be_value)
  then have "be_value (set_icmp_checksum ?c h @ body) = ?v + (65535 - rep16 ?v)" using assms by (simp add: be_value_packet)
  then show "unat (ones_sum (be_words (set_icmp_checksum ?c h @ body))) = 65535"
    by (simp only: unat_ones_sum be_value complement_completes)
qed

text \<open>C25: both programs compute the checksum of RFC 1071: the pinger on the fields of its header and the octets of a
  body of at most 131068 octets, for which the words of the packet then add up to all ones; the other program
  on up to 131074 octets in the host's order, whose result lies in memory in network order.\<close>
theorem checksums_rfc1071:
  assumes "length header = 8" "length body \<le> 131068" "length buf \<le> 131074"
  shows "icmp_checksum (compute_checksum header body) = internet_checksum (set_icmp_checksum 0 header @ body) \<and>
    ones_sum (be_words (compute_checksum header body @ body)) = - 1 \<and>
    le 2 (checksum buf) = rev (le 2 (internet_checksum buf))"
  using compute_checksum_value [OF assms(1,2)] completed_packet [OF assms(1), of body] checksum_value [OF assms(3)] assms(1)
  by (simp add: internet_checksum_def htons_bytes)

theorem checksums_rfc1071_witness:
  "ones_sum (be_words (compute_checksum [8, 0, 0, 0, 0, 1, 0, 2] [97] @ [97])) = - 1 \<and>
    le 2 (checksum [1, 2, 3]) = rev (le 2 (internet_checksum [1, 2, 3]))"
  using checksums_rfc1071 [of "[8, 0, 0, 0, 0, 1, 0, 2]" "[97]" "[1, 2, 3]"] by simp

text \<open>The packet of \<open>RawSocket::sendPkt\<close> is complete, whatever the buffer and the counter.\<close>

lemma sendPkt_complete:
  assumes "sendPkt n m_buff = (n', m', packet)"
  shows "length packet = 32 \<and> take 2 packet = [8, 0] \<and> ones_sum (be_words packet) = - 1"
proof -
  let ?m3 = "put 16 hello (put 8 (le 4 (0x5E11C643 :: 32 word)) (put 6 (le 2 n) (put 4 (le 2 (1 :: 16 word)) (put 0 [8, 0] m_buff))))"
  let ?m4 = "put 2 (le 2 (0 :: 16 word)) ?m3"
  let ?m5 = "put 2 (le 2 (checksum (get 0 32 ?m4))) ?m4"
  have hl: "length hello = 16" by (simp add: hello_def ascii_def)
  have packet: "packet = get 0 32 ?m5" using assms by (auto simp: sendPkt_def Let_def hl)
  let ?rest = "get 4 28 ?m3"
  have z: "le 2 (0 :: 16 word) = [0, 0]" by (simp add: le_def upt_rec)
  have split: "get 0 32 f = get 0 2 f @ get 2 2 f @ get 4 28 f" for f
    using get_split [of 0 2 30 f] get_split [of 2 2 28 f] by (simp del: add_2_eq_Suc add_2_eq_Suc')
  have p4: "get 0 32 ?m4 = [8, 0] @ [0, 0] @ ?rest" unfolding split by (simp add: z hl)
  have p5: "packet = [8, 0] @ le 2 (checksum (get 0 32 ?m4)) @ ?rest" unfolding packet split by (simp add: hl)
  let ?c = "internet_checksum (get 0 32 ?m4)"
  have "le 2 (checksum (get 0 32 ?m4)) = rev (le 2 ?c)" by (simp add: checksum_value htons_bytes)
  also have "\<dots> = [ucast (drop_bit 8 ?c), ucast ?c]" by (simp add: le_def upt_rec)
  finally have p: "packet = 8 # 0 # ucast (drop_bit 8 ?c) # ucast ?c # ?rest" using p5 by simp
  have "unat (ucast (drop_bit 8 ?c) :: byte) = unat ?c div 256"
    using u16_le(2) [of ?c] by (simp only: unsigned_ucast_eq unat_drop_bit_eq)
      (simp add: drop_bit_eq_div take_bit_eq_mod less_mult_imp_div_less)
  moreover have "unat (ucast ?c :: byte) = unat ?c mod 256" by (simp only: unsigned_ucast_eq) (simp add: take_bit_eq_mod)
  ultimately have "be_value packet = 2048 + unat ?c + be_value ?rest" by (simp add: p)
  also have "unat ?c = 65535 - rep16 (2048 + be_value ?rest)"
    by (simp add: internet_checksum_def unat_not16 unat_ones_sum be_value p4)
  finally have "be_value packet = 2048 + be_value ?rest + (65535 - rep16 (2048 + be_value ?rest))" by simp
  then have "unat (ones_sum (be_words packet)) = 65535" by (simp only: unat_ones_sum be_value complement_completes)
  then show ?thesis using all_ones p by simp
qed

section \<open>Replies\<close>

text \<open>A reply is taken exactly when the datagram is an IPv4 header of its own length, then an echo reply to the
  last request; the number printed is that of the octets after the IPv4 header.\<close>

lemma ipv4_read_Some:
  assumes "ipv4_read d = Some (hdr, rest)"
  shows "ipv4_header_length hdr = length d - length rest \<and> 20 \<le> ipv4_header_length hdr \<and> length rest \<le> length d \<and>
    rest = drop (ipv4_header_length hdr) d \<and> length hdr = 60"
proof -
  let ?h = "take 20 d @ replicate 40 0"
  have d: "20 \<le> length d" using assms by (auto simp: ipv4_read_def split: if_splits)
  have h: "?h ! 0 = d ! 0" using d by (simp add: nth_append)
  let ?n = "nat (int (ipv4_header_length ?h) - 20)"
  have n: "0 \<le> int (ipv4_header_length ?h) - 20" "int (ipv4_header_length ?h) - 20 \<le> 40" "?n \<le> length d - 20"
    "hdr = take (20 + ?n) d @ replicate (40 - ?n) 0" "rest = drop (20 + ?n) d"
    using assms d by (auto simp: ipv4_read_def Let_def split: if_splits)
  have "d \<noteq> []" using d by auto
  then have "hdr ! 0 = d ! 0" using n(4) by (simp add: nth_append)
  then have "ipv4_header_length hdr = ipv4_header_length ?h" using h by (simp add: ipv4_header_length_def)
  moreover have "20 + ?n = ipv4_header_length ?h" "20 + ?n \<le> length d" "?n \<le> 40" using n(1-3) d by linarith+
  ultimately show ?thesis using n(4,5) by simp
qed

lemma handle_receive_cases:
  obtains "handle_receive pid d s = s"
  | hdr rest where "ipv4_read d = Some (hdr, rest)" "8 \<le> length rest"
    "handle_receive pid d s = s\<lparr>timer := (if num_replies s = 0 then cancel (timer s) else timer s), num_replies := num_replies s + 1,
      cout := cout s @ [Bytes_from (length rest) (ipv4_source_address hdr) (sequence_number s) (ipv4_time_to_live hdr)
        ((now s - time_sent s) div 1000)]\<rparr>"
proof (cases "ipv4_read d")
  case (Some p)
  then obtain hdr rest where p: "ipv4_read d = Some (hdr, rest)" by (cases p) auto
  have len: "length d - ipv4_header_length hdr = length rest" using ipv4_read_Some [OF p] by linarith
  let ?ok = "icmp_type (take 8 rest) = echo_reply \<and> icmp_identifier (take 8 rest) = pid \<and>
    icmp_sequence_number (take 8 rest) = sequence_number s"
  show ?thesis
  proof (cases "8 \<le> length rest \<and> ?ok")
    case True
    then show ?thesis by (intro that(2) [OF p]) (simp_all add: handle_receive_def p icmp_read_def len)
  next
    case False
    then show ?thesis by (intro that(1)) (auto simp: handle_receive_def p icmp_read_def)
  qed
qed (use that in \<open>simp add: handle_receive_def\<close>)

lemma echo_header:
  assumes "h = set_icmp_type echo_reply (set_icmp_checksum c (set_icmp_sequence_number seq (set_icmp_identifier pid (set_icmp_code 0
       (set_icmp_type echo_request new_icmp_header)))))"
  shows "length h = 8" "icmp_type h = echo_reply" "icmp_identifier h = pid" "icmp_sequence_number h = seq"
  using assms
  by (simp_all add: set_icmp_type_def set_icmp_code_def icmp_type_def icmp_identifier_def icmp_sequence_number_def
      set_icmp_identifier_def set_icmp_sequence_number_def set_icmp_checksum_def new_icmp_header_def)
    (simp_all add: rep_encode_def rep_decode_def)

text \<open>What a host sends back for a request: its packet with the type changed and a new checksum.\<close>

definition echoed :: "16 word \<Rightarrow> bytes \<Rightarrow> bytes" where
  "echoed c packet = set_icmp_checksum c (set_icmp_type echo_reply (take 8 packet)) @ drop 8 packet"

lemma ipv4_read_header:
  assumes "20 \<le> length ip" "length ip \<le> 60" "ipv4_version ip = 4" "ipv4_header_length ip = length ip"
  shows "ipv4_read (ip @ rest) = Some (ip @ replicate (60 - length ip) 0, rest)"
proof -
  let ?h = "take 20 (ip @ rest) @ replicate 40 0"
  have "ip \<noteq> []" using assms(1) by auto
  then have "?h ! 0 = ip ! 0" using assms(1) by (simp add: nth_append)
  then have h: "ipv4_version ?h = 4" "ipv4_header_length ?h = length ip"
    using assms(3,4) by (simp_all add: ipv4_version_def ipv4_header_length_def)
  let ?n = "nat (int (length ip) - 20)"
  have n: "20 + ?n = length ip" "40 - ?n = 60 - length ip" "\<not> int (length ip) - 20 < 0" "\<not> 40 < int (length ip) - 20"
    "\<not> length (ip @ rest) - 20 < ?n"
    using assms(1,2) by auto
  then show ?thesis using assms(1) unfolding ipv4_read_def Let_def h by simp
qed

text \<open>C26: the echo of the last request is recognised behind any IPv4 header of 20 to 60 octets, whatever its checksum,
  and its length, source, number and time are printed; the first one cancels the timer.\<close>
theorem echo_recognised:
  assumes "20 \<le> length ip" "length ip \<le> 60" "ipv4_version ip = 4" "ipv4_header_length ip = length ip"
  shows "handle_receive pid (ip @ echoed c (echo_packet pid (sequence_number s))) s =
    s\<lparr>timer := (if num_replies s = 0 then cancel (timer s) else timer s), num_replies := num_replies s + 1,
      cout := cout s @ [Bytes_from 32 (ipv4_source_address ip) (sequence_number s) (ipv4_time_to_live ip)
        ((now s - time_sent s) div 1000)]\<rparr>"
proof -
  let ?P = "echo_packet pid (sequence_number s)"
  let ?k = "NOT (ones_sum (be_words (set_icmp_checksum 0 (set_icmp_sequence_number (sequence_number s) (set_icmp_identifier pid
    (set_icmp_code 0 (set_icmp_type echo_request new_icmp_header)))) @ ping_body)))"
  let ?h = "set_icmp_sequence_number (sequence_number s) (set_icmp_identifier pid (set_icmp_code 0 (set_icmp_type echo_request new_icmp_header)))"
  have len: "length ?h = 8"
    by (simp add: set_icmp_sequence_number_def set_icmp_identifier_def set_icmp_code_def set_icmp_type_def new_icmp_header_def)
  have body: "length ping_body = 24" by (simp add: ping_body_def ascii_def)
  have P: "?P = set_icmp_checksum ?k ?h @ ping_body" using compute_checksum_value [OF len] body by (simp add: echo_packet_def)
  let ?h2 = "set_icmp_checksum c (set_icmp_type echo_reply (set_icmp_checksum ?k ?h))"
  have h2: "length ?h2 = 8" "icmp_type ?h2 = echo_reply" "icmp_identifier ?h2 = pid" "icmp_sequence_number ?h2 = sequence_number s"
    using len by (simp_all add: set_icmp_type_def)
      (simp_all add: set_icmp_type_def set_icmp_code_def icmp_type_def icmp_identifier_def icmp_sequence_number_def
        set_icmp_identifier_def set_icmp_sequence_number_def set_icmp_checksum_def new_icmp_header_def rep_encode_def rep_decode_def)
  have e: "echoed c ?P = ?h2 @ ping_body" unfolding echoed_def P using len by simp
  have ip: "ip \<noteq> []" "ipv4_source_address (ip @ z) = ipv4_source_address ip" "ipv4_time_to_live (ip @ z) = ipv4_time_to_live ip"
    "ipv4_header_length (ip @ z) = length ip" for z
    using assms(1,4) by (auto simp: ipv4_source_address_def ipv4_time_to_live_def ipv4_header_length_def nth_append)
  show ?thesis
    unfolding handle_receive_def ipv4_read_header [OF assms] e
    using h2 body by (simp add: icmp_read_def ip)
qed

theorem echo_recognised_witness:
  "num_replies (handle_receive 77 ((0x45 # replicate 19 0) @ echoed 5 (echo_packet 77 (sequence_number (new_pinger 77 9)))) (new_pinger 77 9)) = 1"
  by (subst echo_recognised) (simp_all add: ipv4_version_def ipv4_header_length_def new_pinger_def start_send_def Let_def)

section \<open>The pinger\<close>

fun waiting_ok :: "waiting \<Rightarrow> pinger \<Rightarrow> bool" where
  "waiting_ok (At t Handle_timeout) s = (t = time_sent s + 5000000)"
| "waiting_ok (At t Start_send) s = (t = time_sent s + 1000000 \<and> (num_replies s = 0 \<longrightarrow> time_sent s + 5000000 \<le> now s))"
| "waiting_ok (Cancelled Handle_timeout) s = (0 < num_replies s)"
| "waiting_ok (Cancelled Start_send) s = (time_sent s + 5000000 \<le> now s)"

fun open_request :: "waiting \<Rightarrow> nat" where
  "open_request (At t Handle_timeout) = 1"
| "open_request (Cancelled Handle_timeout) = 1"
| "open_request _ = 0"

definition pinger_ok :: "16 word \<Rightarrow> pinger \<Rightarrow> bool" where
  "pinger_ok pid s \<longleftrightarrow> requests s \<noteq> [] \<and> fst (last (requests s)) = time_sent s \<and> time_sent s \<le> now s \<and>
     sequence_number s = of_nat (length (requests s)) \<and>
     map snd (requests s) = map (\<lambda>i. echo_packet pid (of_nat (Suc i))) [0..<length (requests s)] \<and>
     successively (\<lambda>a b. fst a + 1000000 \<le> fst b) (requests s) \<and> waiting_ok (timer s) s \<and>
     count_list (cout s) Request_timed_out + open_request (timer s) \<le> length (requests s)"

lemma start_send_ok:
  assumes "pinger_ok pid s" "open_request (timer s) = 0" "time_sent s + 1000000 \<le> now s"
  shows "pinger_ok pid (start_send pid s)"
  using assms by (simp add: pinger_ok_def start_send_def Let_def successively_append_iff add.commute)

lemma handle_timeout_ok:
  assumes "pinger_ok pid s" "open_request (timer s) = 1" "num_replies s = 0 \<Longrightarrow> time_sent s + 5000000 \<le> now s"
  shows "pinger_ok pid (handle_timeout s)"
  using assms by (auto simp: pinger_ok_def handle_timeout_def)

lemma due_ok:
  assumes "pinger_ok pid s" "due (now s) (timer s) = Some h"
  shows "pinger_ok pid (call_handler pid h s)"
proof -
  have w: "waiting_ok (timer s) s" using assms(1) by (simp add: pinger_ok_def)
  show ?thesis
  proof (cases h)
    case Handle_timeout
    then have "open_request (timer s) = 1" "num_replies s = 0 \<Longrightarrow> time_sent s + 5000000 \<le> now s"
      using assms(2) w by (cases "timer s"; auto split: if_splits)+
    then show ?thesis using handle_timeout_ok [OF assms(1)] Handle_timeout by simp
  next
    case Start_send
    then have "open_request (timer s) = 0" "time_sent s + 1000000 \<le> now s"
      using assms(2) w by (cases "timer s"; auto split: if_splits)+
    then show ?thesis using start_send_ok [OF assms(1)] Start_send by simp
  qed
qed

lemma receive_ok: "pinger_ok pid s \<Longrightarrow> pinger_ok pid (handle_receive pid d s)"
proof (rule handle_receive_cases [of pid d s])
  fix hdr rest
  assume s: "pinger_ok pid s"
    and r: "handle_receive pid d s = s\<lparr>timer := (if num_replies s = 0 then cancel (timer s) else timer s), num_replies := num_replies s + 1,
      cout := cout s @ [Bytes_from (length rest) (ipv4_source_address hdr) (sequence_number s) (ipv4_time_to_live hdr)
        ((now s - time_sent s) div 1000)]\<rparr>"
  have "waiting_ok (timer (handle_receive pid d s)) (handle_receive pid d s)"
    using s by (cases "timer s" rule: open_request.cases) (auto simp: r pinger_ok_def)
  moreover have "open_request (cancel w) = open_request w" for w by (cases w rule: open_request.cases) simp_all
  ultimately show ?thesis using s by (simp add: pinger_ok_def r)
qed simp

lemma pinging_ok: "pinging pid s \<Longrightarrow> pinger_ok pid s"
proof (induction rule: pinging.induct)
  case (started t)
  then show ?case by (simp add: pinger_ok_def new_pinger_def start_send_def Let_def)
next
  case (passes s d)
  then show ?case by (cases "timer s" rule: open_request.cases) (auto simp: pinger_ok_def)
qed (auto intro: due_ok receive_ok)

text \<open>C27: whatever arrives and whenever the timer's handlers are called, the requests are sent at least a second
  apart, the one numbered from 1 in order carries its number and a complete checksum, and at most one time-out is
  printed for each.\<close>
theorem pinger_paced:
  assumes "pinging pid s"
  shows "map snd (requests s) = map (\<lambda>i. echo_packet pid (of_nat (Suc i))) [0..<length (requests s)] \<and>
    (\<forall>p \<in> snd ` set (requests s). ones_sum (be_words p) = - 1) \<and>
    successively (\<lambda>a b. fst a + 1000000 \<le> fst b) (requests s) \<and>
    count_list (cout s) Request_timed_out \<le> length (requests s)"
proof -
  have s: "pinger_ok pid s" by (rule pinging_ok [OF assms])
  have "ones_sum (be_words (echo_packet pid seq)) = - 1" for seq
  proof -
    let ?h = "set_icmp_sequence_number seq (set_icmp_identifier pid (set_icmp_code 0 (set_icmp_type echo_request new_icmp_header)))"
    have len: "length ?h = 8" "length ping_body = 24"
      by (simp_all add: set_icmp_sequence_number_def set_icmp_identifier_def set_icmp_code_def set_icmp_type_def new_icmp_header_def
          ping_body_def ascii_def)
    show ?thesis using completed_packet [OF len(1), of ping_body] compute_checksum_value [OF len(1), of ping_body] len(2)
      by (simp add: echo_packet_def internet_checksum_def)
  qed
  moreover have "snd ` set (requests s) \<subseteq> range (echo_packet pid)"
  proof -
    have "snd ` set (requests s) = set (map (\<lambda>i. echo_packet pid (of_nat (Suc i))) [0..<length (requests s)])"
      using s unfolding pinger_ok_def by (metis list.set_map)
    then show ?thesis by auto
  qed
  ultimately show ?thesis using s by (auto simp: pinger_ok_def)
qed

theorem pinger_paced_witness:
  "map snd (requests (new_pinger 77 9)) = [echo_packet 77 1] \<and> ones_sum (be_words (echo_packet 77 1)) = - 1"
  using pinger_paced [OF pinging.started [of 77 9]] by (simp add: new_pinger_def start_send_def Let_def)

end
