(* ===== verification/Logging.thy ===== *)
theory Logging
  imports Prelude
begin

text \<open>
  \<open>Mylog.cpp\<close>, the log with a thread of its own, as it stands in \<open>src\<close> and, with other code in the
  inner loop of the thread, in \<open>src-linux\<close>.  The threads interleave between the points where another
  one can see a difference: the mutex is held from the test of the queue until the thread sleeps,
  but \<open>g_log_Exit\<close> is set without it.  Times, the failure of opening a file and the comparison of the
  file's size with 1.2 times its limit are arbitrary.  Files are written completely.
\<close>

section \<open>The file\<close>

abbreviation NL :: char where "NL \<equiv> CHR 0x0A"

text \<open>\<open>tmp\<close> has 2048 octets; \<open>None\<close>: there is no end of line in it, and the pointer after it is used.\<close>

definition shrinkLogFile :: "string \<Rightarrow> string option" where
  "shrinkLogFile file =
     (let tmp = takeWhile (\<lambda>c. c \<noteq> CHR 0x00) (drop (length file - 2047) file) in
      case dropWhile (\<lambda>c. c \<noteq> NL) tmp of [] \<Rightarrow> None | _ # pos \<Rightarrow> Some pos)"

definition checkSize :: "(nat \<Rightarrow> bool) \<Rightarrow> string \<Rightarrow> string option" where
  "checkSize too_big file = (if too_big (length file) then shrinkLogFile file else Some file)"

definition entry :: "string \<Rightarrow> string \<Rightarrow> string" where
  "entry mytime msg = mytime @ ''  '' @ msg @ [NL]"

definition logException :: "bool \<Rightarrow> (nat \<Rightarrow> bool) \<Rightarrow> string \<Rightarrow> string \<Rightarrow> string \<Rightarrow> (int \<times> string) option" where
  "logException fails too_big mytime logMsg file =
     (if fails then Some (- 1, file)
      else map_option (\<lambda>f. (0, f)) (checkSize too_big (file @ entry mytime logMsg)))"

section \<open>The thread\<close>

text \<open>Where \<open>processEntries\<close> is: before the mutex, holding it and about to wait, asleep, about to open the file,
  before the test of the inner loop, in its body, after it, returned.\<close>

datatype place = Top | Going | Waiting | Opening | Inner | Popping | Closing | Returned

text \<open>Where the destructor is.\<close>

datatype dtor = Alive | Exiting | Joining | Joined

record mylog =
  mQueue :: "string list"
  g_log_Exit :: bool
  place :: place
  dtor :: dtor
  notifications :: nat
  log_file :: string
  crashed :: bool
  logged :: "string list"
  times :: "string list"
  written :: "string list"

definition Mylog :: "string \<Rightarrow> mylog" where
  "Mylog file = \<lparr>mQueue = [], g_log_Exit = False, place = Top, dtor = Alive, notifications = 0, log_file = file,
     crashed = False, logged = [], times = [], written = []\<rparr>"

text \<open>A thread object that is assigned to must not be joinable: the program ends otherwise.\<close>

definition construct :: "bool \<Rightarrow> string \<Rightarrow> mylog option" where
  "construct joinable file = (if joinable then None else Some (Mylog file))"

definition entries_test :: "mylog \<Rightarrow> mylog" where
  "entries_test s = s\<lparr>place := (if \<not> g_log_Exit s \<and> mQueue s = [] then Going else Opening)\<rparr>"

definition entries_open :: "bool \<Rightarrow> mylog \<Rightarrow> mylog" where
  "entries_open fails s = s\<lparr>place := (if fails then Returned else Inner)\<rparr>"

definition entries_loop :: "mylog \<Rightarrow> mylog" where
  "entries_loop s = s\<lparr>place := (if g_log_Exit s then Closing else Popping)\<rparr>"

definition entries_pop :: "string \<Rightarrow> mylog \<Rightarrow> mylog" where
  "entries_pop mytime s = (case mQueue s of
       m # q \<Rightarrow> s\<lparr>mQueue := q, log_file := log_file s @ entry mytime m, times := times s @ [mytime],
         written := written s @ [m], place := Inner\<rparr>
     | [] \<Rightarrow> s\<lparr>place := Closing\<rparr>)"

text \<open>In \<open>src-linux\<close> an empty queue does not end the inner loop.\<close>

definition entries_pop_linux :: "string \<Rightarrow> mylog \<Rightarrow> mylog" where
  "entries_pop_linux mytime s = (case mQueue s of
       m # q \<Rightarrow> s\<lparr>mQueue := q, log_file := log_file s @ entry mytime m, times := times s @ [mytime],
         written := written s @ [m], place := Inner\<rparr>
     | [] \<Rightarrow> s\<lparr>place := Inner\<rparr>)"

definition entries_close :: "(nat \<Rightarrow> bool) \<Rightarrow> mylog \<Rightarrow> mylog" where
  "entries_close too_big s = (case checkSize too_big (log_file s) of
       None \<Rightarrow> s\<lparr>crashed := True\<rparr>
     | Some file \<Rightarrow> s\<lparr>log_file := file, place := (if g_log_Exit s then Returned else Top)\<rparr>)"

section \<open>Its users\<close>

definition wake :: "mylog \<Rightarrow> mylog" where
  "wake s = s\<lparr>place := (if place s = Waiting then Opening else place s)\<rparr>"

definition log_push :: "string \<Rightarrow> mylog \<Rightarrow> mylog" where
  "log_push logMsg s = s\<lparr>mQueue := mQueue s @ [logMsg], logged := logged s @ [logMsg], notifications := notifications s + 1\<rparr>"

definition log_notify :: "mylog \<Rightarrow> mylog" where
  "log_notify s = wake (s\<lparr>notifications := notifications s - 1\<rparr>)"

definition dtor_exit :: "mylog \<Rightarrow> mylog" where
  "dtor_exit s = s\<lparr>g_log_Exit := True, dtor := Exiting\<rparr>"

definition dtor_notify :: "mylog \<Rightarrow> mylog" where
  "dtor_notify s = wake (s\<lparr>dtor := Joining\<rparr>)"

text \<open>The steps that the program makes by itself, and the wait that returns without a notification.\<close>

inductive log_step :: "bool \<Rightarrow> (nat \<Rightarrow> bool) \<Rightarrow> mylog \<Rightarrow> mylog \<Rightarrow> bool" for linux too_big where
  test: "place s = Top \<Longrightarrow> log_step linux too_big s (entries_test s)"
| sleep: "place s = Going \<Longrightarrow> log_step linux too_big s (s\<lparr>place := Waiting\<rparr>)"
| opens: "place s = Opening \<Longrightarrow> log_step linux too_big s (entries_open fails s)"
| loops: "place s = Inner \<Longrightarrow> log_step linux too_big s (entries_loop s)"
| pops: "place s = Popping \<Longrightarrow> log_step linux too_big s ((if linux then entries_pop_linux else entries_pop) mytime s)"
| closes: "place s = Closing \<Longrightarrow> \<not> crashed s \<Longrightarrow> log_step linux too_big s (entries_close too_big s)"
| push: "dtor s = Alive \<Longrightarrow> place s \<noteq> Going \<Longrightarrow> log_step linux too_big s (log_push m s)"
| notify: "0 < notifications s \<Longrightarrow> log_step linux too_big s (log_notify s)"
| exit: "dtor s = Alive \<Longrightarrow> notifications s = 0 \<Longrightarrow> log_step linux too_big s (dtor_exit s)"
| exit_notify: "dtor s = Exiting \<Longrightarrow> log_step linux too_big s (dtor_notify s)"
| join: "dtor s = Joining \<Longrightarrow> place s = Returned \<Longrightarrow> log_step linux too_big s (s\<lparr>dtor := Joined\<rparr>)"

inductive_cases log_stepE: "log_step linux too_big s s'"

inductive log_run :: "bool \<Rightarrow> (nat \<Rightarrow> bool) \<Rightarrow> string \<Rightarrow> mylog \<Rightarrow> bool" for linux too_big file0 where
  begun: "log_run linux too_big file0 (Mylog file0)"
| stepped: "log_run linux too_big file0 s \<Longrightarrow> log_step linux too_big s s' \<Longrightarrow> log_run linux too_big file0 s'"
| spurious: "log_run linux too_big file0 s \<Longrightarrow> place s = Waiting \<Longrightarrow> log_run linux too_big file0 (s\<lparr>place := Opening\<rparr>)"

end
