(* ===== verification/LoggingProps.thy ===== *)
theory LoggingProps
  imports Logging "HOL-Library.Sublist"
begin

text \<open>
  What the log guarantees while it lives, and what its destructor does not.
\<close>

section \<open>The file\<close>

text \<open>When the file is cut, what is left is the whole lines among its last 2047 octets, a suffix of it that begins
  after an end of line; without an end of line there the program has no line to begin with and fails.\<close>
theorem shrinkLogFile_keeps_lines:
  assumes "CHR 0x00 \<notin> set file"
  shows "case shrinkLogFile file of
      None \<Rightarrow> NL \<notin> set (drop (length file - 2047) file)
    | Some rest \<Rightarrow> \<exists>before part. file = before @ part @ NL # rest \<and> NL \<notin> set part \<and> length (part @ NL # rest) = min 2047 (length file)"
proof -
  define tmp where "tmp = drop (length file - 2047) file"
  have whole: "file = take (length file - 2047) file @ tmp" by (simp add: tmp_def)
  have len: "length tmp = min 2047 (length file)" by (simp add: tmp_def min_def)
  have "CHR 0x00 \<notin> set tmp" using assms unfolding tmp_def by (meson in_set_dropD)
  then have nul: "takeWhile (\<lambda>c. c \<noteq> CHR 0x00) tmp = tmp" unfolding takeWhile_eq_all_conv by blast
  then have shrink: "shrinkLogFile file = (case dropWhile (\<lambda>c. c \<noteq> NL) tmp of [] \<Rightarrow> None | _ # pos \<Rightarrow> Some pos)"
    unfolding shrinkLogFile_def Let_def tmp_def [symmetric] by (simp only: nul)
  show ?thesis
  proof (cases "dropWhile (\<lambda>c. c \<noteq> NL) tmp")
    case Nil
    then have "NL \<notin> set tmp" unfolding dropWhile_eq_Nil_conv by blast
    then show ?thesis unfolding shrink Nil tmp_def [symmetric] by simp
  next
    case (Cons c rest)
    let ?part = "takeWhile (\<lambda>c. c \<noteq> NL) tmp"
    have "\<not> c \<noteq> NL" using hd_dropWhile [of "\<lambda>c. c \<noteq> NL" tmp] Cons by simp
    then have split: "tmp = ?part @ NL # rest" using Cons takeWhile_dropWhile_id [of "\<lambda>c. c \<noteq> NL" tmp] by simp
    have "NL \<notin> set ?part" using set_takeWhileD [of NL "\<lambda>c. c \<noteq> NL" tmp] by blast
    moreover have "file = take (length file - 2047) file @ ?part @ NL # rest" using whole split by simp
    moreover have "length (?part @ NL # rest) = min 2047 (length file)" using len split by simp
    ultimately show ?thesis unfolding shrink Cons list.case option.case by blast
  qed
qed

theorem shrinkLogFile_keeps_lines_witness: "shrinkLogFile (''a'' @ NL # ''b'' @ [NL]) = Some (''b'' @ [NL])"
  using shrinkLogFile_keeps_lines [of "''a'' @ NL # ''b'' @ [NL]"] by (simp add: shrinkLogFile_def)

section \<open>The log while it lives\<close>

definition log_ok :: "(nat \<Rightarrow> bool) \<Rightarrow> string \<Rightarrow> mylog \<Rightarrow> bool" where
  "log_ok too_big file s \<longleftrightarrow> logged s = written s @ mQueue s \<and> length (times s) = length (written s) \<and>
     ((\<forall>n. \<not> too_big n) \<longrightarrow> log_file s = file @ concat (map2 entry (times s) (written s))) \<and>
     (place s = Waiting \<longrightarrow> mQueue s = [] \<or> 0 < notifications s) \<and>
     (place s = Going \<longrightarrow> mQueue s = []) \<and> (g_log_Exit s \<longleftrightarrow> dtor s \<noteq> Alive)"

lemma log_ok_step: "log_step linux too_big s s' \<Longrightarrow> log_ok too_big file s \<Longrightarrow> log_ok too_big file s'"
proof (induction rule: log_step.induct)
  case (pops s mytime)
  then show ?case
    by (cases "mQueue s") (auto simp: log_ok_def entries_pop_def entries_pop_linux_def)
next
  case (closes s)
  then show ?case by (auto simp: log_ok_def entries_close_def checkSize_def split: option.split if_splits)
qed (auto simp: log_ok_def entries_test_def entries_open_def entries_loop_def log_push_def log_notify_def wake_def
    dtor_exit_def dtor_notify_def)

lemma log_ok_run: "log_run linux too_big file s \<Longrightarrow> log_ok too_big file s"
proof (induction rule: log_run.induct)
  case begun
  show ?case by (simp add: log_ok_def Mylog_def)
next
  case (stepped s s')
  then show ?case by (blast intro: log_ok_step)
next
  case (spurious s)
  then show ?case by (simp add: log_ok_def)
qed



section \<open>The destructor\<close>

text \<open>The thread tests \<open>g_log_Exit\<close>; the destructor sets it and notifies; the thread sleeps.\<close>

definition missed :: "string \<Rightarrow> mylog" where
  "missed file = (dtor_notify (dtor_exit (entries_test (Mylog file))))\<lparr>place := Waiting\<rparr>"

definition unwritten :: "string \<Rightarrow> string \<Rightarrow> mylog" where
  "unwritten file m = entries_close (\<lambda>_. False) (entries_loop (entries_open False (dtor_notify (dtor_exit (entries_test (log_notify (log_push m (Mylog file))))))))"

lemma missed_eq: "missed file = (Mylog file)\<lparr>g_log_Exit := True, dtor := Joining, place := Waiting\<rparr>"
  by (simp add: missed_def Mylog_def entries_test_def dtor_exit_def dtor_notify_def wake_def)

lemma missed_reached: "log_run linux too_big file (missed file)"
  unfolding missed_def
  by (rule stepped [OF stepped [OF stepped [OF stepped [OF begun test] exit] exit_notify] sleep])
     (simp_all add: Mylog_def entries_test_def dtor_exit_def dtor_notify_def wake_def)

lemma unwritten_eq: "unwritten file m = (Mylog file)\<lparr>mQueue := [m], logged := [m], g_log_Exit := True, dtor := Joining, place := Returned\<rparr>"
  by (simp add: unwritten_def Mylog_def entries_test_def dtor_exit_def dtor_notify_def wake_def log_push_def log_notify_def
      entries_open_def entries_loop_def entries_close_def checkSize_def)

lemma unwritten_reached: "log_run linux (\<lambda>_. False) file (unwritten file m)"
  unfolding unwritten_def
  by (rule stepped [OF stepped [OF stepped [OF stepped [OF stepped [OF stepped [OF stepped [OF stepped [OF begun push] notify] test] exit]
      exit_notify] opens] loops] closes])
     (simp_all add: Mylog_def entries_test_def dtor_exit_def dtor_notify_def wake_def log_push_def log_notify_def
      entries_open_def entries_loop_def)

text \<open>C29: the destructor sets \<open>g_log_Exit\<close> without the mutex, so its notification can fall between the thread's test and
  its wait: then the thread sleeps, the destructor waits for it, and no step of the program is left.  It can also end
  the thread with messages in the queue, which are never written.\<close>
theorem dtor_hangs_or_loses:
  "log_run linux too_big file (missed file) \<and> dtor (missed file) = Joining \<and> place (missed file) = Waiting \<and>
    \<not> log_step linux too_big (missed file) s' \<and>
    log_run linux (\<lambda>_. False) file (unwritten file m) \<and> place (unwritten file m) = Returned \<and>
    logged (unwritten file m) = [m] \<and> written (unwritten file m) = [] \<and> log_file (unwritten file m) = file"
proof -
  have "\<not> log_step linux too_big (missed file) s'" unfolding missed_eq by (auto simp: Mylog_def elim!: log_stepE)
  then show ?thesis using missed_reached unwritten_reached by (simp add: missed_eq unwritten_eq Mylog_def)
qed

end
