(* ===== verification/SelectServer.thy ===== *)
theory SelectServer
  imports Logging
begin

text \<open>
  \<open>src-linux/test_select.cpp\<close>: the loop of the server that waits with \<open>select\<close>.  What the system calls
  return is given as a list of answers, taken in the order of the calls; descriptors are integers.
  A new descriptor is one that is not open, and \<open>select\<close> fails when a descriptor it is asked about is
  not open.  The function that reads a client's data makes a log object first.
\<close>

datatype answer = Accepted int | Flags int | Nread nat

datatype ending = Going_on | Exit int | Terminated | Out_of_bounds

record server =
  v_fds :: "int list"
  read_fds :: "int set"
  open_fds :: "int set"
  ending :: ending

definition thread_fun_start :: "int \<Rightarrow> server" where
  "thread_fun_start socket_fd = \<lparr>v_fds = [socket_fd], read_fds = {socket_fd}, open_fds = {socket_fd}, ending = Going_on\<rparr>"

text \<open>The loop that takes a descriptor out of \<open>v_fds\<close>: \<open>v_fds[idx]\<close> is read again at each step.\<close>

function remove_loop :: "nat \<Rightarrow> nat \<Rightarrow> int list \<Rightarrow> int list option" where
  "remove_loop idx iter vs =
     (if iter < length vs then
        (if length vs \<le> idx then None
         else if vs ! iter = vs ! idx then remove_loop idx iter (take iter vs @ drop (iter + 1) vs)
         else remove_loop idx (iter + 1) vs)
      else Some vs)"
  by pat_completeness auto
termination by (relation "measure (\<lambda>(idx, iter, vs). length vs - iter)") auto

declare remove_loop.simps [simp del]

text \<open>\<open>myrecv\<close> makes a \<open>Mylog\<close> while the one of \<open>thread_fun\<close> has its thread.\<close>

definition myrecv :: "server \<Rightarrow> server" where
  "myrecv s = (case construct True [] of None \<Rightarrow> s\<lparr>ending := Terminated\<rparr> | Some log \<Rightarrow> s)"

text \<open>One pass over the descriptors.  \<open>None\<close>: a call has not returned yet.\<close>

function scan :: "int \<Rightarrow> int set \<Rightarrow> nat \<Rightarrow> answer list \<Rightarrow> server \<Rightarrow> server option" where
  "scan socket_fd test_fds idx answers s =
     (if idx < length (v_fds s) then
        (let fd = v_fds s ! idx in
         if fd \<in> test_fds then
           (if fd = socket_fd then
              (case answers of
                 Accepted client # answers1 \<Rightarrow>
                   if client < 0 then Some (s\<lparr>ending := Exit 1\<rparr>)
                   else (let s1 = s\<lparr>open_fds := insert client (open_fds s)\<rparr> in
                     (case answers1 of
                        Flags flags # answers2 \<Rightarrow>
                          if flags < 0 then scan socket_fd test_fds idx answers2 s1
                          else scan socket_fd test_fds (idx + 1) answers2
                            (s1\<lparr>read_fds := insert client (read_fds s1), v_fds := v_fds s1 @ [client]\<rparr>)
                      | _ \<Rightarrow> None))
               | _ \<Rightarrow> None)
            else
              (case answers of
                 Nread nread # answers1 \<Rightarrow>
                   if nread = 0 then
                     (case remove_loop idx 0 (v_fds s) of
                        None \<Rightarrow> Some (s\<lparr>ending := Out_of_bounds\<rparr>)
                      | Some vs \<Rightarrow> scan socket_fd test_fds (idx + 1) answers1
                          (s\<lparr>open_fds := open_fds s - {fd}, read_fds := read_fds s - {fd}, v_fds := vs\<rparr>))
                   else Some (myrecv s)
               | _ \<Rightarrow> None))
         else scan socket_fd test_fds (idx + 1) answers s)
      else Some s)"
  by pat_completeness auto
termination
  by (relation "measures [\<lambda>(f, t, i, as, s). length as, \<lambda>(f, t, i, as, s). length (v_fds s) - i]") auto

declare scan.simps [simp del]

definition thread_fun_turn :: "int \<Rightarrow> int \<Rightarrow> int set \<Rightarrow> answer list \<Rightarrow> server \<Rightarrow> server option" where
  "thread_fun_turn socket_fd retval test_fds answers s =
     (if retval = 0 then Some s
      else if retval < 0 then Some (s\<lparr>ending := Exit (- 1)\<rparr>)
      else scan socket_fd test_fds 0 answers s)"

text \<open>The descriptors that \<open>accept\<close> returns, in order, are new.\<close>

fun fresh :: "int set \<Rightarrow> answer list \<Rightarrow> bool" where
  "fresh opened [] = True"
| "fresh opened (Accepted client # answers) = (client \<notin> opened \<and> fresh (insert client opened) answers)"
| "fresh opened (_ # answers) = fresh opened answers"

inductive served :: "int \<Rightarrow> server \<Rightarrow> server \<Rightarrow> bool" for socket_fd where
  here: "served socket_fd s s"
| turn: "served socket_fd s0 s \<Longrightarrow> ending s = Going_on \<Longrightarrow> test_fds \<subseteq> read_fds s \<Longrightarrow> (0 < retval \<longrightarrow> read_fds s \<subseteq> open_fds s) \<Longrightarrow>
    fresh (open_fds s) answers \<Longrightarrow> thread_fun_turn socket_fd retval test_fds answers s = Some s1 \<Longrightarrow> served socket_fd s0 s1"

end
