(* ===== verification/SelectServerProps.thy ===== *)
theory SelectServerProps
  imports SelectServer
begin

text \<open>
  What becomes of the clients of the server that waits with \<open>select\<close>.
\<close>

section \<open>Taking a descriptor out\<close>

lemma remove_rest: "remove_loop (length xs) (length xs) (xs @ y # ys) = Some xs"
proof (induction ys arbitrary: y)
  case Nil
  show ?case by (subst remove_loop.simps, subst (1) remove_loop.simps) simp
next
  case (Cons z zs)
  have "remove_loop (length xs) (length xs) (xs @ y # z # zs) = remove_loop (length xs) (length xs) (xs @ z # zs)"
    by (subst remove_loop.simps) simp
  then show ?case using Cons by simp
qed

text \<open>Everything from the descriptor on is taken out, not only the descriptor.\<close>

lemma remove_take:
  assumes "distinct vs" "idx < length vs" "iter \<le> idx"
  shows "remove_loop idx iter vs = Some (take idx vs)"
  using assms(3)
proof (induction "idx - iter" arbitrary: iter)
  case 0
  then have "vs = take idx vs @ vs ! idx # drop (Suc idx) vs" using assms(2) by (simp add: id_take_nth_drop)
  moreover have "length (take idx vs) = idx" using assms(2) by simp
  ultimately show ?case using 0 remove_rest [of "take idx vs" "vs ! idx" "drop (Suc idx) vs"] by simp
next
  case (Suc k)
  then have "vs ! iter \<noteq> vs ! idx" using assms(1,2) by (simp add: nth_eq_iff_index_eq)
  then show ?case using Suc assms(2) by (subst remove_loop.simps) simp
qed

section \<open>The invariant\<close>

definition server_ok :: "int \<Rightarrow> server \<Rightarrow> bool" where
  "server_ok socket_fd s \<longleftrightarrow> distinct (v_fds s) \<and> v_fds s \<noteq> [] \<and> hd (v_fds s) = socket_fd \<and>
     set (v_fds s) \<subseteq> read_fds s \<and> read_fds s \<subseteq> open_fds s"

definition forgotten :: "int \<Rightarrow> server \<Rightarrow> bool" where
  "forgotten fd s \<longleftrightarrow> fd \<in> read_fds s \<and> fd \<notin> set (v_fds s)"

lemma fresh_mono: "fresh opened answers \<Longrightarrow> opened' \<subseteq> opened \<Longrightarrow> fresh opened' answers"
proof (induction opened answers arbitrary: opened' rule: fresh.induct)
  case (2 opened client answers)
  have "fresh (insert client opened') answers" by (rule "2.IH") (use "2.prems" in auto)
  then show ?case using "2.prems" by auto
qed auto

lemma removed_ok:
  assumes "server_ok socket_fd s" "0 < idx" "idx < length (v_fds s)"
    "s1 = s\<lparr>open_fds := open_fds s - {v_fds s ! idx}, read_fds := read_fds s - {v_fds s ! idx}, v_fds := take idx (v_fds s)\<rparr>"
  shows "server_ok socket_fd s1" "forgotten fd s \<Longrightarrow> forgotten fd s1"
proof -
  have d: "distinct (v_fds s)" using assms(1) by (simp add: server_ok_def)
  then have "v_fds s ! idx \<notin> set (take idx (v_fds s))"
    using assms(3) by (auto simp: in_set_conv_nth nth_eq_iff_index_eq)
  moreover have "hd (take idx (v_fds s)) = hd (v_fds s)" using assms(2) by simp
  ultimately show "server_ok socket_fd s1" using assms
    by (auto simp: server_ok_def dest: in_set_takeD)
  show "forgotten fd s \<Longrightarrow> forgotten fd s1"
    using assms(3,4) by (auto simp: forgotten_def dest: in_set_takeD)
qed

lemma accepted_ok:
  assumes "server_ok socket_fd s" "client \<notin> open_fds s"
    "s1 = s\<lparr>open_fds := insert client (open_fds s), read_fds := insert client (read_fds s), v_fds := v_fds s @ [client]\<rparr>"
  shows "server_ok socket_fd s1" "forgotten fd s \<Longrightarrow> forgotten fd s1"
  using assms by (auto simp: server_ok_def forgotten_def)

lemma scan_ok:
  "scan socket_fd test_fds idx answers s = Some s' \<Longrightarrow> server_ok socket_fd s \<Longrightarrow> fresh (open_fds s) answers \<Longrightarrow>
    server_ok socket_fd s' \<and> (\<forall>fd. forgotten fd s \<longrightarrow> forgotten fd s')"
proof (induction socket_fd test_fds idx answers s rule: scan.induct)
  case (1 socket_fd test_fds idx answers s)
  let ?fd = "v_fds s ! idx"
  consider (stop) "\<not> idx < length (v_fds s)" | (skip) "idx < length (v_fds s)" "?fd \<notin> test_fds"
    | (listen) "idx < length (v_fds s)" "?fd \<in> test_fds" "?fd = socket_fd"
    | (client) "idx < length (v_fds s)" "?fd \<in> test_fds" "?fd \<noteq> socket_fd" by blast
  then show ?case
  proof cases
    case stop then show ?thesis using "1.prems" by (simp add: scan.simps [of _ _ idx])
  next
    case skip
    then have "scan socket_fd test_fds (idx + 1) answers s = Some s'" using "1.prems"(1) by (simp add: scan.simps [of _ _ idx])
    then show ?thesis using "1.IH"(4) [OF skip(1) refl skip(2)] "1.prems"(2,3) by simp
  next
    case listen
    then obtain client answers1 where a: "answers = Accepted client # answers1"
      using "1.prems"(1) by (auto simp: scan.simps [of _ _ idx] split: list.splits answer.splits)
    show ?thesis
    proof (cases "client < 0")
      case True
      then show ?thesis using listen a "1.prems" by (auto simp: scan.simps [of _ _ idx] server_ok_def forgotten_def)
    next
      case False
      let ?s1 = "s\<lparr>open_fds := insert client (open_fds s)\<rparr>"
      obtain flags answers2 where b: "answers1 = Flags flags # answers2"
        using "1.prems"(1) False listen a by (auto simp: scan.simps [of _ _ idx] Let_def split: list.splits answer.splits)
      have f: "client \<notin> open_fds s" "fresh (insert client (open_fds s)) answers2" using "1.prems"(3) a b by simp_all
      show ?thesis
      proof (cases "flags < 0")
        case True
        then have "scan socket_fd test_fds idx answers s = scan socket_fd test_fds idx answers2 ?s1"
          using False listen a b by (subst scan.simps) simp
        then have "scan socket_fd test_fds idx answers2 ?s1 = Some s'" using "1.prems"(1) by simp
        moreover have "server_ok socket_fd ?s1" using "1.prems"(2) by (auto simp: server_ok_def)
        ultimately show ?thesis
          using "1.IH"(1) [OF listen(1) refl listen(2,3) a refl False refl b refl True] f by (simp add: forgotten_def)
      next
        case flags: False
        let ?s2 = "?s1\<lparr>read_fds := insert client (read_fds ?s1), v_fds := v_fds ?s1 @ [client]\<rparr>"
        have eq: "?s2 = s\<lparr>open_fds := insert client (open_fds s), read_fds := insert client (read_fds s), v_fds := v_fds s @ [client]\<rparr>"
          by simp
        have "scan socket_fd test_fds idx answers s = scan socket_fd test_fds (idx + 1) answers2 ?s2"
          using False flags listen a b by (subst scan.simps) simp
        then have "scan socket_fd test_fds (idx + 1) answers2 ?s2 = Some s'" using "1.prems"(1) by simp
        then show ?thesis
          using "1.IH"(2) [OF listen(1) refl listen(2,3) a refl False refl b refl flags] accepted_ok [OF "1.prems"(2) f(1) eq] f(2) by simp
      qed
    qed
  next
    case client
    then obtain nread answers1 where a: "answers = Nread nread # answers1"
      using "1.prems"(1) by (auto simp: scan.simps [of _ _ idx] Let_def split: list.splits answer.splits)
    show ?thesis
    proof (cases "nread = 0")
      case True
      have d: "distinct (v_fds s)" "v_fds s \<noteq> []" "hd (v_fds s) = socket_fd" using "1.prems"(2) by (auto simp: server_ok_def)
      then have "0 < idx" using client(3) by (cases idx) (auto simp: hd_conv_nth)
      have r: "remove_loop idx 0 (v_fds s) = Some (take idx (v_fds s))" using remove_take [OF d(1) client(1)] by simp
      let ?s1 = "s\<lparr>open_fds := open_fds s - {?fd}, read_fds := read_fds s - {?fd}, v_fds := take idx (v_fds s)\<rparr>"
      have "scan socket_fd test_fds idx answers s = scan socket_fd test_fds (idx + 1) answers1 ?s1"
        using client a True r by (subst scan.simps) (simp add: Let_def)
      then have "scan socket_fd test_fds (idx + 1) answers1 ?s1 = Some s'" using "1.prems"(1) by simp
      moreover have "fresh (open_fds ?s1) answers1" using "1.prems"(3) a by (auto intro: fresh_mono)
      ultimately show ?thesis
        using "1.IH"(3) [OF client(1) refl client(2,3) a refl True r] removed_ok [OF "1.prems"(2) \<open>0 < idx\<close> client(1) refl] by simp
    next
      case False
      then show ?thesis using client a "1.prems"
        by (auto simp: scan.simps [of _ _ idx] myrecv_def construct_def server_ok_def forgotten_def)
    qed
  qed
qed

lemma served_ok:
  "served socket_fd s0 s \<Longrightarrow> server_ok socket_fd s0 \<Longrightarrow> server_ok socket_fd s \<and> (\<forall>fd. forgotten fd s0 \<longrightarrow> forgotten fd s)"
proof (induction rule: served.induct)
  case (turn s0 s test_fds retval answers s1)
  then have s: "server_ok socket_fd s" "\<And>fd. forgotten fd s0 \<Longrightarrow> forgotten fd s" by auto
  consider "s1 = s" | "s1 = s\<lparr>ending := Exit (- 1)\<rparr>" | "scan socket_fd test_fds 0 answers s = Some s1"
    using turn.hyps(6) unfolding thread_fun_turn_def by (metis option.inject)
  then show ?case
  proof cases
    case 3
    show ?thesis using scan_ok [OF 3 s(1) turn.hyps(5)] s(2) by blast
  qed (use s in \<open>auto simp: server_ok_def forgotten_def\<close>)
qed simp

lemma start_ok: "server_ok socket_fd (thread_fun_start socket_fd)"
  by (simp add: server_ok_def thread_fun_start_def)

section \<open>Losing clients\<close>

text \<open>Passing over descriptors that are not ready.\<close>

lemma scan_skips:
  assumes "idx \<le> j" "j \<le> length (v_fds s)" "\<forall>k. idx \<le> k \<and> k < j \<longrightarrow> v_fds s ! k \<notin> test_fds"
  shows "scan socket_fd test_fds idx answers s = scan socket_fd test_fds j answers s"
  using assms
proof (induction "j - idx" arbitrary: idx)
  case (Suc k)
  then have "idx < length (v_fds s)" "v_fds s ! idx \<notin> test_fds" by auto
  then have "scan socket_fd test_fds idx answers s = scan socket_fd test_fds (idx + 1) answers s"
    by (subst scan.simps) (simp add: Let_def)
  moreover have "scan socket_fd test_fds (idx + 1) answers s = scan socket_fd test_fds j answers s"
    by (rule Suc.hyps(1)) (use Suc.hyps(2) Suc.prems in auto)
  ultimately show ?case by (rule trans)
qed simp

lemma scan_reaches:
  assumes "server_ok socket_fd s" "i < length (v_fds s)"
  shows "scan socket_fd {v_fds s ! i} 0 answers s = scan socket_fd {v_fds s ! i} i answers s"
  using assms by (intro scan_skips) (auto simp: server_ok_def nth_eq_iff_index_eq)

text \<open>A server with two clients, for the witnesses.\<close>

definition two_clients :: server where
  "two_clients = \<lparr>v_fds = [3, 4, 5], read_fds = {3, 4, 5}, open_fds = {3, 4, 5}, ending = Going_on\<rparr>"

lemma two_clients_reached: "served 3 (thread_fun_start 3) two_clients"
proof -
  let ?s = "\<lparr>v_fds = [3, 4], read_fds = {3, 4}, open_fds = {3, 4}, ending = Going_on\<rparr>"
  have 1: "thread_fun_turn 3 1 {3} [Accepted 4, Flags 0] (thread_fun_start 3) = Some ?s"
    by (simp add: thread_fun_turn_def thread_fun_start_def scan.simps insert_commute)
  have 2: "thread_fun_turn 3 1 {3} [Accepted 5, Flags 0] ?s = Some two_clients"
    by (simp add: thread_fun_turn_def two_clients_def scan.simps insert_commute)
  have "served 3 (thread_fun_start 3) ?s"
    by (rule turn [OF here _ _ _ _ 1]) (simp_all add: thread_fun_start_def)
  then show ?thesis by (rule turn [OF _ _ _ _ _ 2]) simp_all
qed

text \<open>C30: when a client closes its connection, it and all clients that connected after it are taken out of the
  descriptors that the server reads, while the others stay connected and in the set that \<open>select\<close> waits for, in
  every later state of the server: what they send is never read again.\<close>
theorem closing_forgets_later_clients:
  assumes "served socket_fd (thread_fun_start socket_fd) s" "0 < i" "i < length (v_fds s)" "ending s = Going_on"
  shows "\<exists>s1. thread_fun_turn socket_fd 1 {v_fds s ! i} [Nread 0] s = Some s1 \<and> ending s1 = Going_on \<and>
    v_fds s1 = take i (v_fds s) \<and> read_fds s1 = read_fds s - {v_fds s ! i} \<and>
    (\<forall>j s2. i < j \<and> j < length (v_fds s) \<and> served socket_fd s1 s2 \<longrightarrow>
       v_fds s ! j \<in> read_fds s2 \<and> v_fds s ! j \<notin> set (v_fds s2))"
proof -
  have ok: "server_ok socket_fd s" using served_ok [OF assms(1) start_ok] by simp
  then have d: "distinct (v_fds s)" "v_fds s \<noteq> []" "hd (v_fds s) = socket_fd" "set (v_fds s) \<subseteq> read_fds s" by (simp_all add: server_ok_def)
  let ?fd = "v_fds s ! i"
  have "v_fds s ! 0 = socket_fd" using d(2,3) by (simp add: hd_conv_nth)
  then have ne: "?fd \<noteq> socket_fd" using d(1,2) assms(2,3) nth_eq_iff_index_eq [OF d(1), of i 0] by simp
  let ?s1 = "s\<lparr>open_fds := open_fds s - {?fd}, read_fds := read_fds s - {?fd}, v_fds := take i (v_fds s)\<rparr>"
  have "scan socket_fd {?fd} i [Nread 0] s = scan socket_fd {?fd} (i + 1) [] ?s1"
    using ne assms(3) remove_take [OF d(1) assms(3)] by (subst scan.simps) (simp add: Let_def)
  also have "\<dots> = Some ?s1" by (subst scan.simps) simp
  finally have turn: "thread_fun_turn socket_fd 1 {?fd} [Nread 0] s = Some ?s1"
    using scan_reaches [OF ok assms(3)] by (simp add: thread_fun_turn_def)
  have "v_fds s ! j \<in> read_fds s2 \<and> v_fds s ! j \<notin> set (v_fds s2)" if "i < j" "j < length (v_fds s)" "served socket_fd ?s1 s2" for j s2
  proof -
    have "v_fds s ! j \<notin> set (take i (v_fds s))" "v_fds s ! j \<noteq> ?fd"
      using that(1,2) d(1) by (auto simp: in_set_conv_nth nth_eq_iff_index_eq)
    moreover have "v_fds s ! j \<in> read_fds s" using that(2) d(4) nth_mem by blast
    ultimately have "forgotten (v_fds s ! j) ?s1" by (simp add: forgotten_def)
    then show ?thesis using served_ok [OF that(3) removed_ok(1) [OF ok assms(2,3) refl]] by (simp add: forgotten_def)
  qed
  then show ?thesis using turn assms(4) by (intro exI [of _ ?s1]) simp
qed

theorem closing_forgets_later_clients_witness:
  "\<exists>s1. thread_fun_turn 3 1 {4} [Nread 0] two_clients = Some s1 \<and> v_fds s1 = [3] \<and> read_fds s1 = {3, 5}"
  using closing_forgets_later_clients [OF two_clients_reached, of 1] by (auto simp: two_clients_def)

text \<open>The first octets that any client sends end the server: the function that reads them makes a second log
  object while the first one has its thread.\<close>
theorem data_ends_server:
  assumes "served socket_fd (thread_fun_start socket_fd) s" "0 < i" "i < length (v_fds s)" "0 < n"
  shows "thread_fun_turn socket_fd 1 {v_fds s ! i} [Nread n] s = Some (s\<lparr>ending := Terminated\<rparr>)"
proof -
  have ok: "server_ok socket_fd s" using served_ok [OF assms(1) start_ok] by simp
  then have d: "distinct (v_fds s)" "v_fds s \<noteq> []" "hd (v_fds s) = socket_fd" by (simp_all add: server_ok_def)
  have "v_fds s ! 0 = socket_fd" using d(2,3) by (simp add: hd_conv_nth)
  then have ne: "v_fds s ! i \<noteq> socket_fd" using d(1,2) assms(2,3) nth_eq_iff_index_eq [OF d(1), of i 0] by simp
  have "scan socket_fd {v_fds s ! i} i [Nread n] s = Some (s\<lparr>ending := Terminated\<rparr>)"
    using ne assms(3,4) by (subst scan.simps) (simp add: myrecv_def construct_def)
  then show ?thesis using scan_reaches [OF ok assms(3)] by (simp add: thread_fun_turn_def)
qed

theorem data_ends_server_witness:
  "thread_fun_turn 3 1 {5} [Nread 10] two_clients = Some (two_clients\<lparr>ending := Terminated\<rparr>)"
  using data_ends_server [OF two_clients_reached, of 2 10] by (simp add: two_clients_def)

end
