(* ===== verification/RabbitClient.thy ===== *)
theory RabbitClient
  imports AmqpFrames
begin

text \<open>
  \<open>test_rabbitmq/myrabbit.cpp\<close>, the client that uses rabbitmq-c itself.  What its functions return is a
  parameter: results of calls, and for \<open>amqp_simple_wait_frame\<close> the list of what its calls return, a frame
  or an error.  The calls that go out are recorded.  Printing is left out.
\<close>

datatype request =
    New_connection | Login | Open_channel nat | Close_channel nat | Close_connection | Destroy_connection
  | Declare_exchange bytes bytes | Declare_queue bytes | Bind_queue bytes bytes bytes
  | Confirm_select nat | Publish nat bytes bytes "32 word" bytes "8 word" bytes
  | Qos nat nat | Consume nat bytes | Ack nat "64 word"

record myrabbit =
  mn_channelID :: nat
  mn_isConnected :: int
  sent :: "request list"

definition MyRabbit :: myrabbit where
  "MyRabbit = \<lparr>mn_channelID = 1, mn_isConnected = 0, sent = []\<rparr>"

definition send :: "request list \<Rightarrow> myrabbit \<Rightarrow> myrabbit" where
  "send rs s = s\<lparr>sent := sent s @ rs\<rparr>"

section \<open>Connecting\<close>

text \<open>\<open>login\<close> and \<open>opened\<close>: the replies are normal.  A socket that cannot be made or opened is only logged.\<close>

definition connectRabbit :: "bool \<Rightarrow> bool \<Rightarrow> myrabbit \<Rightarrow> int \<times> myrabbit" where
  "connectRabbit login opened s =
     (let s1 = send [New_connection, Login] s in
      if \<not> login then (- 1, s1)
      else (let s2 = send [Open_channel (mn_channelID s)] s1 in
        if \<not> opened then (- 1, s2) else (0, s2\<lparr>mn_isConnected := 1\<rparr>)))"

definition closeRabbit :: "myrabbit \<Rightarrow> myrabbit" where
  "closeRabbit s = (send [Close_channel (mn_channelID s), Close_connection, Destroy_connection] s)\<lparr>mn_isConnected := 0\<rparr>"

definition reconnectRabbit :: "bool \<Rightarrow> bool \<Rightarrow> myrabbit \<Rightarrow> int \<times> myrabbit" where
  "reconnectRabbit login opened s =
     (let s0 = (if mn_isConnected s = 1 then closeRabbit s else s);
          s1 = send [New_connection, Login] s0 in
      if \<not> login then (- 1, s1)
      else (let s2 = send [Open_channel (mn_channelID s)] s1 in
        if \<not> opened then (- 1, s2) else (0, s2\<lparr>mn_isConnected := 1\<rparr>)))"

definition MyRabbit_dtor :: "myrabbit \<Rightarrow> myrabbit" where
  "MyRabbit_dtor s = (if mn_isConnected s = 1 then closeRabbit s else s)"

text \<open>\<open>declared\<close>: the queue was declared; \<open>copied\<close>: its name could be copied.\<close>

definition createQueue :: "bool \<Rightarrow> bool \<Rightarrow> bytes \<Rightarrow> bytes \<Rightarrow> bytes \<Rightarrow> bytes \<Rightarrow> myrabbit \<Rightarrow> int \<times> myrabbit" where
  "createQueue declared copied exchange exchangetype queue bindingkey s =
     (let s1 = send [Declare_exchange exchange exchangetype, Declare_queue queue] s in
      if \<not> declared then (1, s1)
      else (let s2 = send [Bind_queue queue exchange bindingkey] s1 in
        if \<not> copied then (1, s2) else (0, s2)))"

section \<open>Sending\<close>

text \<open>\<open>None\<close>: the program ends, because a text of a returned message does not fit in one of the two arrays of 1024.
  \<open>logged_length\<close>: the length of \<open>logmsg\<close> after a label and a text, up to its first NUL, are printed behind it.\<close>

definition logged_length :: "nat \<Rightarrow> nat \<Rightarrow> bytes \<Rightarrow> nat" where
  "logged_length logmsg label str = logmsg + label + length (takeWhile (\<lambda>c. c \<noteq> 0) str)"

definition sendString ::
  "frame option \<Rightarrow> bytes option \<Rightarrow> bytes \<Rightarrow> bytes \<Rightarrow> bytes \<Rightarrow> myrabbit \<Rightarrow> (int \<times> myrabbit) option" where
  "sendString waited read exchange route_key messagebody s =
     (let s1 = send [Confirm_select (mn_channelID s),
        Publish (mn_channelID s) exchange route_key (AMQP_FLAG (S Content_type) OR AMQP_FLAG Delivery_mode)
          (ascii ''text/plain'') 2 messagebody] s in
      case waited of
        None \<Rightarrow> Some (- 1, s1)
      | Some f \<Rightarrow>
          (case f_payload f of
             P_method (M_return code1 text1 exchange1 key1) \<Rightarrow>
               (let logmsg = logged_length (length (dec (unat code1)) + 19) 21 text1 in
                if 1024 \<le> length text1 \<or> 1024 \<le> logmsg then None
                else (case read of
                    None \<Rightarrow> Some (0, s1)
                  | Some body \<Rightarrow>
                      if 1024 \<le> length body \<or> 1024 \<le> logged_length logmsg 18 body then None else Some (0, s1)))
           | _ \<Rightarrow> Some (0, s1)))"

section \<open>Receiving\<close>

text \<open>How a call ends: it returns, with the buffer, its length and the answers not taken; a check in it
  fails; it writes outside the buffer; or it still waits for a frame.\<close>

datatype got = Returns int bytes nat "request list" "frame option list" | Aborts | Overruns | Waits

datatype body_end = Body_end bytes nat nat "frame option list" | Body_fails got

definition store :: "bytes \<Rightarrow> nat \<Rightarrow> bytes \<Rightarrow> bytes option" where
  "store buf pos v = (if length buf < pos + length v then None else Some (take pos buf @ v @ drop (pos + length v) buf))"

fun body_loop :: "nat \<Rightarrow> nat \<Rightarrow> bytes \<Rightarrow> nat \<Rightarrow> frame option list \<Rightarrow> body_end" where
  "body_loop body_target body_received buf n answers =
     (if body_received < body_target then
        (case answers of
           [] \<Rightarrow> Body_fails Waits
         | None # answers1 \<Rightarrow> Body_end buf n body_received answers1
         | Some f # answers1 \<Rightarrow>
             (case f_payload f of
                P_body fragment \<Rightarrow>
                  if body_target < body_received + length fragment then Body_fails Aborts
                  else (case store buf n fragment of
                      None \<Rightarrow> Body_fails Overruns
                    | Some buf1 \<Rightarrow> body_loop body_target (body_received + length fragment) buf1 (n + length fragment) answers1)
              | _ \<Rightarrow> Body_fails Aborts))
      else Body_end buf n body_received answers)"

declare body_loop.simps [simp del]

fun deliver_loop :: "nat \<Rightarrow> bytes \<Rightarrow> nat \<Rightarrow> frame option list \<Rightarrow> got" where
  "deliver_loop channel buf n [] = Waits"
| "deliver_loop channel buf n (None # answers) = Returns 0 buf n [] answers"
| "deliver_loop channel buf n (Some f # answers) =
     (case f_payload f of
        P_method (M_deliver consumer tag redelivered exchange key) \<Rightarrow>
          (case answers of
             [] \<Rightarrow> Waits
           | None # answers1 \<Rightarrow> Returns 0 buf n [] answers1
           | Some h # answers1 \<Rightarrow>
               (case f_payload h of
                  P_header props body_size \<Rightarrow>
                    (case body_loop (unat body_size) 0 buf n answers1 of
                       Body_fails g \<Rightarrow> g
                     | Body_end buf1 n1 body_received answers2 \<Rightarrow>
                         (case store buf1 n1 [0] of
                            None \<Rightarrow> Overruns
                          | Some buf2 \<Rightarrow>
                              if body_received \<noteq> unat body_size then Returns 0 buf2 n1 [] answers2
                              else Returns 0 buf2 n1 [Ack channel tag] answers2))
                | _ \<Rightarrow> Aborts))
      | _ \<Rightarrow> deliver_loop channel buf n answers)"

definition getString :: "frame option list \<Rightarrow> bytes \<Rightarrow> bytes \<Rightarrow> nat \<Rightarrow> myrabbit \<Rightarrow> got \<times> myrabbit" where
  "getString answers queue_name buf n s =
     (let s1 = send [Qos (mn_channelID s) 1, Consume (mn_channelID s) queue_name] s;
          g = deliver_loop (mn_channelID s) buf n answers in
      (g, (case g of Returns r buf1 n1 acks answers1 \<Rightarrow> send acks s1 | _ \<Rightarrow> s1)))"

end
