(* ===== verification/RabbitClientProps.thy ===== *)
theory RabbitClientProps
  imports RabbitClient
begin

text \<open>
  What \<open>getString\<close> makes of the frames that arrive, and which connections are given back.
\<close>

section \<open>Receiving a message\<close>

fun delivers :: "frame \<Rightarrow> bool" where
  "delivers f = (case f_payload f of P_method (M_deliver c t r e k) \<Rightarrow> True | _ \<Rightarrow> False)"

lemma deliver_loop_skips:
  assumes "\<forall>f \<in> set skipped. \<not> delivers f"
  shows "deliver_loop channel buf n (map Some skipped @ answers) = deliver_loop channel buf n answers"
  using assms by (induction skipped) (auto split: payload.splits in_method.splits)

lemma length_store: "store buf pos v = Some buf1 \<Longrightarrow> length buf1 = length buf"
  by (auto simp: store_def split: if_splits)

text \<open>The fragments of a body are stored one behind the other, or do not fit.\<close>

lemma body_loop_stores:
  assumes "list_all2 (\<lambda>f v. f_payload f = P_body v \<and> v \<noteq> []) bodies vs" "body_received + length (concat vs) = body_target"
    "n \<le> length buf"
  shows "body_loop body_target body_received buf n (map Some bodies @ answers) =
    (if length buf < n + length (concat vs) then Body_fails Overruns
     else Body_end (take n buf @ concat vs @ drop (n + length (concat vs)) buf) (n + length (concat vs)) body_target answers)"
  using assms
proof (induction bodies vs arbitrary: body_received n buf rule: list_all2_induct)
  case Nil
  then show ?case by (subst body_loop.simps) simp
next
  case (Cons f bodies v vs)
  have v: "f_payload f = P_body v" "v \<noteq> []" using Cons.hyps by auto
  have lt: "body_received < body_target" "body_received + length v \<le> body_target"
    using Cons.prems(1) v(2) by (auto simp: neq_Nil_conv)
  show ?case
  proof (cases "length buf < n + length v")
    case True
    then show ?thesis using v lt by (subst body_loop.simps) (simp add: store_def)
  next
    case False
    let ?buf = "take n buf @ v @ drop (n + length v) buf"
    have len: "length ?buf = length buf" using False by simp
    have "body_loop body_target body_received buf n (map Some (f # bodies) @ answers) =
        body_loop body_target (body_received + length v) ?buf (n + length v) (map Some bodies @ answers)"
      using v lt False by (subst body_loop.simps) (simp add: store_def)
    also have "\<dots> = (if length ?buf < n + length v + length (concat vs) then Body_fails Overruns
        else Body_end (take (n + length v) ?buf @ concat vs @ drop (n + length v + length (concat vs)) ?buf)
          (n + length v + length (concat vs)) body_target answers)"
      by (rule Cons.IH) (use Cons.prems(1) False len in auto)
    also have "\<dots> = (if length buf < n + length v + length (concat vs) then Body_fails Overruns
        else Body_end (take (n + length v) ?buf @ concat vs @ drop (n + length v + length (concat vs)) ?buf)
          (n + length v + length (concat vs)) body_target answers)" by (simp only: len)
    also have "take (n + length v) ?buf = take n buf @ v" using False by simp
    also have "drop (n + length v + length (concat vs)) ?buf = drop (n + length v + length (concat vs)) buf"
      using False by (simp add: ac_simps)
    finally show ?thesis by (simp only: concat.simps length_append append_assoc add.assoc)
  qed
qed

text \<open>C31: of the frames that arrive the first delivery is taken, the frames before it are dropped; the fragments of its body
  are stored behind what the buffer has, then a NUL, and the delivery is acknowledged once; frames behind it
  are left.  If the body and the NUL do not fit, the function writes outside the buffer: it never asks for its size.\<close>
theorem getString_delivers:
  assumes "\<forall>f \<in> set skipped. \<not> delivers f" "f_payload d = P_method (M_deliver consumer tag redelivered exchange key)"
    "f_payload h = P_header props body_size" "list_all2 (\<lambda>f v. f_payload f = P_body v \<and> v \<noteq> []) bodies vs"
    "length (concat vs) = unat body_size" "n \<le> length buf"
    "answers = map Some skipped @ Some d # Some h # map Some bodies @ rest"
  shows "fst (getString answers queue_name buf n s) =
    (if n + unat body_size < length buf
     then Returns 0 (take n buf @ concat vs @ 0 # drop (n + unat body_size + 1) buf) (n + unat body_size) [Ack (mn_channelID s) tag] rest
     else Overruns)"
proof -
  let ?m = "unat body_size" and ?ch = "mn_channelID s"
  have loop: "body_loop ?m 0 buf n (map Some bodies @ rest) =
      (if length buf < n + ?m then Body_fails Overruns
       else Body_end (take n buf @ concat vs @ drop (n + ?m) buf) (n + ?m) ?m rest)"
    using body_loop_stores [OF assms(4) _ assms(6), of 0 ?m rest] assms(5) by simp
  have g: "fst (getString answers queue_name buf n s) = deliver_loop ?ch buf n (Some d # Some h # map Some bodies @ rest)"
    unfolding assms(7) by (simp only: getString_def Let_def fst_conv deliver_loop_skips [OF assms(1)])
  consider "length buf < n + ?m" | "length buf = n + ?m" | "n + ?m < length buf" by linarith
  then show ?thesis
  proof cases
    case 3
    have "take (n + ?m) (take n buf @ concat vs @ drop (n + ?m) buf) = take n buf @ concat vs"
      "drop (n + ?m + 1) (take n buf @ concat vs @ drop (n + ?m) buf) = drop (n + ?m + 1) buf"
      using assms(5,6) by (simp_all add: ac_simps)
    then show ?thesis unfolding g using 3 assms(2,3,5,6) loop by (simp add: store_def)
  qed (use g assms(2,3,5,6) loop in \<open>simp_all add: store_def\<close>)
qed

definition deliver_frame :: frame where
  "deliver_frame = \<lparr>f_channel = 1, f_payload = P_method (M_deliver [] 7 False [] [])\<rparr>"

definition body_frame :: "bytes \<Rightarrow> frame" where
  "body_frame v = \<lparr>f_channel = 1, f_payload = P_body v\<rparr>"

definition no_props :: wire_props where
  "no_props = \<lparr>w_flags = 0, w_bytes = (\<lambda>_. []), w_delivery_mode = 0, w_priority = 0, w_timestamp = 0,
     w_headers = []\<rparr>"

theorem getString_delivers_witness:
  "fst (getString [Some deliver_frame, Some \<lparr>f_channel = 1, f_payload = P_header no_props 3\<rparr>,
      Some (body_frame [65, 66]), Some (body_frame [67]), None] [] [9, 9, 9, 9, 9] 0 MyRabbit) =
    Returns 0 [65, 66, 67, 0, 9] 3 [Ack 1 7] [None]"
  using getString_delivers [of "[]" deliver_frame "[]" 7 False "[]" "[]" "\<lparr>f_channel = 1, f_payload = P_header no_props 3\<rparr>" no_props 3
      "[body_frame [65, 66], body_frame [67]]" "[[65, 66], [67]]" 0 "[9, 9, 9, 9, 9]" _ "[None]" "[]" MyRabbit]
  by (simp add: deliver_frame_def body_frame_def MyRabbit_def)

section \<open>Connections\<close>

text \<open>Connections that were made and not given back.\<close>

definition live :: "myrabbit \<Rightarrow> int" where
  "live s = int (count_list (sent s) New_connection) - int (count_list (sent s) Destroy_connection)"

lemma live_send [simp]: "live (send rs s) = live s + int (count_list rs New_connection) - int (count_list rs Destroy_connection)"
  by (simp add: live_def send_def)

lemma live_update [simp]: "live (s\<lparr>mn_isConnected := c\<rparr>) = live s"
  by (simp add: live_def)

lemma send_connected [simp]: "mn_isConnected (send rs s) = mn_isConnected s"
  by (simp add: send_def)

text \<open>A connection whose login or channel fails stays; only the one that works is given back.\<close>

definition attempts :: "(bool \<times> bool) list \<Rightarrow> myrabbit \<Rightarrow> myrabbit" where
  "attempts rs s = fold (\<lambda>(login, opened) s. snd (reconnectRabbit login opened s)) rs s"

lemma reconnect_live:
  assumes "mn_isConnected s = 0 \<or> mn_isConnected s = 1"
  shows "live (snd (reconnectRabbit login opened s)) = live s + 1 - mn_isConnected s"
    "mn_isConnected (snd (reconnectRabbit login opened s)) = (if login \<and> opened then 1 else 0)"
  using assms by (auto simp: reconnectRabbit_def closeRabbit_def Let_def)

text \<open>Of the connections that a sequence of \<open>reconnectRabbit\<close> calls makes, those whose login or channel
  fails are never given back: after the destructor, as many are left as there were failures.\<close>
theorem failed_connections_leak:
  "live (MyRabbit_dtor (attempts rs MyRabbit)) = int (length (filter (\<lambda>(login, opened). \<not> (login \<and> opened)) rs))"
proof -
  have c: "mn_isConnected (attempts rs MyRabbit) = (if rs \<noteq> [] \<and> fst (last rs) \<and> snd (last rs) then 1 else 0) \<and>
      live (attempts rs MyRabbit) = int (length (filter (\<lambda>(login, opened). \<not> (login \<and> opened)) rs)) + mn_isConnected (attempts rs MyRabbit)"
  proof (induction rs rule: rev_induct)
    case Nil
    show ?case by (simp add: attempts_def MyRabbit_def live_def)
  next
    case (snoc r rs)
    obtain login opened where r: "r = (login, opened)" by (cases r)
    let ?s = "attempts rs MyRabbit"
    have s: "attempts (rs @ [r]) MyRabbit = snd (reconnectRabbit login opened ?s)" by (simp add: attempts_def r)
    have "mn_isConnected ?s = 0 \<or> mn_isConnected ?s = 1" using snoc by auto
    then show ?case unfolding s using snoc reconnect_live [of ?s login opened] by (auto simp: r)
  qed
  then show ?thesis by (auto simp: MyRabbit_dtor_def closeRabbit_def)
qed

section \<open>Sending\<close>

text \<open>A message that the broker refuses is reported like one that it confirms.\<close>

theorem refused_is_success:
  "sendString (Some \<lparr>f_channel = 1, f_payload = P_method (M_other AMQP_BASIC_ACK_METHOD)\<rparr>) read exchange key body s =
   sendString (Some \<lparr>f_channel = 1, f_payload = P_method (M_channel_close close)\<rparr>) read exchange key body s"
  "map_option fst (sendString (Some \<lparr>f_channel = 1, f_payload = P_method (M_channel_close close)\<rparr>) read exchange key body s) = Some 0"
  by (simp_all add: sendString_def Let_def)

end
