(* ===== verification/TunBuffer.thy ===== *)
theory TunBuffer
  imports MsgBuffers
begin

unbundle bit_operations_syntax

text \<open>
  The buffers of \<open>tuntap.h\<close> and the DHCP options that \<open>myTunTap.cpp\<close> writes into them.  Memory is a
  partial function from addresses, and an access outside of its domain has no result (\<open>None\<close>).  The C
  type \<open>int\<close> is \<open>int\<close>: the sizes are below \<open>BUF_SIZE_MAX\<close> wherever the code adds them.
\<close>

section \<open>Memory\<close>

type_synonym ram = "int \<Rightarrow> byte option"

definition mem_load :: "ram \<Rightarrow> int \<Rightarrow> nat \<Rightarrow> bytes option" where
  "mem_load h a n = those (map (\<lambda>i. h (a + int i)) [0..<n])"

definition mem_store :: "ram \<Rightarrow> int \<Rightarrow> bytes \<Rightarrow> ram option" where
  "mem_store h a bs = (if list_all (\<lambda>i. h (a + int i) \<noteq> None) [0..<length bs]
     then Some (\<lambda>k. if a \<le> k \<and> k < a + int (length bs) then Some (bs ! nat (k - a)) else h k) else None)"

lemma those_map_eq_Some: "those (map f xs) = Some ys \<longleftrightarrow> map f xs = map Some ys"
proof (induction xs arbitrary: ys)
  case (Cons x xs)
  then show ?case by (cases ys) (auto split: option.splits)
qed auto

lemma mem_load_eq: "mem_load h a n = Some bs \<longleftrightarrow> length bs = n \<and> (\<forall>i < n. h (a + int i) = Some (bs ! i))"
  unfolding mem_load_def those_map_eq_Some
  by (auto simp: list_eq_iff_nth_eq)

lemma mem_load_0 [simp]: "mem_load h a 0 = Some []"
  by (simp add: mem_load_eq)

lemma mem_load_append:
  assumes "mem_load h a m = Some xs" "mem_load h (a + int m) n = Some ys"
  shows "mem_load h a (m + n) = Some (xs @ ys)"
  unfolding mem_load_eq
proof (intro conjI allI impI)
  show "length (xs @ ys) = m + n" using assms by (simp add: mem_load_eq)
  fix i assume "i < m + n"
  then show "h (a + int i) = Some ((xs @ ys) ! i)"
  proof (cases "i < m")
    case False
    then have "i - m < n" using \<open>i < m + n\<close> by simp
    with assms(2) have "h (a + int m + int (i - m)) = Some (ys ! (i - m))" unfolding mem_load_eq by blast
    moreover have "a + int m + int (i - m) = a + int i" using False by simp
    ultimately show ?thesis using False assms(1) by (simp add: mem_load_eq nth_append)
  qed (use assms in \<open>simp add: mem_load_eq nth_append\<close>)
qed

lemma mem_load_split:
  assumes "mem_load h a n = Some bs" "m \<le> n"
  shows "mem_load h a m = Some (take m bs)" "mem_load h (a + int m) (n - m) = Some (drop m bs)"
  using assms by (auto simp: mem_load_eq algebra_simps simp flip: of_nat_add)

text \<open>A block of allocated memory, and what a store within it does.\<close>

definition block :: "ram \<Rightarrow> int \<Rightarrow> int \<Rightarrow> bool" where
  "block h a n \<longleftrightarrow> (\<forall>k. a \<le> k \<and> k < a + n \<longrightarrow> h k \<noteq> None)"

lemma block_load: "block h d c \<Longrightarrow> d \<le> a \<Longrightarrow> a + int n \<le> d + c \<Longrightarrow> \<exists>bs. mem_load h a n = Some bs \<and> length bs = n"
  by (rule exI [of _ "map (\<lambda>i. the (h (a + int i))) [0..<n]"]) (simp add: mem_load_eq block_def)

lemma store_in_block:
  assumes "block h d c" "d \<le> a" "a + int (length bs) \<le> d + c"
  obtains h' where "mem_store h a bs = Some h'" "mem_load h' a (length bs) = Some bs"
    "\<And>k. k < a \<or> a + int (length bs) \<le> k \<Longrightarrow> h' k = h k" "\<And>d c. block h d c \<Longrightarrow> block h' d c"
proof
  let ?h = "\<lambda>k. if a \<le> k \<and> k < a + int (length bs) then Some (bs ! nat (k - a)) else h k"
  show "mem_store h a bs = Some ?h" using assms by (auto simp: mem_store_def list_all_iff block_def)
  show "mem_load ?h a (length bs) = Some bs" by (simp add: mem_load_eq)
  show "?h k = h k" if "k < a \<or> a + int (length bs) \<le> k" for k using that by auto
  show "block ?h d c" if "block h d c" for d c using that by (auto simp: block_def)
qed

lemma load_unchanged:
  assumes "mem_load h a n = Some bs" "\<And>k. a \<le> k \<Longrightarrow> k < a + int n \<Longrightarrow> h' k = h k"
  shows "mem_load h' a n = Some bs"
  using assms by (simp add: mem_load_eq)

section \<open>Buffers\<close>

record buffer =
  capacity :: int
  offset :: int
  len :: int
  data :: "int option"

abbreviation BUF_SIZE_MAX :: int where "BUF_SIZE_MAX \<equiv> 1000000"

definition buf_valid :: "buffer \<Rightarrow> bool" where
  "buf_valid buf \<longleftrightarrow> data buf \<noteq> None \<and> 0 \<le> len buf"

text \<open>The size is unsigned: a negative \<open>int\<close> becomes a huge one.\<close>

definition buf_size_valid :: "int \<Rightarrow> bool" where
  "buf_size_valid n \<longleftrightarrow> 0 \<le> n \<and> n < BUF_SIZE_MAX"

definition buf_safe :: "buffer \<Rightarrow> int \<Rightarrow> bool" where
  "buf_safe buf n \<longleftrightarrow> buf_valid buf \<and> buf_size_valid n \<and> offset buf + len buf + n \<le> capacity buf"

definition buf_bptr :: "buffer \<Rightarrow> int option" where
  "buf_bptr buf = (if buf_valid buf then map_option (\<lambda>d. d + offset buf) (data buf) else None)"

definition buf_len :: "buffer \<Rightarrow> int" where
  "buf_len buf = (if buf_valid buf then len buf else 0)"

definition buf_write_alloc :: "buffer \<Rightarrow> int \<Rightarrow> int option \<times> buffer" where
  "buf_write_alloc buf n =
     (if \<not> buf_safe buf n then (None, buf)
      else (map_option (\<lambda>p. p + len buf) (buf_bptr buf), buf\<lparr>len := len buf + n\<rparr>))"

text \<open>The octets at the source; \<open>None\<close> if they cannot be read.\<close>

definition buf_write :: "ram \<Rightarrow> buffer \<Rightarrow> bytes option \<Rightarrow> int \<Rightarrow> (bool \<times> buffer \<times> ram) option" where
  "buf_write h dest src n =
     (case buf_write_alloc dest n of
        (None, dest') \<Rightarrow> Some (False, dest', h)
      | (Some cp, dest') \<Rightarrow> (case src of None \<Rightarrow> None | Some bs \<Rightarrow>
          map_option (\<lambda>h'. (True, dest', h')) (mem_store h cp bs)))"

definition buf_bytes :: "ram \<Rightarrow> buffer \<Rightarrow> bytes option" where
  "buf_bytes h buf = (case buf_bptr buf of None \<Rightarrow> (if buf_len buf = 0 then Some [] else None)
     | Some p \<Rightarrow> mem_load h p (nat (buf_len buf)))"

definition buf_copy :: "ram \<Rightarrow> buffer \<Rightarrow> buffer \<Rightarrow> (bool \<times> buffer \<times> ram) option" where
  "buf_copy h dest src = buf_write h dest (buf_bytes h src) (buf_len src)"

definition buf_read_alloc :: "buffer \<Rightarrow> int \<Rightarrow> int option \<times> buffer" where
  "buf_read_alloc buf n =
     (if n < 0 \<or> len buf < n then (None, buf)
      else (buf_bptr buf, buf\<lparr>offset := offset buf + n, len := len buf - n\<rparr>))"

definition buf_reset :: "buffer \<Rightarrow> buffer" where
  "buf_reset buf = \<lparr>capacity = 0, offset = 0, len = 0, data = None\<rparr>"

definition buf_reset_len :: "buffer \<Rightarrow> buffer" where
  "buf_reset_len buf = buf\<lparr>len := 0, offset := 0\<rparr>"

definition buf_init_dowork :: "buffer \<Rightarrow> int \<Rightarrow> bool \<times> buffer" where
  "buf_init_dowork buf off =
     (if off < 0 \<or> capacity buf < off \<or> data buf = None then (False, buf)
      else (True, buf\<lparr>len := 0, offset := off\<rparr>))"

definition buf_set_write :: "ram \<Rightarrow> int option \<Rightarrow> int \<Rightarrow> (buffer \<times> ram) option" where
  "buf_set_write h p n =
     (let buf = \<lparr>capacity = n, offset = 0, len = 0, data = p\<rparr> in
      case p of Some a \<Rightarrow> (if 0 < n then map_option (Pair buf) (mem_store h a [0]) else Some (buf, h))
      | None \<Rightarrow> Some (buf, h))"

definition buf_set_read :: "int option \<Rightarrow> int \<Rightarrow> buffer" where
  "buf_set_read p n = \<lparr>capacity = n, offset = 0, len = n, data = p\<rparr>"

definition buf_write_u8 :: "ram \<Rightarrow> buffer \<Rightarrow> int \<Rightarrow> (bool \<times> buffer \<times> ram) option" where
  "buf_write_u8 h dest d = buf_write h dest (Some [word_of_int d]) 1"

definition buf_write_u16 :: "ram \<Rightarrow> buffer \<Rightarrow> int \<Rightarrow> (bool \<times> buffer \<times> ram) option" where
  "buf_write_u16 h dest d = buf_write h dest (Some (le 2 (htons (word_of_int d)))) 2"

definition buf_write_u32 :: "ram \<Rightarrow> buffer \<Rightarrow> int \<Rightarrow> (bool \<times> buffer \<times> ram) option" where
  "buf_write_u32 h dest d = buf_write h dest (Some (le 4 (htonl (word_of_int d)))) 4"

section \<open>A buffer as a queue of octets\<close>

definition buf_ok :: "ram \<Rightarrow> buffer \<Rightarrow> bool" where
  "buf_ok h b \<longleftrightarrow> (case data b of None \<Rightarrow> False | Some d \<Rightarrow> block h d (capacity b)) \<and> 0 \<le> offset b \<and> 0 \<le> len b \<and>
     offset b + len b \<le> capacity b \<and> capacity b < BUF_SIZE_MAX"

definition room :: "buffer \<Rightarrow> int" where
  "room b = capacity b - offset b - len b"

lemma buf_okD:
  assumes "buf_ok h b"
  obtains d where "data b = Some d" "block h d (capacity b)" "buf_bptr b = Some (d + offset b)" "buf_len b = len b"
    "0 \<le> offset b" "0 \<le> len b" "offset b + len b \<le> capacity b" "capacity b < BUF_SIZE_MAX"
  using assms by (auto simp: buf_ok_def buf_bptr_def buf_valid_def buf_len_def split: option.splits)

lemma buf_ok_bytes:
  assumes "buf_ok h b"
  obtains bs where "buf_bytes h b = Some bs" "int (length bs) = len b"
proof -
  from assms obtain d where d: "data b = Some d" "block h d (capacity b)" "buf_bptr b = Some (d + offset b)" "buf_len b = len b"
    "0 \<le> offset b" "0 \<le> len b" "offset b + len b \<le> capacity b" by (rule buf_okD)
  obtain bs where "mem_load h (d + offset b) (nat (len b)) = Some bs" "length bs = nat (len b)"
    using block_load [OF d(2), of "d + offset b" "nat (len b)"] d(5-7) by auto
  then show thesis using that [of bs] d by (simp add: buf_bytes_def)
qed

text \<open>Writing appends when there is room, and changes nothing when there is not.\<close>

lemma buf_write_no_room:
  "buf_ok h b \<Longrightarrow> room b < int (length bs) \<Longrightarrow> buf_write h b (Some bs) (int (length bs)) = Some (False, b, h)"
  by (simp add: buf_write_def buf_write_alloc_def buf_safe_def room_def)

lemma buf_write_appends:
  assumes ok: "buf_ok h b" and fits: "int (length bs) \<le> room b" and old: "buf_bytes h b = Some old"
  obtains h' where
    "buf_write h b (Some bs) (int (length bs)) = Some (True, b\<lparr>len := len b + int (length bs)\<rparr>, h')"
    "buf_ok h' (b\<lparr>len := len b + int (length bs)\<rparr>)"
    "buf_bytes h' (b\<lparr>len := len b + int (length bs)\<rparr>) = Some (old @ bs)"
    "\<And>k. (\<forall>d. data b = Some d \<longrightarrow> k < d \<or> d + capacity b \<le> k) \<Longrightarrow> h' k = h k"
    "\<And>d c. block h d c \<Longrightarrow> block h' d c"
proof -
  from ok obtain d where d: "data b = Some d" "block h d (capacity b)" "buf_bptr b = Some (d + offset b)" "buf_len b = len b"
    "0 \<le> offset b" "0 \<le> len b" "offset b + len b \<le> capacity b" "capacity b < BUF_SIZE_MAX" by (rule buf_okD)
  let ?a = "d + offset b + len b"
  let ?b = "b\<lparr>len := len b + int (length bs)\<rparr>"
  have safe: "buf_safe b (int (length bs))"
    using d fits by (simp add: buf_safe_def buf_valid_def buf_size_valid_def room_def)
  obtain h' where h': "mem_store h ?a bs = Some h'" "mem_load h' ?a (length bs) = Some bs"
      "\<And>k. k < ?a \<or> ?a + int (length bs) \<le> k \<Longrightarrow> h' k = h k" "\<And>d c. block h d c \<Longrightarrow> block h' d c"
    by (rule store_in_block [OF d(2), of ?a bs]) (use d fits in \<open>auto simp: room_def\<close>)
  have "mem_load h (d + offset b) (nat (len b)) = Some old" using old d by (simp add: buf_bytes_def)
  then have "mem_load h' (d + offset b) (nat (len b)) = Some old"
    by (rule load_unchanged) (rule h'(3), use d in simp)
  then have "mem_load h' (d + offset b) (nat (len b) + length bs) = Some (old @ bs)"
    using mem_load_append [of h' "d + offset b" "nat (len b)" old "length bs" bs] h'(2) d(6) by simp
  moreover have "nat (len b) + length bs = nat (len b + int (length bs))" using d(6) by simp
  ultimately have "buf_bytes h' ?b = Some (old @ bs)" using d by (simp add: buf_bytes_def buf_bptr_def buf_len_def buf_valid_def)
  moreover have "buf_ok h' ?b" using d h'(4) fits by (simp add: buf_ok_def room_def)
  moreover have "buf_write h b (Some bs) (int (length bs)) = Some (True, ?b, h')"
    using safe d(3) h'(1) by (simp add: buf_write_def buf_write_alloc_def)
  moreover have "h' k = h k" if k: "\<forall>d. data b = Some d \<longrightarrow> k < d \<or> d + capacity b \<le> k" for k
    by (rule h'(3)) (use k d fits in \<open>auto simp: room_def\<close>)
  ultimately show thesis using that h'(4) by blast
qed

text \<open>Reading takes from the front.\<close>

lemma buf_read_takes:
  assumes ok: "buf_ok h b" and bs: "buf_bytes h b = Some bs" and n: "n \<le> length bs"
  obtains p where "buf_read_alloc b (int n) = (Some p, b\<lparr>offset := offset b + int n, len := len b - int n\<rparr>)"
    "mem_load h p n = Some (take n bs)"
    "buf_ok h (b\<lparr>offset := offset b + int n, len := len b - int n\<rparr>)"
    "buf_bytes h (b\<lparr>offset := offset b + int n, len := len b - int n\<rparr>) = Some (drop n bs)"
proof -
  from ok obtain d where d: "data b = Some d" "block h d (capacity b)" "buf_bptr b = Some (d + offset b)" "buf_len b = len b"
    "0 \<le> offset b" "0 \<le> len b" "offset b + len b \<le> capacity b" "capacity b < BUF_SIZE_MAX" by (rule buf_okD)
  have l: "mem_load h (d + offset b) (nat (len b)) = Some bs" using bs d by (simp add: buf_bytes_def)
  then have len: "length bs = nat (len b)" by (simp add: mem_load_eq)
  note sp = mem_load_split [OF l, of n]
  show thesis
    by (rule that) (use d n len sp in \<open>auto simp: buf_read_alloc_def buf_ok_def buf_bytes_def buf_bptr_def buf_valid_def
      buf_len_def nat_diff_distrib algebra_simps\<close>)
qed

lemma buf_read_refuses: "n < 0 \<or> len b < n \<Longrightarrow> buf_read_alloc b n = (None, b)"
  by (simp add: buf_read_alloc_def)

end
