(* ===== verification/TunRing.thy ===== *)
theory TunRing
  imports TunBuffer
begin

unbundle bit_operations_syntax

text \<open>
  The packet rings of Wintun: \<open>tuntap.h\<close>, \<open>read_wintun\<close> and \<open>write_wintun\<close> of \<open>myTunTap.cpp\<close>.  A ring
  is shared memory of 8 MB and 64 kB of trailing octets, in which a packet that begins near the end
  is continued.  The abstraction is the list of the packets between head and tail; both operations
  are operations of a queue on it.
\<close>

section \<open>Rings\<close>

abbreviation WINTUN_RING_CAPACITY :: "'a::numeral" where "WINTUN_RING_CAPACITY \<equiv> 0x800000"
abbreviation WINTUN_RING_TRAILING_BYTES :: "'a::numeral" where "WINTUN_RING_TRAILING_BYTES \<equiv> 0x10000"
abbreviation WINTUN_MAX_PACKET_SIZE :: "'a::numeral" where "WINTUN_MAX_PACKET_SIZE \<equiv> 0xFFFF"
abbreviation WINTUN_PACKET_ALIGN :: "'a::numeral" where "WINTUN_PACKET_ALIGN \<equiv> 4"

definition wintun_ring_wrap :: "32 word \<Rightarrow> 32 word" where
  "wintun_ring_wrap v = v AND (WINTUN_RING_CAPACITY - 1)"

definition wintun_ring_packet_align :: "32 word \<Rightarrow> 32 word" where
  "wintun_ring_packet_align n = (n + (WINTUN_PACKET_ALIGN - 1)) AND NOT (WINTUN_PACKET_ALIGN - 1)"

record tun_ring =
  Head :: "32 word"
  Tail :: "32 word"
  Alertable :: "32 word"
  Data :: memory

text \<open>The size in the head of a packet, and its octets; \<open>None\<close> if they leave the ring's memory.\<close>

definition packet_size :: "memory \<Rightarrow> nat \<Rightarrow> 32 word" where
  "packet_size d h = unle (get h 4 d)"

definition packet_data :: "memory \<Rightarrow> nat \<Rightarrow> nat \<Rightarrow> bytes option" where
  "packet_data d h n =
     (if h + 4 + n \<le> WINTUN_RING_CAPACITY + WINTUN_RING_TRAILING_BYTES then Some (get (h + 4) n d) else None)"

definition read_wintun :: "ram \<Rightarrow> buffer \<Rightarrow> tun_ring \<Rightarrow> (buffer \<times> ram \<times> tun_ring) option" where
  "read_wintun h buf_init ring =
     (let head = Head ring; tail = Tail ring; buf = buf_init\<lparr>len := 0\<rparr> in
      if WINTUN_RING_CAPACITY \<le> head \<or> WINTUN_RING_CAPACITY \<le> tail then Some (buf\<lparr>len := -1\<rparr>, h, ring)
      else if head = tail then Some (buf, h, ring)
      else (let content_len = wintun_ring_wrap (tail - head) in
        if content_len < 4 then Some (buf\<lparr>len := -1\<rparr>, h, ring)
        else (let n = packet_size (Data ring) (unat head) in
          if WINTUN_MAX_PACKET_SIZE < n then Some (buf\<lparr>len := -1\<rparr>, h, ring)
          else (let aligned_packet_size = wintun_ring_packet_align (4 + n) in
            if content_len < aligned_packet_size then Some (buf\<lparr>len := -1\<rparr>, h, ring)
            else (case buf_write h buf (packet_data (Data ring) (unat head) (unat n)) (int (unat n)) of
                None \<Rightarrow> None
              | Some (_, buf', h') \<Rightarrow>
                  Some (buf', h', ring\<lparr>Head := wintun_ring_wrap (head + aligned_packet_size)\<rparr>))))))"

text \<open>The version in the first octet, which is read without a check that there is one.\<close>

definition is_ip_packet_valid :: "ram \<Rightarrow> buffer \<Rightarrow> bool option" where
  "is_ip_packet_valid h buf =
     (case buf_bptr buf of None \<Rightarrow> None | Some p \<Rightarrow> (case h p of None \<Rightarrow> None | Some version_len \<Rightarrow>
        (let ver = drop_bit 4 version_len AND 0x0F in
         if ver = 4 then Some (\<not> buf_len buf < 20)
         else if ver = 6 then Some (\<not> buf_len buf < 40)
         else Some False)))"

text \<open>The result, whether the driver is signalled, and the ring.\<close>

definition write_wintun :: "ram \<Rightarrow> buffer \<Rightarrow> tun_ring \<Rightarrow> (int \<times> bool \<times> tun_ring) option" where
  "write_wintun h buf ring =
     (let head = Head ring; tail = Tail ring in
      case is_ip_packet_valid h buf of None \<Rightarrow> None
      | Some False \<Rightarrow> Some (0, False, ring)
      | Some True \<Rightarrow>
        if WINTUN_RING_CAPACITY \<le> head \<or> WINTUN_RING_CAPACITY \<le> tail then Some (-1, False, ring)
        else (let aligned_packet_size = wintun_ring_packet_align (word_of_int (4 + buf_len buf));
                  buf_space = wintun_ring_wrap (head - tail - WINTUN_PACKET_ALIGN) in
          if buf_space < aligned_packet_size then Some (0, False, ring)
          else (case buf_bytes h buf of None \<Rightarrow> None | Some bs \<Rightarrow>
            if WINTUN_RING_CAPACITY + WINTUN_RING_TRAILING_BYTES < unat tail + 4 + length bs then None
            else Some (buf_len buf, Alertable ring \<noteq> 0,
              ring\<lparr>Data := put (unat tail + 4) bs (put (unat tail) (le 4 (word_of_int (buf_len buf) :: 32 word)) (Data ring)),
                   Tail := wintun_ring_wrap (tail + aligned_packet_size)\<rparr>))))"

section \<open>Positions\<close>

lemma unat_wrap: "unat (wintun_ring_wrap v) = unat v mod 0x800000"
proof -
  have "wintun_ring_wrap v = v mod 0x800000"
    by (simp add: wintun_ring_wrap_def take_bit_eq_mask [of 23 v, symmetric, unfolded mask_eq_exp_minus_1, simplified] take_bit_eq_mod)
  then show ?thesis by (simp add: unat_mod_distrib)
qed

lemma wrap_add: "unat (wintun_ring_wrap (a + b)) = (unat a + unat b) mod 0x800000"
  by (simp add: unat_wrap unat_word_ariths mod_mod_cancel)

lemma wrap_diff:
  assumes "unat a < 0x800000" "unat b \<le> 0x800000"
  shows "unat (wintun_ring_wrap (a - b)) = (unat a + 0x800000 - unat b) mod 0x800000"
proof -
  have "(unat a + 0x800000 - unat b) mod 0x800000 = unat (a - b) mod 0x800000"
  proof (cases "unat b \<le> unat a")
    case True
    then have "unat a + 0x800000 - unat b = unat a - unat b + 0x800000" by simp
    then have "(unat a + 0x800000 - unat b) mod 0x800000 = (unat a - unat b) mod 0x800000" by (simp only: mod_add_self2)
    with True show ?thesis by (simp add: unat_sub_if')
  next
    case False
    then have "unat (a - b) = unat a + 0x800000 - unat b + 511 * 0x800000" using assms by (simp add: unat_sub_if')
    then show ?thesis by (simp only: mod_mult_self1)
  qed
  then show ?thesis by (simp add: unat_wrap)
qed

definition aligned :: "nat \<Rightarrow> nat" where
  "aligned n = (n + 3) div 4 * 4"

lemma unat_align:
  assumes "unat n + 3 < 2 ^ 32"
  shows "unat (wintun_ring_packet_align n) = aligned (unat n)"
proof -
  have "wintun_ring_packet_align n = push_bit 2 (drop_bit 2 (n + 3))"
  proof -
    have "(3 :: 32 word) = mask 2" by (simp add: mask_eq_exp_minus_1)
    then have "wintun_ring_packet_align n = (n + 3) AND NOT (mask 2)" by (simp add: wintun_ring_packet_align_def)
    moreover have "Suc (Suc (m - 2)) = m" if "2 \<le> m" for m :: nat using that by simp
    ultimately show ?thesis by (intro bit_word_eqI) (auto simp: bit_simps)
  qed
  also have "unat \<dots> = take_bit 32 (push_bit 2 (drop_bit 2 (unat (n + 3))))"
  proof -
    have "take_bit 32 (unat (n + 3)) = unat (n + 3)"
      using unsigned_less [of "n + 3", where ?'a = nat] by (intro take_bit_nat_eq_self) simp
    then show ?thesis by (simp add: unsigned_push_bit_eq unsigned_drop_bit_eq)
  qed
  also have "unat (n + 3) = unat n + 3" using assms by (simp add: unat_word_ariths)
  also have "take_bit 32 (push_bit 2 (drop_bit 2 (unat n + 3))) = aligned (unat n)"
    using assms by (simp add: aligned_def push_bit_eq_mult drop_bit_eq_div take_bit_nat_eq_self)
  finally show ?thesis .
qed

text \<open>The octets a packet takes in the ring.\<close>

definition psize :: "bytes \<Rightarrow> nat" where
  "psize p = aligned (4 + length p)"

definition used :: "bytes list \<Rightarrow> nat" where
  "used ps = sum_list (map psize ps)"

lemma psize: "4 + length p \<le> psize p" "psize p \<le> length p + 7" "4 dvd psize p"
  by (auto simp: psize_def aligned_def)

lemma used_simps [simp]: "used [] = 0" "used (p # ps) = psize p + used ps" "used (ps @ qs) = used ps + used qs"
  by (simp_all add: used_def)

lemma used_aligned: "4 dvd used ps"
  by (induction ps) (simp_all add: psize(3))

section \<open>The packets of a ring\<close>

fun laid :: "memory \<Rightarrow> nat \<Rightarrow> bytes list \<Rightarrow> bool" where
  "laid d h [] \<longleftrightarrow> True"
| "laid d h (p # ps) \<longleftrightarrow> length p \<le> WINTUN_MAX_PACKET_SIZE \<and> get h 4 d = le 4 (of_nat (length p) :: 32 word) \<and>
     get (h + 4) (length p) d = p \<and> laid d ((h + psize p) mod WINTUN_RING_CAPACITY) ps"

definition ring_holds :: "tun_ring \<Rightarrow> bytes list \<Rightarrow> bool" where
  "ring_holds ring ps \<longleftrightarrow> unat (Head ring) < WINTUN_RING_CAPACITY \<and> 4 dvd unat (Head ring) \<and>
     used ps + WINTUN_PACKET_ALIGN \<le> WINTUN_RING_CAPACITY \<and>
     unat (Tail ring) = (unat (Head ring) + used ps) mod WINTUN_RING_CAPACITY \<and> laid (Data ring) (unat (Head ring)) ps"

text \<open>Octets stored behind the packets do not change them.\<close>

lemma laid_put:
  assumes "laid d h ps" "h < 0x800000" "used ps + n \<le> 0x800000" "length v \<le> n"
    "t = (h + used ps) mod 0x800000" "t \<le> a" "a + length v \<le> t + n"
  shows "laid (put a v d) h ps"
  using assms
proof (induction ps arbitrary: h)
  case (Cons p ps)
  have disjoint: "h + psize p \<le> t \<or> t + n \<le> h"
  proof (cases "h + used (p # ps) < 0x800000")
    case True
    then show ?thesis using Cons.prems(5) by simp
  next
    case False
    then have "t = h + used (p # ps) - 0x800000"
      using Cons.prems(2,3,5) by (simp add: mod_if)
    then show ?thesis using Cons.prems(3) False by linarith
  qed
  then have "h + 4 \<le> a \<or> a + length v \<le> h" "h + 4 + length p \<le> a \<or> a + length v \<le> h + 4"
    using psize(1) [of p] Cons.prems(6,7) by linarith+
  then have "get h 4 (put a v d) = get h 4 d" "get (h + 4) (length p) (put a v d) = get (h + 4) (length p) d" by auto
  moreover have "laid (put a v d) ((h + psize p) mod 0x800000) ps"
  proof (rule Cons.IH)
    show "t = ((h + psize p) mod 0x800000 + used ps) mod 0x800000"
      using Cons.prems(5) by (simp add: mod_add_left_eq add.assoc)
  qed (use Cons.prems in simp_all)
  ultimately show ?case using Cons.prems(1) by simp
qed simp

lemma laid_append: "laid d h (ps @ qs) \<longleftrightarrow> laid d h ps \<and> laid d ((h + used ps) mod 0x800000) qs" if "h < 0x800000"
  using that
proof (induction ps arbitrary: h)
  case (Cons p ps)
  then show ?case by (auto simp: mod_add_left_eq add.assoc)
qed simp

section \<open>The operations as operations of a queue\<close>

lemma ring_holdsD:
  assumes "ring_holds ring ps"
  shows "unat (Head ring) < 0x800000" "unat (Tail ring) < 0x800000" "4 dvd unat (Tail ring)"
    "unat (Tail ring) + 4 \<le> 0x800000" "used ps + 4 \<le> 0x800000" "laid (Data ring) (unat (Head ring)) ps"
    "\<not> 0x800000 \<le> Head ring" "\<not> 0x800000 \<le> Tail ring"
proof -
  show 1: "unat (Head ring) < 0x800000" "used ps + 4 \<le> 0x800000" "laid (Data ring) (unat (Head ring)) ps"
    using assms by (simp_all add: ring_holds_def)
  show 2: "unat (Tail ring) < 0x800000" using assms by (simp add: ring_holds_def)
  show "4 dvd unat (Tail ring)" using assms used_aligned [of ps] by (auto simp: ring_holds_def intro!: dvd_mod)
  then show "unat (Tail ring) + 4 \<le> 0x800000" using 2 by presburger
  show "\<not> 0x800000 \<le> Head ring" "\<not> 0x800000 \<le> Tail ring" using 1 2 by (simp_all add: word_le_nat_alt)
qed

lemma ring_space:
  assumes "ring_holds ring ps"
  shows "unat (wintun_ring_wrap (Head ring - Tail ring - 4)) = 0x800000 - used ps - 4"
proof -
  note r = ring_holdsD [OF assms]
  have t4: "unat (Tail ring + 4) = unat (Tail ring) + 4" using r(4) by (simp add: unat_word_ariths)
  have "unat (wintun_ring_wrap (Head ring - (Tail ring + 4))) = (unat (Head ring) + 0x800000 - (unat (Tail ring) + 4)) mod 0x800000"
    using wrap_diff [of "Head ring" "Tail ring + 4"] r(1,4) t4 by simp
  also have "\<dots> = 0x800000 - used ps - 4"
  proof (cases "unat (Head ring) + used ps < 0x800000")
    case True
    then have "unat (Tail ring) = unat (Head ring) + used ps" using assms by (simp add: ring_holds_def)
    then have "unat (Head ring) + 0x800000 - (unat (Tail ring) + 4) = 0x800000 - used ps - 4" using r(5) by simp
    then show ?thesis by simp
  next
    case False
    then have "unat (Tail ring) = unat (Head ring) + used ps - 0x800000"
      using assms r(1,5) by (simp add: ring_holds_def mod_if)
    then have "unat (Head ring) + 0x800000 - (unat (Tail ring) + 4) = (0x800000 - used ps - 4) + 0x800000"
      using r(5) False by simp
    then show ?thesis by (simp only: mod_add_self2) simp
  qed
  finally show ?thesis by (simp only: diff_diff_eq)
qed

definition appended :: "bytes \<Rightarrow> tun_ring \<Rightarrow> tun_ring" where
  "appended bs ring = ring\<lparr>
     Data := put (unat (Tail ring) + 4) bs (put (unat (Tail ring)) (le 4 (of_nat (length bs) :: 32 word)) (Data ring)),
     Tail := wintun_ring_wrap (Tail ring + wintun_ring_packet_align (word_of_int (4 + int (length bs))))\<rparr>"

lemma unat_psize:
  assumes "length bs < 1000000"
  shows "unat (wintun_ring_packet_align (word_of_int (4 + int (length bs)))) = psize bs"
    "unat (wintun_ring_packet_align (4 + of_nat (length bs))) = psize bs"
proof -
  have w: "(word_of_int (4 + int (length bs)) :: 32 word) = of_nat (4 + length bs)" by simp
  have "unat (of_nat (4 + length bs) :: 32 word) = 4 + length bs"
    using assms by (simp add: unsigned_of_nat take_bit_nat_eq_self del: of_nat_add)
  then show 1: "unat (wintun_ring_packet_align (word_of_int (4 + int (length bs)))) = psize bs"
    unfolding w psize_def using unat_align [of "of_nat (4 + length bs)"] assms by (simp del: of_nat_add)
  then show "unat (wintun_ring_packet_align (4 + of_nat (length bs))) = psize bs" by (simp add: w)
qed

lemma appended_holds:
  assumes r: "ring_holds ring ps" and bs: "length bs \<le> 0xFFFF" and fits: "used ps + psize bs + 4 \<le> 0x800000"
  shows "ring_holds (appended bs ring) (ps @ [bs])"
proof -
  note rd = ring_holdsD [OF r]
  let ?t = "unat (Tail ring)"
  have t: "?t = (unat (Head ring) + used ps) mod 0x800000" using r by (simp add: ring_holds_def)
  have "laid (put (?t + 4) bs (put ?t (le 4 (of_nat (length bs) :: 32 word)) (Data ring))) (unat (Head ring)) ps"
    by (rule laid_put [OF laid_put, where n1 = "psize bs" and t1 = ?t and n = "psize bs" and t = ?t])
      (use rd t fits psize(1) [of bs] in simp_all)
  moreover have "unat (Tail (appended bs ring)) = (unat (Head ring) + used (ps @ [bs])) mod 0x800000"
    using bs by (simp add: appended_def wrap_add unat_psize t mod_add_left_eq add.assoc)
  ultimately show ?thesis
    using r bs fits by (simp add: ring_holds_def appended_def laid_append t)
qed

text \<open>A packet is stored, or the ring is full.\<close>

lemma write_wintun_eq:
  assumes r: "ring_holds ring ps" and v: "is_ip_packet_valid h buf = Some True"
    and bs: "buf_bytes h buf = Some bs" "buf_len buf = int (length bs)" "length bs \<le> 0xFFFF"
  shows "write_wintun h buf ring =
    (if used ps + psize bs + 4 \<le> 0x800000 then Some (int (length bs), Alertable ring \<noteq> 0, appended bs ring)
     else Some (0, False, ring))"
proof -
  note rd = ring_holdsD [OF r]
  have "wintun_ring_wrap (Head ring - Tail ring - 4) < wintun_ring_packet_align (word_of_int (4 + int (length bs))) \<longleftrightarrow>
      \<not> used ps + psize bs + 4 \<le> 0x800000"
    using ring_space [OF r] unat_psize(1) [of bs] bs(3) rd(5) by (simp add: word_less_nat_alt del: of_int_add) linarith
  moreover have "\<not> 0x810000 < unat (Tail ring) + 4 + length bs" using rd(4) bs(3) by simp
  ultimately show ?thesis using v bs rd(7,8) by (simp add: write_wintun_def appended_def Let_def)
qed

text \<open>The first packet is taken out; it is lost when the buffer is too small.\<close>

definition taken :: "bytes \<Rightarrow> tun_ring \<Rightarrow> tun_ring" where
  "taken p ring = ring\<lparr>Head := wintun_ring_wrap (Head ring + wintun_ring_packet_align (4 + of_nat (length p)))\<rparr>"

lemma taken_holds:
  assumes "ring_holds ring (p # ps)"
  shows "ring_holds (taken p ring) ps"
proof -
  have p: "length p \<le> 0xFFFF" using assms by (simp add: ring_holds_def)
  have h: "unat (Head (taken p ring)) = (unat (Head ring) + psize p) mod 0x800000"
    using p by (simp add: taken_def wrap_add unat_psize)
  moreover have "4 dvd (unat (Head ring) + psize p) mod 0x800000"
    using assms psize(3) [of p] by (auto simp: ring_holds_def intro!: dvd_mod)
  ultimately show ?thesis using assms
    by (simp add: ring_holds_def taken_def mod_add_left_eq add.assoc)
qed

lemma wrap_content:
  assumes h: "unat h < 0x800000" and t: "unat t = (unat h + n) mod 0x800000" and n: "n < 0x800000"
  shows "unat (wintun_ring_wrap (t - h)) = n"
proof -
  have "unat (wintun_ring_wrap (t - h)) = (unat t + 0x800000 - unat h) mod 0x800000"
    using wrap_diff [of t h] h t by simp
  also have "\<dots> = n"
  proof (cases "unat h + n < 0x800000")
    case True
    then have "unat t + 0x800000 - unat h = n + 0x800000" using t by simp
    then show ?thesis using n by (simp only: mod_add_self2) simp
  next
    case False
    then have "unat t + 0x800000 - unat h = n" using t h n by (simp add: mod_if)
    then show ?thesis using n by simp
  qed
  finally show ?thesis .
qed

lemma ring_content:
  assumes "ring_holds ring ps"
  shows "unat (wintun_ring_wrap (Tail ring - Head ring)) = used ps"
  by (rule wrap_content) (use assms ring_holdsD [OF assms] in \<open>simp_all add: ring_holds_def\<close>)

lemma read_wintun_eq:
  assumes r: "ring_holds ring ps"
  shows "read_wintun h buf ring = (case ps of [] \<Rightarrow> Some (buf\<lparr>len := 0\<rparr>, h, ring)
    | p # _ \<Rightarrow> map_option (\<lambda>(_, buf', h'). (buf', h', taken p ring)) (buf_write h (buf\<lparr>len := 0\<rparr>) (Some p) (int (length p))))"
proof (cases ps)
  case Nil
  then have "Head ring = Tail ring" using r by (simp add: ring_holds_def word_unat_eq_iff)
  then show ?thesis using Nil ring_holdsD(7,8) [OF r] by (simp add: read_wintun_def)
next
  case (Cons p qs)
  note rd = ring_holdsD [OF r]
  let ?h = "unat (Head ring)"
  have c: "unat (wintun_ring_wrap (Tail ring - Head ring)) = psize p + used qs" using ring_content [OF r] Cons by simp
  have p: "length p \<le> 0xFFFF" "get ?h 4 (Data ring) = le 4 (of_nat (length p) :: 32 word)"
    "get (?h + 4) (length p) (Data ring) = p" using rd(6) Cons by simp_all
  have n: "packet_size (Data ring) ?h = of_nat (length p)" by (simp add: packet_size_def p(2))
  have u: "unat (of_nat (length p) :: 32 word) = length p" using p(1) by (simp add: unsigned_of_nat take_bit_nat_eq_self)
  have "Head ring \<noteq> Tail ring"
  proof
    assume "Head ring = Tail ring"
    with c show False using psize(1) [of p] by (simp add: unat_wrap)
  qed
  moreover have "\<not> wintun_ring_wrap (Tail ring - Head ring) < 4"
    using c psize(1) [of p] by (simp add: word_less_nat_alt)
  moreover have "\<not> wintun_ring_wrap (Tail ring - Head ring) < wintun_ring_packet_align (4 + of_nat (length p))"
    using c unat_psize(2) [of p] p(1) by (simp add: word_less_nat_alt)
  moreover have "\<not> 0xFFFF < (of_nat (length p) :: 32 word)" using u p(1) by (simp add: word_less_nat_alt)
  moreover have "packet_data (Data ring) ?h (length p) = Some p"
  proof -
    have "4 dvd ?h" using r by (simp add: ring_holds_def)
    then have "?h + 4 \<le> 0x800000" using rd(1) by presburger
    then show ?thesis using p(1,3) by (simp add: packet_data_def)
  qed
  ultimately show ?thesis using Cons rd(7,8)
    by (simp add: read_wintun_def Let_def n u taken_def option.case_eq_if map_option_case split_beta)
qed

section \<open>Bounded queues\<close>

text \<open>What a program that sends and receives packets relies on: the octets come out as they were put in,
  in order, and a packet is refused only when it does not fit.\<close>

datatype 'p ring_op = Send 'p | Receive

text \<open>The packets accepted, those received, and the queue afterwards.\<close>

primrec session :: "('p \<Rightarrow> 'r \<Rightarrow> (bool \<times> 'r) option) \<Rightarrow> ('r \<Rightarrow> ('p option \<times> 'r) option) \<Rightarrow> 'p ring_op list \<Rightarrow> 'r \<Rightarrow>
    ('p list \<times> 'p list \<times> 'r) option" where
  "session push pop [] r = Some ([], [], r)"
| "session push pop (op # ops) r = (case op of
     Send p \<Rightarrow> (case push p r of None \<Rightarrow> None | Some (acc, r') \<Rightarrow>
       map_option (\<lambda>(sent, got, r''). (if acc then p # sent else sent, got, r'')) (session push pop ops r'))
   | Receive \<Rightarrow> (case pop r of None \<Rightarrow> None | Some (q, r') \<Rightarrow>
       map_option (\<lambda>(sent, got, r''). (sent, (case q of None \<Rightarrow> got | Some p \<Rightarrow> p # got), r'')) (session push pop ops r')))"

locale packet_queue =
  fixes holds :: "'r \<Rightarrow> 'p list \<Rightarrow> bool" and ok :: "'p \<Rightarrow> bool" and fits :: "'p list \<Rightarrow> 'p \<Rightarrow> bool"
    and push :: "'p \<Rightarrow> 'r \<Rightarrow> (bool \<times> 'r) option" and pop :: "'r \<Rightarrow> ('p option \<times> 'r) option"
  assumes push: "holds r ps \<Longrightarrow> ok p \<Longrightarrow>
      \<exists>r'. push p r = Some (fits ps p, r') \<and> holds r' (if fits ps p then ps @ [p] else ps)"
    and pop: "holds r ps \<Longrightarrow> \<exists>r'. pop r = Some (case ps of [] \<Rightarrow> None | p # _ \<Rightarrow> Some p, r') \<and> holds r' (tl ps)"
begin

lemma session_fifo:
  assumes "holds r ps" "\<And>p. Send p \<in> set ops \<Longrightarrow> ok p"
  shows "\<exists>sent got r' qs. session push pop ops r = Some (sent, got, r') \<and> holds r' qs \<and> ps @ sent = got @ qs"
  using assms
proof (induction ops arbitrary: r ps)
  case (Cons op ops)
  have IH: "\<exists>sent got r'' qs. session push pop ops r' = Some (sent, got, r'') \<and> holds r'' qs \<and> ps' @ sent = got @ qs"
    if "holds r' ps'" for r' ps' using Cons.IH [OF that] Cons.prems(2) by auto
  show ?case
  proof (cases op)
    case (Send p)
    then have "ok p" using Cons.prems(2) by simp
    from push [OF Cons.prems(1) this] obtain r' where r': "push p r = Some (fits ps p, r')"
      "holds r' (if fits ps p then ps @ [p] else ps)" by blast
    from IH [OF r'(2)] obtain sent got r'' qs where
      "session push pop ops r' = Some (sent, got, r'')" "holds r'' qs"
      "(if fits ps p then ps @ [p] else ps) @ sent = got @ qs" by blast
    then show ?thesis using Send r'(1) by (cases "fits ps p") auto
  next
    case Receive
    from pop [OF Cons.prems(1)] obtain r' where r': "pop r = Some (case ps of [] \<Rightarrow> None | p # _ \<Rightarrow> Some p, r')"
      "holds r' (tl ps)" by blast
    from IH [OF r'(2)] obtain sent got r'' qs where
      "session push pop ops r' = Some (sent, got, r'')" "holds r'' qs" "tl ps @ sent = got @ qs" by blast
    then show ?thesis using Receive r'(1) by (cases ps) auto
  qed
qed auto

end

text \<open>A program that sends from a buffer around the packet and receives into one of 65535 octets.\<close>

definition ip_packet :: "bytes \<Rightarrow> bool" where
  "ip_packet p \<longleftrightarrow> p \<noteq> [] \<and> length p \<le> WINTUN_MAX_PACKET_SIZE \<and>
     (let ver = drop_bit 4 (hd p) AND 0x0F in (ver = 4 \<and> 20 \<le> length p) \<or> (ver = 6 \<and> 40 \<le> length p))"

definition ram_of :: "bytes \<Rightarrow> ram" where
  "ram_of bs = (\<lambda>k. if 0 \<le> k \<and> k < int (length bs) then Some (bs ! nat k) else None)"

definition ring_send :: "bytes \<Rightarrow> tun_ring \<Rightarrow> (bool \<times> tun_ring) option" where
  "ring_send p ring = map_option (\<lambda>(n, _, ring'). (0 < n, ring'))
     (write_wintun (ram_of p) (buf_set_read (Some 0) (int (length p))) ring)"

definition recv_buffer :: buffer where
  "recv_buffer = \<lparr>capacity = WINTUN_MAX_PACKET_SIZE, offset = 0, len = 0, data = Some 0\<rparr>"

definition recv_ram :: ram where
  "recv_ram = (\<lambda>k. if 0 \<le> k \<and> k < WINTUN_MAX_PACKET_SIZE then Some 0 else None)"

definition ring_recv :: "tun_ring \<Rightarrow> (bytes option \<times> tun_ring) option" where
  "ring_recv ring = (case read_wintun recv_ram recv_buffer ring of None \<Rightarrow> None
     | Some (buf, h, ring') \<Rightarrow> (if len buf < 0 then None
         else Some (if len buf = 0 then None else buf_bytes h buf, ring')))"

lemma packet_buffer:
  "buf_bytes (ram_of p) (buf_set_read (Some 0) (int (length p))) = Some p"
  "buf_len (buf_set_read (Some 0) (int (length p))) = int (length p)"
  by (simp_all add: buf_bytes_def buf_bptr_def buf_set_read_def buf_valid_def buf_len_def mem_load_eq ram_of_def)

lemma packet_valid:
  "p \<noteq> [] \<Longrightarrow> is_ip_packet_valid (ram_of p) (buf_set_read (Some 0) (int (length p))) =
    Some (let ver = drop_bit 4 (hd p) AND 0x0F in (ver = 4 \<and> 20 \<le> length p) \<or> (ver = 6 \<and> 40 \<le> length p))"
  by (simp add: is_ip_packet_valid_def buf_bptr_def buf_set_read_def buf_valid_def buf_len_def ram_of_def hd_conv_nth Let_def
    linorder_not_less)

lemma ring_send_eq:
  assumes "ring_holds ring ps" "ip_packet p"
  shows "ring_send p ring = Some (if used ps + psize p + 4 \<le> 0x800000 then (True, appended p ring) else (False, ring))"
proof -
  have "p \<noteq> []" "length p \<le> 0xFFFF" using assms(2) by (simp_all add: ip_packet_def)
  moreover from this have "is_ip_packet_valid (ram_of p) (buf_set_read (Some 0) (int (length p))) = Some True"
    using assms(2) by (simp add: packet_valid ip_packet_def)
  ultimately show ?thesis
    using write_wintun_eq [OF assms(1) _ packet_buffer] by (auto simp: ring_send_def)
qed

lemma ring_recv_eq:
  assumes r: "ring_holds ring ps" and ok: "\<And>p. p \<in> set ps \<Longrightarrow> p \<noteq> []"
  shows "ring_recv ring = Some (case ps of [] \<Rightarrow> (None, ring) | p # _ \<Rightarrow> (Some p, taken p ring))"
proof (cases ps)
  case Nil
  then show ?thesis using read_wintun_eq [OF r] by (simp add: ring_recv_def recv_buffer_def)
next
  case (Cons p qs)
  have p: "length p \<le> 0xFFFF" "p \<noteq> []" using r ok Cons by (simp_all add: ring_holds_def)
  have b: "buf_ok recv_ram recv_buffer" "buf_bytes recv_ram recv_buffer = Some []" "recv_buffer\<lparr>len := 0\<rparr> = recv_buffer"
      "int (length p) \<le> room recv_buffer"
    using p(1) by (simp_all add: buf_ok_def recv_buffer_def block_def recv_ram_def buf_bytes_def buf_bptr_def buf_valid_def
      buf_len_def room_def)
  obtain h' where w: "buf_write recv_ram recv_buffer (Some p) (int (length p)) = Some (True, recv_buffer\<lparr>len := len recv_buffer + int (length p)\<rparr>, h')"
      "buf_bytes h' (recv_buffer\<lparr>len := len recv_buffer + int (length p)\<rparr>) = Some ([] @ p)"
    by (rule buf_write_appends [OF b(1,4,2)]) (rule that; assumption)
  have "len recv_buffer = 0" by (simp add: recv_buffer_def)
  with w p(2) show ?thesis using read_wintun_eq [OF r, of recv_ram recv_buffer, unfolded b(3)] Cons by (simp add: ring_recv_def)
qed

interpretation wintun: packet_queue "\<lambda>ring ps. ring_holds ring ps \<and> list_all ip_packet ps" ip_packet
    "\<lambda>ps p. used ps + psize p + WINTUN_PACKET_ALIGN \<le> WINTUN_RING_CAPACITY" ring_send ring_recv
proof unfold_locales
  fix r ps p assume "ring_holds r ps \<and> list_all ip_packet ps" "ip_packet p"
  then show "\<exists>r'. ring_send p r = Some (used ps + psize p + 4 \<le> 0x800000, r') \<and>
      ring_holds r' (if used ps + psize p + 4 \<le> 0x800000 then ps @ [p] else ps) \<and>
      list_all ip_packet (if used ps + psize p + 4 \<le> 0x800000 then ps @ [p] else ps)"
    using appended_holds [of r ps p] by (auto simp: ring_send_eq ip_packet_def)
next
  fix r ps assume h: "ring_holds r ps \<and> list_all ip_packet ps"
  then have "ring_recv r = Some (case ps of [] \<Rightarrow> (None, r) | p # _ \<Rightarrow> (Some p, taken p r))"
    by (intro ring_recv_eq) (auto simp: list_all_iff ip_packet_def)
  with h show "\<exists>r'. ring_recv r = Some (case ps of [] \<Rightarrow> None | p # _ \<Rightarrow> Some p, r') \<and>
      ring_holds r' (tl ps) \<and> list_all ip_packet (tl ps)"
    by (cases ps) (auto intro: taken_holds)
qed

section \<open>Properties\<close>

text \<open>C32:
  Whatever sequence of sends and receives, a ring hands out exactly the packets it has accepted, octet
  for octet and in their order, also across the end of the ring, and neither operation leaves the
  memory of the ring or of a buffer.  It holds IP packets of at most 65535 octets, in a ring that
  begins with packets \<open>ps\<close> between head and tail.\<close>
theorem wintun_ring_fifo:
  assumes "ring_holds ring ps" "list_all ip_packet ps" "\<And>p. Send p \<in> set ops \<Longrightarrow> ip_packet p"
  shows "\<exists>sent got ring' qs. session ring_send ring_recv ops ring = Some (sent, got, ring') \<and>
    ring_holds ring' qs \<and> ps @ sent = got @ qs"
  using wintun.session_fifo [of ring ps ops] assms by auto

definition new_ring :: tun_ring where
  "new_ring = \<lparr>Head = 0x7FFFF0, Tail = 0x7FFFF0, Alertable = 0, Data = zeroed\<rparr>"

definition packet4 :: "byte \<Rightarrow> bytes" where
  "packet4 b = 0x45 # replicate 19 b"

theorem wintun_ring_fifo_witness:
  "\<exists>sent got ring' qs. session ring_send ring_recv [Send (packet4 1), Send (packet4 2), Receive, Receive, Receive] new_ring =
      Some (sent, got, ring') \<and> ring_holds ring' qs \<and> sent = got @ qs"
proof -
  have "ring_holds new_ring []" by (simp add: ring_holds_def new_ring_def)
  moreover have "ip_packet (packet4 b)" for b by (simp add: ip_packet_def packet4_def)
  ultimately show ?thesis
    using wintun_ring_fifo [of new_ring "[]" "[Send (packet4 1), Send (packet4 2), Receive, Receive, Receive]"] by auto
qed

text \<open>\<open>write_wintun\<close> does not look at \<open>WINTUN_MAX_PACKET_SIZE\<close>: a packet of more than 65535 octets that it
  accepts into an empty ring makes every later read fail without taking anything out, so nothing
  comes out of the ring any more.\<close>
theorem oversize_packet_jams:
  assumes r: "ring_holds ring []" and big: "0xFFFF < length p" "length p < 1000000"
    and sent: "write_wintun (ram_of p) (buf_set_read (Some 0) (int (length p))) ring = Some (n, signalled, ring')" "0 < n"
  shows "read_wintun h buf ring' = Some (buf\<lparr>len := -1\<rparr>, h, ring')"
proof -
  note rd = ring_holdsD [OF r]
  have l: "unat (of_nat (length p) :: 32 word) = length p"
    using big(2) by (simp add: unsigned_of_nat take_bit_nat_eq_self)
  have valid: "is_ip_packet_valid (ram_of p) (buf_set_read (Some 0) (int (length p))) = Some True"
  proof (cases "is_ip_packet_valid (ram_of p) (buf_set_read (Some 0) (int (length p)))")
    case (Some v)
    then show ?thesis using sent by (cases v) (auto simp: write_wintun_def)
  qed (use sent in \<open>simp add: write_wintun_def\<close>)
  have ring': "ring' = appended p ring" "psize p \<le> 0x800000 - 4"
    using sent valid rd(7,8) ring_space [OF r] unat_psize [OF big(2)]
    by (auto simp: write_wintun_def packet_buffer appended_def Let_def word_less_nat_alt split: if_splits)
  have same: "Tail ring = Head ring" using r by (simp add: ring_holds_def word_unat_eq_iff)
  have h': "Head ring' = Head ring" "unat (Tail ring') = (unat (Head ring) + psize p) mod 0x800000"
    using unat_psize [OF big(2)] by (simp_all add: ring'(1) appended_def wrap_add same)
  have c: "unat (wintun_ring_wrap (Tail ring' - Head ring')) = psize p"
    unfolding h'(1) by (rule wrap_content [OF rd(1) h'(2)]) (use ring'(2) in simp)
  have "Head ring' \<noteq> Tail ring'"
  proof
    assume "Head ring' = Tail ring'"
    with c show False using psize(1) [of p] by (simp add: unat_wrap)
  qed
  moreover have "\<not> wintun_ring_wrap (Tail ring' - Head ring') < 4"
    using c psize(1) [of p] by (simp add: word_less_nat_alt)
  moreover have "packet_size (Data ring') (unat (Head ring')) = of_nat (length p)"
    by (simp add: packet_size_def ring'(1) appended_def same)
  moreover have "0xFFFF < (of_nat (length p) :: 32 word)" using l big(1) by (simp add: word_less_nat_alt)
  moreover have "\<not> 0x800000 \<le> Head ring'" "\<not> 0x800000 \<le> Tail ring'"
    using h' rd(1) by (simp_all add: word_le_nat_alt not_le)
  ultimately show ?thesis by (simp add: read_wintun_def Let_def)
qed

definition big_packet :: bytes where
  "big_packet = replicate 65536 0x45"

theorem oversize_packet_jams_witness:
  "\<exists>n signalled ring'. write_wintun (ram_of big_packet) (buf_set_read (Some 0) (int (length big_packet))) new_ring =
      Some (n, signalled, ring') \<and> 0 < n \<and>
    read_wintun recv_ram recv_buffer ring' = Some (recv_buffer\<lparr>len := -1\<rparr>, recv_ram, ring')"
proof -
  have r: "ring_holds new_ring []" by (simp add: ring_holds_def new_ring_def)
  have b: "length big_packet = 65536" "hd big_packet = 0x45" "big_packet \<noteq> []"
    by (simp_all add: big_packet_def flip: length_0_conv)
  have "is_ip_packet_valid (ram_of big_packet) (buf_set_read (Some 0) (int (length big_packet))) = Some True"
    using packet_valid [OF b(3)] b by simp
  then have w: "\<exists>ring'. write_wintun (ram_of big_packet) (buf_set_read (Some 0) (int (length big_packet))) new_ring =
      Some (int (length big_packet), False, ring')"
    using packet_buffer [of big_packet] b
    by (simp add: write_wintun_def new_ring_def wintun_ring_wrap_def wintun_ring_packet_align_def)
  then show ?thesis using oversize_packet_jams [OF r, of big_packet] b by auto
qed

end
