(* ===== verification/TunDhcp.thy ===== *)
theory TunDhcp
  imports TunBuffer "HOL-Library.Monad_Syntax"
begin

unbundle bit_operations_syntax

text \<open>
  The DHCP options of \<open>myTunTap.cpp\<close>: the writers of one option, the whole option string, the list of
  options it stands for, and the refinement of the writers by operations on the octets and the room
  that is left.
\<close>

section \<open>Writers\<close>

record tuntap_options =
  o_domain :: "bytes option"
  netbios_scope :: "bytes option"
  netbios_node_type :: int
  dns :: "32 word list"
  dns_len :: "32 word"
  wins :: "32 word list"
  wins_len :: "32 word"
  ntp :: "32 word list"
  ntp_len :: "32 word"
  nbdd :: "32 word list"
  nbdd_len :: "32 word"
  disable_nbt :: bool

text \<open>The state of a writer: the buffer, memory and the flag \<open>error\<close>.  The results of the single writes
  are not looked at.\<close>

type_synonym writer = "buffer \<times> ram \<times> bool \<Rightarrow> (buffer \<times> ram \<times> bool) option"

fun put_u8 :: "int \<Rightarrow> writer" where
  "put_u8 d (buf, h, e) = map_option (\<lambda>(_, buf', h'). (buf', h', e)) (buf_write_u8 h buf d)"

fun put_u32 :: "int \<Rightarrow> writer" where
  "put_u32 d (buf, h, e) = map_option (\<lambda>(_, buf', h'). (buf', h', e)) (buf_write_u32 h buf d)"

fun put_bytes :: "bytes \<Rightarrow> int \<Rightarrow> writer" where
  "put_bytes bs n (buf, h, e) = map_option (\<lambda>(_, buf', h'). (buf', h', e)) (buf_write h buf (Some bs) n)"

fun write_dhcp_u8 :: "int \<Rightarrow> int \<Rightarrow> writer" where
  "write_dhcp_u8 type d (buf, h, e) =
     (if \<not> buf_safe buf 3 then Some (buf, h, True)
      else put_u8 type (buf, h, e) \<bind> put_u8 1 \<bind> put_u8 d)"

text \<open>The loop over the array; an element that it does not have cannot be read.\<close>

fun write_u32s :: "32 word list \<Rightarrow> nat list \<Rightarrow> writer" where
  "write_u32s d [] s = Some s"
| "write_u32s d (i # is) s = (if i < length d then put_u32 (uint (d ! i)) s \<bind> write_u32s d is else None)"

fun write_dhcp_u32_array :: "int \<Rightarrow> 32 word list \<Rightarrow> 32 word \<Rightarrow> writer" where
  "write_dhcp_u32_array type d n (buf, h, e) =
     (if n = 0 then Some (buf, h, e)
      else (let sz = sint (n * 4) in
        if \<not> buf_safe buf (2 + sz) then Some (buf, h, True)
        else if sz < 1 \<or> 255 < sz then Some (buf, h, True)
        else put_u8 type (buf, h, e) \<bind> put_u8 sz \<bind> write_u32s d [0..<unat n]))"

fun write_dhcp_str :: "int \<Rightarrow> bytes \<Rightarrow> writer" where
  "write_dhcp_str type str (buf, h, e) =
     (let n = int (length str) in
        if \<not> buf_safe buf (2 + n) then Some (buf, h, True)
        else if n < 1 \<or> 255 < n then Some (buf, h, True)
        else put_u8 type (buf, h, e) \<bind> put_u8 n \<bind> put_bytes str n)"

definition build_dhcp_options_string :: "buffer \<Rightarrow> ram \<Rightarrow> tuntap_options \<Rightarrow> (bool \<times> buffer \<times> ram) option" where
  "build_dhcp_options_string buf h opt =
     (case o_domain opt of None \<Rightarrow> Some (buf, h, False) | Some s \<Rightarrow> write_dhcp_str 15 s (buf, h, False)) \<bind>
     (\<lambda>st. case netbios_scope opt of None \<Rightarrow> Some st | Some s \<Rightarrow> write_dhcp_str 47 s st) \<bind>
     (\<lambda>st. if netbios_node_type opt \<noteq> 0 then write_dhcp_u8 46 (netbios_node_type opt) st else Some st) \<bind>
     write_dhcp_u32_array 6 (dns opt) (dns_len opt) \<bind>
     write_dhcp_u32_array 44 (wins opt) (wins_len opt) \<bind>
     write_dhcp_u32_array 42 (ntp opt) (ntp_len opt) \<bind>
     write_dhcp_u32_array 45 (nbdd opt) (nbdd_len opt) \<bind>
     (\<lambda>(buf, h, e). if disable_nbt opt then
        (if \<not> buf_safe buf 8 then Some (False, buf, h)
         else put_u8 43 (buf, h, e) \<bind> put_u8 6 \<bind> put_u8 1 \<bind> put_u8 4 \<bind> put_u32 2 \<bind>
           (\<lambda>(buf, h, e). Some (\<not> e, buf, h)))
      else Some (\<not> e, buf, h))"

section \<open>The options meant\<close>

type_synonym dhcp_option = "byte \<times> bytes"

definition be4 :: "32 word \<Rightarrow> bytes" where "be4 w = rev (le 4 w)"

definition address_option :: "byte \<Rightarrow> 32 word list \<Rightarrow> 32 word \<Rightarrow> dhcp_option list" where
  "address_option t d n = (if n = 0 then [] else [(t, concat (map be4 (take (unat n) d)))])"

fun tlv :: "dhcp_option \<Rightarrow> bytes" where
  "tlv (t, v) = t # of_nat (length v) # v"

definition encode_options :: "dhcp_option list \<Rightarrow> bytes" where
  "encode_options os = concat (map tlv os)"

definition dhcp_options :: "tuntap_options \<Rightarrow> dhcp_option list" where
  "dhcp_options opt =
     (case o_domain opt of None \<Rightarrow> [] | Some s \<Rightarrow> [(15, s)]) @
     (case netbios_scope opt of None \<Rightarrow> [] | Some s \<Rightarrow> [(47, s)]) @
     (if netbios_node_type opt \<noteq> 0 then [(46, [word_of_int (netbios_node_type opt)])] else []) @
     address_option 6 (dns opt) (dns_len opt) @ address_option 44 (wins opt) (wins_len opt) @
     address_option 42 (ntp opt) (ntp_len opt) @ address_option 45 (nbdd opt) (nbdd_len opt) @
     (if disable_nbt opt then [(43, tlv (1, be4 2))] else [])"

text \<open>How a client of DHCP reads options.\<close>

fun parse_options :: "bytes \<Rightarrow> dhcp_option list option" where
  "parse_options [] = Some []"
| "parse_options [t] = None"
| "parse_options (t # n # bs) = (if length bs < unat n then None
     else map_option (Cons (t, take (unat n) bs)) (parse_options (drop (unat n) bs)))"

definition valid_option :: "dhcp_option \<Rightarrow> bool" where
  "valid_option p \<longleftrightarrow> snd p \<noteq> [] \<and> length (snd p) \<le> 255"

lemma parse_encode: "list_all valid_option os \<Longrightarrow> parse_options (encode_options os) = Some os"
proof (induction os)
  case (Cons p os)
  obtain t v where p: "p = (t, v)" by (cases p)
  with Cons.prems have "unat (of_nat (length v) :: byte) = length v"
    by (simp add: valid_option_def unsigned_of_nat take_bit_nat_eq_self)
  with Cons p show ?case by (simp add: encode_options_def)
qed (simp add: encode_options_def)

text \<open>Option by option, with what fits.\<close>

type_synonym dhcp_abs = "bytes \<times> int \<times> bool"

fun abs_write :: "dhcp_option \<Rightarrow> dhcp_abs \<Rightarrow> dhcp_abs" where
  "abs_write p (c, r, e) =
     (if valid_option p \<and> int (length (tlv p)) \<le> r then (c @ tlv p, r - int (length (tlv p)), e) else (c, r, True))"

lemma abs_write_error: "snd (snd (fold abs_write os (c, r, True)))"
  by (induction os arbitrary: c r) simp_all

lemma abs_writes:
  "snd (snd (fold abs_write os (c, r, False))) \<longleftrightarrow> \<not> (list_all valid_option os \<and> (os = [] \<or> int (length (encode_options os)) \<le> r))"
  "\<not> snd (snd (fold abs_write os (c, r, False))) \<Longrightarrow> fst (fold abs_write os (c, r, False)) = c @ encode_options os"
proof (induction os arbitrary: c r)
  case Nil
  { case 1 show ?case by simp } { case 2 show ?case by (simp add: encode_options_def) }
next
  case (Cons p os)
  { case 1 show ?case
      using Cons(1) [of "c @ tlv p" "r - int (length (tlv p))"] abs_write_error [of os c r]
      by (auto simp: encode_options_def) }
  { case 2 then show ?case
      using Cons(2) [of "c @ tlv p" "r - int (length (tlv p))"] abs_write_error [of os c r]
      by (auto simp: encode_options_def split: if_splits) }
qed

section \<open>The writers do that\<close>

fun dhcp_rep :: "buffer \<times> ram \<times> bool \<Rightarrow> dhcp_abs \<Rightarrow> bool" where
  "dhcp_rep (buf, h, e) (c, r, e') \<longleftrightarrow> buf_ok h buf \<and> buf_bytes h buf = Some c \<and> room buf = r \<and> e = e'"

lemma buf_safe_room: "buf_ok h buf \<Longrightarrow> 0 \<le> n \<Longrightarrow> buf_safe buf n \<longleftrightarrow> n \<le> room buf"
  by (erule buf_okD) (auto simp: buf_safe_def buf_valid_def buf_size_valid_def room_def)

lemma put_bytes_rep:
  assumes "dhcp_rep st (c, r, e)" "int (length bs) \<le> r"
  shows "\<exists>st'. put_bytes bs (int (length bs)) st = Some st' \<and> dhcp_rep st' (c @ bs, r - int (length bs), e)"
proof -
  obtain buf h where st: "st = (buf, h, e)" "buf_ok h buf" "buf_bytes h buf = Some c" "room buf = r"
    using assms(1) by (cases st) auto
  from assms(2) st(4) have fits: "int (length bs) \<le> room buf" by simp
  obtain h' where
    "buf_write h buf (Some bs) (int (length bs)) = Some (True, buf\<lparr>len := len buf + int (length bs)\<rparr>, h')"
    "buf_ok h' (buf\<lparr>len := len buf + int (length bs)\<rparr>)"
    "buf_bytes h' (buf\<lparr>len := len buf + int (length bs)\<rparr>) = Some (c @ bs)"
    by (rule buf_write_appends [OF st(2) fits st(3)]) (rule that; assumption)
  moreover have "room (buf\<lparr>len := len buf + int (length bs)\<rparr>) = r - int (length bs)"
    using st(4) by (simp add: room_def)
  moreover have "e = snd (snd st)" using assms(1) st(1) by simp
  ultimately show ?thesis using st(1) by simp
qed

lemma put_u8_bytes: "put_u8 d st = put_bytes [word_of_int d] 1 st"
  by (cases st) (simp add: buf_write_u8_def)

lemma put_u32_bytes: "put_u32 d st = put_bytes (be4 (word_of_int d)) 4 st"
  by (cases st) (simp add: buf_write_u32_def be4_def htonl_def)

lemma put_u8_rep:
  "dhcp_rep st (c, r, e) \<Longrightarrow> 1 \<le> r \<Longrightarrow>
    \<exists>st'. put_u8 d st = Some st' \<and> dhcp_rep st' (c @ [word_of_int d], r - 1, e)"
  using put_bytes_rep [of st c r e "[word_of_int d]"] by (simp add: put_u8_bytes)

lemma put_u32_rep:
  "dhcp_rep st (c, r, e) \<Longrightarrow> 4 \<le> r \<Longrightarrow>
    \<exists>st'. put_u32 d st = Some st' \<and> dhcp_rep st' (c @ be4 (word_of_int d), r - 4, e)"
  using put_bytes_rep [of st c r e "be4 (word_of_int d)"] by (simp add: put_u32_bytes be4_def)

text \<open>The head of an option and its octets, written when there is room for them.\<close>

lemma put_head_rep:
  assumes "dhcp_rep st (c, r, e)" "2 \<le> r"
  shows "\<exists>st'. put_u8 t st \<bind> put_u8 n = Some st' \<and> dhcp_rep st' (c @ [word_of_int t, word_of_int n], r - 2, e)"
proof -
  obtain st1 where st1: "put_u8 t st = Some st1" "dhcp_rep st1 (c @ [word_of_int t], r - 1, e)"
    using put_u8_rep [OF assms(1), of t] assms(2) by auto
  obtain st2 where "put_u8 n st1 = Some st2" "dhcp_rep st2 ((c @ [word_of_int t]) @ [word_of_int n], r - 1 - 1, e)"
    using put_u8_rep [OF st1(2), of n] assms(2) by auto
  then show ?thesis using st1(1) by simp
qed

lemma write_dhcp_str_rep:
  assumes "dhcp_rep st (c, r, e)"
  shows "\<exists>st'. write_dhcp_str t s st = Some st' \<and> dhcp_rep st' (abs_write (word_of_int t, s) (c, r, e))"
proof -
  obtain buf h where st: "st = (buf, h, e)" "buf_ok h buf" "room buf = r" using assms by (cases st) auto
  then have safe: "buf_safe buf (2 + int (length s)) \<longleftrightarrow> 2 + int (length s) \<le> r" by (simp add: buf_safe_room)
  show ?thesis
  proof (cases "2 + int (length s) \<le> r \<and> s \<noteq> [] \<and> length s \<le> 255")
    case True
    then have "1 \<le> length s" by (cases s) simp_all
    from True have "2 \<le> r" by simp
    from put_head_rep [OF assms this, of t "int (length s)"] obtain st1 where
      st1: "put_u8 t st \<bind> put_u8 (int (length s)) = Some st1" "dhcp_rep st1 (c @ [word_of_int t, of_nat (length s)], r - 2, e)"
      by auto
    obtain st2 where st2: "put_bytes s (int (length s)) st1 = Some st2"
        "dhcp_rep st2 ((c @ [word_of_int t, of_nat (length s)]) @ s, r - 2 - int (length s), e)"
      using put_bytes_rep [OF st1(2), of s] True by auto
    moreover have "r - 2 - int (length s) = r - (2 + int (length s))" by simp
    ultimately show ?thesis using True \<open>1 \<le> length s\<close> safe st(1) st1(1) by (simp add: valid_option_def algebra_simps)
  next
    case False
    then have "\<not> buf_safe buf (2 + int (length s)) \<or> int (length s) < 1 \<or> 255 < int (length s)"
      using safe by (cases s) auto
    moreover have "\<not> (valid_option (word_of_int t, s) \<and> int (length (tlv (word_of_int t, s))) \<le> r)"
      using False by (auto simp: valid_option_def)
    ultimately show ?thesis using assms st(1) by (auto simp: Let_def)
  qed
qed

lemma write_dhcp_u8_rep:
  assumes "dhcp_rep st (c, r, e)"
  shows "\<exists>st'. write_dhcp_u8 t d st = Some st' \<and> dhcp_rep st' (abs_write (word_of_int t, [word_of_int d]) (c, r, e))"
proof -
  obtain buf h where st: "st = (buf, h, e)" "buf_ok h buf" "room buf = r" using assms by (cases st) auto
  then have safe: "buf_safe buf 3 \<longleftrightarrow> 3 \<le> r" by (simp add: buf_safe_room)
  show ?thesis
  proof (cases "3 \<le> r")
    case True
    then have "2 \<le> r" by simp
    from put_head_rep [OF assms this, of t 1] obtain st1 where
      st1: "put_u8 t st \<bind> put_u8 1 = Some st1" "dhcp_rep st1 (c @ [word_of_int t, 1], r - 2, e)"
      by auto
    obtain st2 where "put_u8 d st1 = Some st2" "dhcp_rep st2 ((c @ [word_of_int t, 1]) @ [word_of_int d], r - 2 - 1, e)"
      using put_u8_rep [OF st1(2), of d] True by auto
    then show ?thesis using True safe st(1) st1(1) by (simp add: valid_option_def)
  qed (use assms st safe in \<open>simp add: valid_option_def\<close>)
qed

lemma write_u32s_rep:
  assumes "list_all (\<lambda>i. i < length d) is" "dhcp_rep st (c, r, e)" "4 * int (length is) \<le> r"
  shows "\<exists>st'. write_u32s d is st = Some st' \<and>
    dhcp_rep st' (c @ concat (map (\<lambda>i. be4 (d ! i)) is), r - 4 * int (length is), e)"
  using assms
proof (induction "is" arbitrary: st c r)
  case (Cons i "is")
  obtain st1 where st1: "put_u32 (uint (d ! i)) st = Some st1" "dhcp_rep st1 (c @ be4 (d ! i), r - 4, e)"
    using put_u32_rep [OF Cons.prems(2), of "uint (d ! i)"] Cons.prems(3) by auto
  have "list_all (\<lambda>i. i < length d) is" "4 * int (length is) \<le> r - 4" using Cons.prems(1,3) by simp_all
  from Cons.IH [OF this(1) st1(2) this(2)] Cons.prems(1) st1(1) show ?case by (auto simp: algebra_simps)
qed simp

lemma length_be4s [simp]: "length (concat (map (\<lambda>i. be4 (f i)) xs)) = 4 * length xs"
  by (induction xs) (simp_all add: be4_def)

lemma address_bytes:
  "n \<le> length d \<Longrightarrow> concat (map (\<lambda>i. be4 (d ! i)) [0..<n]) = concat (map be4 (take n d))"
  by (rule arg_cong [of _ _ concat]) (simp add: list_eq_iff_nth_eq)

lemma write_dhcp_u32_array_rep:
  assumes rep: "dhcp_rep st (c, r, e)" and n: "unat n \<le> length d" "unat n \<le> 4"
  shows "\<exists>st'. write_dhcp_u32_array t d n st = Some st' \<and> dhcp_rep st' (fold abs_write (address_option (word_of_int t) d n) (c, r, e))"
proof (cases "n = 0")
  case True
  then show ?thesis using rep by (cases st) (simp add: address_option_def)
next
  case False
  let ?n = "unat n" and ?v = "concat (map be4 (take (unat n) d))"
  have n1: "1 \<le> ?n" using False unat_gt_0 [of n] by simp
  obtain buf h where st: "st = (buf, h, e)" "buf_ok h buf" "room buf = r" using rep by (cases st) auto
  have sz: "sint (n * 4) = 4 * int ?n"
  proof -
    obtain k where k: "k = ?n" "k = 0 \<or> k = 1 \<or> k = 2 \<or> k = 3 \<or> k = 4" using n(2) by force
    then have "n = of_nat k" by simp
    with k(2) show ?thesis by (elim disjE) simp_all
  qed
  have safe: "buf_safe buf (2 + 4 * int ?n) \<longleftrightarrow> 2 + 4 * int ?n \<le> r" using st by (simp add: buf_safe_room)
  have len: "length ?v = 4 * ?n" using n(1) length_be4s [of "\<lambda>x. x" "take ?n d"] by simp
  have tl1: "tlv (word_of_int t, ?v) = [word_of_int t, of_nat (4 * ?n)] @ ?v" by (simp only: tlv.simps len append.simps)
  have tl2: "int (length (tlv (word_of_int t, ?v))) = 2 + 4 * int ?n" by (simp only: tl1 length_append len) simp
  have ao: "fold abs_write (address_option (word_of_int t) d n) (c, r, e) = abs_write (word_of_int t, ?v) (c, r, e)"
    using False by (simp add: address_option_def)
  from len have valid: "valid_option (word_of_int t, ?v)" using n1 n(2) by (auto simp: valid_option_def simp flip: length_0_conv)
  have w: "write_dhcp_u32_array t d n st = (if \<not> 2 + 4 * int ?n \<le> r then Some (buf, h, True)
      else put_u8 t st \<bind> put_u8 (4 * int ?n) \<bind> write_u32s d [0..<?n])"
  proof -
    have "\<not> 4 * int ?n < 1" "\<not> 255 < 4 * int ?n" using n1 n(2) by linarith+
    then show ?thesis using False safe by (simp add: st(1) sz Let_def)
  qed
  show ?thesis
  proof (cases "2 + 4 * int ?n \<le> r")
    case True
    then have "2 \<le> r" by linarith
    from put_head_rep [OF rep this, of t "4 * int ?n"] obtain st1 where
      st1: "put_u8 t st \<bind> put_u8 (4 * int ?n) = Some st1" "dhcp_rep st1 (c @ [word_of_int t, of_nat (4 * ?n)], r - 2, e)"
      by auto
    have "list_all (\<lambda>i. i < length d) [0..<?n]" "4 * int (length [0..<?n]) \<le> r - 2"
      using n(1) True by (auto simp: list_all_iff)
    from write_u32s_rep [OF this(1) st1(2) this(2)] obtain st2 where st2: "write_u32s d [0..<?n] st1 = Some st2"
        "dhcp_rep st2 ((c @ [word_of_int t, of_nat (4 * ?n)]) @ ?v, r - 2 - 4 * int ?n, e)"
      using address_bytes [OF n(1)] by auto
    moreover have "abs_write (word_of_int t, ?v) (c, r, e) =
        ((c @ [word_of_int t, of_nat (4 * ?n)]) @ ?v, r - 2 - 4 * int ?n, e)"
      using valid True by (simp only: abs_write.simps tl2) (simp only: tl1 simp_thms if_True append_assoc diff_diff_eq)
    ultimately show ?thesis using True st1(1) by (simp only: w ao) simp
  next
    case nofit: False
    then have "abs_write (word_of_int t, ?v) (c, r, e) = (c, r, True)" by (simp only: abs_write.simps tl2) simp
    then have "dhcp_rep (buf, h, True) (fold abs_write (address_option (word_of_int t) d n) (c, r, e))"
      using rep st by (simp add: ao)
    then show ?thesis using nofit by (simp add: w del: write_dhcp_u32_array.simps)
  qed
qed

section \<open>The whole option string\<close>

text \<open>A writer that does what its options say; such writers compose.\<close>

definition writes :: "writer \<Rightarrow> dhcp_option list \<Rightarrow> bool" where
  "writes w os \<longleftrightarrow> (\<forall>st c r e. dhcp_rep st (c, r, e) \<longrightarrow> (\<exists>st'. w st = Some st' \<and> dhcp_rep st' (fold abs_write os (c, r, e))))"

lemma writes_none: "writes Some []"
  by (simp add: writes_def)

lemma writes_bind:
  assumes "writes v os" "writes w os'"
  shows "writes (\<lambda>st. v st \<bind> w) (os @ os')"
  unfolding writes_def
proof (intro allI impI)
  fix st c r e assume "dhcp_rep st (c, r, e)"
  with assms(1) obtain st' where st': "v st = Some st'" "dhcp_rep st' (fold abs_write os (c, r, e))"
    unfolding writes_def by blast
  obtain c' r' e' where a: "fold abs_write os (c, r, e) = (c', r', e')" by (cases "fold abs_write os (c, r, e)")
  from assms(2) st'(2) [unfolded a] obtain st'' where "w st' = Some st''" "dhcp_rep st'' (fold abs_write os' (c', r', e'))"
    unfolding writes_def by blast
  with st'(1) a show "\<exists>st'. v st \<bind> w = Some st' \<and> dhcp_rep st' (fold abs_write (os @ os') (c, r, e))" by simp
qed

lemma writes_str: "b = word_of_int t \<Longrightarrow> writes (\<lambda>st. case s of None \<Rightarrow> Some st | Some s \<Rightarrow> write_dhcp_str t s st)
    (case s of None \<Rightarrow> [] | Some s \<Rightarrow> [(b, s)])"
  using write_dhcp_str_rep [of _ _ _ _ t] by (cases s) (simp_all add: writes_def del: write_dhcp_str.simps abs_write.simps)

lemma writes_u8: "b = word_of_int t \<Longrightarrow> writes (\<lambda>st. if d \<noteq> 0 then write_dhcp_u8 t d st else Some st) (if d \<noteq> 0 then [(b, [word_of_int d])] else [])"
  using write_dhcp_u8_rep [of _ _ _ _ t d] by (simp add: writes_def del: write_dhcp_u8.simps abs_write.simps)

lemma writes_u32_array:
  "unat n \<le> length d \<Longrightarrow> unat n \<le> 4 \<Longrightarrow> writes (write_dhcp_u32_array t d n) (address_option (word_of_int t) d n)"
  using write_dhcp_u32_array_rep [of _ _ _ _ n d t] by (simp add: writes_def del: write_dhcp_u32_array.simps)

text \<open>The last option, with the flag that is returned.\<close>

definition disable_nbt_option :: "bool \<Rightarrow> buffer \<times> ram \<times> bool \<Rightarrow> (bool \<times> buffer \<times> ram) option" where
  "disable_nbt_option nbt = (\<lambda>(buf, h, e). if nbt then
     (if \<not> buf_safe buf 8 then Some (False, buf, h)
      else put_u8 43 (buf, h, e) \<bind> put_u8 6 \<bind> put_u8 1 \<bind> put_u8 4 \<bind> put_u32 2 \<bind> (\<lambda>(buf, h, e). Some (\<not> e, buf, h)))
    else Some (\<not> e, buf, h))"

lemma disable_nbt_rep:
  assumes rep: "dhcp_rep st (c, r, e)"
  shows "\<exists>buf h. disable_nbt_option nbt st = Some (\<not> snd (snd (fold abs_write (if nbt then [(43, tlv (1, be4 2))] else []) (c, r, e))), buf, h) \<and>
    (\<exists>e'. dhcp_rep (buf, h, e') (fold abs_write (if nbt then [(43, tlv (1, be4 2))] else []) (c, r, e)))"
proof (cases "nbt \<and> 8 \<le> r")
  case True
  then have r: "2 \<le> r" "2 \<le> r - 2" "4 \<le> r - 2 - 2" by simp_all
  obtain s1 where s1: "put_u8 43 st \<bind> put_u8 6 = Some s1" "dhcp_rep s1 (c @ [43, 6], r - 2, e)"
    using put_head_rep [OF rep r(1), of 43 6] by auto
  obtain s2 where s2: "put_u8 1 s1 \<bind> put_u8 4 = Some s2" "dhcp_rep s2 ((c @ [43, 6]) @ [1, 4], r - 2 - 2, e)"
    using put_head_rep [OF s1(2) r(2), of 1 4] by auto
  obtain s3 where s3: "put_u32 2 s2 = Some s3" "dhcp_rep s3 (((c @ [43, 6]) @ [1, 4]) @ be4 2, r - 2 - 2 - 4, e)"
    using put_u32_rep [OF s2(2) r(3), of 2] by auto
  obtain buf h where b: "s3 = (buf, h, e)" using s3(2) by (cases s3) auto
  have safe: "\<not> (case st of (buf, h, e) \<Rightarrow> \<not> buf_safe buf 8)" using rep True by (cases st) (auto simp: buf_safe_room)
  have "put_u8 43 st \<bind> put_u8 6 \<bind> put_u8 1 \<bind> put_u8 4 \<bind> put_u32 2 = Some s3"
    using s1(1) s2(1) s3(1) by simp
  moreover have "disable_nbt_option nbt st = (put_u8 43 st \<bind> put_u8 6 \<bind> put_u8 1 \<bind> put_u8 4 \<bind> put_u32 2) \<bind>
      (\<lambda>(buf, h, e). Some (\<not> e, buf, h))"
    using True safe by (cases st) (simp add: disable_nbt_option_def)
  ultimately have "disable_nbt_option nbt st = Some (\<not> e, buf, h)" using b by (simp only: bind.bind_lunit) simp
  moreover have "tlv (43, tlv (1, be4 2)) = [43, 6, 1, 4] @ be4 2" by (simp add: be4_def)
  ultimately show ?thesis using True s3(2) b
    by (simp add: valid_option_def) (simp add: be4_def)
next
  case False
  then show ?thesis using rep by (cases st) (auto simp: disable_nbt_option_def buf_safe_room valid_option_def be4_def)
qed

text \<open>The arrays have room for \<open>N_DHCP_ADDR\<close> addresses.\<close>

definition options_ok :: "tuntap_options \<Rightarrow> bool" where
  "options_ok opt \<longleftrightarrow> list_all (\<lambda>(d, n). length d = 4 \<and> n \<le> (4 :: 32 word))
     [(dns opt, dns_len opt), (wins opt, wins_len opt), (ntp opt, ntp_len opt), (nbdd opt, nbdd_len opt)]"

lemma build_dhcp_rep:
  assumes ok: "options_ok opt" and rep: "dhcp_rep (buf, h, False) (c, r, False)"
  obtains buf' h' where
    "build_dhcp_options_string buf h opt = Some (\<not> snd (snd (fold abs_write (dhcp_options opt) (c, r, False))), buf', h')"
    "\<exists>e'. dhcp_rep (buf', h', e') (fold abs_write (dhcp_options opt) (c, r, False))"
proof -
  define os where "os = (case o_domain opt of None \<Rightarrow> [] | Some s \<Rightarrow> [(15, s)]) @
     (case netbios_scope opt of None \<Rightarrow> [] | Some s \<Rightarrow> [(47, s)]) @
     (if netbios_node_type opt \<noteq> 0 then [(46, [word_of_int (netbios_node_type opt)])] else []) @
     address_option 6 (dns opt) (dns_len opt) @ address_option 44 (wins opt) (wins_len opt) @
     address_option 42 (ntp opt) (ntp_len opt) @ address_option 45 (nbdd opt) (nbdd_len opt)"
  have os: "dhcp_options opt = os @ (if disable_nbt opt then [(43, tlv (1, be4 2))] else [])"
    by (simp add: os_def dhcp_options_def)
  define w where "w = (\<lambda>st. (case o_domain opt of None \<Rightarrow> Some st | Some s \<Rightarrow> write_dhcp_str 15 s st) \<bind>
     (\<lambda>st. case netbios_scope opt of None \<Rightarrow> Some st | Some s \<Rightarrow> write_dhcp_str 47 s st) \<bind>
     (\<lambda>st. if netbios_node_type opt \<noteq> 0 then write_dhcp_u8 46 (netbios_node_type opt) st else Some st) \<bind>
     write_dhcp_u32_array 6 (dns opt) (dns_len opt) \<bind> write_dhcp_u32_array 44 (wins opt) (wins_len opt) \<bind>
     write_dhcp_u32_array 42 (ntp opt) (ntp_len opt) \<bind> write_dhcp_u32_array 45 (nbdd opt) (nbdd_len opt))"
  have n: "unat n \<le> 4 \<longleftrightarrow> n \<le> 4" for n :: "32 word" by (simp add: word_le_nat_alt)
  have "writes w os"
    unfolding w_def os_def append_assoc [symmetric]
    using writes_str [where s = "o_domain opt" and t = 15 and b = 15] writes_str [where s = "netbios_scope opt" and t = 47 and b = 47]
      writes_u8 [where d = "netbios_node_type opt" and t = 46 and b = 46]
      writes_u32_array [where n = "dns_len opt" and d = "dns opt" and t = 6]
      writes_u32_array [where n = "wins_len opt" and d = "wins opt" and t = 44]
      writes_u32_array [where n = "ntp_len opt" and d = "ntp opt" and t = 42]
      writes_u32_array [where n = "nbdd_len opt" and d = "nbdd opt" and t = 45] ok
    by (intro writes_bind) (simp_all add: options_ok_def n split del: if_split)
  with rep obtain st where st: "w (buf, h, False) = Some st" "dhcp_rep st (fold abs_write os (c, r, False))"
    unfolding writes_def by blast
  obtain c' r' e' where a: "fold abs_write os (c, r, False) = (c', r', e')" by (cases "fold abs_write os (c, r, False)")
  have "build_dhcp_options_string buf h opt = w (buf, h, False) \<bind> disable_nbt_option (disable_nbt opt)"
    by (simp only: build_dhcp_options_string_def w_def disable_nbt_option_def)
  with st(1) have b: "build_dhcp_options_string buf h opt = disable_nbt_option (disable_nbt opt) st" by simp
  from disable_nbt_rep [OF st(2) [unfolded a], of "disable_nbt opt"] show thesis
    unfolding b os fold_append comp_apply a using that [unfolded b os fold_append comp_apply a] by blast
qed

text \<open>C33:
  Building the DHCP option string in an empty buffer never leaves the buffer's memory.  It reports
  success exactly when every option has between 1 and 255 octets and all of them fit, and then the
  buffer holds an option string from which a reader gets back exactly the options meant: domain,
  scope and node type of NetBIOS, the four lists of addresses in network order, and the vendor option.\<close>
theorem dhcp_options_roundtrip:
  assumes ok: "buf_ok h buf" and empty: "buf_bytes h buf = Some []" and opt: "options_ok opt"
  shows "\<exists>success buf' h' bs. build_dhcp_options_string buf h opt = Some (success, buf', h') \<and>
    buf_ok h' buf' \<and> buf_bytes h' buf' = Some bs \<and>
    (success \<longleftrightarrow> list_all valid_option (dhcp_options opt) \<and> int (length (encode_options (dhcp_options opt))) \<le> room buf) \<and>
    (success \<longrightarrow> parse_options bs = Some (dhcp_options opt))"
proof -
  let ?os = "dhcp_options opt"
  have rep: "dhcp_rep (buf, h, False) ([], room buf, False)" using ok empty by simp
  obtain buf' h' where b: "build_dhcp_options_string buf h opt = Some (\<not> snd (snd (fold abs_write ?os ([], room buf, False))), buf', h')"
      "\<exists>e'. dhcp_rep (buf', h', e') (fold abs_write ?os ([], room buf, False))"
    by (rule build_dhcp_rep [OF opt rep])
  obtain c r e where a: "fold abs_write ?os ([], room buf, False) = (c, r, e)" by (cases "fold abs_write ?os ([], room buf, False)")
  have "0 \<le> room buf" using ok by (auto simp: room_def elim: buf_okD)
  then have "\<not> e \<longleftrightarrow> list_all valid_option ?os \<and> int (length (encode_options ?os)) \<le> room buf"
    using abs_writes(1) [of ?os "[]" "room buf"] a by (auto simp: encode_options_def)
  moreover have "\<not> e \<longrightarrow> c = encode_options ?os" using abs_writes(2) [of ?os "[]" "room buf"] a by simp
  ultimately show ?thesis using b a by (auto simp: parse_encode)
qed

definition tap_ram :: ram where
  "tap_ram = (\<lambda>k. if 0 \<le> k \<and> k < 64 then Some 0 else None)"

definition tap_options :: tuntap_options where
  "tap_options = \<lparr>o_domain = Some [108, 97, 110], netbios_scope = None, netbios_node_type = 2,
     dns = [0x0A000001, 0, 0, 0], dns_len = 1, wins = [0, 0, 0, 0], wins_len = 0, ntp = [0, 0, 0, 0], ntp_len = 0,
     nbdd = [0, 0, 0, 0], nbdd_len = 0, disable_nbt = True\<rparr>"

theorem dhcp_options_roundtrip_witness:
  "\<exists>buf' h' bs. build_dhcp_options_string \<lparr>capacity = 64, offset = 0, len = 0, data = Some 0\<rparr> tap_ram tap_options =
      Some (True, buf', h') \<and> buf_bytes h' buf' = Some bs \<and>
    parse_options bs = Some [(15, [108, 97, 110]), (46, [2]), (6, [10, 0, 0, 1]), (43, [1, 4, 0, 0, 0, 2])]"
proof -
  let ?buf = "\<lparr>capacity = 64, offset = 0, len = 0, data = Some 0\<rparr>"
  have "buf_ok tap_ram ?buf" "buf_bytes tap_ram ?buf = Some []" "options_ok tap_options"
    by (simp_all add: buf_ok_def block_def tap_ram_def buf_bytes_def buf_bptr_def buf_len_def buf_valid_def options_ok_def tap_options_def)
  note dhcp_options_roundtrip [OF this]
  moreover have os: "dhcp_options tap_options = [(15, [108, 97, 110]), (46, [2]), (6, [10, 0, 0, 1]), (43, [1, 4, 0, 0, 0, 2])]"
    by (simp add: dhcp_options_def tap_options_def address_option_def be4_def le_def upt_rec)
  moreover have "list_all valid_option (dhcp_options tap_options) \<and> int (length (encode_options (dhcp_options tap_options))) \<le> room ?buf"
    by (simp add: os valid_option_def encode_options_def room_def)
  ultimately show ?thesis by metis
qed

end
