(* ===== verification/TunDevice.thy ===== *)
theory TunDevice
  imports TunBuffer
begin

unbundle bit_operations_syntax

text \<open>
  The device of \<open>myTunTap.cpp\<close>: the arena of allocated blocks and the removal of temporary addresses,
  the two requests to the driver that may be pending, and the frames read from it, of which ARP
  requests are answered.  What Windows returns is a parameter.
\<close>

section \<open>Blocks of an arena\<close>

text \<open>The blocks that are allocated, by number, and the number of the next one.\<close>

record gc_heap =
  live :: "nat list"
  fresh :: nat

record gc_arena =
  entries :: "nat list"
  specials :: "(nat \<times> nat) list"

datatype gc_exit = Out_of_memory | Bad_free

definition gc_new :: gc_arena where
  "gc_new = \<lparr>entries = [], specials = []\<rparr>"

definition heap_alloc :: "bool \<Rightarrow> gc_heap \<Rightarrow> gc_exit + nat \<times> gc_heap" where
  "heap_alloc avail h = (if avail then Inr (fresh h, h\<lparr>live := fresh h # live h, fresh := fresh h + 1\<rparr>) else Inl Out_of_memory)"

definition heap_free :: "nat \<Rightarrow> gc_heap \<Rightarrow> gc_exit + gc_heap" where
  "heap_free p h = (if p \<in> set (live h) then Inr (h\<lparr>live := remove1 p (live h)\<rparr>) else Inl Bad_free)"

definition gc_malloc :: "bool \<Rightarrow> gc_arena \<Rightarrow> gc_heap \<Rightarrow> gc_exit + nat \<times> gc_arena \<times> gc_heap" where
  "gc_malloc avail a h = (case heap_alloc avail h of Inl e \<Rightarrow> Inl e
     | Inr (e, h') \<Rightarrow> Inr (e, a\<lparr>entries := e # entries a\<rparr>, h'))"

fun free_entries :: "nat list \<Rightarrow> gc_heap \<Rightarrow> gc_exit + gc_heap" where
  "free_entries [] h = Inr h"
| "free_entries (e # next) h = (case heap_free e h of Inl x \<Rightarrow> Inl x | Inr h' \<Rightarrow> free_entries next h')"

definition x_gc_free :: "gc_arena \<Rightarrow> gc_heap \<Rightarrow> gc_exit + gc_arena \<times> gc_heap" where
  "x_gc_free a h = map_sum id (Pair (a\<lparr>entries := []\<rparr>)) (free_entries (entries a) h)"

text \<open>A special entry has an object that \<open>free_fnc\<close> frees; \<open>free\<close> is the only such function here.\<close>

fun free_specials :: "(nat \<times> nat) list \<Rightarrow> gc_heap \<Rightarrow> gc_exit + gc_heap" where
  "free_specials [] h = Inr h"
| "free_specials ((e, addr) # next) h =
     (case heap_free addr h of Inl x \<Rightarrow> Inl x | Inr h1 \<Rightarrow>
       (case heap_free e h1 of Inl x \<Rightarrow> Inl x | Inr h2 \<Rightarrow> free_specials next h2))"

definition x_gc_freespecial :: "gc_arena \<Rightarrow> gc_heap \<Rightarrow> gc_exit + gc_arena \<times> gc_heap" where
  "x_gc_freespecial a h = map_sum id (Pair (a\<lparr>specials := []\<rparr>)) (free_specials (specials a) h)"

definition gc_free :: "gc_arena \<Rightarrow> gc_heap \<Rightarrow> gc_exit + gc_arena \<times> gc_heap" where
  "gc_free a h =
     (case (if entries a \<noteq> [] then x_gc_free a h else Inr (a, h)) of Inl e \<Rightarrow> Inl e
      | Inr (a1, h1) \<Rightarrow> (if specials a1 \<noteq> [] then x_gc_freespecial a1 h1 else Inr (a1, h1)))"

section \<open>Temporary addresses\<close>

text \<open>An adapter: its index and the contexts of its addresses.  \<open>GetAdaptersInfo\<close> first reports the
  size that is needed, or something else, and then fills in the list, or fails (\<open>None\<close>).\<close>

type_synonym adapter = "32 word \<times> 32 word list"

definition get_adapter_info_list ::
  "bool \<Rightarrow> bool \<Rightarrow> adapter list option \<Rightarrow> gc_arena \<Rightarrow> gc_heap \<Rightarrow> gc_exit + adapter list \<times> gc_arena \<times> gc_heap" where
  "get_adapter_info_list avail overflow answer gc h =
     (if \<not> overflow then Inr ([], gc, h)
      else (case gc_malloc avail gc h of Inl e \<Rightarrow> Inl e
        | Inr (_, gc', h') \<Rightarrow> Inr (case answer of None \<Rightarrow> [] | Some ai \<Rightarrow> ai, gc', h')))"

fun find_adapter :: "adapter list \<Rightarrow> 32 word \<Rightarrow> adapter option" where
  "find_adapter [] index = None"
| "find_adapter (a # ai) index = (if fst a = index then Some a else find_adapter ai index)"

definition get_adapter :: "adapter list \<Rightarrow> 32 word \<Rightarrow> adapter option" where
  "get_adapter ai index = (if index \<noteq> -1 then find_adapter ai index else None)"

text \<open>The contexts for which \<open>DeleteIPAddress\<close> is called.\<close>

definition delete_temp_addresses ::
  "bool \<Rightarrow> bool \<Rightarrow> adapter list option \<Rightarrow> 32 word \<Rightarrow> gc_heap \<Rightarrow> gc_exit + 32 word list \<times> gc_heap" where
  "delete_temp_addresses avail overflow answer index h =
     (case get_adapter_info_list avail overflow answer gc_new h of Inl e \<Rightarrow> Inl e
      | Inr (ai, gc, h1) \<Rightarrow>
        (let deleted = (case get_adapter ai index of None \<Rightarrow> [] | Some a \<Rightarrow> snd a) in
         map_sum id (\<lambda>(_, h2). (deleted, h2)) (gc_free gc h1)))"

section \<open>Device types\<close>

definition is_dev_type :: "bytes option \<Rightarrow> bytes option \<Rightarrow> bytes option \<Rightarrow> bool" where
  "is_dev_type name dev_type match_type =
     (if name = None \<or> dev_type = None \<or> match_type = None then False
      else if dev_type \<noteq> None then dev_type = match_type
      else take (length (the match_type)) (the name) = the match_type)"

definition dev_type_enum :: "bytes option \<Rightarrow> bytes option \<Rightarrow> int" where
  "dev_type_enum name dev_type =
     (if is_dev_type name dev_type (Some (ascii ''tun'')) then 2
      else if is_dev_type name dev_type (Some (ascii ''tap'')) then 3
      else if is_dev_type name dev_type (Some (ascii ''null'')) then 1 else 0)"

section \<open>Requests that may be pending\<close>

datatype iostate = IOSTATE_INITIAL | IOSTATE_QUEUED | IOSTATE_IMMEDIATE_RETURN

text \<open>\<open>ReadFile\<close> and \<open>WriteFile\<close>: done with so many octets, pending, or an error.\<close>

datatype io_answer = Io_done "32 word" | Io_pending | Io_error int

abbreviation ERROR_IO_PENDING :: int where "ERROR_IO_PENDING \<equiv> 997"

record overlapped_io =
  iostate :: iostate
  io_size :: "32 word"
  io_status :: int
  buf_init :: buffer
  io_buf :: buffer

definition io_answered :: "io_answer \<Rightarrow> overlapped_io \<Rightarrow> overlapped_io" where
  "io_answered ans rw = (case ans of
     Io_done n \<Rightarrow> rw\<lparr>iostate := IOSTATE_IMMEDIATE_RETURN, io_size := n, io_status := 0\<rparr>
   | Io_pending \<Rightarrow> rw\<lparr>iostate := IOSTATE_QUEUED, io_status := ERROR_IO_PENDING\<rparr>
   | Io_error e \<Rightarrow> rw\<lparr>iostate := IOSTATE_IMMEDIATE_RETURN, io_status := e\<rparr>)"

text \<open>The state that is returned (\<open>None\<close> for -1), and the number of octets asked for, if any.\<close>

definition dev_read :: "io_answer \<Rightarrow> int \<Rightarrow> overlapped_io \<Rightarrow> iostate option \<times> 32 word option \<times> overlapped_io" where
  "dev_read ans maxsize reads =
     (if iostate reads = IOSTATE_INITIAL then
        (let r1 = reads\<lparr>io_buf := buf_init reads\<rparr>;
             n = (if maxsize \<noteq> 0 then word_of_int maxsize else word_of_int (buf_len (io_buf r1)) :: 32 word) in
         if word_of_int (buf_len (io_buf r1)) < n then (None, None, r1)
         else (let r2 = io_answered ans r1 in (Some (iostate r2), Some n, r2)))
      else (Some (iostate reads), None, reads))"

text \<open>The octets handed to \<open>WriteFile\<close>, if it is called.\<close>

definition dev_write :: "ram \<Rightarrow> io_answer \<Rightarrow> buffer \<Rightarrow> overlapped_io \<Rightarrow>
    (iostate \<times> bytes option \<times> overlapped_io \<times> ram) option" where
  "dev_write h ans buf ws =
     (if iostate ws = IOSTATE_INITIAL then
        (case buf_copy h ((buf_init ws)\<lparr>len := 0\<rparr>) buf of None \<Rightarrow> None
         | Some (_, b, h') \<Rightarrow> (case buf_bytes h' b of None \<Rightarrow> None | Some bs \<Rightarrow>
             (let w = io_answered ans (ws\<lparr>io_buf := b\<rparr>) in Some (iostate w, Some bs, w, h'))))
      else Some (iostate ws, None, ws, h))"

section \<open>Hardware addresses as text\<close>

definition hex_digit :: "nat \<Rightarrow> byte" where
  "hex_digit n = (if n < 10 then of_nat (48 + n) else of_nat (55 + n))"

text \<open>\<open>%.2X\<close>\<close>

definition hex2X :: "byte \<Rightarrow> bytes" where
  "hex2X b = [hex_digit (unat b div 16), hex_digit (unat b mod 16)]"

text \<open>The loop of \<open>getLocalMac\<close> over the octets of the address.\<close>

fun mac_text :: "bytes \<Rightarrow> bytes \<Rightarrow> bytes" where
  "mac_text tmpMAC [] = tmpMAC"
| "mac_text tmpMAC [b] = tmpMAC @ hex2X b"
| "mac_text tmpMAC (b # addr) = mac_text (tmpMAC @ hex2X b @ [58]) addr"

text \<open>\<open>GetAdaptersAddresses\<close>: a larger buffer is needed, the adapters (is it the loopback, its name, its
  hardware address), or an error.  It is called up to \<open>MAX_TRIES\<close> times.\<close>

datatype addr_answer = Buffer_overflow | Adapters "(bool \<times> bytes \<times> bytes) list" | Addr_error

fun query_adapters :: "(nat \<Rightarrow> addr_answer) \<Rightarrow> nat \<Rightarrow> addr_answer" where
  "query_adapters answers 0 = Buffer_overflow"
| "query_adapters answers (Suc tries) =
     (case answers 0 of Buffer_overflow \<Rightarrow> query_adapters (\<lambda>i. answers (Suc i)) tries | a \<Rightarrow> a)"

fun find_mac :: "bytes \<Rightarrow> (bool \<times> bytes \<times> bytes) list \<Rightarrow> bytes option" where
  "find_mac device_guid [] = None"
| "find_mac device_guid ((loopback, name, addr) # rest) =
     (if loopback then find_mac device_guid rest
      else if device_guid = name then Some (mac_text [] addr) else find_mac device_guid rest)"

text \<open>The text \<open>msz_tun_MAC\<close> afterwards.\<close>

definition getLocalMac :: "bytes \<Rightarrow> (nat \<Rightarrow> addr_answer) \<Rightarrow> bytes \<Rightarrow> bytes" where
  "getLocalMac device_guid answers msz_tun_MAC =
     (case query_adapters answers 3 of
        Adapters as \<Rightarrow> (case find_mac device_guid as of None \<Rightarrow> msz_tun_MAC | Some t \<Rightarrow> t)
      | _ \<Rightarrow> msz_tun_MAC)"

definition hex_value :: "byte \<Rightarrow> nat option" where
  "hex_value c = (if 48 \<le> c \<and> c \<le> 57 then Some (unat c - 48)
     else if 65 \<le> c \<and> c \<le> 70 then Some (unat c - 55)
     else if 97 \<le> c \<and> c \<le> 102 then Some (unat c - 87) else None)"

text \<open>\<open>%02X\<close> takes one or two digits; after each conversion but the last a colon has to follow.  The
  values that are converted, up to \<open>n\<close> of them.\<close>

fun scan_hex :: "bytes \<Rightarrow> (nat \<times> bytes) option" where
  "scan_hex [] = None"
| "scan_hex (c # cs) = (case hex_value c of None \<Rightarrow> None
     | Some v \<Rightarrow> (case cs of [] \<Rightarrow> Some (v, [])
         | d # ds \<Rightarrow> (case hex_value d of None \<Rightarrow> Some (v, cs) | Some w \<Rightarrow> Some (16 * v + w, ds))))"

fun scan_mac :: "nat \<Rightarrow> bytes \<Rightarrow> nat list" where
  "scan_mac 0 cs = []"
| "scan_mac (Suc n) cs = (case scan_hex cs of None \<Rightarrow> []
     | Some (v, rest) \<Rightarrow> v # (case rest of c # cs' \<Rightarrow> (if c = 58 then scan_mac n cs' else []) | [] \<Rightarrow> []))"

text \<open>Every value is stored as four octets, at the address of its own octet.\<close>

fun store_mac :: "nat \<Rightarrow> nat list \<Rightarrow> memory \<Rightarrow> memory" where
  "store_mac i [] m = m"
| "store_mac i (v # vs) m = store_mac (i + 1) vs (put i (le 4 (of_nat v :: 32 word)) m)"

section \<open>Frames\<close>

abbreviation sizeof_ethhdr :: nat where "sizeof_ethhdr \<equiv> 14"
abbreviation sizeof_openvpn_arp :: nat where "sizeof_openvpn_arp \<equiv> 28"

definition dstMAC :: bytes where "dstMAC = [0x00, 0xFF, 0x93, 0xB6, 0xF7, 0x50]"

text \<open>What \<open>ReadFile\<close> delivers, at once or after waiting; \<open>None\<close> if it fails.  The result is the length
  that is returned, the octets written back if any, and the buffer; there is none when the copy of
  the ARP packet leaves \<open>pkt_arp\<close>.\<close>

definition arp_reply :: "bytes \<Rightarrow> memory \<Rightarrow> memory \<Rightarrow> memory \<Rightarrow> bytes \<times> memory" where
  "arp_reply msz_tun_MAC garbage pkt_arp buffer =
     (let a1 = put 6 [0, 2] pkt_arp;
          srcMAC = store_mac 0 (scan_mac 6 msz_tun_MAC) garbage;
          b1 = put 6 dstMAC (put 0 (get 0 6 srcMAC) buffer);
          a2 = put 18 (get 8 6 a1) a1;
          a3 = put 8 dstMAC a2;
          tmp = get 24 4 a3;
          a4 = put 24 (get 14 4 a3) a3;
          a5 = put 14 tmp a4 in
      (get 0 42 (put sizeof_ethhdr (get 0 sizeof_openvpn_arp a5) (put 0 (get 0 sizeof_ethhdr b1) zeroed)), b1))"

definition myread :: "bytes \<Rightarrow> memory \<Rightarrow> bytes option \<Rightarrow> memory \<Rightarrow> (int \<times> bytes option \<times> memory) option" where
  "myread msz_tun_MAC garbage frame buffer0 =
     (case frame of None \<Rightarrow> Some (-1, None, buffer0)
      | Some bs \<Rightarrow>
        (let n = length bs; buffer = put 0 bs buffer0 in
         if get 12 2 buffer = [0x08, 0x06] \<and> n < 100 then
           (if n < sizeof_ethhdr \<or> sizeof_openvpn_arp < n - sizeof_ethhdr then None
            else (let pkt_arp = put 0 (get 14 (n - 14) buffer) zeroed in
              if get 6 2 pkt_arp = [0, 1]
              then (let (reply, buffer') = arp_reply msz_tun_MAC garbage pkt_arp buffer in Some (int n, Some reply, buffer'))
              else Some (int n, None, buffer)))
         else Some (int n, None, buffer)))"

text \<open>Writing waits for the result of a pending request.\<close>

definition mywrite :: "io_answer \<Rightarrow> 32 word \<Rightarrow> int" where
  "mywrite ans waited = (case ans of Io_done n \<Rightarrow> sint n | Io_pending \<Rightarrow> sint waited | Io_error e \<Rightarrow> -1)"

text \<open>One turn of \<open>process\<close>: the buffer is cleared, a frame is read, and a packet of ICMP, TCP or UDP is
  noticed.\<close>

datatype turn = Idle | Device_lost | Other_frame | Ip_packet

definition process_turn :: "bytes \<Rightarrow> memory \<Rightarrow> bytes option \<Rightarrow> (turn \<times> bytes option) option" where
  "process_turn msz_tun_MAC garbage frame =
     (case myread msz_tun_MAC garbage frame zeroed of None \<Rightarrow> None
      | Some (nRead, reply, m_buffer) \<Rightarrow>
        Some (if nRead = 0 then Idle else if nRead < 0 then Device_lost
              else if m_buffer (14 + 9) \<in> {1, 6, 17} then Ip_packet else Other_frame, reply))"

end
