(* ===== verification/TunDeviceProps.thy ===== *)
theory TunDeviceProps
  imports TunDevice
begin

unbundle bit_operations_syntax

text \<open>
  Properties of the device: the arena gives back its blocks once, the request that is never finished,
  the text of a hardware address, and the answers to ARP requests.
\<close>

section \<open>The arena\<close>

lemma free_entries_all:
  assumes "distinct es" "set es \<subseteq> set (live h)" "distinct (live h)"
  shows "\<exists>h'. free_entries es h = Inr h' \<and> distinct (live h') \<and> set (live h') = set (live h) - set es \<and> fresh h' = fresh h"
  using assms
proof (induction es arbitrary: h)
  case (Cons e es)
  let ?h = "h\<lparr>live := remove1 e (live h)\<rparr>"
  have "distinct es" "set es \<subseteq> set (live ?h)" "distinct (live ?h)" using Cons.prems by auto
  from Cons.IH [OF this] Cons.prems show ?case by (auto simp: heap_free_def)
qed simp

lemma free_specials_all:
  assumes "distinct (map fst ss @ map snd ss)" "set (map fst ss @ map snd ss) \<subseteq> set (live h)" "distinct (live h)"
  shows "\<exists>h'. free_specials ss h = Inr h' \<and> distinct (live h') \<and> set (live h') = set (live h) - set (map fst ss @ map snd ss) \<and>
    fresh h' = fresh h"
  using assms
proof (induction ss arbitrary: h)
  case (Cons s ss)
  obtain e a where s: "s = (e, a)" by (cases s)
  let ?h = "h\<lparr>live := remove1 e (remove1 a (live h))\<rparr>"
  have "distinct (map fst ss @ map snd ss)" "distinct (live ?h)" using Cons.prems s by auto
  moreover have "set (map fst ss @ map snd ss) \<subseteq> set (live ?h)" using Cons.prems s by (auto simp: set_remove1_eq)
  ultimately obtain h' where "free_specials ss ?h = Inr h' \<and> distinct (live h') \<and>
      set (live h') = set (live ?h) - set (map fst ss @ map snd ss) \<and> fresh h' = fresh ?h" using Cons.IH by blast
  then show ?case using Cons.prems s by (auto simp: heap_free_def set_remove1_eq)
qed simp

text \<open>
  \<open>gc_free\<close> frees every block of an arena exactly once, its entries, its special entries and the
  objects of those, and nothing else, and leaves an empty arena, so that freeing it again does nothing.\<close>
theorem gc_free_exact:
  assumes "distinct (entries a @ map fst (specials a) @ map snd (specials a))"
    and "set (entries a @ map fst (specials a) @ map snd (specials a)) \<subseteq> set (live h)" and "distinct (live h)"
  shows "\<exists>h'. gc_free a h = Inr (gc_new, h') \<and> fresh h' = fresh h \<and> distinct (live h') \<and>
    set (live h') = set (live h) - set (entries a @ map fst (specials a) @ map snd (specials a)) \<and>
    gc_free gc_new h' = Inr (gc_new, h')"
proof -
  obtain h1 where h1: "free_entries (entries a) h = Inr h1" "distinct (live h1)"
      "set (live h1) = set (live h) - set (entries a)" "fresh h1 = fresh h"
    using free_entries_all [of "entries a" h] assms by auto
  have "distinct (map fst (specials a) @ map snd (specials a))"
    "set (map fst (specials a) @ map snd (specials a)) \<subseteq> set (live h1)" using assms h1(3) by auto
  from free_specials_all [OF this h1(2)] obtain h2 where h2: "free_specials (specials a) h1 = Inr h2" "distinct (live h2)"
      "set (live h2) = set (live h1) - set (map fst (specials a) @ map snd (specials a))" "fresh h2 = fresh h1" by auto
  have "gc_free a h = Inr (gc_new, h2)"
  proof (cases "entries a = []")
    case True
    then have "h1 = h" using h1(1) by simp
    then show ?thesis using True h2(1)
      by (cases "specials a") (cases a, simp_all add: gc_free_def x_gc_freespecial_def gc_new_def)
  next
    case False
    then show ?thesis using h1(1) h2(1)
      by (cases "specials a") (cases a, simp_all add: gc_free_def x_gc_freespecial_def x_gc_free_def gc_new_def)
  qed
  moreover have "gc_free gc_new h2 = Inr (gc_new, h2)" by (simp add: gc_free_def gc_new_def)
  ultimately show ?thesis using h1 h2 by auto
qed

theorem gc_free_exact_witness:
  "\<exists>h'. gc_free \<lparr>entries = [5, 3], specials = [(7, 6)]\<rparr> \<lparr>live = [7, 6, 5, 4, 3], fresh = 8\<rparr> = Inr (gc_new, h') \<and> set (live h') = {4}"
  using gc_free_exact [of "\<lparr>entries = [5, 3], specials = [(7, 6)]\<rparr>" "\<lparr>live = [7, 6, 5, 4, 3], fresh = 8\<rparr>"] by auto

text \<open>Removing the temporary addresses leaks nothing, whatever the system answers.\<close>

theorem delete_temp_addresses_balanced:
  "delete_temp_addresses avail overflow answer index h =
    (if overflow \<and> \<not> avail then Inl Out_of_memory
     else Inr (if overflow \<and> answer \<noteq> None \<and> index \<noteq> -1
         then (case find (\<lambda>a. fst a = index) (the answer) of None \<Rightarrow> [] | Some a \<Rightarrow> snd a) else [],
       h\<lparr>fresh := fresh h + (if overflow then 1 else 0)\<rparr>))"
proof -
  have find: "find_adapter ai index = find (\<lambda>a. fst a = index) ai" for ai by (induction ai) auto
  have "gc_free \<lparr>entries = [fresh h], specials = []\<rparr> (h\<lparr>live := fresh h # live h, fresh := fresh h + 1\<rparr>) =
      Inr (gc_new, h\<lparr>fresh := fresh h + 1\<rparr>)"
    by (simp add: gc_free_def x_gc_free_def heap_free_def gc_new_def)
  moreover have "gc_free gc_new h = Inr (gc_new, h)" by (simp add: gc_free_def gc_new_def)
  ultimately show ?thesis
    by (auto simp: delete_temp_addresses_def get_adapter_info_list_def gc_malloc_def heap_alloc_def get_adapter_def find
      gc_new_def split: option.splits)
qed

section \<open>Requests\<close>

lemma io_answered_state: "iostate (io_answered ans rw) \<noteq> IOSTATE_INITIAL"
  by (simp add: io_answered_def split: io_answer.splits)

lemma dev_write_later: "iostate w \<noteq> IOSTATE_INITIAL \<Longrightarrow> dev_write h ans packet w = Some (iostate w, None, w, h)"
  by (simp add: dev_write_def)

lemma dev_write_first:
  assumes "iostate ws = IOSTATE_INITIAL" "buf_copy h ((buf_init ws)\<lparr>len := 0\<rparr>) packet = Some (ok, b, h')" "buf_bytes h' b = Some bs"
  shows "\<exists>st w. dev_write h ans packet ws = Some (st, Some bs, w, h') \<and>
    (\<forall>h2 ans2 packet2. dev_write h2 ans2 packet2 w = Some (st, None, w, h2))"
  using assms by (simp add: dev_write_def [of h ans packet ws] Let_def dev_write_later io_answered_state)

text \<open>Only the first packet is ever handed to the driver: the state leaves \<open>IOSTATE_INITIAL\<close> and nothing
  puts it back, so every later \<open>dev_write\<close> returns the old state and writes nothing.  The first packet
  itself is written whole when it fits in the private copy, and as an empty packet when it does not,
  because the failure to copy is only printed.\<close>
theorem dev_write_once:
  assumes init: "iostate ws = IOSTATE_INITIAL" and b: "buf_ok h ((buf_init ws)\<lparr>len := 0\<rparr>)"
    and p: "buf_ok h packet" "buf_bytes h packet = Some bs"
  shows "\<exists>st w h'. dev_write h ans packet ws =
      Some (st, Some (if int (length bs) \<le> room ((buf_init ws)\<lparr>len := 0\<rparr>) then bs else []), w, h') \<and>
    (\<forall>h2 ans2 packet2. dev_write h2 ans2 packet2 w = Some (st, None, w, h2))"
proof -
  let ?b = "(buf_init ws)\<lparr>len := 0\<rparr>"
  have l: "buf_len packet = int (length bs)"
    using p by (auto elim!: buf_okD simp: buf_bytes_def mem_load_eq)
  have e: "buf_bytes h ?b = Some []" using b by (auto simp: buf_ok_def buf_bytes_def buf_bptr_def buf_valid_def buf_len_def split: option.splits)
  show ?thesis
  proof (cases "int (length bs) \<le> room ?b")
    case True
    obtain h' where "buf_write h ?b (Some bs) (int (length bs)) = Some (True, ?b\<lparr>len := len ?b + int (length bs)\<rparr>, h')"
        "buf_bytes h' (?b\<lparr>len := len ?b + int (length bs)\<rparr>) = Some ([] @ bs)"
      by (rule buf_write_appends [OF b True e]) (rule that; assumption)
    then have c: "buf_copy h ?b packet = Some (True, ?b\<lparr>len := len ?b + int (length bs)\<rparr>, h')"
        "buf_bytes h' (?b\<lparr>len := len ?b + int (length bs)\<rparr>) = Some bs"
      using p(2) l by (simp_all add: buf_copy_def)
    from dev_write_first [OF init c, of ans] True show ?thesis by auto
  next
    case False
    then have "buf_write h ?b (Some bs) (int (length bs)) = Some (False, ?b, h)" by (intro buf_write_no_room [OF b]) simp
    then have "buf_copy h ?b packet = Some (False, ?b, h)" using p(2) l by (simp add: buf_copy_def)
    from dev_write_first [OF init this e, of ans] False show ?thesis by auto
  qed
qed

definition write_ram :: ram where
  "write_ram = (\<lambda>k. if 0 \<le> k \<and> k < 16 then Some 7 else None)"

definition write_state :: overlapped_io where
  "write_state = \<lparr>iostate = IOSTATE_INITIAL, io_size = 0, io_status = 0,
     buf_init = \<lparr>capacity = 8, offset = 0, len = 0, data = Some 0\<rparr>, io_buf = \<lparr>capacity = 8, offset = 0, len = 0, data = Some 0\<rparr>\<rparr>"

theorem dev_write_once_witness:
  "\<exists>st w h'. dev_write write_ram Io_pending \<lparr>capacity = 8, offset = 0, len = 2, data = Some 8\<rparr> write_state = Some (st, Some [7, 7], w, h') \<and>
    (\<forall>h2 ans2 packet2. dev_write h2 ans2 packet2 w = Some (st, None, w, h2))"
proof -
  have "iostate write_state = IOSTATE_INITIAL" "buf_ok write_ram ((buf_init write_state)\<lparr>len := 0\<rparr>)"
    "buf_ok write_ram \<lparr>capacity = 8, offset = 0, len = 2, data = Some 8\<rparr>"
    "buf_bytes write_ram \<lparr>capacity = 8, offset = 0, len = 2, data = Some 8\<rparr> = Some [7, 7]"
    by (simp_all add: write_state_def write_ram_def buf_ok_def block_def buf_bytes_def buf_bptr_def buf_len_def buf_valid_def
      mem_load_def upt_rec)
  from dev_write_once [OF this, of Io_pending] show ?thesis by (simp add: write_state_def room_def)
qed

text \<open>The same of \<open>dev_read\<close>.\<close>

lemma dev_read_once:
  assumes "iostate reads = IOSTATE_INITIAL" "dev_read ans maxsize reads = (Some st, asked, r)"
  shows "dev_read ans2 maxsize2 r = (Some st, None, r)"
  using assms io_answered_state [of ans] by (auto simp: dev_read_def Let_def split: if_splits)

section \<open>Hardware addresses\<close>

lemma hex_value_digit: "n < 16 \<Longrightarrow> hex_value (hex_digit n) = Some n"
proof -
  assume n: "n < 16"
  have "list_all (\<lambda>n. hex_value (hex_digit n) = Some n) [0..<16]"
    by (simp add: upt_rec hex_value_def hex_digit_def)
  with n show ?thesis by (auto simp: list_all_iff)
qed

lemma scan_hex_hex2X [simp]: "scan_hex (hex2X b @ cs) = Some (unat b, cs)"
proof -
  have "unat b < 256" using unsigned_less [of b, where ?'a = nat] by simp
  then have "unat b div 16 < 16" "unat b mod 16 < 16" by auto
  then show ?thesis by (simp add: hex2X_def hex_value_digit)
qed

lemma mac_text_acc: "mac_text acc bs = acc @ mac_text [] bs"
proof (induction bs arbitrary: acc)
  case (Cons b bs)
  show ?case
  proof (cases bs)
    case (Cons c cs)
    then have "mac_text acc (b # bs) = mac_text (acc @ hex2X b @ [58]) bs" "mac_text [] (b # bs) = mac_text (hex2X b @ [58]) bs"
      by simp_all
    then show ?thesis
      using Cons.IH [of "acc @ hex2X b @ [58]"] Cons.IH [of "hex2X b @ [58]"] by simp
  qed simp
qed simp

text \<open>The text that \<open>getLocalMac\<close> makes of an address is read back by \<open>myread\<close> as the same octets.\<close>

lemma scan_mac_text:
  "length bs = n \<Longrightarrow> bs \<noteq> [] \<Longrightarrow> scan_mac n (mac_text [] bs) = map unat bs"
proof (induction bs arbitrary: n)
  case (Cons b bs)
  show ?case
  proof (cases bs)
    case Nil
    then show ?thesis using Cons.prems scan_hex_hex2X [of b "[]"] by auto
  next
    case (Cons c cs)
    then have "mac_text [] (b # bs) = hex2X b @ 58 # mac_text [] bs" using mac_text_acc [of "hex2X b @ [58]" bs] by simp
    then show ?thesis using Cons.IH [of "length bs"] Cons.prems Cons by auto
  qed
qed simp

section \<open>ARP\<close>

lemma get_put_inside:
  "i + n \<le> length v \<Longrightarrow> get (j + i) n (put j v f) = take n (drop i v)"
  by (auto simp: get_def put_def list_eq_iff_nth_eq)

lemma store_mac_six:
  assumes "length mac = 6"
  shows "get 0 6 (store_mac 0 (map unat mac) g) = mac"
proof -
  obtain a b c d e f where mac: "mac = [a, b, c, d, e, f]"
    using assms by (auto simp: length_Suc_conv numeral_eq_Suc)
  have first: "ucast (ucast x :: 32 word) = x" for x :: byte
    by (rule bit_word_eqI) (auto simp: bit_simps dest: bit_imp_le_length)
  show ?thesis by (simp add: mac get_def put_def upt_rec first)
qed

text \<open>A request for the hardware address of \<open>ip_dest\<close>; its answer.\<close>

definition arp_request :: "bytes \<Rightarrow> bytes \<Rightarrow> bytes \<Rightarrow> bytes \<Rightarrow> bytes \<Rightarrow> bytes \<Rightarrow> bytes \<Rightarrow> bytes" where
  "arp_request dest source types mac_src ip_src mac_dest ip_dest =
     dest @ source @ [0x08, 0x06] @ types @ [0, 1] @ mac_src @ ip_src @ mac_dest @ ip_dest"

definition arp_answer :: "bytes \<Rightarrow> bytes \<Rightarrow> bytes \<Rightarrow> bytes \<Rightarrow> bytes \<Rightarrow> bytes" where
  "arp_answer mac types mac_src ip_src ip_dest =
     mac @ dstMAC @ [0x08, 0x06] @ types @ [0, 2] @ dstMAC @ ip_dest @ mac_src @ ip_src"

lemma arp_reply_eq:
  assumes mac: "length mac = 6" and parts: "get 0 6 pkt = types" "get 8 6 pkt = mac_src" "get 14 4 pkt = ip_src"
      "get 24 4 pkt = ip_dest" and eth: "get 12 2 buffer = [0x08, 0x06]"
  shows "fst (arp_reply (mac_text [] mac) g pkt buffer) = arp_answer mac types mac_src ip_src ip_dest"
proof -
  have s: "get 0 6 (store_mac 0 (scan_mac 6 (mac_text [] mac)) g) = mac"
  proof -
    have "scan_mac 6 (mac_text [] mac) = map unat mac" by (rule scan_mac_text) (use mac in auto)
    then show ?thesis using store_mac_six [OF mac] by (simp only:)
  qed
  have d: "length dstMAC = 6" by (simp add: dstMAC_def)
  have lens: "length types = 6" "length mac_src = 6" "length ip_src = 4" "length ip_dest = 4" by (simp_all flip: parts)
  have split28: "get 0 28 f = get 0 6 f @ get 6 2 f @ get 8 6 f @ get 14 4 f @ get 18 6 f @ get 24 4 f" for f
    using get_split [of 0 6 22 f] get_split [of 6 2 20 f] get_split [of 8 6 14 f] get_split [of 14 4 10 f] get_split [of 18 6 4 f]
    by simp
  have split14: "get 0 14 f = get 0 6 f @ get 6 6 f @ get 12 2 f" for f
    using get_split [of 0 6 8 f] get_split [of 6 6 2 f] by simp
  have split42: "get 0 42 (put 14 v (put 0 u f)) = u @ v" if "length u = 14" "length v = 28" for u v f
    using get_split [of 0 14 28 "put 14 v (put 0 u f)"] that by simp
  show ?thesis
    unfolding arp_reply_def Let_def fst_conv s
    by (subst split42) (simp_all add: split28 split14 mac d lens parts eth arp_answer_def)
qed

lemma get_frame:
  assumes "i + n \<le> length bs"
  shows "get i n (put 0 bs f) = take n (drop i bs)"
  using get_put_inside [OF assms, of 0 f] by simp

text \<open>C34:
  An ARP request of 42 octets is answered in the name of every address: the frame written back goes
  to the hardware address of the tap device, comes from a fixed hardware address, and says that the
  address asked for is at that fixed hardware address, to the one who asked.  The address of the
  device is read from the text that \<open>getLocalMac\<close> made of it.\<close>
theorem arp_request_answered:
  assumes "length mac = 6" "length dest = 6" "length source = 6" "length types = 6" "length mac_src = 6"
    "length ip_src = 4" "length mac_dest = 6" "length ip_dest = 4"
  shows "\<exists>buffer. myread (mac_text [] mac) g (Some (arp_request dest source types mac_src ip_src mac_dest ip_dest)) zeroed =
    Some (42, Some (arp_answer mac types mac_src ip_src ip_dest), buffer)"
proof -
  let ?bs = "arp_request dest source types mac_src ip_src mac_dest ip_dest"
  let ?b = "put 0 ?bs zeroed"
  let ?pkt = "put 0 (get 14 28 ?b) zeroed"
  have len: "length ?bs = 42" using assms by (simp add: arp_request_def)
  have eth: "get 12 2 ?b = [0x08, 0x06]" using len by (subst get_frame) (simp_all add: arp_request_def assms)
  have pkt: "get 14 28 ?b = types @ [0, 1] @ mac_src @ ip_src @ mac_dest @ ip_dest"
    using len by (subst get_frame) (simp_all add: arp_request_def assms)
  have parts: "get 0 6 ?pkt = types" "get 8 6 ?pkt = mac_src" "get 14 4 ?pkt = ip_src" "get 24 4 ?pkt = ip_dest" "get 6 2 ?pkt = [0, 1]"
    by (simp_all only: pkt, (subst get_frame, simp_all add: assms)+)
  obtain buffer where r: "arp_reply (mac_text [] mac) g ?pkt ?b = (arp_answer mac types mac_src ip_src ip_dest, buffer)"
    using arp_reply_eq [OF assms(1) parts(1-4) eth, of g] by (cases "arp_reply (mac_text [] mac) g ?pkt ?b") auto
  show ?thesis using len eth parts(5) r by (simp add: myread_def Let_def)
qed

theorem arp_request_answered_witness:
  "\<exists>buffer. myread (mac_text [] [2, 0, 0, 0, 0, 0xA1]) zeroed (Some (arp_request (replicate 6 0xFF) [2, 0, 0, 0, 0, 0xA1] [0, 1, 8, 0, 6, 4]
      [2, 0, 0, 0, 0, 0xA1] [10, 0, 0, 1] (replicate 6 0) [10, 0, 0, 9])) zeroed =
    Some (42, Some ([2, 0, 0, 0, 0, 0xA1, 0, 0xFF, 0x93, 0xB6, 0xF7, 0x50, 8, 6, 0, 1, 8, 0, 6, 4, 0, 2,
      0, 0xFF, 0x93, 0xB6, 0xF7, 0x50, 10, 0, 0, 9, 2, 0, 0, 0, 0, 0xA1, 10, 0, 0, 1]), buffer)"
  using arp_request_answered [of "[2, 0, 0, 0, 0, 0xA1]" "replicate 6 0xFF" "[2, 0, 0, 0, 0, 0xA1]" "[0, 1, 8, 0, 6, 4]"
      "[2, 0, 0, 0, 0, 0xA1]" "[10, 0, 0, 1]" "replicate 6 0" "[10, 0, 0, 9]" zeroed]
  by (simp add: arp_answer_def dstMAC_def)

text \<open>\<open>myread\<close> copies an ARP frame of up to 99 octets into the 28 octets of \<open>pkt_arp\<close>: it writes beyond
  them exactly for the ARP frames that are longer than 42 and shorter than 100 octets, to which those
  padded to the 60 octets that Ethernet demands belong.\<close>
theorem padded_arp_overruns:
  "myread msz_tun_MAC g frame zeroed = None \<longleftrightarrow>
    (\<exists>bs. frame = Some bs \<and> 42 < length bs \<and> length bs < 100 \<and> take 2 (drop 12 bs) = [0x08, 0x06])"
proof (cases frame)
  case (Some bs)
  let ?b = "put 0 bs zeroed"
  have "get 12 2 ?b = take 2 (drop 12 bs)" if "14 \<le> length bs" using that by (intro get_frame) simp
  moreover have "get 12 2 ?b \<noteq> [0x08, 0x06]" if "length bs < 14"
  proof
    assume "get 12 2 ?b = [0x08, 0x06]"
    then have "?b 13 = 6" by (simp add: get_def upt_rec)
    then show False using that by (simp add: put_def zeroed_def)
  qed
  ultimately show ?thesis using Some by (cases "length bs < 14") (auto simp: myread_def Let_def split_beta)
qed (simp add: myread_def)

end
