(* ===== verification/UrlLog.thy ===== *)
theory UrlLog
  imports Prelude
begin

text \<open>
  \<open>src-linux/MyURL.cpp\<close>: the lines of traces that are downloaded, cut at bars into fields and printed when
  their tags have a bad status, and the operations of \<open>MyURL\<close> around it.  A C string is the list of its
  octets; what is behind it in an array is modelled where the code looks at it.  \<open>None\<close>: an array is
  overrun, or the function does not return.
\<close>

section \<open>One line\<close>

abbreviation NL :: byte where "NL \<equiv> 10"
abbreviation BAR :: byte where "BAR \<equiv> 124"

record link_info =
  traceId :: bytes
  startTime :: bytes
  spanId :: bytes
  parentId :: bytes
  duration :: bytes
  serviceName :: bytes
  spanName :: bytes
  host :: bytes
  status_code :: nat
  error_code :: nat

definition LinkInfo :: link_info where
  "LinkInfo = \<lparr>traceId = replicate 32 0, startTime = replicate 32 0, spanId = replicate 32 0, parentId = replicate 32 0,
     duration = replicate 8 0, serviceName = replicate 64 0, spanName = replicate 64 0, host = replicate 32 0,
     status_code = 0, error_code = 0\<rparr>"

text \<open>\<open>strstr\<close> in an array: the first position, none before the terminator, or a read beyond the array.\<close>

fun c_strstr :: "bytes \<Rightarrow> bytes \<Rightarrow> nat option option" where
  "c_strstr pat [] = None"
| "c_strstr pat (c # cs) =
     (if take (length pat) (c # cs) = pat then Some (Some 0)
      else if c = 0 then Some None
      else map_option (map_option Suc) (c_strstr pat cs))"

fun digits_at :: "bytes \<Rightarrow> bytes option" where
  "digits_at [] = None"
| "digits_at (c # cs) = (if 48 \<le> c \<and> c \<le> 57 then map_option (Cons c) (digits_at cs) else Some [])"

definition digits_value :: "bytes \<Rightarrow> nat" where
  "digits_value ds = foldl (\<lambda>n c. 10 * n + (unat c - 48)) 0 ds"

text \<open>The digits behind a text go into an array of eight that keeps one for the terminator.\<close>

definition number_after :: "bytes \<Rightarrow> bytes \<Rightarrow> nat \<Rightarrow> nat option" where
  "number_after pat tag old =
     (case c_strstr pat tag of None \<Rightarrow> None | Some None \<Rightarrow> Some old
      | Some (Some k) \<Rightarrow> (case digits_at (drop (k + length pat) tag) of None \<Rightarrow> None
          | Some ds \<Rightarrow> if length ds < 8 then Some (digits_value ds) else None))"

definition status_text :: bytes where "status_text = ascii ''http.status_code=''"
definition error_text :: bytes where "error_text = ascii ''error=''"

definition getError :: "bytes \<Rightarrow> link_info \<Rightarrow> link_info option" where
  "getError tag info =
     (case number_after status_text tag (status_code info) of None \<Rightarrow> None | Some s \<Rightarrow>
       (case number_after error_text tag (error_code info) of None \<Rightarrow> None | Some e \<Rightarrow>
         Some (info\<lparr>status_code := s, error_code := e\<rparr>)))"

text \<open>One field, up to a bar if there is one; \<open>strncpy\<close> leaves what is behind the copied octets.\<close>

definition take_field :: "nat \<Rightarrow> ((bytes \<Rightarrow> bytes) \<Rightarrow> link_info \<Rightarrow> link_info) \<Rightarrow> link_info \<times> bytes \<Rightarrow> (link_info \<times> bytes) option" where
  "take_field size_of upd p = (let (info, pos1) = p in
     if BAR \<notin> set pos1 then Some (info, pos1)
     else (let f = takeWhile (\<lambda>c. c \<noteq> BAR) pos1 in
       if size_of < length f then None
       else Some (upd (\<lambda>old. f @ drop (length f) old) info, drop (length f + 1) pos1)))"

text \<open>A line without its end, the structure and the array \<open>tag\<close>; whether the line is printed.\<close>

definition process_line :: "bytes \<Rightarrow> link_info \<times> bytes \<Rightarrow> (bool \<times> link_info \<times> bytes) option" where
  "process_line line st = (let (info, tag) = st in
     Option.bind (take_field 32 traceId_update (info, line)) (\<lambda>p.
     Option.bind (take_field 32 startTime_update p) (\<lambda>p.
     Option.bind (take_field 32 spanId_update p) (\<lambda>p.
     Option.bind (take_field 32 parentId_update p) (\<lambda>p.
     Option.bind (take_field 8 duration_update p) (\<lambda>p.
     Option.bind (take_field 64 serviceName_update p) (\<lambda>p.
     Option.bind (take_field 64 spanName_update p) (\<lambda>p.
     Option.bind (take_field 32 host_update p) (\<lambda>(info, pos1).
       if length tag < length pos1 then None
       else (let tag1 = pos1 @ drop (length pos1) tag in
         map_option (\<lambda>info1. (status_code info1 \<noteq> 200 \<and> status_code info1 \<noteq> 0, info1, tag1))
           (getError tag1 info)))))))))))"

section \<open>The callbacks\<close>

text \<open>\<open>strchr\<close> for the end of a line, up to the terminator.\<close>

fun find_nl :: "bytes \<Rightarrow> nat option" where
  "find_nl [] = None"
| "find_nl (c # cs) = (if c = NL then Some 0 else if c = 0 then None else map_option Suc (find_nl cs))"

lemma find_nl_less: "find_nl bs = Some k \<Longrightarrow> k < length bs"
  by (induction bs arbitrary: k) (auto split: if_splits)

text \<open>The loop: the lines that are printed, and \<open>nSize\<close>.\<close>

function mem_loop :: "bytes \<Rightarrow> link_info \<times> bytes \<Rightarrow> (bytes list \<times> nat) option" where
  "mem_loop posBegin st = (case find_nl posBegin of None \<Rightarrow> Some ([], 0)
     | Some k \<Rightarrow> (case process_line (take k posBegin) st of None \<Rightarrow> None
         | Some (bad, st1) \<Rightarrow>
           map_option (\<lambda>(printed, n). (if bad then take k posBegin # printed else printed, k + 1 + n))
             (mem_loop (drop (k + 1) posBegin) st1)))"
  by pat_completeness auto
termination
  by (relation "measure (\<lambda>(bs, st). length bs)") (auto dest: find_nl_less)

declare mem_loop.simps [simp del]

text \<open>The octets in memory, of which there are none after a failed \<open>realloc\<close>.  The array \<open>tag\<close> is not
  initialised.  The number of octets taken, the lines printed, the memory.\<close>

definition handleMem :: "bytes \<Rightarrow> bool \<Rightarrow> bytes \<Rightarrow> bytes \<Rightarrow> (nat \<times> bytes list \<times> bytes) option" where
  "handleMem tag avail readData memory =
     (if \<not> avail then Some (0, [], [])
      else (let m = memory @ readData in
        map_option (\<lambda>(printed, nSize). (length readData, printed, drop nSize m)) (mem_loop m (LinkInfo, tag))))"

text \<open>The other callback puts the end of the line back before it looks for the next one.\<close>

definition WriteMemoryCallback :: "bool \<Rightarrow> bytes \<Rightarrow> bytes \<Rightarrow> (nat \<times> bytes list \<times> bytes) option" where
  "WriteMemoryCallback avail readData memory =
     (if \<not> avail then Some (0, [], [])
      else (let m = memory @ readData in
        map_option (\<lambda>(pos, printed). (length readData, printed, m))
          (while_option (\<lambda>(pos, printed). find_nl (drop pos m) \<noteq> None)
            (\<lambda>(pos, printed). (let p = pos + the (find_nl (drop pos m)) in (p, printed @ [take p m]))) (0, []))))"

section \<open>The operations of \<open>MyURL\<close>\<close>

text \<open>Whether the library is initialised, how often it was, and what is allocated.\<close>

record curl_state =
  globals :: int
  handles :: nat
  slists :: nat
  blocks :: nat
  logged :: "bytes list"

definition MyURL :: curl_state where
  "MyURL = \<lparr>globals = 1, handles = 0, slists = 0, blocks = 0, logged = []\<rparr>"

definition MyURL_dtor :: "curl_state \<Rightarrow> curl_state" where
  "MyURL_dtor s = s\<lparr>globals := globals s - 1\<rparr>"

text \<open>The chunks, none of them empty, that curl hands to the callback, each with the array \<open>tag\<close> that it finds; curl stops at a
  callback that takes less than it was given.\<close>

fun perform_chunks :: "(bytes \<times> bool \<times> bytes) list \<Rightarrow> bytes \<Rightarrow> (bool \<times> bytes list) option" where
  "perform_chunks [] m = Some (True, [])"
| "perform_chunks ((tag, avail, chunk) # cs) m = (case handleMem tag avail chunk m of None \<Rightarrow> None
     | Some (n, printed, m1) \<Rightarrow>
       (if n \<noteq> length chunk then Some (False, printed)
        else map_option (\<lambda>(ok, more). (ok, printed @ more)) (perform_chunks cs m1)))"

text \<open>\<open>sprintf\<close> into an array of 256.\<close>

definition sprintf256 :: "bytes list \<Rightarrow> bytes option" where
  "sprintf256 parts = (if length (concat parts) < 256 then Some (concat parts) else None)"

text \<open>The error of \<open>curl_easy_setopt\<close>, the texts of the errors of the transfer; the result, the lines
  printed, and the state.  The block is lost when \<open>realloc\<close> fails.\<close>

definition downloadFile ::
  "bytes option \<Rightarrow> (bytes \<times> bool \<times> bytes) list \<Rightarrow> bytes \<Rightarrow> bytes option \<Rightarrow> curl_state \<Rightarrow> (int \<times> bytes list \<times> curl_state) option" where
  "downloadFile setopt_error cs write_error transfer_error s =
     (let s1 = s\<lparr>blocks := blocks s + 1, slists := slists s + 1, handles := handles s + 1\<rparr> in
      case setopt_error of
        Some why \<Rightarrow> Some (-1, [], s1\<lparr>logged := logged s1 @ [take 255 (ascii ''ERR: Failed to curl_easy_setopt: '' @ why @ ascii ''.'')]\<rparr>)
      | None \<Rightarrow>
        (case perform_chunks cs [] of None \<Rightarrow> None
         | Some (ok, printed) \<Rightarrow>
           (let s2 = s1\<lparr>blocks := blocks s1 - (if ok then 1 else 0), slists := slists s1 - 1, handles := handles s1 - 1, globals := globals s1 - 1\<rparr> in
            case (if ok then transfer_error else Some write_error) of None \<Rightarrow> Some (0, printed, s2)
            | Some why \<Rightarrow>
              (case sprintf256 [ascii ''ERR: Cannot get download URL, failed to curl_easy_perform, '', why, ascii ''.''] of
                None \<Rightarrow> None
              | Some m \<Rightarrow> Some (-1, printed, s2\<lparr>logged := logged s2 @ [m]\<rparr>)))))"

definition saveURL :: "bytes \<Rightarrow> bytes \<Rightarrow> bool \<Rightarrow> bytes option \<Rightarrow> curl_state \<Rightarrow> (int \<times> curl_state) option" where
  "saveURL url savefile opens transfer_error s =
     (if url = [] then Some (-1, s)
      else if \<not> opens then Some (-1, s)
      else (case transfer_error of None \<Rightarrow> Some (0, s)
        | Some why \<Rightarrow> (case sprintf256 [ascii ''ERR: Failed to get '', savefile, ascii ''.''] of None \<Rightarrow> None
          | Some m1 \<Rightarrow> (case sprintf256 [ascii ''ERR: Failed to curl_easy_perform, '', why, ascii '', the url is '', url, ascii ''.''] of None \<Rightarrow> None
            | Some m2 \<Rightarrow> Some (-1, s\<lparr>logged := logged s @ [m1, m2]\<rparr>)))))"

text \<open>Up to three attempts; whether each of them succeeds.  The number of attempts.\<close>

fun setTaskStatus_loop :: "nat \<Rightarrow> (nat \<Rightarrow> bool) \<Rightarrow> nat" where
  "setTaskStatus_loop 0 ok = 0"
| "setTaskStatus_loop (Suc n) ok = (if ok 0 then 1 else 1 + setTaskStatus_loop n (\<lambda>i. ok (Suc i)))"

definition setTaskStatus :: "(nat \<Rightarrow> bool) \<Rightarrow> int \<times> nat" where
  "setTaskStatus ok = (0, setTaskStatus_loop 3 ok)"

text \<open>The command is made, but the calls that would run it are comments.\<close>

definition mvToDest :: "bytes \<Rightarrow> bytes \<Rightarrow> int option" where
  "mvToDest downPath pathdes = (if length (ascii ''mv '' @ downPath @ ascii '' '' @ pathdes) < 512 then Some 0 else None)"

end
