(* ===== verification/UrlLogProps.thy ===== *)
theory UrlLogProps
  imports UrlLog Framing
begin

text \<open>
  Properties of the download of traces: the lines are framed by the locale \<open>framing\<close>, so the chunks do
  not matter; a line with a complete status is judged by it, and a line without one by what an
  earlier line has left.
\<close>

section \<open>Lines\<close>

definition wf_line :: "bytes \<Rightarrow> bool" where
  "wf_line m \<longleftrightarrow> (\<exists>l. m = l @ [NL] \<and> NL \<notin> set l \<and> 0 \<notin> set l)"

function split_lines :: "bytes \<Rightarrow> bytes list \<times> nat" where
  "split_lines bs = (case find_nl bs of None \<Rightarrow> ([], 0)
     | Some k \<Rightarrow> (let (q, n) = split_lines (drop (k + 1) bs) in (take (k + 1) bs # q, k + 1 + n)))"
  by pat_completeness auto
termination
  by (relation "measure length") (auto dest: find_nl_less)

declare split_lines.simps [simp del]

lemma find_nl_line: "NL \<notin> set l \<Longrightarrow> 0 \<notin> set l \<Longrightarrow> find_nl (l @ NL # rest) = Some (length l)"
  by (induction l) auto

lemma find_nl_none: "NL \<notin> set l \<Longrightarrow> find_nl l = None"
  by (induction l) auto

interpretation trace: framing wf_line "\<lambda>bs. Some (split_lines bs)"
proof
  show "Some (split_lines []) = Some ([], 0)" by (simp add: split_lines.simps)
next
  fix m rest q n assume "wf_line m" "Some (split_lines rest) = Some (q, n)"
  then show "Some (split_lines (m @ rest)) = Some (m # q, length m + n)"
    by (subst split_lines.simps) (auto simp: wf_line_def find_nl_line)
next
  fix p s assume "wf_line (p @ s)" "s \<noteq> []"
  then have "NL \<notin> set p" by (auto simp: wf_line_def append_eq_append_conv2 append_eq_Cons_conv)
  then show "Some (split_lines p) = Some ([], 0)" by (simp add: split_lines.simps find_nl_none)
qed

text \<open>The loop of the callback goes over these lines.\<close>

fun run_lines :: "bytes list \<Rightarrow> link_info \<times> bytes \<Rightarrow> bytes list option" where
  "run_lines [] st = Some []"
| "run_lines (l # ls) st = (case process_line l st of None \<Rightarrow> None
     | Some (bad, st1) \<Rightarrow> map_option (\<lambda>printed. if bad then l # printed else printed) (run_lines ls st1))"

lemma mem_loop_lines:
  "mem_loop bs st = map_option (\<lambda>printed. (printed, snd (split_lines bs))) (run_lines (map butlast (fst (split_lines bs))) st)"
proof (induction bs st rule: mem_loop.induct)
  case (1 bs st)
  show ?case
  proof (cases "find_nl bs")
    case None
    then show ?thesis by (simp add: mem_loop.simps [of bs] split_lines.simps [of bs])
  next
    case (Some k)
    then have "butlast (take (k + 1) bs) = take k bs"
      using find_nl_less [OF Some] by (simp add: butlast_take)
    show ?thesis
    proof (cases "process_line (take k bs) st")
      case None
      then show ?thesis using Some \<open>butlast (take (k + 1) bs) = take k bs\<close>
        by (simp add: mem_loop.simps [of bs] split_lines.simps [of bs] split_beta)
    next
      case (Some r)
      obtain bad st1 where r: "r = (bad, st1)" by (cases r)
      then show ?thesis
        using Some \<open>find_nl bs = Some k\<close> \<open>butlast (take (k + 1) bs) = take k bs\<close> 1 [OF \<open>find_nl bs = Some k\<close> Some [unfolded r] refl]
        by (cases bad) (simp_all add: mem_loop.simps [of bs] split_lines.simps [of bs] split_beta option.map_comp comp_def)
    qed
  qed
qed

section \<open>Lines that say all\<close>

definition field_sizes :: "nat list" where
  "field_sizes = [32, 32, 32, 32, 8, 64, 64, 32]"

text \<open>The tags of a line: what follows its first eight bars, if the fields before fit in their arrays.\<close>

fun tags_of :: "nat list \<Rightarrow> bytes \<Rightarrow> bytes option" where
  "tags_of [] l = Some l"
| "tags_of (n # ns) l = (if BAR \<notin> set l then Some l
     else if n < length (takeWhile (\<lambda>c. c \<noteq> BAR) l) then None
     else tags_of ns (drop (length (takeWhile (\<lambda>c. c \<noteq> BAR) l) + 1) l))"

text \<open>A number that begins and ends within the text.\<close>

definition number_in :: "bytes \<Rightarrow> bytes \<Rightarrow> nat option" where
  "number_in pat t = (case c_strstr pat t of Some (Some k) \<Rightarrow> number_after pat t 0 | _ \<Rightarrow> None)"

definition good_line :: "bytes \<Rightarrow> bool" where
  "good_line l \<longleftrightarrow> (case tags_of field_sizes l of None \<Rightarrow> False
     | Some t \<Rightarrow> length t \<le> 512 \<and> number_in status_text t \<noteq> None \<and> number_in error_text t \<noteq> None)"

definition bad_status :: "bytes \<Rightarrow> bool" where
  "bad_status l \<longleftrightarrow> (let s = the (number_in status_text (the (tags_of field_sizes l))) in s \<noteq> 200 \<and> s \<noteq> 0)"

lemma c_strstr_append:
  "c_strstr pat t = Some (Some k) \<Longrightarrow> k + length pat \<le> length t \<and> c_strstr pat (t @ u) = Some (Some k)"
proof (induction t arbitrary: k)
  case (Cons c t)
  show ?case
  proof (cases "take (length pat) (c # t) = pat")
    case True
    then have "length pat \<le> length (c # t)" by (metis length_take min.cobounded1)
    moreover from this True have "take (length pat) ((c # t) @ u) = pat" by (simp only: take_append) simp
    ultimately show ?thesis using True Cons.prems by auto
  next
    case False
    then obtain k' where k': "k = Suc k'" "c \<noteq> 0" "c_strstr pat t = Some (Some k')" using Cons.prems by (auto split: if_splits)
    with Cons.IH have IH: "k' + length pat \<le> length t" "c_strstr pat (t @ u) = Some (Some k')" by auto
    then have "take (length pat) ((c # t) @ u) = take (length pat) (c # t)" by (simp only: take_append) simp
    with False k' IH show ?thesis by auto
  qed
qed simp

lemma digits_at_append: "digits_at t = Some ds \<Longrightarrow> digits_at (t @ u) = Some ds"
  by (induction t arbitrary: ds) (auto split: if_splits)

lemma number_in_append: "number_in pat t = Some v \<Longrightarrow> number_after pat (t @ u) old = Some v"
proof -
  assume v: "number_in pat t = Some v"
  then obtain k ds where k: "c_strstr pat t = Some (Some k)" "digits_at (drop (k + length pat) t) = Some ds"
      "length ds < 8" "v = digits_value ds"
    by (auto simp: number_in_def number_after_def split: option.splits if_splits)
  with digits_at_append [of _ ds u] c_strstr_append [OF k(1), of u] show ?thesis
    by (auto simp: number_after_def)
qed


lemma tags_of_no_bar: "BAR \<notin> set l \<Longrightarrow> tags_of ns l = Some l"
  by (cases ns) auto

text \<open>Each field is taken off the line as the tags of the line are found.\<close>

lemma take_field_tags:
  assumes "tags_of (n # ns) l = Some t"
  obtains info1 l1 where "take_field n upd (info, l) = Some (info1, l1)" "tags_of ns l1 = Some t"
  using assms tags_of_no_bar [of l ns]
  by (cases "BAR \<in> set l") (auto simp: take_field_def Let_def split: if_splits)

lemma process_line_good:
  assumes "good_line l" "length tag = 512"
  obtains info1 tag1 where "process_line l (info, tag) = Some (bad_status l, info1, tag1)" "length tag1 = 512"
proof -
  obtain t s e where t: "tags_of field_sizes l = Some t" "length t \<le> 512"
      "number_in status_text t = Some s" "number_in error_text t = Some e"
    using assms(1) by (auto simp: good_line_def split: option.splits)
  obtain i1 l1 where 1: "take_field 32 traceId_update (info, l) = Some (i1, l1)" "tags_of [32, 32, 32, 8, 64, 64, 32] l1 = Some t"
    by (rule take_field_tags [OF t(1) [unfolded field_sizes_def]]) (rule that; assumption)
  obtain i2 l2 where 2: "take_field 32 startTime_update (i1, l1) = Some (i2, l2)" "tags_of [32, 32, 8, 64, 64, 32] l2 = Some t"
    by (rule take_field_tags [OF 1(2)]) (rule that; assumption)
  obtain i3 l3 where 3: "take_field 32 spanId_update (i2, l2) = Some (i3, l3)" "tags_of [32, 8, 64, 64, 32] l3 = Some t"
    by (rule take_field_tags [OF 2(2)]) (rule that; assumption)
  obtain i4 l4 where 4: "take_field 32 parentId_update (i3, l3) = Some (i4, l4)" "tags_of [8, 64, 64, 32] l4 = Some t"
    by (rule take_field_tags [OF 3(2)]) (rule that; assumption)
  obtain i5 l5 where 5: "take_field 8 duration_update (i4, l4) = Some (i5, l5)" "tags_of [64, 64, 32] l5 = Some t"
    by (rule take_field_tags [OF 4(2)]) (rule that; assumption)
  obtain i6 l6 where 6: "take_field 64 serviceName_update (i5, l5) = Some (i6, l6)" "tags_of [64, 32] l6 = Some t"
    by (rule take_field_tags [OF 5(2)]) (rule that; assumption)
  obtain i7 l7 where 7: "take_field 64 spanName_update (i6, l6) = Some (i7, l7)" "tags_of [32] l7 = Some t"
    by (rule take_field_tags [OF 6(2)]) (rule that; assumption)
  obtain i8 l8 where 8: "take_field 32 host_update (i7, l7) = Some (i8, l8)" "tags_of [] l8 = Some t"
    by (rule take_field_tags [OF 7(2)]) (rule that; assumption)
  have l8: "l8 = t" using 8(2) by simp
  have bs: "bad_status l = (s \<noteq> 200 \<and> s \<noteq> 0)" by (simp add: bad_status_def Let_def t)
  have "process_line l (info, tag) = map_option (\<lambda>info1. (status_code info1 \<noteq> 200 \<and> status_code info1 \<noteq> 0, info1, t @ drop (length t) tag))
      (getError (t @ drop (length t) tag) i8)"
    using t(2) assms(2) by (simp add: process_line_def 1(1) 2(1) 3(1) 4(1) 5(1) 6(1) 7(1) 8(1) l8 Let_def)
  also have "\<dots> = Some (bad_status l, i8\<lparr>status_code := s, error_code := e\<rparr>, t @ drop (length t) tag)"
    by (simp add: getError_def number_in_append [OF t(3)] number_in_append [OF t(4)] bs)
  finally show ?thesis using that t(2) assms(2) by simp
qed

lemma run_lines_good:
  "list_all good_line ls \<Longrightarrow> length tag = 512 \<Longrightarrow> run_lines ls (info, tag) = Some (filter bad_status ls)"
proof (induction ls arbitrary: info tag)
  case (Cons l ls)
  then have "good_line l" by simp
  then obtain info1 tag1 where "process_line l (info, tag) = Some (bad_status l, info1, tag1)" "length tag1 = 512"
    by (rule process_line_good [OF _ Cons.prems(2)]) (rule that; assumption)
  with Cons show ?case by simp
qed simp

section \<open>Chunks\<close>

definition plain_line :: "bytes \<Rightarrow> bool" where
  "plain_line l \<longleftrightarrow> good_line l \<and> NL \<notin> set l \<and> 0 \<notin> set l"

definition with_nl :: "bytes \<Rightarrow> bytes" where
  "with_nl l = l @ [NL]"

lemma wf_plain: "list_all plain_line ls \<Longrightarrow> list_all wf_line (map with_nl ls)"
  by (auto simp: list_all_iff plain_line_def wf_line_def with_nl_def)

text \<open>A chunk behind a prefix of a line: the whole lines are judged, and what remains is kept.\<close>

lemma perform_chunks_lines:
  assumes "list_all plain_line ls" "list_all (\<lambda>(tag, avail, c). length tag = 512 \<and> avail) cs"
    "m @ concat (map (\<lambda>(_, _, c). c) cs) = concat (map with_nl ls)" "ls = [] \<or> length m < length (hd (map with_nl ls))"
  shows "perform_chunks cs m = Some (True, filter bad_status ls)"
  using assms
proof (induction cs arbitrary: ls m)
  case Nil
  then have "ls = []" by (cases ls) auto
  then show ?case by simp
next
  case (Cons e cs)
  obtain tag avail c where e: "e = (tag, avail, c)" by (cases e)
  define rest where "rest = concat (map (\<lambda>(_, _, c). c) cs)"
  have tag: "length tag = 512" "avail" using Cons.prems(2) e by auto
  have "(m @ c) @ rest = concat (map with_nl ls)" using Cons.prems(3) e by (simp add: rest_def)
  note trace.split_prefix [OF wf_plain [OF Cons.prems(1)] this, unfolded option.inject]
  then obtain ns1 ns2 p where n: "map with_nl ls = ns1 @ ns2" "m @ c = concat ns1 @ p" "p @ rest = concat ns2"
      "split_lines (m @ c) = (ns1, length (concat ns1))" "ns2 = [] \<or> length p < length (hd ns2)"
    by (elim exE conjE) (rule that; assumption)
  then obtain ls1 ls2 where ls: "ls = ls1 @ ls2" "ns1 = map with_nl ls1" "ns2 = map with_nl ls2"
    by (auto simp: map_eq_append_conv)
  have "map butlast ns1 = ls1" by (simp add: ls(2) comp_def with_nl_def)
  moreover have "list_all good_line ls1" using Cons.prems(1) ls(1) by (auto simp: list_all_iff plain_line_def)
  ultimately have "mem_loop (m @ c) (LinkInfo, tag) = Some (filter bad_status ls1, length (concat ns1))"
    by (simp add: mem_loop_lines n(4) run_lines_good tag)
  then have hm: "handleMem tag avail c m = Some (length c, filter bad_status ls1, p)"
    by (simp add: handleMem_def tag Let_def n(2))
  have "perform_chunks cs p = Some (True, filter bad_status ls2)"
    using Cons.IH [of ls2 p] Cons.prems(1,2) n(3,5) ls by (auto simp: rest_def)
  with hm show ?case by (simp add: e ls(1))
qed

lemma perform_chunks_all:
  assumes "list_all plain_line ls" "list_all (\<lambda>(tag, avail, c). length tag = 512 \<and> avail) cs"
    "concat (map (\<lambda>(_, _, c). c) cs) = concat (map with_nl ls)"
  shows "perform_chunks cs [] = Some (True, filter bad_status ls)"
  using perform_chunks_lines [OF assms(1,2), of "[]"] assms(3) by (cases ls) (simp_all add: with_nl_def)

text \<open>C35:
  The refinement of a download: however curl cuts the text into chunks and whatever the uninitialised
  array of each call holds, the lines printed are exactly those with a status other than 200 and 0, in
  order, if every line has its fields and numbers in place; the library is given back once.\<close>
theorem downloads_bad_lines:
  assumes "list_all plain_line ls" "list_all (\<lambda>(tag, avail, c). length tag = 512 \<and> avail) cs"
    "concat (map (\<lambda>(_, _, c). c) cs) = concat (map (\<lambda>l. l @ [NL]) ls)"
  shows "downloadFile None cs w None s = Some (0, filter bad_status ls, s\<lparr>globals := globals s - 1\<rparr>)"
  using perform_chunks_all [OF assms(1,2) assms(3) [folded with_nl_def]] by (simp add: downloadFile_def Let_def)

definition trace_line :: "string \<Rightarrow> bytes" where
  "trace_line status = ascii (''447eb726d7d5e8c9|1592840906823280|447eb726d7d5e8c9|0|9988|Frontend|db/query|192.168.0.1|http.status_code='' @ status @ ''&error=1|'')"

theorem downloads_bad_lines_witness:
  "downloadFile None [(replicate 512 7, True, take 50 (trace_line ''500'')),
      (replicate 512 9, True, drop 50 (trace_line ''500'') @ [NL] @ trace_line ''200'' @ [NL])] [] None MyURL =
    Some (0, filter bad_status [trace_line ''500'', trace_line ''200''], MyURL\<lparr>globals := globals MyURL - 1\<rparr>) \<and>
   filter bad_status [trace_line ''500'', trace_line ''200''] = [trace_line ''500'']"
proof
  have "plain_line (trace_line ''500'')" "plain_line (trace_line ''200'')" by code_simp+
  then show "downloadFile None [(replicate 512 7, True, take 50 (trace_line ''500'')),
      (replicate 512 9, True, drop 50 (trace_line ''500'') @ [NL] @ trace_line ''200'' @ [NL])] [] None MyURL =
    Some (0, filter bad_status [trace_line ''500'', trace_line ''200''], MyURL\<lparr>globals := globals MyURL - 1\<rparr>)"
    by (intro downloads_bad_lines) simp_all
  show "filter bad_status [trace_line ''500'', trace_line ''200''] = [trace_line ''500'']" by code_simp
qed

section \<open>Lines that do not say all\<close>

lemma number_after_again: "number_after pat tag old = Some v \<Longrightarrow> number_after pat tag v = Some v"
  by (auto simp: number_after_def split: option.splits if_splits)

lemma getError_again: "getError tag info = Some info1 \<Longrightarrow> getError tag info1 = Some info1"
  by (auto simp: getError_def number_after_again split: option.splits)

text \<open>An empty line is judged by the tags and the numbers that the line before has left.\<close>

lemma empty_line: "process_line [] (info, tag) = map_option (\<lambda>info1. (status_code info1 \<noteq> 200 \<and> status_code info1 \<noteq> 0, info1, tag)) (getError tag info)"
  by (simp add: process_line_def take_field_def Let_def)

lemma empty_line_inherits:
  assumes "process_line l st = Some (bad, st1)"
  shows "process_line [] st1 = Some (bad, st1)"
proof -
  obtain info1 tag1 where st1: "st1 = (info1, tag1)" by (cases st1)
  obtain info0 where "getError tag1 info0 = Some info1" "bad = (status_code info1 \<noteq> 200 \<and> status_code info1 \<noteq> 0)"
    using assms st1 by (auto simp: process_line_def Let_def Option.bind_eq_Some_conv split: prod.splits if_splits)
  with getError_again st1 show ?thesis by (simp add: empty_line)
qed

lemma mem_loop_blank:
  "process_line [] st = Some (bad, st) \<Longrightarrow> mem_loop (replicate n NL) st = Some (if bad then replicate n [] else [], n)"
  by (induction n) (simp_all add: mem_loop.simps)

text \<open>Error behaviour: \<open>tag\<close> and the structure are not cleared between lines, and \<open>strncpy\<close> of no octets leaves no
  terminator, so each empty line behind a line with a bad status is printed as well.\<close>
theorem blank_lines_inherit:
  assumes "plain_line l" "length tag = 512"
  shows "handleMem tag True (l @ NL # replicate n NL) [] =
    Some (length l + 1 + n, if bad_status l then l # replicate n [] else [], [])"
proof -
  obtain info1 tag1 where p: "process_line l (LinkInfo, tag) = Some (bad_status l, info1, tag1)"
    using assms(1) unfolding plain_line_def by (elim conjE process_line_good [OF _ assms(2)]) (rule that; assumption)
  have "find_nl (l @ NL # replicate n NL) = Some (length l)" using assms(1) by (simp add: plain_line_def find_nl_line)
  then have "mem_loop (l @ NL # replicate n NL) (LinkInfo, tag) =
      Some (if bad_status l then l # replicate n [] else [], length l + 1 + n)"
    by (simp add: mem_loop.simps [of "l @ _"] p mem_loop_blank [OF empty_line_inherits [OF p]])
  then show ?thesis by (simp add: handleMem_def Let_def)
qed

theorem blank_lines_inherit_witness:
  "handleMem (replicate 512 7) True (trace_line ''404'' @ NL # replicate 2 NL) [] =
    Some (length (trace_line ''404'') + 1 + 2, if bad_status (trace_line ''404'') then trace_line ''404'' # replicate 2 [] else [], []) \<and>
   bad_status (trace_line ''404'')"
proof
  have "plain_line (trace_line ''404'')" by code_simp
  then show "handleMem (replicate 512 7) True (trace_line ''404'' @ NL # replicate 2 NL) [] =
    Some (length (trace_line ''404'') + 1 + 2, if bad_status (trace_line ''404'') then trace_line ''404'' # replicate 2 [] else [], [])"
    by (rule blank_lines_inherit) simp
  show "bad_status (trace_line ''404'')" by code_simp
qed

section \<open>The callback that does not go on\<close>

lemma find_nl_drop: "find_nl bs = Some k \<Longrightarrow> find_nl (drop k bs) = Some 0"
  by (induction bs arbitrary: k) (auto split: if_splits)

lemma find_nl_again: "find_nl (drop p m) = Some k \<Longrightarrow> find_nl (drop (p + k) m) = Some 0"
  using find_nl_drop [of "drop p m" k] by (simp add: add.commute)

lemma print_loop_diverges:
  assumes "find_nl m = Some k"
  shows "while_option (\<lambda>(pos, printed). find_nl (drop pos m) \<noteq> None)
    (\<lambda>(pos, printed). (let p = pos + the (find_nl (drop pos m)) in (p, printed @ [take p m]))) (0, printed0) = None"
  by (rule while_option_diverges [where I = "\<lambda>(pos, printed). find_nl (drop pos m) \<noteq> None"])
    (auto simp: assms Let_def find_nl_again simp del: drop_append)

text \<open>Termination: the callback that prints lines does not return exactly when it has memory and there is an end of
  a line before the first zero octet, since it looks for the next end of a line where it has found one.\<close>
theorem WriteMemoryCallback_hangs_iff:
  "WriteMemoryCallback avail readData memory = None \<longleftrightarrow> avail \<and> find_nl (memory @ readData) \<noteq> None"
proof (cases "find_nl (memory @ readData)")
  case None
  then show ?thesis by (auto simp: WriteMemoryCallback_def Let_def while_option_unfold)
next
  case (Some k)
  then show ?thesis using print_loop_diverges [OF Some] by (simp add: WriteMemoryCallback_def Let_def del: drop_append)
qed

section \<open>What is initialised and what is given back\<close>

text \<open>Every download that runs gives back the library, which was initialised once.\<close>

lemma downloadFile_globals:
  assumes "downloadFile None cs w t s = Some (r, printed, s1)"
  shows "globals s1 = globals s - 1 \<and> handles s1 = handles s \<and> slists s1 = slists s"
  using assms by (auto simp: downloadFile_def Let_def split: option.splits prod.splits if_splits)

text \<open>A refused option keeps the block, the headers and the handle.\<close>

lemma downloadFile_refused:
  assumes "downloadFile (Some why) cs w t s = Some (r, printed, s1)"
  shows "r = -1 \<and> printed = [] \<and> blocks s1 = blocks s + 1 \<and> slists s1 = slists s + 1 \<and> handles s1 = handles s + 1"
  using assms by (auto simp: downloadFile_def Let_def)

text \<open>The status of a task: no error after three attempts that fail.\<close>

lemma setTaskStatus_attempts: "setTaskStatus (\<lambda>_. False) = (0, 3)"
  by (simp add: setTaskStatus_def eval_nat_numeral)

end
