(* ===== verification/HostMonitor.thy ===== *)
theory HostMonitor
  imports TunDevice "HOL-Library.Signed_Division"
begin

unbundle bit_operations_syntax

text \<open>
  The monitor of a Windows host, \<open>Monitor_win/Monitor_win\<close>: the composite of devices, the use of the
  processors, the memory, the drives, and the adapters of the network with their speeds.  What the
  functions of Windows return is a parameter.  \<open>None\<close>: an array is overrun, a checked function of the
  run-time library ends the program, or a recursion does not end.
\<close>

section \<open>\<open>DevInfo\<close>\<close>

text \<open>\<open>UINT64_DELTA\<close> and its update.\<close>

record delta =
  Value :: "64 word"
  Delta :: "64 word"

definition UINT64_DELTA :: delta where "UINT64_DELTA = \<lparr>Value = 0, Delta = 0\<rparr>"

definition UpdateDelta :: "64 word \<Rightarrow> delta \<Rightarrow> delta" where
  "UpdateDelta NewValue d = \<lparr>Value = NewValue, Delta = NewValue - Value d\<rparr>"

text \<open>The devices by address.  The derived classes override \<open>Append\<close> and \<open>Erase\<close> with empty bodies; their
  \<open>GetDevInfo\<close> has no parameter, so it does not override the one of the base class.\<close>

record device =
  derived :: bool
  m_DevVector :: "nat list"

definition Append :: "nat option \<Rightarrow> device \<Rightarrow> device" where
  "Append pDev d = (if derived d then d else (case pDev of None \<Rightarrow> d
     | Some p \<Rightarrow> d\<lparr>m_DevVector := m_DevVector d @ [p]\<rparr>))"

definition Erase :: "nat \<Rightarrow> device \<Rightarrow> device" where
  "Erase pDev d = (if derived d then d else d\<lparr>m_DevVector := remove1 pDev (m_DevVector d)\<rparr>)"

text \<open>The loop over a vector, with the depth of calls that is left.\<close>

fun devinfo_loop :: "nat \<Rightarrow> (nat \<Rightarrow> device) \<Rightarrow> nat list \<Rightarrow> bytes \<Rightarrow> bytes option" where
  "devinfo_loop depth devs [] strDevInfo = Some strDevInfo"
| "devinfo_loop 0 devs (p # ps) strDevInfo = None"
| "devinfo_loop (Suc depth) devs (p # ps) strDevInfo =
     (let s1 = (if strDevInfo \<noteq> [] then strDevInfo @ ascii '','' else strDevInfo) in
      case devinfo_loop depth devs (m_DevVector (devs p)) [] of None \<Rightarrow> None
      | Some strTemp \<Rightarrow> devinfo_loop (Suc depth) devs ps (s1 @ strTemp))"

definition GetDevInfo :: "nat \<Rightarrow> (nat \<Rightarrow> device) \<Rightarrow> nat \<Rightarrow> bytes option" where
  "GetDevInfo depth devs p = devinfo_loop depth devs (m_DevVector (devs p)) []"

text \<open>The helper functions for versions, by what they ask for; they answer as the version is or is not.\<close>

datatype win_check = Windows8 | Windows8Point1 | WindowsServer | Windows7 | Windows7SP1 | WindowsVista | WindowsVistaSP2
  | WindowsVistaSP1 | WindowsXP | WindowsXPSP3 | WindowsXPSP2 | WindowsXPSP1

definition getWinVersion :: "(win_check \<Rightarrow> bool) \<Rightarrow> string" where
  "getWinVersion has =
     (if has Windows8 then
        (if has Windows8Point1 then ''Windows8Point1 or Greater.''
         else if has WindowsServer then ''Windows Server 2012.'' else ''Windows 8.'')
      else if has Windows7 then
        (if has Windows7SP1 then ''Windows7SP1 or Greater.''
         else if has WindowsServer then ''Windows Server 2008 R2.'' else ''Windows 7.'')
      else if has WindowsVista then
        (if has WindowsVistaSP2 then ''WindowsVistaSP2 or Greater.''
         else if has WindowsVistaSP1 then ''WindowsVistaSP1 or Greater.''
         else if has WindowsServer then ''Windows Server 2008.'' else ''Windows Vista.'')
      else if has WindowsXP then
        (if has WindowsXPSP3 then ''Greater than WindowsXPSP3.''
         else if has WindowsXPSP2 then ''Greater than WindowsXPSP2.''
         else if has WindowsXPSP1 then ''Greater than WindowsXPSP1.'' else ''Lower than WindowsXPSP1.'')
      else [])"

section \<open>\<open>CpuInfo\<close>\<close>

text \<open>The registers that \<open>cpuid\<close> leaves, in the order \<open>eax\<close>, \<open>ebx\<close>, \<open>ecx\<close>, \<open>edx\<close>, and the text in an array
  of zeros.\<close>

type_synonym cpuid_result = "32 word \<times> 32 word \<times> 32 word \<times> 32 word"

definition c_text :: "bytes \<Rightarrow> bytes" where
  "c_text = takeWhile (\<lambda>c. c \<noteq> 0)"

definition getVendor :: "(32 word \<Rightarrow> cpuid_result) \<Rightarrow> bytes" where
  "getVendor cpuid = (let (a, b, c, d) = cpuid 0 in c_text (le 4 b @ le 4 d @ le 4 c))"

definition getModelName :: "(32 word \<Rightarrow> cpuid_result) \<Rightarrow> bytes" where
  "getModelName cpuid = c_text (concat (map (\<lambda>t.
     (let (a, b, c, d) = cpuid (0x80000002 + of_nat t) in le 4 a @ le 4 b @ le 4 c @ le 4 d)) [0..<3]))"

text \<open>The lower halves of the time stamp before and after.\<close>

definition getBasicFreq :: "32 word \<Rightarrow> 32 word \<Rightarrow> int" where
  "getBasicFreq start over = sint (over - start) sdiv 50000"

record cpu_time =
  szName :: bytes
  lluKernelTime :: delta
  lluUserTime :: delta
  lluIdleTime :: delta

text \<open>What \<open>NtQuerySystemInformation\<close> leaves for a processor; kernel time includes idle time.\<close>

record cpu_info =
  KernelTime :: "64 word"
  UserTime :: "64 word"
  IdleTime :: "64 word"

text \<open>A rate is a quotient of floating point numbers: its operands, or \<open>None\<close> for the 0 that avoids a
  division by zero.\<close>

type_synonym rate = "(64 word \<times> 64 word) option"

definition rate_of :: "delta \<Rightarrow> delta \<Rightarrow> delta \<Rightarrow> rate" where
  "rate_of sys usr idl =
     (if Delta sys + Delta usr + Delta idl \<noteq> 0
      then Some (Delta sys + Delta usr, Delta sys + Delta usr + Delta idl) else None)"

record cpu_state =
  cpu_kernel_delta :: delta
  cpu_user_delta :: delta
  cpu_idle_delta :: delta
  m_cpuTotalUsage :: rate
  mv_cores :: "(bytes \<times> rate) list"

definition core_times :: "cpu_info \<Rightarrow> cpu_time \<Rightarrow> cpu_time" where
  "core_times cpu c = c\<lparr>lluKernelTime := UpdateDelta (KernelTime cpu - IdleTime cpu) (lluKernelTime c),
     lluUserTime := UpdateDelta (UserTime cpu) (lluUserTime c), lluIdleTime := UpdateDelta (IdleTime cpu) (lluIdleTime c)\<rparr>"

definition core_rate :: "cpu_time \<Rightarrow> bytes \<times> rate" where
  "core_rate c = (szName c, rate_of (lluKernelTime c) (lluUserTime c) (lluIdleTime c))"

text \<open>The static totals are members of the state.\<close>

definition getCPUTime :: "bool \<Rightarrow> cpu_info list \<Rightarrow> cpu_time list \<Rightarrow> cpu_state \<Rightarrow> cpu_time list \<times> cpu_state" where
  "getCPUTime getUsage CpuInformation cpu_cores_time s =
     (let cores = map2 core_times CpuInformation cpu_cores_time;
          s1 = (if getUsage then s\<lparr>mv_cores := mv_cores s @ map core_rate cores\<rparr> else s);
          krn = UpdateDelta (sum_list (map (\<lambda>i. KernelTime i - IdleTime i) CpuInformation)) (cpu_kernel_delta s1);
          usr = UpdateDelta (sum_list (map UserTime CpuInformation)) (cpu_user_delta s1);
          idl = UpdateDelta (sum_list (map IdleTime CpuInformation)) (cpu_idle_delta s1);
          s2 = s1\<lparr>cpu_kernel_delta := krn, cpu_user_delta := usr, cpu_idle_delta := idl\<rparr> in
      (cores, if getUsage then s2\<lparr>m_cpuTotalUsage := rate_of krn usr idl\<rparr> else s2))"

definition CPU_Time :: "nat \<Rightarrow> cpu_time" where
  "CPU_Time i = \<lparr>szName = ascii ''CPU '' @ dec i, lluKernelTime = UINT64_DELTA, lluUserTime = UINT64_DELTA, lluIdleTime = UINT64_DELTA\<rparr>"

text \<open>The times of the processors before and after a second.\<close>

definition getCPUUsage :: "cpu_info list \<Rightarrow> cpu_info list \<Rightarrow> cpu_state \<Rightarrow> cpu_state" where
  "getCPUUsage infos1 infos2 s =
     (let cores = map CPU_Time [0..<length infos1];
          (cores1, s1) = getCPUTime False infos1 cores (s\<lparr>mv_cores := []\<rparr>);
          (cores2, s2) = getCPUTime True infos2 cores1 s1 in s2)"

section \<open>\<open>MemoryInfo\<close>\<close>

record mem_info =
  m_memTotal :: "64 word"
  m_memAvail :: "64 word"
  m_memVirtTotal :: "64 word"
  m_memVirtAvail :: "64 word"
  m_memRate :: "32 word"

definition MBYTES :: "64 word" where "MBYTES = 1048576"

text \<open>The answer of \<open>GlobalMemoryStatusEx\<close>: the totals and what is available in octets, and the load.\<close>

definition getMemoryInfo :: "(64 word \<times> 64 word \<times> 64 word \<times> 64 word \<times> 32 word) option \<Rightarrow> mem_info \<Rightarrow> mem_info" where
  "getMemoryInfo status m = (case status of None \<Rightarrow> m
     | Some (ullTotalPhys, ullAvailPhys, ullTotalVirtual, ullAvailVirtual, dwMemoryLoad) \<Rightarrow>
       \<lparr>m_memTotal = ullTotalPhys div MBYTES, m_memAvail = ullAvailPhys div MBYTES,
        m_memVirtTotal = ullTotalVirtual div MBYTES, m_memVirtAvail = ullAvailVirtual div MBYTES, m_memRate = dwMemoryLoad\<rparr>)"

section \<open>\<open>DiskInfo\<close>\<close>

text \<open>The bits of the mask of drives, shifted out one by one.\<close>

function count_drives :: "32 word \<Rightarrow> nat" where
  "count_drives DiskInfo = (if DiskInfo = 0 then 0
     else (if DiskInfo AND 1 \<noteq> 0 then 1 else 0) + count_drives (drop_bit 1 DiskInfo))"
  by pat_completeness auto
termination
proof (relation "measure unat")
  fix DiskInfo :: "32 word" assume "DiskInfo \<noteq> 0"
  then have "0 < unat DiskInfo" by (simp add: unat_gt_0)
  then show "(drop_bit 1 DiskInfo, DiskInfo) \<in> measure unat" by (simp add: drop_bit_eq_div unat_div)
qed simp

declare count_drives.simps [simp del]

type_synonym wtext = "16 word list"

record volume_info =
  driverName :: wtext
  driverType :: string
  TotalByte :: "64 word"
  FreeByte :: "64 word"
  UsedByte :: "64 word"
  UserAvailByte :: "64 word"

text \<open>The types of \<open>GetDriveType\<close>; a drive of another type keeps the text of the one before.\<close>

definition drive_type :: "nat \<Rightarrow> string \<Rightarrow> string" where
  "drive_type DeviceType old =
     (if DeviceType = 3 then ''Hard Disk'' else if DeviceType = 5 then ''CD-ROM''
      else if DeviceType = 2 then ''Removable Disk'' else if DeviceType = 4 then ''Network Disk''
      else if DeviceType = 6 then ''Virtual RAM Disk'' else if DeviceType = 0 then ''Unknown Device'' else old)"

text \<open>A text in the array of the drives' names: it has to end within the array, and \<open>wcscpy_s\<close> ends the
  program when it does not fit in four characters.\<close>

definition next_dir :: "wtext \<Rightarrow> wtext option" where
  "next_dir pos = (let dir = takeWhile (\<lambda>c. c \<noteq> 0) pos in if dir \<noteq> pos \<and> length dir < 4 then Some dir else None)"

text \<open>The loop over the drives: the type of a drive, and what is available, in total and free on it.\<close>

fun disk_loop :: "(wtext \<Rightarrow> nat) \<Rightarrow> (wtext \<Rightarrow> (64 word \<times> 64 word \<times> 64 word) option) \<Rightarrow>
    nat \<Rightarrow> wtext \<Rightarrow> volume_info \<Rightarrow> volume_info list \<Rightarrow> volume_info list option" where
  "disk_loop type_of space 0 pos tmpVol mvVolums = Some mvVolums"
| "disk_loop type_of space (Suc n) pos tmpVol mvVolums =
     (case next_dir pos of None \<Rightarrow> None
      | Some dir \<Rightarrow>
        (let vol = tmpVol\<lparr>driverName := dir, driverType := drive_type (type_of dir) (driverType tmpVol)\<rparr>;
             pos1 = drop (length dir + 1) pos in
         case space dir of None \<Rightarrow> disk_loop type_of space n pos1 vol mvVolums
         | Some (avail, all_bytes, free_bytes) \<Rightarrow>
           (let vol1 = vol\<lparr>UserAvailByte := avail, TotalByte := all_bytes, FreeByte := free_bytes, UsedByte := all_bytes - avail\<rparr> in
            disk_loop type_of space n pos1 vol1 (mvVolums @ [vol1]))))"

text \<open>The names of all drives as \<open>GetLogicalDriveStrings\<close> leaves them, and the number of drives that is
  printed.  The members that are not initialised are those of \<open>tmpVol\<close>.\<close>

definition getDiskInfo :: "32 word \<Rightarrow> wtext \<Rightarrow> (wtext \<Rightarrow> nat) \<Rightarrow> (wtext \<Rightarrow> (64 word \<times> 64 word \<times> 64 word) option) \<Rightarrow>
    volume_info \<Rightarrow> volume_info list \<Rightarrow> (nat \<times> volume_info list) option" where
  "getDiskInfo DiskInfo DeviceStr type_of space tmpVol mvVolums =
     map_option (\<lambda>vs. (count_drives DiskInfo, vs)) (disk_loop type_of space (length DeviceStr div 4) DeviceStr tmpVol mvVolums)"

section \<open>\<open>NetInfo\<close>: adapters\<close>

record net_address =
  addr_prefix :: nat
  sa_family :: nat
  ip :: bytes

record net_adapter =
  MTU :: nat
  FriendlyName :: wtext
  describe :: wtext
  MAC :: bytes
  transmitSpeed :: "64 word"
  recvSpeed :: "64 word"
  address :: "net_address list"

text \<open>An adapter as Windows lists it, with its unicast addresses: family, octets, length of the prefix.\<close>

record ip_adapter =
  IfType :: nat
  OperStatus :: nat
  Friendly :: wtext
  Description :: wtext
  FirstUnicastAddress :: "(nat \<times> bytes \<times> nat) list"
  PhysicalAddress :: bytes
  Mtu :: nat

text \<open>The text of a hardware address, by \<open>sprintf_s\<close> into an array of 64.\<close>

definition mac64 :: "bytes \<Rightarrow> bytes option" where
  "mac64 addr = (let t = mac_text [] addr in if length t < 64 then Some t else None)"

definition net_address_of :: "(nat \<Rightarrow> bytes \<Rightarrow> bytes) \<Rightarrow> nat \<times> bytes \<times> nat \<Rightarrow> net_address" where
  "net_address_of inet_ntop u = (let (family, octets, prefix) = u in
     \<lparr>addr_prefix = prefix, sa_family = family, ip = (if family = 2 \<or> family = 23 then inet_ntop family octets else [])\<rparr>)"

text \<open>The loop over the list of adapters; 24 is the type of the loopback, and 1 is the status up.\<close>

fun adapter_loop :: "(nat \<Rightarrow> bytes \<Rightarrow> bytes) \<Rightarrow> ip_adapter list \<Rightarrow> net_adapter list \<Rightarrow> net_adapter list option" where
  "adapter_loop inet_ntop [] mv_adapters = Some mv_adapters"
| "adapter_loop inet_ntop (a # as) mv_adapters =
     (if IfType a = 24 \<or> OperStatus a \<noteq> 1 then adapter_loop inet_ntop as mv_adapters
      else (case mac64 (PhysicalAddress a) of None \<Rightarrow> None
        | Some tmpMAC \<Rightarrow> adapter_loop inet_ntop as (mv_adapters @
            [\<lparr>MTU = Mtu a, FriendlyName = Friendly a, describe = Description a, MAC = tmpMAC, transmitSpeed = 0, recvSpeed = 0,
              address = map (net_address_of inet_ntop) (FirstUnicastAddress a)\<rparr>])))"

text \<open>What \<open>GetAdaptersAddresses\<close> answers: a larger buffer is needed, a list, no data or another error.\<close>

datatype adapters_answer = Overflow | Listed "ip_adapter list" | No_data | Adapters_error

text \<open>The attempts, each with a block that may not be available, and the answer that is left.\<close>

fun query_loop :: "(nat \<Rightarrow> bool \<times> adapters_answer) \<Rightarrow> nat \<Rightarrow> nat \<Rightarrow> adapters_answer option" where
  "query_loop answers Iterations 0 = Some Overflow"
| "query_loop answers Iterations (Suc n) = (let (avail, ans) = answers Iterations in
     if \<not> avail then None else if ans = Overflow then query_loop answers (Suc Iterations) n else Some ans)"

definition getAdapterInfo :: "(nat \<Rightarrow> bytes \<Rightarrow> bytes) \<Rightarrow> (nat \<Rightarrow> bool \<times> adapters_answer) \<Rightarrow> bool \<Rightarrow> (int \<times> net_adapter list) option" where
  "getAdapterInfo inet_ntop answers formatted =
     (case query_loop answers 0 3 of None \<Rightarrow> None
      | Some (Listed as) \<Rightarrow> map_option (\<lambda>ads. (0, ads)) (adapter_loop inet_ntop as [])
      | Some No_data \<Rightarrow> Some (0, [])
      | Some _ \<Rightarrow> Some (if formatted then 1 else 0, []))"

section \<open>\<open>NetInfo\<close>: speeds\<close>

record net_flow =
  Updated :: nat
  flow_MAC :: bytes
  InOctets :: delta
  InUcastOctets :: delta
  InUcastPkts :: delta
  InNUcastPkts :: delta
  InDiscards :: delta
  InErrors :: delta
  OutOctets :: delta
  OutUcastOctets :: delta
  OutUcastPkts :: delta
  OutNUcastPkts :: delta
  OutDiscards :: delta
  OutErrors :: delta

definition NetFlow :: net_flow where
  "NetFlow = \<lparr>Updated = 0, flow_MAC = [], InOctets = UINT64_DELTA, InUcastOctets = UINT64_DELTA, InUcastPkts = UINT64_DELTA,
     InNUcastPkts = UINT64_DELTA, InDiscards = UINT64_DELTA, InErrors = UINT64_DELTA, OutOctets = UINT64_DELTA,
     OutUcastOctets = UINT64_DELTA, OutUcastPkts = UINT64_DELTA, OutNUcastPkts = UINT64_DELTA, OutDiscards = UINT64_DELTA,
     OutErrors = UINT64_DELTA\<rparr>"

text \<open>A row of the table of interfaces: is it up, is it switched off, its address and its counters.\<close>

record if_row =
  IfOperStatusUp :: bool
  AdminDown :: bool
  RowAddress :: bytes
  row_InOctets :: "64 word"
  row_InUcastOctets :: "64 word"
  row_InUcastPkts :: "64 word"
  row_InNUcastPkts :: "64 word"
  row_InDiscards :: "64 word"
  row_InErrors :: "64 word"
  row_OutOctets :: "64 word"
  row_OutUcastOctets :: "64 word"
  row_OutUcastPkts :: "64 word"
  row_OutNUcastPkts :: "64 word"
  row_OutDiscards :: "64 word"
  row_OutErrors :: "64 word"

definition update_flow :: "bytes \<Rightarrow> if_row \<Rightarrow> net_flow \<Rightarrow> net_flow" where
  "update_flow strMac r f =
     \<lparr>Updated = Updated f + 1, flow_MAC = strMac, InOctets = UpdateDelta (row_InOctets r) (InOctets f),
      InUcastOctets = UpdateDelta (row_InUcastOctets r) (InUcastOctets f),
      InUcastPkts = UpdateDelta (row_InUcastPkts r) (InUcastPkts f),
      InNUcastPkts = UpdateDelta (row_InNUcastPkts r) (InNUcastPkts f),
      InDiscards = UpdateDelta (row_InDiscards r) (InDiscards f),
      InErrors = UpdateDelta (row_InErrors r) (InErrors f),
      OutOctets = UpdateDelta (row_OutOctets r) (OutOctets f),
      OutUcastOctets = UpdateDelta (row_OutUcastOctets r) (OutUcastOctets f),
      OutUcastPkts = UpdateDelta (row_OutUcastPkts r) (OutUcastPkts f),
      OutNUcastPkts = UpdateDelta (row_OutNUcastPkts r) (OutNUcastPkts f),
      OutDiscards = UpdateDelta (row_OutDiscards r) (OutDiscards f),
      OutErrors = UpdateDelta (row_OutErrors r) (OutErrors f)\<rparr>"

text \<open>The filter: the first of the records with this address, or their number.\<close>

fun find_flow :: "bytes \<Rightarrow> net_flow list \<Rightarrow> nat" where
  "find_flow strMac [] = 0"
| "find_flow strMac (f # fs) = (if strMac = flow_MAC f then 0 else Suc (find_flow strMac fs))"

text \<open>One row: the records and their number, and whether the loop is left.\<close>

definition io_row :: "bool \<Rightarrow> nat \<Rightarrow> if_row \<Rightarrow> net_flow list \<times> nat \<Rightarrow> ((net_flow list \<times> nat) \<times> bool) option" where
  "io_row isCalc adapters r st = (let (flows, nMAC) = st in
     if \<not> IfOperStatusUp r \<or> AdminDown r \<or> RowAddress r = [] then Some (st, False)
     else (case mac64 (RowAddress r) of None \<Rightarrow> None
       | Some strMac \<Rightarrow>
         (let n = find_flow strMac (take nMAC flows) in
          if \<not> isCalc \<and> n < nMAC then Some (st, False)
          else if length flows \<le> n then None
          else if isCalc \<and> Updated (flows ! n) = 2 then Some (st, False)
          else (let flows1 = flows[n := update_flow strMac r (flows ! n)] in
            if isCalc then Some ((flows1, nMAC), False)
            else Some ((flows1, nMAC + 1), nMAC + 1 = adapters)))))"

fun io_loop :: "bool \<Rightarrow> nat \<Rightarrow> if_row list \<Rightarrow> net_flow list \<times> nat \<Rightarrow> (net_flow list \<times> nat) option" where
  "io_loop isCalc adapters [] st = Some st"
| "io_loop isCalc adapters (r # rs) st = (case io_row isCalc adapters r st of None \<Rightarrow> None
     | Some (st1, left) \<Rightarrow> if left then Some st1 else io_loop isCalc adapters rs st1)"

text \<open>The table is asked for twice; the second one counts.\<close>

definition getIOStatistic :: "bool \<Rightarrow> nat \<Rightarrow> bool \<Rightarrow> if_row list option \<times> if_row list option \<Rightarrow> net_flow list \<times> nat \<Rightarrow>
    (int \<times> net_flow list \<times> nat) option" where
  "getIOStatistic isCalc adapters avail tables st =
     (if \<not> avail then Some (1, st)
      else (case tables of (None, _) \<Rightarrow> Some (-1, st) | (Some _, None) \<Rightarrow> Some (-2, st)
        | (Some _, Some rows) \<Rightarrow> map_option (\<lambda>st1. (0, st1)) (io_loop isCalc adapters rows st)))"

definition KBYTES :: "64 word" where "KBYTES = 1024"

text \<open>A line that is printed: the name, the address, both speeds and the first of the unicast addresses.
  The loop has a copy of the adapter.\<close>

definition speed_line :: "net_flow list \<Rightarrow> net_adapter \<Rightarrow> (wtext \<times> bytes \<times> 64 word \<times> 64 word \<times> bytes) option" where
  "speed_line flows a = (let n = find_flow (MAC a) flows;
       a1 = (if n < length flows then a\<lparr>recvSpeed := (Delta (InOctets (flows ! n)) * 8) div KBYTES,
               transmitSpeed := (Delta (OutOctets (flows ! n)) * 8) div KBYTES\<rparr> else a) in
     if address a1 = [] then None
     else Some (FriendlyName a1, MAC a1, recvSpeed a1, transmitSpeed a1, ip (hd (address a1))))"

fun speed_lines :: "net_flow list \<Rightarrow> net_adapter list \<Rightarrow> (wtext \<times> bytes \<times> 64 word \<times> 64 word \<times> bytes) list option" where
  "speed_lines flows [] = Some []"
| "speed_lines flows (a # as) = (case speed_line flows a of None \<Rightarrow> None
     | Some l \<Rightarrow> map_option (Cons l) (speed_lines flows as))"

definition getIOSpeed :: "bool \<times> if_row list option \<times> if_row list option \<Rightarrow> bool \<times> if_row list option \<times> if_row list option \<Rightarrow>
    net_adapter list \<Rightarrow> (wtext \<times> bytes \<times> 64 word \<times> 64 word \<times> bytes) list option" where
  "getIOSpeed first_call second_call mv_adapters = (let adapters = length mv_adapters in
     case getIOStatistic False adapters (fst first_call) (snd first_call) (replicate adapters NetFlow, 0) of None \<Rightarrow> None
     | Some (_, st1) \<Rightarrow>
       (case getIOStatistic True adapters (fst second_call) (snd second_call) st1 of None \<Rightarrow> None
        | Some (_, flows, _) \<Rightarrow> speed_lines flows mv_adapters))"

definition CNetInfo_GetDevInfo :: "(nat \<Rightarrow> bytes \<Rightarrow> bytes) \<Rightarrow> (nat \<Rightarrow> bool \<times> adapters_answer) \<Rightarrow> bool \<Rightarrow>
    bool \<times> if_row list option \<times> if_row list option \<Rightarrow> bool \<times> if_row list option \<times> if_row list option \<Rightarrow>
    (net_adapter list \<times> (wtext \<times> bytes \<times> 64 word \<times> 64 word \<times> bytes) list) option" where
  "CNetInfo_GetDevInfo inet_ntop answers formatted first_call second_call =
     (case getAdapterInfo inet_ntop answers formatted of None \<Rightarrow> None
      | Some (_, mv_adapters) \<Rightarrow> map_option (Pair mv_adapters) (getIOSpeed first_call second_call mv_adapters))"

section \<open>\<open>NetInfo\<close>: masks and types\<close>

text \<open>The loop over the whole octets of the mask, and the one that fills up.\<close>

definition mask_octets :: "int \<Rightarrow> bytes" where
  "mask_octets prefix = concat (map (\<lambda>i. ascii ''255'' @
     (if int i \<noteq> prefix sdiv 8 - 1 \<and> prefix smod 8 \<noteq> 0 then ascii ''.'' else [])) [0..<nat (prefix sdiv 8)])"

definition signed_dec :: "int \<Rightarrow> bytes" where
  "signed_dec n = (if n < 0 then ascii ''-'' @ dec (nat (- n)) else dec (nat n))"

definition prefixToMask :: "int \<Rightarrow> bytes" where
  "prefixToMask prefix = (let i = nat (prefix sdiv 8) in
     if prefix smod 8 \<noteq> 0
     then mask_octets prefix @ ascii ''.'' @ signed_dec (256 - 2 ^ nat (8 - prefix smod 8)) @ concat (replicate (4 - (i + 1)) (ascii ''.0''))
     else mask_octets prefix @ concat (replicate (4 - i) (ascii ''.0'')))"

definition getAdapterType :: "nat \<Rightarrow> string" where
  "getAdapterType nType =
     (if nType = 1 then ''Other'' @ [CHR 0x0A] else if nType = 6 then ''Ethernet'' @ [CHR 0x0A]
      else if nType = 9 then ''Token Ring'' @ [CHR 0x0A] else if nType = 23 then ''PPP'' @ [CHR 0x0A]
      else if nType = 24 then ''Software Lookback'' @ [CHR 0x0A] else if nType = 37 then ''ATM'' @ [CHR 0x0A]
      else if nType = 71 then ''IEEE 802.11 Wireless'' @ [CHR 0x0A] else if nType = 131 then ''Tunnel type encapsulation'' @ [CHR 0x0A]
      else if nType = 144 then ''IEEE 1394 Firewire'' @ [CHR 0x0A] else ''Unknown type'')"

end
