(* ===== verification/HostMonitorProps.thy ===== *)
theory HostMonitorProps
  imports HostMonitor
begin

unbundle bit_operations_syntax

text \<open>
  Properties of the monitor of a host: the composite says nothing, the use of the processors is what is
  neither idle nor unaccounted for, all drives are visited, and the speeds of adapters are the differences
  of the first rows with their address, as long as the records suffice.
\<close>

section \<open>Differences\<close>

lemma UpdateDelta_simps [simp]:
  "Value (UpdateDelta v d) = v" "Delta (UpdateDelta v d) = v - Value d" "Value UINT64_DELTA = 0" "Delta UINT64_DELTA = 0"
  by (simp_all add: UpdateDelta_def UINT64_DELTA_def)

section \<open>The composite\<close>

lemma devinfo_loop_empty: "devinfo_loop depth devs ps acc = Some t \<Longrightarrow> acc = [] \<Longrightarrow> t = []"
proof (induction depth devs ps acc arbitrary: t rule: devinfo_loop.induct)
  case (3 depth devs p ps strDevInfo)
  from 3(3,4) obtain u where u: "devinfo_loop depth devs (m_DevVector (devs p)) [] = Some u"
      "devinfo_loop (Suc depth) devs ps u = Some t"
    by (simp add: Let_def split: option.splits)
  have "u = []" by (rule 3(1) [OF refl u(1) refl])
  with 3(2) [OF refl u(1)] u(2) 3(4) show ?case by simp
qed simp_all

lemma devinfo_loop_ends:
  assumes "\<And>p c. c \<in> set (m_DevVector (devs p)) \<Longrightarrow> rank c < (rank p :: nat)" "\<forall>p\<in>set ps. rank p < depth"
  shows "\<exists>t. devinfo_loop depth devs ps acc = Some t"
  using assms
proof (induction depth devs ps acc rule: devinfo_loop.induct)
  case (3 depth devs p ps strDevInfo)
  have "\<forall>c\<in>set (m_DevVector (devs p)). rank c < depth" using 3(3) [of _ p] 3(4) by force
  from 3(1) [OF refl 3(3) this] obtain t where "devinfo_loop depth devs (m_DevVector (devs p)) [] = Some t" by blast
  with 3(2) [OF refl this 3(3)] 3(4) show ?case by (simp add: Let_def)
qed auto

text \<open>A composite whose vectors do not lead back to it returns the empty text, whatever it consists of: no
  class overrides the function that the loop calls.\<close>

theorem devices_say_nothing:
  assumes "\<And>p c. c \<in> set (m_DevVector (devs p)) \<Longrightarrow> rank c < (rank p :: nat)"
  shows "GetDevInfo (rank p) devs p = Some []"
proof -
  have "\<forall>c\<in>set (m_DevVector (devs p)). rank c < rank p" using assms by blast
  from devinfo_loop_ends [OF assms this] show ?thesis
    unfolding GetDevInfo_def using devinfo_loop_empty by blast
qed

section \<open>The processors\<close>

text \<open>What a processor did between two reports: kernel time contains the idle time.\<close>

definition elapsed :: "cpu_info \<Rightarrow> cpu_info \<Rightarrow> 64 word" where
  "elapsed a b = (KernelTime b - KernelTime a) + (UserTime b - UserTime a)"

definition busy :: "cpu_info \<Rightarrow> cpu_info \<Rightarrow> 64 word" where
  "busy a b = elapsed a b - (IdleTime b - IdleTime a)"

definition usage :: "64 word \<Rightarrow> 64 word \<Rightarrow> rate" where
  "usage part whole = (if whole \<noteq> 0 then Some (part, whole) else None)"

lemma rate_of_usage:
  assumes "Delta k + Delta u = b" "Delta k + Delta u + Delta i = e"
  shows "rate_of k u i = usage b e"
  using assms by (simp add: rate_of_def usage_def)

lemma sum_list_diff:
  fixes f :: "'a \<Rightarrow> 'b::ab_group_add"
  shows "length xs = length ys \<Longrightarrow> sum_list (map f ys) - sum_list (map f xs) = sum_list (map2 (\<lambda>a b. f b - f a) xs ys)"
  by (induction xs ys rule: list_induct2) (simp_all add: algebra_simps)

lemma sum_list_add2:
  fixes f g :: "'a \<Rightarrow> 'b \<Rightarrow> 'c::comm_monoid_add"
  shows "length xs = length ys \<Longrightarrow> sum_list (map2 f xs ys) + sum_list (map2 g xs ys) = sum_list (map2 (\<lambda>a b. f a b + g a b) xs ys)"
  by (induction xs ys rule: list_induct2) (simp_all add: ac_simps)

text \<open>C36:
  The use of the processors over the second of a measurement, for any counters, also ones that wrap
  around: for each processor and for all of them together it is the time that was not idle, out of the time
  that passed, whatever the object and the static totals held before.\<close>
theorem cpu_usage:
  assumes "length infos1 = length infos2"
  shows "mv_cores (getCPUUsage infos1 infos2 s) =
      map (\<lambda>i. (ascii ''CPU '' @ dec i, usage (busy (infos1 ! i) (infos2 ! i)) (elapsed (infos1 ! i) (infos2 ! i)))) [0..<length infos1] \<and>
    m_cpuTotalUsage (getCPUUsage infos1 infos2 s) =
      usage (sum_list (map2 busy infos1 infos2)) (sum_list (map2 elapsed infos1 infos2))"
proof
  show "mv_cores (getCPUUsage infos1 infos2 s) =
      map (\<lambda>i. (ascii ''CPU '' @ dec i, usage (busy (infos1 ! i) (infos2 ! i)) (elapsed (infos1 ! i) (infos2 ! i)))) [0..<length infos1]"
    using assms by (intro nth_equalityI)
      (simp_all add: getCPUUsage_def getCPUTime_def Let_def core_rate_def core_times_def CPU_Time_def busy_def elapsed_def rate_of_def usage_def algebra_simps)
next
  show "m_cpuTotalUsage (getCPUUsage infos1 infos2 s) =
      usage (sum_list (map2 busy infos1 infos2)) (sum_list (map2 elapsed infos1 infos2))"
    unfolding getCPUUsage_def getCPUTime_def Let_def
    by (simp add: assms sum_list_diff, rule rate_of_usage)
      (simp_all add: assms sum_list_diff sum_list_add2 busy_def elapsed_def algebra_simps)
qed

text \<open>Two processors, one half busy and one idle, of which the counters of the first wrap around.\<close>

definition cpu_sample :: "64 word \<Rightarrow> 64 word \<Rightarrow> 64 word \<Rightarrow> cpu_info" where
  "cpu_sample k u i = \<lparr>KernelTime = k, UserTime = u, IdleTime = i\<rparr>"

definition idle_monitor :: cpu_state where
  "idle_monitor = \<lparr>cpu_kernel_delta = UINT64_DELTA, cpu_user_delta = UINT64_DELTA, cpu_idle_delta = UINT64_DELTA,
     m_cpuTotalUsage = None, mv_cores = []\<rparr>"

theorem cpu_usage_witness:
  "let infos1 = [cpu_sample (-10) 5 (-20), cpu_sample 100 100 100]; infos2 = [cpu_sample 80 15 30, cpu_sample 200 100 200] in
   (mv_cores (getCPUUsage infos1 infos2 idle_monitor) =
      map (\<lambda>i. (ascii ''CPU '' @ dec i, usage (busy (infos1 ! i) (infos2 ! i)) (elapsed (infos1 ! i) (infos2 ! i)))) [0..<length infos1] \<and>
    m_cpuTotalUsage (getCPUUsage infos1 infos2 idle_monitor) =
      usage (sum_list (map2 busy infos1 infos2)) (sum_list (map2 elapsed infos1 infos2))) \<and>
   usage (sum_list (map2 busy infos1 infos2)) (sum_list (map2 elapsed infos1 infos2)) = Some (50, 200)"
  unfolding Let_def
proof
  show "mv_cores (getCPUUsage [cpu_sample (-10) 5 (-20), cpu_sample 100 100 100] [cpu_sample 80 15 30, cpu_sample 200 100 200] idle_monitor) =
      map (\<lambda>i. (ascii ''CPU '' @ dec i, usage (busy ([cpu_sample (-10) 5 (-20), cpu_sample 100 100 100] ! i) ([cpu_sample 80 15 30, cpu_sample 200 100 200] ! i))
         (elapsed ([cpu_sample (-10) 5 (-20), cpu_sample 100 100 100] ! i) ([cpu_sample 80 15 30, cpu_sample 200 100 200] ! i))))
       [0..<length [cpu_sample (-10) 5 (-20), cpu_sample 100 100 100]] \<and>
    m_cpuTotalUsage (getCPUUsage [cpu_sample (-10) 5 (-20), cpu_sample 100 100 100] [cpu_sample 80 15 30, cpu_sample 200 100 200] idle_monitor) =
      usage (sum_list (map2 busy [cpu_sample (-10) 5 (-20), cpu_sample 100 100 100] [cpu_sample 80 15 30, cpu_sample 200 100 200]))
        (sum_list (map2 elapsed [cpu_sample (-10) 5 (-20), cpu_sample 100 100 100] [cpu_sample 80 15 30, cpu_sample 200 100 200]))"
    by (rule cpu_usage) simp
  show "usage (sum_list (map2 busy [cpu_sample (-10) 5 (-20), cpu_sample 100 100 100] [cpu_sample 80 15 30, cpu_sample 200 100 200]))
      (sum_list (map2 elapsed [cpu_sample (-10) 5 (-20), cpu_sample 100 100 100] [cpu_sample 80 15 30, cpu_sample 200 100 200])) = Some (50, 200)"
    by (simp add: usage_def busy_def elapsed_def cpu_sample_def)
qed

text \<open>The lower half of the time stamp may wrap around; the difference counts if it is short.\<close>

lemma getBasicFreq_wraps:
  assumes "d < 2 ^ 31"
  shows "getBasicFreq (word_of_nat t) (word_of_nat (t + d)) = int (d div 50000)"
proof -
  have "sint (word_of_nat d :: 32 word) = int d"
    using assms by (simp add: signed_of_nat signed_take_bit_int_eq_self)
  then show ?thesis by (cases "d = 0") (simp_all add: getBasicFreq_def signed_divide_int_def zdiv_int)
qed

section \<open>The drives\<close>

lemma count_drives_bits: "count_drives w = card {n. bit w n}"
proof (induction w rule: count_drives.induct)
  case (1 w)
  show ?case
  proof (cases "w = 0")
    case True
    then show ?thesis by (simp add: count_drives.simps)
  next
    case False
    have "{n. bit w n} = {n. n = 0 \<and> bit w 0} \<union> Suc ` {n. bit (drop_bit 1 w) n}"
    proof (intro set_eqI)
      fix n
      show "n \<in> {n. bit w n} \<longleftrightarrow> n \<in> {n. n = 0 \<and> bit w 0} \<union> Suc ` {n. bit (drop_bit 1 w) n}"
        by (cases n) (auto simp: bit_drop_bit_eq)
    qed
    moreover have "finite {n. bit (drop_bit 1 w) n}"
      by (rule finite_subset [of _ "{..<32}"]) (auto dest: bit_imp_le_length)
    moreover have "{n. n = 0 \<and> bit w 0} \<inter> Suc ` {n. bit (drop_bit 1 w) n} = {}" by auto
    ultimately have "card {n. bit w n} = card {n. n = (0::nat) \<and> bit w 0} + card {n. bit (drop_bit 1 w) n}"
      by (simp add: card_Un_disjoint card_image)
    moreover have "w AND 1 \<noteq> 0 \<longleftrightarrow> bit w 0" by (simp add: and_one_eq bit_0 odd_iff_mod_2_eq_one)
    ultimately show ?thesis using 1 [OF False] False by (simp add: count_drives.simps [of w])
  qed
qed

lemma next_dir_drive: "length d = 3 \<Longrightarrow> 0 \<notin> set d \<Longrightarrow> next_dir (d @ 0 # rest) = Some d"
proof -
  assume d: "length d = 3" "0 \<notin> set d"
  then have "takeWhile (\<lambda>c. c \<noteq> 0) (d @ 0 # rest) = d" by (subst takeWhile_append2) auto
  with d show ?thesis by (simp add: next_dir_def Let_def)
qed

lemma disk_loop_all:
  assumes "list_all (\<lambda>d. length d = 3 \<and> 0 \<notin> set d) ds"
  shows "\<exists>vs. disk_loop type_of space (length ds) (concat (map (\<lambda>d. d @ [0]) ds) @ rest) tmp mv = Some (mv @ vs) \<and>
    map driverName vs = filter (\<lambda>d. space d \<noteq> None) ds \<and>
    (\<forall>v\<in>set vs. space (driverName v) = Some (UserAvailByte v, TotalByte v, FreeByte v) \<and> UsedByte v = TotalByte v - UserAvailByte v)"
  using assms
proof (induction ds arbitrary: tmp mv)
  case (Cons d ds)
  then have d: "next_dir (d @ 0 # (concat (map (\<lambda>d. d @ [0]) ds) @ rest)) = Some d" by (simp add: next_dir_drive)
  show ?case
  proof (cases "space d")
    case None
    then show ?thesis using Cons d by (simp add: Let_def)
  next
    case (Some q)
    obtain a t f where q: "q = (a, t, f)" by (cases q)
    define vol where "vol = tmp\<lparr>driverName := d, driverType := drive_type (type_of d) (driverType tmp), UserAvailByte := a,
      TotalByte := t, FreeByte := f, UsedByte := t - a\<rparr>"
    obtain vs where vs: "disk_loop type_of space (length ds) (concat (map (\<lambda>d. d @ [0]) ds) @ rest) vol (mv @ [vol]) = Some ((mv @ [vol]) @ vs)"
        "map driverName vs = filter (\<lambda>d. space d \<noteq> None) ds"
        "\<forall>v\<in>set vs. space (driverName v) = Some (UserAvailByte v, TotalByte v, FreeByte v) \<and> UsedByte v = TotalByte v - UserAvailByte v"
      using Cons.IH [of vol "mv @ [vol]"] Cons.prems by auto
    show ?thesis
      using vs Some q d by (intro exI [of _ "vol # vs"]) (simp add: Let_def vol_def)
  qed
qed simp

text \<open>Every drive is visited once and in order, and each that has space is kept with the space that the user
  has used of what is there for him, not with what is used of all.\<close>

theorem all_drives:
  assumes "list_all (\<lambda>d. length d = 3 \<and> 0 \<notin> set d) ds"
  shows "\<exists>vs. getDiskInfo w (concat (map (\<lambda>d. d @ [0]) ds) @ [0]) type_of space tmp mv = Some (card {n. bit w n}, mv @ vs) \<and>
    map driverName vs = filter (\<lambda>d. space d \<noteq> None) ds \<and>
    (\<forall>v\<in>set vs. space (driverName v) = Some (UserAvailByte v, TotalByte v, FreeByte v) \<and> UsedByte v = TotalByte v - UserAvailByte v)"
proof -
  have "length (concat (map (\<lambda>d. d @ [0]) ds)) = 4 * length ds"
    using assms by (induction ds) simp_all
  then have "length (concat (map (\<lambda>d. d @ [0]) ds) @ [0]) div 4 = length ds" by simp
  with disk_loop_all [OF assms, of type_of space "[0]" tmp mv] show ?thesis
    by (auto simp: getDiskInfo_def count_drives_bits)
qed

section \<open>The records of interfaces\<close>

definition counted :: "if_row \<Rightarrow> bool" where
  "counted r \<longleftrightarrow> IfOperStatusUp r \<and> \<not> AdminDown r \<and> RowAddress r \<noteq> []"

definition mac_of :: "if_row \<Rightarrow> bytes" where
  "mac_of r = mac_text [] (RowAddress r)"

definition short_mac :: "if_row \<Rightarrow> bool" where
  "short_mac r \<longleftrightarrow> length (RowAddress r) \<le> 21"

lemma length_mac_text: "length (mac_text t addr) = length t + (3 * length addr - 1)"
  by (induction t addr rule: mac_text.induct) (simp_all add: hex2X_def)

lemma mac64_short: "short_mac r \<Longrightarrow> mac64 (RowAddress r) = Some (mac_of r)"
  by (simp add: mac64_def length_mac_text mac_of_def short_mac_def)

text \<open>The first row of each address.\<close>

fun firsts :: "if_row list \<Rightarrow> if_row list" where
  "firsts [] = []"
| "firsts (r # rs) = r # filter (\<lambda>r'. mac_of r' \<noteq> mac_of r) (firsts rs)"

lemma firsts_filter: "firsts (filter (\<lambda>r. mac_of r \<notin> M) rs) = filter (\<lambda>r. mac_of r \<notin> M) (firsts rs)"
proof (induction rs)
  case (Cons r rs)
  show ?case
  proof (cases "mac_of r \<in> M")
    case True
    then show ?thesis using Cons by (auto intro!: filter_cong)
  next
    case False
    then show ?thesis using Cons by (auto intro!: filter_cong)
  qed
qed simp

lemma set_firsts: "set (firsts rs) \<subseteq> set rs" and distinct_firsts: "distinct (map mac_of (firsts rs))"
proof -
  show "set (firsts rs) \<subseteq> set rs" by (induction rs) auto
  show "distinct (map mac_of (firsts rs))"
    by (induction rs) (auto simp: distinct_map inj_on_def)
qed

lemma macs_firsts: "mac_of ` set (firsts rs) = mac_of ` set rs"
proof (induction rs)
  case (Cons r rs)
  have "mac_of ` set (firsts (r # rs)) = insert (mac_of r) (mac_of ` set (firsts rs))" by auto
  with Cons show ?case by simp
qed simp

text \<open>The records that the first call leaves.\<close>

definition recorded :: "nat \<Rightarrow> if_row list \<Rightarrow> if_row list" where
  "recorded n rows = take n (firsts (filter counted rows))"

definition first_flow :: "if_row \<Rightarrow> net_flow" where
  "first_flow r = update_flow (mac_of r) r NetFlow"

lemma flow_fields [simp]:
  "flow_MAC (first_flow r) = mac_of r" "Updated (first_flow r) = 1" "flow_MAC (update_flow m r f) = m"
  "Updated (update_flow m r f) = Suc (Updated f)" "InOctets (update_flow m r f) = UpdateDelta (row_InOctets r) (InOctets f)"
  "OutOctets (update_flow m r f) = UpdateDelta (row_OutOctets r) (OutOctets f)"
  "InOctets (first_flow r) = UpdateDelta (row_InOctets r) UINT64_DELTA" "OutOctets (first_flow r) = UpdateDelta (row_OutOctets r) UINT64_DELTA"
  by (simp_all add: first_flow_def update_flow_def NetFlow_def)

lemma find_flow_less: "find_flow m fs < length fs \<longleftrightarrow> m \<in> flow_MAC ` set fs"
  by (induction fs) auto

lemma find_flow_none: "m \<notin> flow_MAC ` set fs \<Longrightarrow> find_flow m fs = length fs"
  by (induction fs) auto

lemma find_flow_nth:
  assumes "distinct (map mac_of rs)" "j < length rs" "\<And>r. flow_MAC (F r) = mac_of r"
  shows "find_flow (mac_of (rs ! j)) (map F rs @ tail) = j"
  using assms(1,2)
proof (induction rs arbitrary: j)
  case (Cons r rs)
  from Cons.prems have "j = 0 \<or> (\<exists>i. j = Suc i \<and> i < length rs \<and> mac_of (rs ! i) \<noteq> mac_of r)"
    by (cases j) (auto simp: image_iff, metis nth_mem)
  with Cons show ?case by (auto simp: assms(3))
qed simp

lemma io_row_skips: "\<not> counted r \<Longrightarrow> io_row isCalc n r st = Some (st, False)"
  by (auto simp: io_row_def counted_def split: prod.split)

text \<open>The first call: a record for the first row of each address, until there are as many as adapters.\<close>

definition flows1 :: "nat \<Rightarrow> if_row list \<Rightarrow> net_flow list" where
  "flows1 n rs = map first_flow rs @ replicate (n - length rs) NetFlow"

lemma io_row_first:
  assumes "counted r" "short_mac r" "length rs < n"
  shows "io_row False n r (flows1 n rs, length rs) =
    (if mac_of r \<in> mac_of ` set rs then Some ((flows1 n rs, length rs), False)
     else Some ((flows1 n (rs @ [r]), length (rs @ [r])), length (rs @ [r]) = n))"
proof -
  have f: "find_flow (mac_of r) (map first_flow rs) < length rs \<longleftrightarrow> mac_of r \<in> mac_of ` set rs"
    using find_flow_less [of "mac_of r" "map first_flow rs"] by (simp add: image_image)
  show ?thesis
  proof (cases "mac_of r \<in> mac_of ` set rs")
    case True
    with f assms show ?thesis by (simp add: io_row_def flows1_def mac64_short counted_def)
  next
    case False
    then have "find_flow (mac_of r) (map first_flow rs) = length rs"
      using find_flow_none [of "mac_of r" "map first_flow rs"] by (simp add: image_image)
    moreover obtain k where k: "n - length rs = Suc k" "n - Suc (length rs) = k" using assms(3) by (cases "n - length rs") auto
    ultimately show ?thesis using False assms
      by (simp add: io_row_def flows1_def mac64_short counted_def Let_def nth_append list_update_append first_flow_def)
  qed
qed

lemma io_loop_first:
  assumes "list_all short_mac rows" "length rs < n"
  shows "io_loop False n rows (flows1 n rs, length rs) =
    (let rs' = rs @ take (n - length rs) (firsts (filter (\<lambda>r. counted r \<and> mac_of r \<notin> mac_of ` set rs) rows)) in
     Some (flows1 n rs', length rs'))"
  using assms
proof (induction rows arbitrary: rs)
  case (Cons r rows)
  show ?case
  proof (cases "counted r \<and> mac_of r \<notin> mac_of ` set rs")
    case False
    then show ?thesis using Cons io_row_first [of r rs n]
      by (cases "counted r") (auto simp: io_row_skips Let_def)
  next
    case True
    have row: "io_row False n r (flows1 n rs, length rs) = Some ((flows1 n (rs @ [r]), length (rs @ [r])), length (rs @ [r]) = n)"
      using io_row_first [of r rs n] Cons.prems True by auto
    show ?thesis
    proof (cases "Suc (length rs) = n")
      case True
      then show ?thesis using row \<open>counted r \<and> _\<close> by (auto simp: Let_def)
    next
      case False
      have "firsts (filter (\<lambda>q. counted q \<and> mac_of q \<notin> mac_of ` set (rs @ [r])) rows) =
          firsts (filter (\<lambda>q. mac_of q \<notin> {mac_of r}) (filter (\<lambda>q. counted q \<and> mac_of q \<notin> mac_of ` set rs) rows))"
        by (rule arg_cong [where f = firsts]) (auto intro!: filter_cong)
      also have "\<dots> = filter (\<lambda>q. mac_of q \<notin> {mac_of r}) (firsts (filter (\<lambda>q. counted q \<and> mac_of q \<notin> mac_of ` set rs) rows))"
        by (rule firsts_filter)
      finally have f: "firsts (filter (\<lambda>q. counted q \<and> mac_of q \<notin> mac_of ` set (rs @ [r])) rows) =
          filter (\<lambda>q. mac_of q \<noteq> mac_of r) (firsts (filter (\<lambda>q. counted q \<and> mac_of q \<notin> mac_of ` set rs) rows))"
        by (simp only: singleton_iff)
      obtain k where k: "n - length rs = Suc k" "n - Suc (length rs) = k" using Cons.prems(2) by (cases "n - length rs") auto
      have "io_loop False n (r # rows) (flows1 n rs, length rs) = io_loop False n rows (flows1 n (rs @ [r]), length (rs @ [r]))"
        using row False by simp
      also have "\<dots> = (let rs' = (rs @ [r]) @ take (n - length (rs @ [r])) (filter (\<lambda>q. mac_of q \<noteq> mac_of r)
          (firsts (filter (\<lambda>q. counted q \<and> mac_of q \<notin> mac_of ` set rs) rows))) in Some (flows1 n rs', length rs'))"
        using Cons.IH [of "rs @ [r]"] Cons.prems False f by simp
      finally show ?thesis using True k by (simp add: Let_def)
    qed
  qed
qed (simp add: Let_def)

lemma first_call:
  assumes "list_all short_mac rows" "0 < n"
  shows "io_loop False n rows (replicate n NetFlow, 0) = Some (flows1 n (recorded n rows), length (recorded n rows))"
  using io_loop_first [OF assms(1), of "[]" n] assms(2) by (simp add: flows1_def recorded_def Let_def)

text \<open>The second call: the first row of each address that is recorded; \<open>Updated\<close> keeps the later ones away.\<close>

definition second_row :: "if_row list \<Rightarrow> if_row \<Rightarrow> if_row option" where
  "second_row ps r = find (\<lambda>q. counted q \<and> mac_of q = mac_of r) ps"

definition second_flow :: "if_row list \<Rightarrow> if_row \<Rightarrow> net_flow" where
  "second_flow ps r = (case second_row ps r of None \<Rightarrow> first_flow r | Some q \<Rightarrow> update_flow (mac_of r) q (first_flow r))"

lemma second_flow_fields [simp]:
  "flow_MAC (second_flow ps r) = mac_of r" "Updated (second_flow ps r) = (if second_row ps r = None then 1 else 2)"
  by (simp_all add: second_flow_def split: option.split)

lemma find_snoc: "find P (xs @ [x]) = (case find P xs of None \<Rightarrow> if P x then Some x else None | Some y \<Rightarrow> Some y)"
  by (induction xs) simp_all

lemma second_row_snoc:
  "second_row (ps @ [q]) r = (case second_row ps r of None \<Rightarrow> if counted q \<and> mac_of q = mac_of r then Some q else None | Some y \<Rightarrow> Some y)"
  by (simp add: second_row_def find_snoc)

lemma second_flow_snoc:
  "second_flow (ps @ [q]) r = (if second_row ps r = None \<and> counted q \<and> mac_of q = mac_of r
     then update_flow (mac_of r) q (second_flow ps r) else second_flow ps r)"
  by (simp add: second_flow_def second_row_snoc split: option.split)

lemma io_row_second:
  assumes "counted q" "short_mac q" "distinct (map mac_of rs)" "length tail = n - length rs" "length rs \<le> n"
  shows "mac_of q \<in> mac_of ` set rs \<Longrightarrow>
      io_row True m q (map (second_flow ps) rs @ tail, length rs) = Some ((map (second_flow (ps @ [q])) rs @ tail, length rs), False)"
    and "mac_of q \<notin> mac_of ` set rs \<Longrightarrow> length rs = n \<Longrightarrow>
      io_row True m q (map (second_flow ps) rs @ tail, length rs) = None"
    and "mac_of q \<notin> mac_of ` set rs \<Longrightarrow> length rs < n \<Longrightarrow>
      \<exists>tail'. io_row True m q (map (second_flow ps) rs @ tail, length rs) = Some ((map (second_flow (ps @ [q])) rs @ tail', length rs), False) \<and>
        length tail' = n - length rs"
proof -
  let ?F = "map (second_flow ps) rs"
  assume "mac_of q \<in> mac_of ` set rs"
  then obtain j where j: "j < length rs" "mac_of (rs ! j) = mac_of q" by (auto simp: in_set_conv_nth)
  have idx: "find_flow (mac_of q) ?F = j"
    using find_flow_nth [of rs j "second_flow ps" "[]"] assms(3) j by simp
  have other: "mac_of (rs ! i) = mac_of q \<longleftrightarrow> i = j" if "i < length rs" for i
    using assms(3) j that nth_eq_iff_index_eq [of "map mac_of rs" i j] by auto
  have new: "map (second_flow (ps @ [q])) rs = (if second_row ps (rs ! j) = None
      then ?F[j := update_flow (mac_of q) q (?F ! j)] else ?F)"
  proof (cases "second_row ps (rs ! j) = None")
    case True
    then show ?thesis using j other assms(1)
      by (auto intro!: nth_equalityI simp: second_flow_snoc nth_list_update) metis+
  next
    case False
    have "second_flow (ps @ [q]) x = second_flow ps x" if "x \<in> set rs" for x
      using that False other other [of j] by (auto simp: in_set_conv_nth second_flow_snoc split: if_splits) (metis option.distinct(1))
    then have "map (second_flow (ps @ [q])) rs = ?F" by (rule map_cong [OF refl])
    then show ?thesis by (simp only: if_not_P [OF False])
  qed
  show "io_row True m q (?F @ tail, length rs) = Some ((map (second_flow (ps @ [q])) rs @ tail, length rs), False)"
    using idx j new assms(1,2) by (simp add: io_row_def counted_def mac64_short Let_def nth_append list_update_append)
next
  let ?F = "map (second_flow ps) rs"
  assume q: "mac_of q \<notin> mac_of ` set rs"
  then have idx: "find_flow (mac_of q) ?F = length rs"
    using find_flow_none [of "mac_of q" ?F] by (simp add: image_image)
  { assume "length rs = n"
    then show "io_row True m q (?F @ tail, length rs) = None"
      using idx assms by (simp add: io_row_def counted_def mac64_short Let_def) }
  assume "length rs < n"
  then obtain f fs where t: "tail = f # fs" using assms(4) by (cases tail) auto
  have "map (second_flow (ps @ [q])) rs = ?F" using q by (auto simp: second_flow_snoc image_iff)
  then show "\<exists>tail'. io_row True m q (?F @ tail, length rs) = Some ((map (second_flow (ps @ [q])) rs @ tail', length rs), False) \<and>
      length tail' = n - length rs"
    using idx assms t by (auto simp: io_row_def counted_def mac64_short Let_def nth_append list_update_append)
qed

lemma second_flow_skips: "\<not> counted q \<Longrightarrow> second_flow (ps @ [q]) = second_flow ps"
  by (rule ext) (simp add: second_flow_snoc)

lemma io_loop_second:
  assumes "list_all short_mac rows" "distinct (map mac_of rs)" "length tail = n - length rs" "length rs \<le> n"
  shows "(\<exists>q\<in>set rows. counted q \<and> mac_of q \<notin> mac_of ` set rs) \<and> length rs = n \<Longrightarrow>
      io_loop True m rows (map (second_flow ps) rs @ tail, length rs) = None"
    and "\<not> ((\<exists>q\<in>set rows. counted q \<and> mac_of q \<notin> mac_of ` set rs) \<and> length rs = n) \<Longrightarrow>
      \<exists>tail'. io_loop True m rows (map (second_flow ps) rs @ tail, length rs) = Some (map (second_flow (ps @ rows)) rs @ tail', length rs)"
  using assms
proof (induction rows arbitrary: ps tail)
  case (Cons q rows)
  { case 1
    note row = io_row_second [of q rs _ n m ps]
    show ?case
    proof (cases "counted q")
      case False
      then show ?thesis using 1 Cons.IH(1) [of tail "ps @ [q]"] by (auto simp: io_row_skips second_flow_skips)
    next
      case counted: True
      have short: "short_mac q" using 1 by simp
      show ?thesis
      proof (cases "mac_of q \<in> mac_of ` set rs")
        case True
        have "io_loop True m rows (map (second_flow (ps @ [q])) rs @ tail, length rs) = None"
          using 1 True Cons.IH(1) [of tail "ps @ [q]"] by auto
        then show ?thesis using row(1) [OF counted short 1(3,4,5) True] by simp
      next
        case False
        show ?thesis using row(2) [OF counted short 1(3,4,5) False conjunct2 [OF 1(1)]] by simp
      qed
    qed
  next
    case 2
    note row = io_row_second [of q rs _ n m ps]
    show ?case
    proof (cases "counted q")
      case False
      then show ?thesis using 2 Cons.IH(2) [of tail "ps @ [q]"] by (auto simp: io_row_skips second_flow_skips)
    next
      case counted: True
      obtain tail' where "io_row True m q (map (second_flow ps) rs @ tail, length rs) = Some ((map (second_flow (ps @ [q])) rs @ tail', length rs), False)"
          "length tail' = n - length rs"
        using row(1,3) [of tail] counted 2 by (cases "mac_of q \<in> mac_of ` set rs") auto
      then show ?thesis using 2 Cons.IH(2) [of tail' "ps @ [q]"] by auto
    qed }
qed auto

section \<open>The speeds\<close>

lemma recorded_ok: "distinct (map mac_of (recorded n rows))" "length (recorded n rows) \<le> n" "set (recorded n rows) \<subseteq> set (filter counted rows)"
proof -
  show "distinct (map mac_of (recorded n rows))"
    unfolding recorded_def by (simp add: take_map [symmetric] distinct_firsts)
  show "length (recorded n rows) \<le> n" by (simp add: recorded_def)
  show "set (recorded n rows) \<subseteq> set (filter counted rows)"
    unfolding recorded_def using set_take_subset set_firsts by (rule order_trans)
qed

definition read_tables :: "if_row list \<Rightarrow> bool \<times> if_row list option \<times> if_row list option" where
  "read_tables rows = (True, Some [], Some rows)"

text \<open>A row that finds no record and no room for one.\<close>

definition no_record :: "nat \<Rightarrow> if_row list \<Rightarrow> if_row list \<Rightarrow> bool" where
  "no_record n rows1 rows2 \<longleftrightarrow> length (recorded n rows1) = n \<and>
     (\<exists>q\<in>set (if n = 0 then rows1 @ rows2 else rows2). counted q \<and> mac_of q \<notin> mac_of ` set (recorded n rows1))"

lemma io_row_no_room: "counted q \<Longrightarrow> short_mac q \<Longrightarrow> io_row isCalc m q ([], 0) = None"
  by (simp add: io_row_def counted_def mac64_short Let_def)

lemma io_loop_no_room:
  "list_all short_mac rows \<Longrightarrow> io_loop isCalc m rows ([], 0) = (if \<exists>q\<in>set rows. counted q then None else Some ([], 0))"
proof (induction rows)
  case (Cons q rows)
  then show ?case by (cases "counted q") (auto simp: io_row_no_room io_row_skips)
qed simp

lemma both_calls:
  fixes n rows1 rows2
  defines "rs \<equiv> recorded n rows1"
  assumes "list_all short_mac rows1" "list_all short_mac rows2"
  shows "no_record n rows1 rows2 \<Longrightarrow>
      Option.bind (io_loop False n rows1 (replicate n NetFlow, 0)) (io_loop True n rows2) = None"
    and "\<not> no_record n rows1 rows2 \<Longrightarrow> \<exists>tail.
      Option.bind (io_loop False n rows1 (replicate n NetFlow, 0)) (io_loop True n rows2) = Some (map (second_flow rows2) rs @ tail, length rs)"
proof -
  have two: "flows1 n rs = map (second_flow []) rs @ replicate (n - length rs) NetFlow"
    by (simp add: flows1_def second_flow_def second_row_def cong: map_cong)
  have second: "(no_record n rows1 rows2 \<longrightarrow> io_loop True n rows2 (flows1 n rs, length rs) = None) \<and>
      (\<not> no_record n rows1 rows2 \<longrightarrow> (\<exists>tail. io_loop True n rows2 (flows1 n rs, length rs) = Some (map (second_flow rows2) rs @ tail, length rs)))" if "0 < n"
    using io_loop_second [OF assms(3), of rs "replicate (n - length rs) NetFlow" n n "[]"] recorded_ok that
    unfolding two by (auto simp: no_record_def rs_def)
  { assume "no_record n rows1 rows2"
    then show "Option.bind (io_loop False n rows1 (replicate n NetFlow, 0)) (io_loop True n rows2) = None"
      using second first_call [OF assms(2)] assms(2,3)
      by (cases "n = 0") (auto simp: rs_def no_record_def io_loop_no_room recorded_def) }
  assume no: "\<not> no_record n rows1 rows2"
  show "\<exists>tail. Option.bind (io_loop False n rows1 (replicate n NetFlow, 0)) (io_loop True n rows2) = Some (map (second_flow rows2) rs @ tail, length rs)"
  proof (cases "n = 0")
    case True
    with no have "\<not> (\<exists>q\<in>set rows1. counted q)" "\<not> (\<exists>q\<in>set rows2. counted q)" by (auto simp: no_record_def recorded_def)
    then show ?thesis using True assms(2,3) by (simp add: io_loop_no_room rs_def recorded_def)
  next
    case False
    then show ?thesis using second no first_call [OF assms(2), of n] by (auto simp: rs_def)
  qed
qed

lemma getIOSpeed_bind:
  "getIOSpeed (read_tables rows1) (read_tables rows2) ads =
    Option.bind (Option.bind (io_loop False (length ads) rows1 (replicate (length ads) NetFlow, 0)) (io_loop True (length ads) rows2))
      (\<lambda>(flows, _). speed_lines flows ads)"
  by (simp add: getIOSpeed_def getIOStatistic_def read_tables_def Let_def split: option.split prod.split)

lemma speed_line_None: "speed_line flows a = None \<longleftrightarrow> address a = []"
  by (simp add: speed_line_def Let_def)

lemma speed_lines_None: "speed_lines flows ads = None \<longleftrightarrow> (\<exists>a\<in>set ads. address a = [])"
proof (induction ads)
  case (Cons a ads)
  then show ?case using speed_line_None [of flows a] by (cases "speed_line flows a") auto
qed simp

lemma speed_lines_nth: "speed_lines flows ads = Some ls \<Longrightarrow> i < length ads \<Longrightarrow> speed_line flows (ads ! i) = Some (ls ! i)"
  by (induction ads arbitrary: ls i) (auto simp: nth_Cons split: option.splits nat.splits)

text \<open>C37:
  Bounds: measuring the speeds leaves an array exactly when an adapter has no unicast address, or when
  there are as many records as adapters and an interface in the second table (or, without any adapter, in
  either) has an address that is not recorded.\<close>
theorem getIOSpeed_overruns:
  assumes "list_all short_mac rows1" "list_all short_mac rows2"
  shows "getIOSpeed (read_tables rows1) (read_tables rows2) ads = None \<longleftrightarrow>
    (\<exists>a\<in>set ads. address a = []) \<or> no_record (length ads) rows1 rows2"
proof (cases "no_record (length ads) rows1 rows2")
  case True
  then show ?thesis using both_calls(1) [OF assms True] by (simp add: getIOSpeed_bind)
next
  case False
  obtain tail where "Option.bind (io_loop False (length ads) rows1 (replicate (length ads) NetFlow, 0)) (io_loop True (length ads) rows2) =
      Some (map (second_flow rows2) (recorded (length ads) rows1) @ tail, length (recorded (length ads) rows1))"
    using both_calls(2) [OF assms False] by (elim exE) (rule that; assumption)
  with False show ?thesis by (simp add: getIOSpeed_bind speed_lines_None)
qed

text \<open>The speed from two counters: in Kbit, by words of 64 bits.\<close>

definition kbits :: "64 word \<Rightarrow> 64 word" where "kbits octets = octets * 8 div 1024"

definition since :: "(if_row \<Rightarrow> 64 word) \<Rightarrow> if_row list \<Rightarrow> if_row \<Rightarrow> 64 word" where
  "since counter rows2 r = (case second_row rows2 r of None \<Rightarrow> counter r | Some q \<Rightarrow> counter q - counter r)"

text \<open>C38:
  The speeds that are printed for an adapter whose address is recorded come from the first rows with this
  address: the difference of their counters, or all that the counter has counted when the second table
  has no such row.\<close>
theorem getIOSpeed_differences:
  assumes "list_all short_mac rows1" "list_all short_mac rows2"
    and "getIOSpeed (read_tables rows1) (read_tables rows2) ads = Some ls"
    and "i < length ads" "r \<in> set (recorded (length ads) rows1)" "MAC (ads ! i) = mac_of r"
  shows "ls ! i = (FriendlyName (ads ! i), mac_of r, kbits (since row_InOctets rows2 r), kbits (since row_OutOctets rows2 r),
    ip (hd (address (ads ! i))))"
proof -
  define rs where "rs = recorded (length ads) rows1"
  have nr: "\<not> no_record (length ads) rows1 rows2"
    using assms(3) unfolding getIOSpeed_bind by (rule contrapos_pn) (simp only: both_calls(1) [OF assms(1,2)] bind.simps option.distinct not_False_eq_True)
  obtain tail where "Option.bind (io_loop False (length ads) rows1 (replicate (length ads) NetFlow, 0)) (io_loop True (length ads) rows2) =
      Some (map (second_flow rows2) rs @ tail, length rs)"
    using both_calls(2) [OF assms(1,2) nr, folded rs_def] by (elim exE) (rule that; assumption)
  then have "speed_lines (map (second_flow rows2) rs @ tail) ads = Some ls" using assms(3) by (simp add: getIOSpeed_bind)
  from speed_lines_nth [OF this assms(4)]
  have line: "speed_line (map (second_flow rows2) rs @ tail) (ads ! i) = Some (ls ! i)" .
  obtain j where j: "j < length rs" "rs ! j = r" using assms(5) by (auto simp: in_set_conv_nth rs_def)
  have "find_flow (mac_of r) (map (second_flow rows2) rs @ tail) = j"
    using find_flow_nth [of rs j "second_flow rows2" tail] j recorded_ok(1) by (simp add: rs_def)
  moreover have "Delta (InOctets (second_flow rows2 r)) = since row_InOctets rows2 r"
      "Delta (OutOctets (second_flow rows2 r)) = since row_OutOctets rows2 r"
    by (simp_all add: second_flow_def since_def split: option.split)
  ultimately show ?thesis using line j assms(6)
    by (auto simp: speed_line_def Let_def nth_append kbits_def KBYTES_def split: if_splits)
qed

text \<open>An interface of six octets with its two counters, and an adapter with its address.\<close>

definition sample_row :: "byte \<Rightarrow> 64 word \<Rightarrow> 64 word \<Rightarrow> if_row" where
  "sample_row b i j = \<lparr>IfOperStatusUp = True, AdminDown = False, RowAddress = [0, 80, 86, 192, 0, b], row_InOctets = i, row_InUcastOctets = i,
     row_InUcastPkts = 1, row_InNUcastPkts = 0, row_InDiscards = 0, row_InErrors = 0, row_OutOctets = j, row_OutUcastOctets = j,
     row_OutUcastPkts = 1, row_OutNUcastPkts = 0, row_OutDiscards = 0, row_OutErrors = 0\<rparr>"

definition sample_adapter :: "byte \<Rightarrow> net_adapter" where
  "sample_adapter b = \<lparr>MTU = 1500, FriendlyName = [76, 65, 78], describe = [], MAC = mac_text [] [0, 80, 86, 192, 0, b],
     transmitSpeed = 0, recvSpeed = 0, address = [\<lparr>addr_prefix = 24, sa_family = 2, ip = ascii ''192.168.0.7''\<rparr>]\<rparr>"

lemma sample_short: "short_mac (sample_row b i j)"
  by (simp add: short_mac_def sample_row_def)

text \<open>Two interfaces, of which only one is an adapter with an address of its own.\<close>

theorem getIOSpeed_overruns_witness:
  "(getIOSpeed (read_tables [sample_row 1 10 20, sample_row 2 30 40]) (read_tables [sample_row 1 50 60, sample_row 2 70 80]) [sample_adapter 1] = None \<longleftrightarrow>
    (\<exists>a\<in>set [sample_adapter 1]. address a = []) \<or>
    no_record (length [sample_adapter 1]) [sample_row 1 10 20, sample_row 2 30 40] [sample_row 1 50 60, sample_row 2 70 80]) \<and>
   no_record (length [sample_adapter 1]) [sample_row 1 10 20, sample_row 2 30 40] [sample_row 1 50 60, sample_row 2 70 80]"
proof
  show "getIOSpeed (read_tables [sample_row 1 10 20, sample_row 2 30 40]) (read_tables [sample_row 1 50 60, sample_row 2 70 80]) [sample_adapter 1] = None \<longleftrightarrow>
    (\<exists>a\<in>set [sample_adapter 1]. address a = []) \<or>
    no_record (length [sample_adapter 1]) [sample_row 1 10 20, sample_row 2 30 40] [sample_row 1 50 60, sample_row 2 70 80]"
    by (rule getIOSpeed_overruns) (simp_all add: sample_short)
  show "no_record (length [sample_adapter 1]) [sample_row 1 10 20, sample_row 2 30 40] [sample_row 1 50 60, sample_row 2 70 80]"
    by code_simp
qed

theorem getIOSpeed_differences_witness:
  "\<exists>ls. getIOSpeed (read_tables [sample_row 1 10 20]) (read_tables [sample_row 1 2058 20]) [sample_adapter 1] = Some ls \<and>
    ls ! 0 = (FriendlyName ([sample_adapter 1] ! 0), mac_of (sample_row 1 10 20),
      kbits (since row_InOctets [sample_row 1 2058 20] (sample_row 1 10 20)), kbits (since row_OutOctets [sample_row 1 2058 20] (sample_row 1 10 20)),
      ip (hd (address ([sample_adapter 1] ! 0)))) \<and>
    kbits (since row_InOctets [sample_row 1 2058 20] (sample_row 1 10 20)) = 16"
proof -
  obtain ls where ls: "getIOSpeed (read_tables [sample_row 1 10 20]) (read_tables [sample_row 1 2058 20]) [sample_adapter 1] = Some ls"
  proof -
    have "getIOSpeed (read_tables [sample_row 1 10 20]) (read_tables [sample_row 1 2058 20]) [sample_adapter 1] \<noteq> None" by code_simp
    then show ?thesis using that by blast
  qed
  have "sample_row 1 10 20 \<in> set (recorded (length [sample_adapter 1]) [sample_row 1 10 20])" by code_simp
  moreover have "MAC ([sample_adapter 1] ! 0) = mac_of (sample_row 1 10 20)" by code_simp
  ultimately have "ls ! 0 = (FriendlyName ([sample_adapter 1] ! 0), mac_of (sample_row 1 10 20),
      kbits (since row_InOctets [sample_row 1 2058 20] (sample_row 1 10 20)), kbits (since row_OutOctets [sample_row 1 2058 20] (sample_row 1 10 20)),
      ip (hd (address ([sample_adapter 1] ! 0))))"
    by (intro getIOSpeed_differences [OF _ _ ls]) (simp_all add: sample_short)
  moreover have "kbits (since row_InOctets [sample_row 1 2058 20] (sample_row 1 10 20)) = 16" by code_simp
  ultimately show ?thesis using ls by blast
qed

text \<open>The speeds are computed in copies: the adapters that are kept have none.\<close>

lemma adapter_loop_speeds:
  assumes "adapter_loop ntop as ads0 = Some ads" "\<forall>a\<in>set ads0. recvSpeed a = 0 \<and> transmitSpeed a = 0" "a \<in> set ads"
  shows "recvSpeed a = 0 \<and> transmitSpeed a = 0"
  using assms
proof (induction ntop as ads0 rule: adapter_loop.induct)
  case (2 ntop x as ads0)
  show ?case
  proof (cases "IfType x = 24 \<or> OperStatus x \<noteq> 1")
    case True
    with 2 show ?thesis by simp
  next
    case False
    with "2.prems"(1) obtain m where m: "mac64 (PhysicalAddress x) = Some m" by (auto split: option.splits)
    show ?thesis by (rule "2.IH"(2) [OF False m]) (use "2.prems" False m in auto)
  qed
qed simp

lemma query_loop_listed: "adapter_loop ntop as [] = Some ads \<Longrightarrow> a \<in> set ads \<Longrightarrow> recvSpeed a = 0 \<and> transmitSpeed a = 0"
  using adapter_loop_speeds [of ntop as "[]" ads a] by simp

theorem speeds_not_kept:
  assumes "CNetInfo_GetDevInfo ntop answers formatted t1 t2 = Some (ads, ls)" "a \<in> set ads"
  shows "recvSpeed a = 0 \<and> transmitSpeed a = 0"
proof -
  obtain q where "query_loop answers 0 3 = Some q"
    using assms(1) by (auto simp: CNetInfo_GetDevInfo_def getAdapterInfo_def split: option.splits)
  then show ?thesis using assms query_loop_listed [of ntop]
    by (cases q) (auto simp: CNetInfo_GetDevInfo_def getAdapterInfo_def split: option.splits)
qed

section \<open>Masks\<close>

definition dotted_mask :: "nat \<Rightarrow> bytes" where
  "dotted_mask p = (let m = (2 ^ 32 - 2 ^ (32 - p) :: nat) in
     dec (m div 2 ^ 24) @ ascii ''.'' @ dec (m div 2 ^ 16 mod 256) @ ascii ''.'' @ dec (m div 2 ^ 8 mod 256) @ ascii ''.'' @ dec (m mod 256))"

text \<open>The text of a mask is right exactly for the prefixes of more than one octet that are not whole octets, and
  for one octet.\<close>

lemma prefixToMask_nat:
  "prefixToMask (int p) = (let m = concat (map (\<lambda>i. ascii ''255'' @ (if Suc i \<noteq> p div 8 \<and> p mod 8 \<noteq> 0 then ascii ''.'' else [])) [0..<p div 8]) in
     if p mod 8 \<noteq> 0
     then m @ ascii ''.'' @ dec (256 - 2 ^ (8 - p mod 8)) @ concat (replicate (4 - (p div 8 + 1)) (ascii ''.0''))
     else m @ concat (replicate (4 - p div 8) (ascii ''.0'')))"
proof -
  have q: "int p sdiv 8 = int (p div 8)" by (cases "p = 0") (simp_all add: signed_divide_int_def zdiv_int)
  have r: "int p smod 8 = int (p mod 8)" by (cases "p = 0") (simp_all add: signed_modulo_int_def signed_divide_int_def zmod_int minus_div_mult_eq_mod)
  have "(2::int) ^ (8 - p mod 8) \<le> 2 ^ 8" by (rule power_increasing) simp_all
  then have d: "signed_dec (256 - 2 ^ nat (8 - int (p mod 8))) = dec (256 - 2 ^ (8 - p mod 8))"
    by (simp add: signed_dec_def nat_diff_distrib nat_power_eq)
  have i: "int i \<noteq> int (p div 8) - 1 \<longleftrightarrow> Suc i \<noteq> p div 8" for i by linarith
  show ?thesis
    by (simp only: prefixToMask_def mask_octets_def q r d i Let_def nat_int of_nat_eq_0_iff)
qed

lemma prefixToMask_right: "list_all (\<lambda>p. prefixToMask (int p) = dotted_mask p \<longleftrightarrow> p = 8 \<or> 8 < p \<and> p mod 8 \<noteq> 0) [0..<33]"
proof -
  have "replicate 4 d = [d, d, d, d]" "replicate 3 d = [d, d, d]" "replicate 2 d = [d, d]" for d :: bytes
    by (simp_all add: numeral_eq_Suc)
  then show ?thesis
    unfolding prefixToMask_nat by (simp add: upt_rec dotted_mask_def ascii_def dec.simps Let_def)
qed

end
