(* ===== verification/BatchLogger.thy ===== *)
theory BatchLogger
  imports Prelude
begin

text \<open>
  \<open>src-linux/Logger.cpp\<close>: a log whose thread waits for a notification, opens its file and empties the
  queue into it.  A step is a critical section of the thread, of a caller or of the destructor, or
  what the thread does between two of them; they interleave in any order.
\<close>

section \<open>The log\<close>

text \<open>Where the thread is: before its first critical section, asleep, awake but without the mutex, about to
  open the file, in the inner loop without the mutex, or at its end.\<close>

datatype logger_phase = Starting | Sleeping | Awake | Opening | Writing | Ended | No_file

text \<open>\<open>log_file\<close> is what \<open>SysMon_log.txt\<close> has.  For the properties, all messages that were passed to the
  log and all that were written to any file are kept as well.\<close>

record logger =
  mExit :: bool
  mQueue :: "bytes list"
  thread_phase :: logger_phase
  log_file :: "bytes list"
  passed :: "bytes list"
  written :: "bytes list"

definition Logger :: "bytes list \<Rightarrow> logger" where
  "Logger old_file = \<lparr>mExit = False, mQueue = [], thread_phase = Starting, log_file = old_file, passed = [], written = []\<rparr>"

text \<open>\<open>notify_all\<close>\<close>

definition notify_thread :: "logger \<Rightarrow> logger" where
  "notify_thread s = (if thread_phase s = Sleeping then s\<lparr>thread_phase := Awake\<rparr> else s)"

definition Logger_log :: "bytes \<Rightarrow> logger \<Rightarrow> logger" where
  "Logger_log msg s = notify_thread (s\<lparr>mQueue := mQueue s @ [msg], passed := passed s @ [msg]\<rparr>)"

text \<open>The destructor up to its \<open>join\<close>, which returns when the thread has ended.\<close>

definition Logger_dtor :: "logger \<Rightarrow> logger" where
  "Logger_dtor s = notify_thread (s\<lparr>mExit := True\<rparr>)"

definition dtor_returns :: "logger \<Rightarrow> bool" where
  "dtor_returns s \<longleftrightarrow> mExit s \<and> (thread_phase s = Ended \<or> thread_phase s = No_file)"

text \<open>The head of the outer loop, with the mutex.\<close>

definition outer_loop :: "logger \<Rightarrow> logger" where
  "outer_loop s = s\<lparr>thread_phase := (if \<not> mExit s then Sleeping else Opening)\<rparr>"

text \<open>What the thread does next; opening a file empties it.\<close>

definition processEntries :: "bool \<Rightarrow> logger \<Rightarrow> logger" where
  "processEntries opens s =
     (case thread_phase s of
        Starting \<Rightarrow> outer_loop s
      | Sleeping \<Rightarrow> s
      | Awake \<Rightarrow> s\<lparr>thread_phase := Opening\<rparr>
      | Opening \<Rightarrow> (if opens then s\<lparr>thread_phase := Writing, log_file := []\<rparr> else s\<lparr>thread_phase := No_file\<rparr>)
      | Writing \<Rightarrow> (case mQueue s of
            [] \<Rightarrow> (if mExit s then s\<lparr>thread_phase := Ended\<rparr> else outer_loop s)
          | msg # rest \<Rightarrow> s\<lparr>mQueue := rest, log_file := log_file s @ [msg], written := written s @ [msg]\<rparr>)
      | Ended \<Rightarrow> s
      | No_file \<Rightarrow> s)"

text \<open>A step.  A condition variable may also wake its thread for no reason.\<close>

inductive logger_step :: "logger \<Rightarrow> logger \<Rightarrow> bool" where
  logs: "\<not> mExit s \<Longrightarrow> logger_step s (Logger_log msg s)"
| destructs: "\<not> mExit s \<Longrightarrow> logger_step s (Logger_dtor s)"
| works: "logger_step s (processEntries opens s)"
| wakes: "thread_phase s = Sleeping \<Longrightarrow> logger_step s (s\<lparr>thread_phase := Awake\<rparr>)"

inductive logger_run :: "logger \<Rightarrow> bool" where
  init: "logger_run (Logger old_file)"
| step: "logger_run s \<Longrightarrow> logger_step s t \<Longrightarrow> logger_run t"

text \<open>The messages of the test, by the number of its thread.\<close>

definition logSomeMessages :: "nat \<Rightarrow> bytes list" where
  "logSomeMessages n = map (\<lambda>i. ascii ''Log entry'' @ dec i @ ascii '' from thread '' @ dec n) [0..<10]"

end
