(* ===== verification/BatchLoggerProps.thy ===== *)
theory BatchLoggerProps
  imports BatchLogger
begin

text \<open>
  Properties of the log of \<open>Logger.cpp\<close>: no message is lost or reordered on its way through the queue, and
  the destructor gets through; but each opening forgets what the file had, and a thread that starts late
  sleeps on the messages that came before it.
\<close>

section \<open>The invariant\<close>

text \<open>What was written and what waits is what was passed, the file has the end of what was written since it
  was opened, a log that ends has nobody asleep, and an ended thread has left nothing.\<close>

definition logger_ok :: "logger \<Rightarrow> bool" where
  "logger_ok s \<longleftrightarrow> written s @ mQueue s = passed s \<and>
     (mExit s \<longrightarrow> thread_phase s \<noteq> Sleeping) \<and>
     (thread_phase s = Ended \<longrightarrow> mExit s \<and> mQueue s = []) \<and>
     (thread_phase s = Writing \<longrightarrow> (\<exists>old. written s = old @ log_file s))"

lemmas logger_defs = Logger_log_def Logger_dtor_def notify_thread_def processEntries_def outer_loop_def

lemma logger_step_ok:
  assumes "logger_step s t" "logger_ok s"
  shows "logger_ok t"
  using assms(1)
proof (cases rule: logger_step.cases)
  case (logs msg)
  then show ?thesis using assms(2) by (auto simp: logger_ok_def logger_defs)
next
  case destructs
  then show ?thesis using assms(2) by (auto simp: logger_ok_def logger_defs)
next
  case (works opens)
  then show ?thesis using assms(2)
    by (cases "thread_phase s") (auto simp: logger_ok_def logger_defs split: list.splits)
next
  case wakes
  then show ?thesis using assms(2) by (auto simp: logger_ok_def)
qed

lemma logger_run_ok: "logger_run s \<Longrightarrow> logger_ok s"
proof (induction rule: logger_run.induct)
  case (init old_file)
  show ?case by (simp add: logger_ok_def Logger_def)
next
  case (step s t)
  then show ?case by (blast intro: logger_step_ok)
qed

section \<open>The end of the log\<close>

text \<open>In the inner loop each turn writes one message, and the last one ends.\<close>

lemma writing_ends:
  "thread_phase s = Writing \<Longrightarrow> mExit s \<Longrightarrow>
   (processEntries True ^^ (length (mQueue s) + 1)) s =
     s\<lparr>thread_phase := Ended, mQueue := [], log_file := log_file s @ mQueue s, written := written s @ mQueue s\<rparr>"
proof (induction "mQueue s" arbitrary: s)
  case Nil
  then show ?case by (cases s) (simp add: processEntries_def)
next
  case (Cons m ms)
  let ?t = "s\<lparr>mQueue := ms, log_file := log_file s @ [m], written := written s @ [m]\<rparr>"
  have "processEntries True s = ?t" using Cons.prems Cons.hyps(2) [symmetric] by (simp add: processEntries_def)
  moreover have "(processEntries True ^^ (length (mQueue ?t) + 1)) ?t =
      ?t\<lparr>thread_phase := Ended, mQueue := [], log_file := log_file ?t @ mQueue ?t, written := written ?t @ mQueue ?t\<rparr>"
    by (rule Cons.hyps(1)) (use Cons.prems in simp_all)
  ultimately show ?case using Cons.hyps(2) [symmetric] by (simp add: funpow_swap1)
qed

text \<open>How many turns the thread is away from the inner loop.\<close>

definition turns_to_write :: "logger_phase \<Rightarrow> nat" where
  "turns_to_write p = (case p of Starting \<Rightarrow> 2 | Awake \<Rightarrow> 2 | Opening \<Rightarrow> 1 | _ \<Rightarrow> 0)"

lemma comes_to_write:
  assumes "mExit s" "thread_phase s \<in> {Starting, Awake, Opening}"
  shows "(processEntries True ^^ turns_to_write (thread_phase s)) s = s\<lparr>thread_phase := Writing, log_file := []\<rparr>"
  using assms by (auto simp: turns_to_write_def processEntries_def outer_loop_def eval_nat_numeral)

lemma destructed_ends:
  assumes "logger_run s" "mExit s" "thread_phase s \<noteq> No_file"
  shows "\<exists>n \<le> length (mQueue s) + 3. (processEntries True ^^ n) s =
    s\<lparr>thread_phase := Ended, mQueue := [], written := passed s,
      log_file := (if thread_phase s \<in> {Writing, Ended} then log_file s @ mQueue s else mQueue s)\<rparr>"
proof -
  have ok: "written s @ mQueue s = passed s" "thread_phase s \<noteq> Sleeping" "thread_phase s = Ended \<longrightarrow> mQueue s = []"
    using logger_run_ok [OF assms(1)] assms(2) by (auto simp: logger_ok_def)
  consider "thread_phase s = Ended" | "thread_phase s = Writing" | "thread_phase s \<in> {Starting, Awake, Opening}"
    using ok(2) assms(3) by (cases "thread_phase s") auto
  then show ?thesis
  proof cases
    case 1
    then show ?thesis using ok by (intro exI [of _ 0]) (cases s; simp)
  next
    case 2
    then show ?thesis using writing_ends [OF 2 assms(2)] ok(1) by (intro exI [of _ "length (mQueue s) + 1"]) simp
  next
    case 3
    let ?w = "s\<lparr>thread_phase := Writing, log_file := []\<rparr>"
    have "(processEntries True ^^ (length (mQueue ?w) + 1)) ((processEntries True ^^ turns_to_write (thread_phase s)) s) =
        ?w\<lparr>thread_phase := Ended, mQueue := [], log_file := log_file ?w @ mQueue ?w, written := written ?w @ mQueue ?w\<rparr>"
      unfolding comes_to_write [OF assms(2) 3] by (rule writing_ends) (use assms(2) in simp_all)
    then have "(processEntries True ^^ (length (mQueue s) + 1 + turns_to_write (thread_phase s))) s =
        s\<lparr>thread_phase := Ended, mQueue := [], written := passed s, log_file := mQueue s\<rparr>"
      using ok(1) by (simp add: funpow_add)
    moreover have "turns_to_write (thread_phase s) \<le> 2" by (simp add: turns_to_write_def split: logger_phase.split)
    ultimately show ?thesis using 3
      by (intro exI [of _ "length (mQueue s) + 1 + turns_to_write (thread_phase s)"]) auto
  qed
qed

text \<open>C39:
  Liveness: when the destructor has told the thread to end, in any state that the log can reach, and the
  file can be opened, three turns and one for each message suffice for it to return; every message was
  written then, once and in order.  The file has those since its last opening only.\<close>
theorem Logger_drains:
  assumes "logger_run s" "mExit s" "thread_phase s \<noteq> No_file"
  shows "\<exists>n \<le> length (mQueue s) + 3. dtor_returns ((processEntries True ^^ n) s) \<and>
    written ((processEntries True ^^ n) s) = passed s \<and>
    log_file ((processEntries True ^^ n) s) = (if thread_phase s \<in> {Writing, Ended} then log_file s @ mQueue s else mQueue s)"
proof -
  obtain n where n: "n \<le> length (mQueue s) + 3" "(processEntries True ^^ n) s =
      s\<lparr>thread_phase := Ended, mQueue := [], written := passed s,
        log_file := (if thread_phase s \<in> {Writing, Ended} then log_file s @ mQueue s else mQueue s)\<rparr>"
    using destructed_ends [OF assms] by blast
  then show ?thesis using assms(2) by (intro exI [of _ n]) (auto simp: dtor_returns_def)
qed

text \<open>A message is passed while the thread starts, and then the log is destructed.\<close>

definition one_logged :: logger where
  "one_logged = Logger_dtor (Logger_log (ascii ''Log entry0'') (Logger []))"

lemma one_logged_run: "logger_run one_logged"
  unfolding one_logged_def
  by (intro logger_run.step [OF _ logger_step.destructs] logger_run.step [OF _ logger_step.logs] logger_run.init)
    (simp_all add: Logger_def logger_defs)

theorem Logger_drains_witness:
  "\<exists>n \<le> length (mQueue one_logged) + 3. dtor_returns ((processEntries True ^^ n) one_logged) \<and>
    written ((processEntries True ^^ n) one_logged) = passed one_logged \<and>
    log_file ((processEntries True ^^ n) one_logged) =
      (if thread_phase one_logged \<in> {Writing, Ended} then log_file one_logged @ mQueue one_logged else mQueue one_logged)"
  by (rule Logger_drains [OF one_logged_run]) (simp_all add: one_logged_def Logger_def logger_defs)

text \<open>A log that is idle when it is destructed leaves an empty file, whatever it has written.\<close>

theorem idle_log_forgets:
  assumes "logger_run s" "thread_phase s = Sleeping" "mQueue s = []" "\<not> mExit s"
  shows "\<exists>n. dtor_returns ((processEntries True ^^ n) (Logger_dtor s)) \<and> log_file ((processEntries True ^^ n) (Logger_dtor s)) = [] \<and>
    written ((processEntries True ^^ n) (Logger_dtor s)) = passed s"
proof -
  have d: "Logger_dtor s = s\<lparr>mExit := True, thread_phase := Awake\<rparr>" using assms(2) by (simp add: logger_defs)
  have "logger_run (Logger_dtor s)" by (rule logger_run.step [OF assms(1) logger_step.destructs [OF assms(4)]])
  then obtain n where "(processEntries True ^^ n) (Logger_dtor s) =
      (Logger_dtor s)\<lparr>thread_phase := Ended, mQueue := [], written := passed (Logger_dtor s), log_file := mQueue (Logger_dtor s)\<rparr>"
    using destructed_ends [of "Logger_dtor s"] by (auto simp: d)
  then show ?thesis using assms(3) by (intro exI [of _ n]) (simp add: d dtor_returns_def)
qed

text \<open>The message of a caller that is faster than the start of the thread waits for the next message.\<close>

theorem early_message_waits:
  "\<exists>s. logger_run s \<and> thread_phase s = Sleeping \<and> mQueue s \<noteq> [] \<and> processEntries opens s = s"
proof (intro exI conjI)
  let ?s = "processEntries True (Logger_log (ascii ''Log entry0'') (Logger []))"
  show "logger_run ?s"
    by (intro logger_run.step [OF _ logger_step.works] logger_run.step [OF _ logger_step.logs] logger_run.init) (simp add: Logger_def)
qed (simp_all add: Logger_def logger_defs ascii_def)

end
