(* ===== verification/ProcessMonitor.thy ===== *)
theory ProcessMonitor
  imports Prelude
begin

unbundle bit_operations_syntax

text \<open>
  \<open>ConsoleTest/ConsoleTest/src/processMonitor.cpp\<close>, the class \<open>ProcessMonitor\<close>: the list of processes with
  their handles, their use of processors and memory, their images, and the ports that \<open>netstat\<close> shows for
  them.  What Windows returns is a parameter.  \<open>None\<close>: an array is overrun, or an exception leaves the
  class.
\<close>

section \<open>Processes\<close>

text \<open>The rate is a quotient of floating point numbers, 100 times the first operand by the second.\<close>

record process_info =
  handle :: nat
  PID :: int
  threadCount :: nat
  processName :: bytes
  cmdLine :: bytes
  cpuRate :: "(64 word \<times> 64 word) option"
  RSS :: "64 word"
  ports :: bytes

text \<open>An entry of the snapshot: name, identifier, threads, and the handle if the process could be opened.\<close>

type_synonym snap_entry = "bytes \<times> int \<times> nat \<times> nat option"

record port_info =
  szProto :: bytes
  szLocal :: bytes
  szForeign :: bytes
  szState :: bytes
  port_PID :: int

definition PortInfo :: port_info where
  "PortInfo = \<lparr>szProto = [], szLocal = [], szForeign = [], szState = [], port_PID = 0\<rparr>"

text \<open>The members of the class, and the handles that were opened and closed.\<close>

record monitor =
  mlistProcess :: "process_info list"
  m_mapPort :: "(int \<times> port_info) list"
  opened :: "nat list"
  closed :: "nat list"

definition ProcessMonitor :: monitor where
  "ProcessMonitor = \<lparr>mlistProcess = [], m_mapPort = [], opened = [], closed = []\<rparr>"

text \<open>The walk over the snapshot, which may fail or be empty; the structure that is copied is not cleared.\<close>

fun snap_loop :: "snap_entry list \<Rightarrow> process_info \<Rightarrow> monitor \<Rightarrow> monitor" where
  "snap_loop [] tmpProcess s = s"
| "snap_loop ((name, pid, threads, hProcess) # es) tmpProcess s =
     (case hProcess of None \<Rightarrow> snap_loop es tmpProcess s
      | Some h \<Rightarrow> (let p = tmpProcess\<lparr>handle := h, processName := name, PID := pid, threadCount := threads\<rparr> in
          snap_loop es p (s\<lparr>mlistProcess := mlistProcess s @ [p], opened := opened s @ [h]\<rparr>)))"

definition getProcessList_Win :: "snap_entry list option \<Rightarrow> process_info \<Rightarrow> monitor \<Rightarrow> bool \<times> monitor" where
  "getProcessList_Win snapshot tmpProcess s =
     (case snapshot of None \<Rightarrow> (False, s) | Some [] \<Rightarrow> (False, s) | Some es \<Rightarrow> (True, snap_loop es tmpProcess s))"

section \<open>Processors and memory\<close>

text \<open>\<open>FILETIME\<close>, its lower and its upper half.\<close>

definition file_time_2_utc :: "32 word \<times> 32 word \<Rightarrow> 64 word" where
  "file_time_2_utc ftime = ucast (fst ftime) OR push_bit 32 (ucast (snd ftime))"

text \<open>The times of a process, kernel and user; they stay as they are when they cannot be had.\<close>

type_synonym times = "(32 word \<times> 32 word) \<times> (32 word \<times> 32 word)"

definition process_time :: "64 word \<Rightarrow> times \<Rightarrow> 64 word" where
  "process_time cpuCores t = (file_time_2_utc (fst t) + file_time_2_utc (snd t)) div cpuCores"

fun times_loop :: "(nat \<Rightarrow> times option) \<Rightarrow> times \<Rightarrow> process_info list \<Rightarrow> times list \<times> times" where
  "times_loop get_times t [] = ([], t)"
| "times_loop get_times t (p # ps) = (let t1 = (case get_times (handle p) of None \<Rightarrow> t | Some t' \<Rightarrow> t') in
     (let (ts, t2) = times_loop get_times t1 ps in (t1 # ts, t2)))"

text \<open>The system time and the times of the processes before and after a second.\<close>

definition getProcessCPU_Win :: "64 word \<Rightarrow> times \<Rightarrow> 64 word \<times> (nat \<Rightarrow> times option) \<Rightarrow> 64 word \<times> (nat \<Rightarrow> times option) \<Rightarrow> monitor \<Rightarrow> monitor" where
  "getProcessCPU_Win cpuCores t0 before after s =
     (let (ts1, t1) = times_loop (snd before) t0 (mlistProcess s);
          (ts2, t2) = times_loop (snd after) t1 (mlistProcess s);
          sys_time_delta = fst after - fst before in
      s\<lparr>mlistProcess := map2 (\<lambda>p (a, b). p\<lparr>cpuRate := Some (process_time cpuCores b - process_time cpuCores a, sys_time_delta)\<rparr>)
        (mlistProcess s) (zip ts1 ts2)\<rparr>)"

text \<open>\<open>QueryWorkingSet\<close>: for each page whether it is shared, or how many pages there are, or an error.  The
  structure has room for one page.  A failed allocation throws an object, but a pointer is caught.\<close>

datatype ws_answer = Ws_pages "bool list" | Ws_bad_length nat | Ws_error

definition private_size :: "64 word \<Rightarrow> bool list \<Rightarrow> 64 word" where
  "private_size dwPageSize shared = (dwPageSize * of_nat (length (filter Not shared))) div 1024"

definition working_set :: "64 word \<Rightarrow> ws_answer \<Rightarrow> bool \<Rightarrow> bool list option \<Rightarrow> 64 word option" where
  "working_set dwPageSize first avail second =
     (case first of
        Ws_pages shared \<Rightarrow> if length shared \<le> 1 then Some (private_size dwPageSize shared) else None
      | Ws_bad_length n \<Rightarrow> (if \<not> avail then None
          else (case second of None \<Rightarrow> Some 0
            | Some shared \<Rightarrow> Some (private_size dwPageSize (take n (shared @ replicate n False)))))
      | Ws_error \<Rightarrow> Some 0)"

text \<open>Before Windows 8 the size of the working set is asked for instead.\<close>

definition getProcessMemory_Win :: "bool \<Rightarrow> 64 word \<Rightarrow> ws_answer \<times> bool \<times> bool list option \<Rightarrow> 64 word option \<Rightarrow> 64 word option" where
  "getProcessMemory_Win windows8 dwPageSize ws counters =
     (if windows8 then (let (first, avail, second) = ws in working_set dwPageSize first avail second)
      else (case counters of None \<Rightarrow> Some (-1) | Some WorkingSetSize \<Rightarrow> Some (WorkingSetSize div 1024)))"

section \<open>Images\<close>

text \<open>The file \<open>process.cmdline\<close> if it can be written, by the image of each handle.\<close>

fun cmd_loop :: "(nat \<Rightarrow> bytes option) \<Rightarrow> process_info list \<Rightarrow> process_info list \<times> bytes" where
  "cmd_loop image_of [] = ([], [])"
| "cmd_loop image_of (p # ps) = (let (qs, fp) = cmd_loop image_of ps in
     case image_of (handle p) of None \<Rightarrow> (p # qs, fp)
     | Some c \<Rightarrow> (p\<lparr>cmdLine := c\<rparr> # qs, processName p @ ascii ''  '' @ c @ [10] @ fp))"

definition getCMDLine :: "bool \<Rightarrow> (nat \<Rightarrow> bytes option) \<Rightarrow> monitor \<Rightarrow> int \<times> bytes option \<times> monitor" where
  "getCMDLine opens image_of s =
     (if \<not> opens then (-1, None, s)
      else (let (ps, fp) = cmd_loop image_of (mlistProcess s) in (0, Some fp, s\<lparr>mlistProcess := ps\<rparr>)))"

text \<open>The other one says that its array of 1024 has 20480 characters.\<close>

definition getCMDLine_one :: "bytes option \<Rightarrow> process_info \<Rightarrow> process_info option" where
  "getCMDLine_one image_of process = (case image_of of None \<Rightarrow> Some process
     | Some c \<Rightarrow> if length c < 1024 then Some (process\<lparr>cmdLine := c\<rparr>)
         else if length c < 20480 then None else Some process)"

section \<open>Ports\<close>

text \<open>A stream is what is left of its text, or \<open>None\<close> once an extraction has failed.  Words are extracted into
  arrays, without a look at their sizes; a variable keeps its value if nothing is left.\<close>

definition blank :: "byte \<Rightarrow> bool" where
  "blank c \<longleftrightarrow> c = 32 \<or> 9 \<le> c \<and> c \<le> 13"

definition ss_word :: "nat \<Rightarrow> bytes \<times> bytes option \<Rightarrow> (bytes \<times> bytes option) option" where
  "ss_word size_of p = (let (old, ss) = p in
     case ss of None \<Rightarrow> Some (old, None)
     | Some text1 \<Rightarrow> (let t = dropWhile blank text1 in
         if t = [] then Some (old, None)
         else (let w = takeWhile (\<lambda>c. \<not> blank c) t in
           if length w < size_of then Some (w, Some (dropWhile (\<lambda>c. \<not> blank c) t)) else None)))"

definition is_digit :: "byte \<Rightarrow> bool" where
  "is_digit c \<longleftrightarrow> 48 \<le> c \<and> c \<le> 57"

text \<open>An \<open>int\<close>, with a sign or without; 0 if there is no number, a bound if it does not fit.\<close>

definition ss_int :: "int \<times> bytes option \<Rightarrow> int \<times> bytes option" where
  "ss_int p = (let (old, ss) = p in
     case ss of None \<Rightarrow> (old, None)
     | Some text1 \<Rightarrow> (let t = dropWhile blank text1 in
         if t = [] then (old, None)
         else (let neg = (hd t = 45); u = (if hd t = 45 \<or> hd t = 43 then tl t else t); ds = takeWhile is_digit u in
           case parse_dec ds of None \<Rightarrow> (0, None)
           | Some n \<Rightarrow> (let v = (if neg then - int n else int n) in
               if v < - (2 ^ 31) then (- (2 ^ 31), None) else if 2 ^ 31 \<le> v then (2 ^ 31 - 1, None)
               else (v, Some (dropWhile is_digit u))))))"

text \<open>\<open>insert\<close> into a \<open>multimap\<close>: behind the entries with the same key.\<close>

fun multi_insert :: "int \<times> 'a \<Rightarrow> (int \<times> 'a) list \<Rightarrow> (int \<times> 'a) list" where
  "multi_insert e [] = [e]"
| "multi_insert e (x # xs) = (if fst e < fst x then e # x # xs else x # multi_insert e xs)"

text \<open>A line of \<open>netstat\<close>.  The structure \<open>tmp_port\<close> is not cleared for it.\<close>

definition port_line :: "bytes \<Rightarrow> port_info \<times> (int \<times> port_info) list \<Rightarrow> (port_info \<times> (int \<times> port_info) list) option" where
  "port_line linebuffer st = (let (tmp, m) = st in
     case ss_word 16 (szProto tmp, Some linebuffer) of None \<Rightarrow> None | Some (proto, ss1) \<Rightarrow>
     (case ss_word 64 (szLocal tmp, ss1) of None \<Rightarrow> None | Some (loc, ss2) \<Rightarrow>
     (case ss_word 64 (szForeign tmp, ss2) of None \<Rightarrow> None | Some (foreign, ss3) \<Rightarrow>
      (let tmp1 = tmp\<lparr>szProto := proto, szLocal := loc, szForeign := foreign\<rparr> in
       if proto = ascii ''TCP'' then
         (case ss_word 32 (szState tmp1, ss3) of None \<Rightarrow> None | Some (state, ss4) \<Rightarrow>
           (let tmp2 = tmp1\<lparr>szState := state, port_PID := fst (ss_int (port_PID tmp1, ss4))\<rparr> in
            Some (tmp2, multi_insert (port_PID tmp2, tmp2) m)))
       else if proto = ascii ''UDP'' then
         (let tmp2 = tmp1\<lparr>port_PID := fst (ss_int (port_PID tmp1, ss3))\<rparr> in
          Some (tmp2, multi_insert (port_PID tmp2, tmp2) m))
       else Some (tmp1, m)))))"

text \<open>\<open>fgets\<close> with an array of 512; the text of a line ends at a zero octet.\<close>

fun upto_nl :: "nat \<Rightarrow> bytes \<Rightarrow> bytes" where
  "upto_nl 0 fp = []"
| "upto_nl (Suc n) [] = []"
| "upto_nl (Suc n) (c # fp) = (if c = 10 then [c] else c # upto_nl n fp)"

function port_loop :: "bytes \<Rightarrow> port_info \<times> (int \<times> port_info) list \<Rightarrow> (port_info \<times> (int \<times> port_info) list) option" where
  "port_loop fp st = (if fp = [] then Some st
     else (case port_line (takeWhile (\<lambda>c. c \<noteq> 0) (upto_nl 511 fp)) st of None \<Rightarrow> None
       | Some st1 \<Rightarrow> port_loop (drop (length (upto_nl 511 fp)) fp) st1))"
  by pat_completeness auto
termination
proof (relation "measure (\<lambda>(fp, st). length fp)")
  fix fp :: bytes and st :: "port_info \<times> (int \<times> port_info) list" and st1
  assume "fp \<noteq> []"
  then have "upto_nl 511 fp \<noteq> []" by (cases fp) (simp_all add: numeral_eq_Suc)
  with \<open>fp \<noteq> []\<close> show "((drop (length (upto_nl 511 fp)) fp, st1), fp, st) \<in> measure (\<lambda>(fp, st). length fp)" by simp
qed simp

declare port_loop.simps [simp del]

definition getPortList :: "bytes option \<Rightarrow> monitor \<Rightarrow> (int \<times> monitor) option" where
  "getPortList netstat s = (case netstat of None \<Rightarrow> Some (-1, s)
     | Some fp \<Rightarrow> map_option (\<lambda>(tmp, m). (0, s\<lparr>m_mapPort := m\<rparr>)) (port_loop fp (PortInfo, [])))"

text \<open>\<open>sscanf_s\<close> with \<open>%[^:]:%s\<close> into two arrays of 16; an array whose item does not fit gets the empty text.\<close>

definition scan_local :: "bytes \<Rightarrow> bytes \<times> bytes \<Rightarrow> bytes \<times> bytes" where
  "scan_local loc p = (let (ip, port) = p; f = takeWhile (\<lambda>c. c \<noteq> 58) loc; rest = drop (length f + 1) loc;
       t = dropWhile blank rest; w = takeWhile (\<lambda>c. \<not> blank c) t in
     if f = [] then (ip, port)
     else if 16 \<le> length f then ([], port)
     else if length f = length loc \<or> t = [] then (f, port)
     else if 16 \<le> length w then (f, []) else (f, w))"

fun ports_loop :: "port_info list \<Rightarrow> bytes \<times> bytes \<Rightarrow> bytes \<Rightarrow> bytes" where
  "ports_loop [] p ret_ports = ret_ports"
| "ports_loop (e # es) p ret_ports = (let p1 = scan_local (szLocal e) p in ports_loop es p1 (ret_ports @ snd p1 @ ascii '',''))"

definition getProcessPort :: "int \<Rightarrow> (int \<times> port_info) list \<Rightarrow> bytes" where
  "getProcessPort pid m = (let ret_ports = ports_loop (map snd (filter (\<lambda>e. fst e = pid) m)) ([], []) [] in
     if ret_ports \<noteq> [] \<and> last ret_ports = 44 then butlast ret_ports else ret_ports)"

section \<open>All of it\<close>

fun memory_loop :: "(nat \<Rightarrow> 64 word option) \<Rightarrow> process_info list \<Rightarrow> process_info list option" where
  "memory_loop memory_of [] = Some []"
| "memory_loop memory_of (p # ps) = (case memory_of (handle p) of None \<Rightarrow> None
     | Some n \<Rightarrow> map_option (Cons (p\<lparr>RSS := n\<rparr>)) (memory_loop memory_of ps))"

text \<open>What is printed is the list afterwards; every handle in the list is closed.\<close>

definition getProcess_Win :: "snap_entry list option \<Rightarrow> process_info \<Rightarrow>
    64 word \<times> times \<times> (64 word \<times> (nat \<Rightarrow> times option)) \<times> (64 word \<times> (nat \<Rightarrow> times option)) \<Rightarrow> (nat \<Rightarrow> 64 word option) \<Rightarrow>
    bool \<times> (nat \<Rightarrow> bytes option) \<Rightarrow> bytes option \<Rightarrow> monitor \<Rightarrow> monitor option" where
  "getProcess_Win snapshot tmpProcess cpu memory_of images netstat s =
     (let (cpuCores, t0, before, after) = cpu;
          s1 = getProcessCPU_Win cpuCores t0 before after (snd (getProcessList_Win snapshot tmpProcess s)) in
      case memory_loop memory_of (mlistProcess s1) of None \<Rightarrow> None
      | Some ps \<Rightarrow>
        (let s2 = snd (snd (getCMDLine (fst images) (snd images) (s1\<lparr>mlistProcess := ps\<rparr>))) in
         case getPortList netstat s2 of None \<Rightarrow> None
         | Some (_, s3) \<Rightarrow> Some (s3\<lparr>mlistProcess := map (\<lambda>p. p\<lparr>ports := getProcessPort (PID p) (m_mapPort s3)\<rparr>) (mlistProcess s3),
             closed := closed s3 @ map handle (mlistProcess s3)\<rparr>)))"

end
