(* ===== verification/ProcessMonitorProps.thy ===== *)
theory ProcessMonitorProps
  imports ProcessMonitor
begin

text \<open>
  Properties of \<open>ProcessMonitor\<close>: the handles that are opened and closed, and the ports that are taken from
  what \<open>netstat\<close> prints and shown for a process.
\<close>

section \<open>Handles\<close>

fun handles_of :: "snap_entry list \<Rightarrow> nat list" where
  "handles_of [] = []"
| "handles_of ((name, pid, threads, h) # es) = (case h of None \<Rightarrow> handles_of es | Some x \<Rightarrow> x # handles_of es)"

lemma snap_loop_handles:
  "opened (snap_loop es t s) = opened s @ handles_of es \<and> closed (snap_loop es t s) = closed s \<and>
   map handle (mlistProcess (snap_loop es t s)) = map handle (mlistProcess s) @ handles_of es"
  by (induction es t s rule: snap_loop.induct) (auto simp: Let_def split: option.split)

lemma length_times_loop: "length (fst (times_loop get_times t ps)) = length ps"
  by (induction ps arbitrary: t) (simp_all add: Let_def split_beta split: option.split)

lemma map_fst_zip_with: "length ys = length xs \<Longrightarrow> map (\<lambda>p. f (fst p)) (zip xs ys) = map f xs"
  by (induction ys xs rule: list_induct2) simp_all

lemma cpu_handles:
  "opened (getProcessCPU_Win c t b a s) = opened s" "closed (getProcessCPU_Win c t b a s) = closed s"
  "map handle (mlistProcess (getProcessCPU_Win c t b a s)) = map handle (mlistProcess s)"
proof -
  show "opened (getProcessCPU_Win c t b a s) = opened s" "closed (getProcessCPU_Win c t b a s) = closed s"
    by (simp_all add: getProcessCPU_Win_def Let_def split_beta)
  show "map handle (mlistProcess (getProcessCPU_Win c t b a s)) = map handle (mlistProcess s)"
    by (simp add: getProcessCPU_Win_def Let_def split_beta comp_def length_times_loop map_fst_zip_with)
qed

lemma memory_handles: "memory_loop memory_of ps = Some qs \<Longrightarrow> map handle qs = map handle ps"
  by (induction ps arbitrary: qs) (auto split: option.splits)

lemma cmd_handles: "map handle (fst (cmd_loop image_of ps)) = map handle ps"
  by (induction ps) (simp_all add: Let_def split_beta split: option.split)

text \<open>A round closes all handles in the list, and the list is never cleared: those of the first round are
  closed once more by each later one.\<close>

theorem rounds_close_again:
  assumes "getProcess_Win (Some (e # es)) tmp cpu memory_of images netstat s = Some s1"
  shows "opened s1 = opened s @ handles_of (e # es) \<and>
    closed s1 = closed s @ map handle (mlistProcess s) @ handles_of (e # es) \<and>
    map handle (mlistProcess s1) = map handle (mlistProcess s) @ handles_of (e # es)"
proof -
  obtain c t b a where cpu: "cpu = (c, t, b, a)" by (cases cpu)
  let ?s1 = "getProcessCPU_Win c t b a (snap_loop (e # es) tmp s)"
  obtain ps where ps: "memory_loop memory_of (mlistProcess ?s1) = Some ps"
    using assms by (auto simp: getProcess_Win_def cpu getProcessList_Win_def Let_def split: option.splits)
  let ?s2 = "snd (snd (getCMDLine (fst images) (snd images) (?s1\<lparr>mlistProcess := ps\<rparr>)))"
  obtain r s3 where s3: "getPortList netstat ?s2 = Some (r, s3)"
      "s1 = s3\<lparr>mlistProcess := map (\<lambda>p. p\<lparr>ports := getProcessPort (PID p) (m_mapPort s3)\<rparr>) (mlistProcess s3), closed := closed s3 @ map handle (mlistProcess s3)\<rparr>"
    using assms ps by (auto simp: getProcess_Win_def cpu getProcessList_Win_def Let_def split: option.splits prod.splits)
  have "opened s3 = opened ?s2" "closed s3 = closed ?s2" "mlistProcess s3 = mlistProcess ?s2"
    using s3(1) by (auto simp: getPortList_def split: option.splits prod.splits)
  moreover have "opened ?s2 = opened ?s1" "closed ?s2 = closed ?s1" "map handle (mlistProcess ?s2) = map handle ps"
    by (simp_all add: getCMDLine_def Let_def split_beta cmd_handles)
  moreover have "map handle ps = map handle (mlistProcess ?s1)" by (rule memory_handles [OF ps])
  ultimately show ?thesis
    using snap_loop_handles [of "e # es" tmp s] s3(2) by (simp add: cpu_handles comp_def del: snap_loop.simps handles_of.simps)
qed

section \<open>Streams\<close>

lemma dropWhile_blank: "list_all blank ws \<Longrightarrow> dropWhile blank (ws @ t) = dropWhile blank t"
  by (induction ws) simp_all

lemma takeWhile_word: "list_all (\<lambda>c. \<not> blank c) w \<Longrightarrow> rest = [] \<or> blank (hd rest) \<Longrightarrow>
    takeWhile (\<lambda>c. \<not> blank c) (w @ rest) = w \<and> dropWhile (\<lambda>c. \<not> blank c) (w @ rest) = rest"
  by (induction w) (cases rest; simp)+

definition word_ok :: "nat \<Rightarrow> bytes \<Rightarrow> bool" where
  "word_ok n w \<longleftrightarrow> w \<noteq> [] \<and> length w < n \<and> list_all (\<lambda>c. \<not> blank c) w"

lemma ss_word_takes:
  assumes "list_all blank ws" "word_ok n w" "rest = [] \<or> blank (hd rest)"
  shows "ss_word n (old, Some (ws @ w @ rest)) = Some (w, Some rest)"
proof -
  have "dropWhile blank (ws @ w @ rest) = w @ rest"
    using assms(1,2) by (cases w) (simp_all add: dropWhile_blank word_ok_def)
  then show ?thesis using assms takeWhile_word [of w rest] by (simp add: ss_word_def word_ok_def Let_def del: dropWhile_eq_Nil_conv)
qed

lemma digit_not_blank: "48 \<le> c \<Longrightarrow> c \<le> 57 \<Longrightarrow> \<not> blank c \<and> c \<noteq> 45 \<and> c \<noteq> 43 \<and> c \<noteq> 10 \<and> c \<noteq> 0"
  by (auto simp: blank_def word_le_nat_alt word_unat_eq_iff)

lemma takeWhile_digits: "list_all is_digit w \<Longrightarrow> rest = [] \<or> \<not> is_digit (hd rest) \<Longrightarrow>
    takeWhile is_digit (w @ rest) = w \<and> dropWhile is_digit (w @ rest) = rest"
  by (induction w) (cases rest; simp)+

lemma dec_is_digit: "list_all is_digit (dec n)"
  using dec_digits [of _ n] by (auto simp: list_all_iff is_digit_def)

lemma ss_int_takes:
  assumes "list_all blank ws" "n < 2 ^ 31" "rest = [] \<or> \<not> is_digit (hd rest)"
  shows "ss_int (old, Some (ws @ dec n @ rest)) = (int n, Some rest)"
proof -
  obtain c cs where d: "dec n = c # cs" using dec_not_empty [of n] by (cases "dec n") auto
  then have c: "48 \<le> c" "c \<le> 57" using dec_is_digit [of n] by (auto simp: is_digit_def)
  have "dropWhile blank (ws @ dec n @ rest) = dec n @ rest"
    using assms(1) d digit_not_blank [OF c] by (simp add: dropWhile_blank)
  moreover have "takeWhile is_digit (dec n @ rest) = dec n \<and> dropWhile is_digit (dec n @ rest) = rest"
    by (rule takeWhile_digits [OF dec_is_digit assms(3)])
  ultimately show ?thesis
    using assms(2) d digit_not_blank [OF c] parse_dec_dec [of n] by (simp add: ss_int_def Let_def)
qed

section \<open>Lines\<close>

lemma upto_nl_line: "10 \<notin> set l \<Longrightarrow> length l < n \<Longrightarrow> upto_nl n (l @ 10 # rest) = l @ [10]"
  by (induction l arbitrary: n) (case_tac n; simp)+

definition plain :: "bytes \<Rightarrow> bool" where
  "plain l \<longleftrightarrow> 10 \<notin> set l \<and> 0 \<notin> set l \<and> length l < 511"

lemma port_loop_line:
  assumes "plain l"
  shows "port_loop (l @ 10 # rest) st = (case port_line (l @ [10]) st of None \<Rightarrow> None | Some st1 \<Rightarrow> port_loop rest st1)"
proof -
  have u: "upto_nl 511 (l @ 10 # rest) = l @ [10]" using assms by (simp add: plain_def upto_nl_line)
  have "takeWhile (\<lambda>c. c \<noteq> 0) (l @ [10]) = l @ [10]" using assms by (auto simp: plain_def takeWhile_eq_all_conv)
  then show ?thesis by (subst port_loop.simps) (simp add: u cong: option.case_cong)
qed

text \<open>An entry of the table: the address, the port, the address of the other end, the state, the process.\<close>

type_synonym net_entry = "bytes \<times> bytes \<times> bytes \<times> bytes \<times> nat"

definition entry_ok :: "net_entry \<Rightarrow> bool" where
  "entry_ok e \<longleftrightarrow> (let (ip, port, foreign, state, pid) = e in
     word_ok 16 ip \<and> 58 \<notin> set ip \<and> word_ok 16 port \<and> word_ok 64 foreign \<and> word_ok 32 state \<and>
     0 \<notin> set ip \<union> set port \<union> set foreign \<union> set state \<and> pid < 2 ^ 31)"

definition entry_pid :: "net_entry \<Rightarrow> int" where
  "entry_pid e = (let (ip, port, foreign, state, pid) = e in int pid)"

definition entry_port :: "net_entry \<Rightarrow> bytes" where
  "entry_port e = (let (ip, port, foreign, state, pid) = e in port)"

definition tcp_text :: "net_entry \<Rightarrow> bytes" where
  "tcp_text e = (let (ip, port, foreign, state, pid) = e in
     ascii ''  TCP    '' @ (ip @ 58 # port) @ ascii ''    '' @ foreign @ ascii ''    '' @ state @ ascii ''    '' @ dec pid)"

definition tcp_info :: "net_entry \<Rightarrow> port_info" where
  "tcp_info e = (let (ip, port, foreign, state, pid) = e in
     \<lparr>szProto = ascii ''TCP'', szLocal = ip @ 58 # port, szForeign = foreign, szState = state, port_PID = int pid\<rparr>)"

lemma blanks: "list_all blank (ascii ''  '')" "list_all blank (ascii ''    '')" "blank 10" "\<not> blank 58" "blank 32"
  by (simp_all add: ascii_def blank_def)

lemma port_line_tcp:
  assumes "entry_ok e"
  shows "port_line (tcp_text e @ [10]) (tmp, m) = Some (tcp_info e, multi_insert (entry_pid e, tcp_info e) m)"
proof -
  obtain ip port foreign state pid where e: "e = (ip, port, foreign, state, pid)" by (cases e)
  let ?l4 = "ascii ''    '' @ dec pid @ [10]"
  let ?l3 = "ascii ''    '' @ state @ ?l4"
  let ?l2 = "ascii ''    '' @ foreign @ ?l3"
  have hd: "blank (hd (ascii ''    '' @ x))" for x by (simp add: ascii_def blank_def)
  have local: "word_ok 64 (ip @ 58 # port)" using assms by (auto simp: e entry_ok_def word_ok_def blanks)
  have split: "tcp_text e @ [10] = ascii ''  '' @ ascii ''TCP'' @ ascii ''    '' @ (ip @ 58 # port) @ ?l2"
    by (simp add: tcp_text_def e ascii_def)
  have 1: "ss_word 16 (szProto tmp, Some (ascii ''  '' @ ascii ''TCP'' @ ascii ''    '' @ (ip @ 58 # port) @ ?l2)) =
      Some (ascii ''TCP'', Some (ascii ''    '' @ (ip @ 58 # port) @ ?l2))"
    by (rule ss_word_takes) (auto simp: blanks hd, simp add: word_ok_def ascii_def blank_def)
  have 2: "ss_word 64 (old, Some (ascii ''    '' @ (ip @ 58 # port) @ ?l2)) = Some (ip @ 58 # port, Some ?l2)" for old
    by (rule ss_word_takes) (simp_all only: blanks hd local simp_thms)
  have 3: "ss_word 64 (old, Some ?l2) = Some (foreign, Some ?l3)" for old
    by (rule ss_word_takes) (use assms in \<open>simp_all only: blanks hd simp_thms\<close>, simp add: e entry_ok_def)
  have 4: "ss_word 32 (old, Some ?l3) = Some (state, Some ?l4)" for old
    by (rule ss_word_takes) (use assms in \<open>simp_all only: blanks hd simp_thms\<close>, simp add: e entry_ok_def)
  have 5: "ss_int (old, Some ?l4) = (int pid, Some [10])" for old
    by (rule ss_int_takes) (use assms in \<open>simp_all add: blanks e entry_ok_def is_digit_def\<close>)
  show ?thesis
    unfolding split by (simp only: port_line_def Let_def prod.case option.case 1 2 3 4 5 fst_conv)
      (cases tmp; simp add: tcp_info_def e entry_pid_def)
qed

lemma word_no_nl: "word_ok n w \<Longrightarrow> 10 \<notin> set w"
  by (auto simp: word_ok_def list_all_iff blanks)

lemma dec_length:
  assumes "n < 10 ^ k" "0 < k"
  shows "length (dec n) \<le> k"
  using assms
proof (induction k arbitrary: n)
  case (Suc k)
  show ?case
  proof (cases "n < 10")
    case True
    then show ?thesis by (subst dec.simps) simp
  next
    case False
    then have "0 < k" using Suc.prems(1) by (cases k) auto
    moreover have "n div 10 < 10 ^ k" using Suc.prems(1) by (simp add: less_mult_imp_div_less mult.commute)
    ultimately have "length (dec (n div 10)) \<le> k" by (rule Suc.IH [rotated])
    with False show ?thesis by (subst dec.simps) simp
  qed
qed simp

lemma plain_tcp:
  assumes "entry_ok e"
  shows "plain (tcp_text e)"
proof -
  obtain ip port foreign state pid where e: "e = (ip, port, foreign, state, pid)" by (cases e)
  have ok: "word_ok 16 ip" "word_ok 16 port" "word_ok 64 foreign" "word_ok 32 state" "0 \<notin> set ip \<union> set port \<union> set foreign \<union> set state"
      "pid < 2 ^ 31"
    using assms by (auto simp: e entry_ok_def)
  have "length (dec pid) \<le> 10" by (rule dec_length) (use ok(6) in simp_all)
  then have "length (tcp_text e) < 511" using ok by (simp add: e tcp_text_def word_ok_def ascii_def)
  moreover have "10 \<notin> set (dec pid)" "0 \<notin> set (dec pid)"
    using dec_is_digit [of pid] digit_not_blank by (auto simp: list_all_iff is_digit_def)
  ultimately show ?thesis
    using ok(5) word_no_nl [OF ok(1)] word_no_nl [OF ok(2)] word_no_nl [OF ok(3)] word_no_nl [OF ok(4)]
    by (auto simp: plain_def e tcp_text_def ascii_def)
qed

section \<open>The table\<close>

lemma multi_insert_sorted:
  assumes "sorted (map fst m)"
  shows "sorted (map fst (multi_insert e m)) \<and>
    filter (\<lambda>x. fst x = k) (multi_insert e m) = filter (\<lambda>x. fst x = k) m @ (if fst e = k then [e] else [])"
  using assms
proof (induction m)
  case (Cons x m)
  have set: "set (multi_insert e m) = insert e (set m)" by (induction m) auto
  show ?case
  proof (cases "fst e < fst x")
    case True
    then have "filter (\<lambda>y. fst y = fst e) (x # m) = []" using Cons.prems by (auto simp: filter_empty_conv)
    with True Cons.prems show ?thesis by auto
  next
    case False
    then show ?thesis using Cons set by auto
  qed
qed simp

lemma port_loop_tcp:
  assumes "list_all entry_ok es" "sorted (map fst m)"
  shows "\<exists>tmp' m'. port_loop (concat (map (\<lambda>e. tcp_text e @ [10]) es)) (tmp, m) = Some (tmp', m') \<and>
    filter (\<lambda>x. fst x = k) m' = filter (\<lambda>x. fst x = k) m @ map (\<lambda>e. (k, tcp_info e)) (filter (\<lambda>e. entry_pid e = k) es)"
  using assms
proof (induction es arbitrary: tmp m)
  case Nil
  then show ?case by (simp add: port_loop.simps)
next
  case (Cons e es)
  let ?m = "multi_insert (entry_pid e, tcp_info e) m"
  have m: "sorted (map fst ?m)" "filter (\<lambda>x. fst x = k) ?m = filter (\<lambda>x. fst x = k) m @ (if entry_pid e = k then [(k, tcp_info e)] else [])"
    using multi_insert_sorted [OF Cons.prems(2), of "(entry_pid e, tcp_info e)" k] by auto
  have ok: "entry_ok e" "list_all entry_ok es" using Cons.prems(1) by simp_all
  have "port_loop (concat (map (\<lambda>e. tcp_text e @ [10]) (e # es))) (tmp, m) = port_loop (concat (map (\<lambda>e. tcp_text e @ [10]) es)) (tcp_info e, ?m)"
    by (simp add: port_loop_line [OF plain_tcp [OF ok(1)]] port_line_tcp [OF ok(1)])
  with Cons.IH [OF ok(2) m(1), of "tcp_info e"] m(2) show ?case by auto
qed

text \<open>The lines before the table.\<close>

definition netstat_head :: bytes where
  "netstat_head = [10] @ ascii ''Active Connections'' @ [10, 10] @
     ascii ''  Proto  Local Address          Foreign Address        State           PID'' @ [10]"

lemma port_loop_head: "\<exists>tmp. port_loop (netstat_head @ rest) (PortInfo, []) = port_loop rest (tmp, [])"
proof -
  have head: "netstat_head @ rest = [] @ 10 # (ascii ''Active Connections'' @ 10 # ([] @ 10 #
      (ascii ''  Proto  Local Address          Foreign Address        State           PID'' @ 10 # rest)))"
    by (simp add: netstat_head_def)
  have plain: "plain []" "plain (ascii ''Active Connections'')"
      "plain (ascii ''  Proto  Local Address          Foreign Address        State           PID'')"
    by (simp_all add: plain_def ascii_def)
  show ?thesis
    unfolding head port_loop_line [OF plain(1)] port_loop_line [OF plain(2)] port_loop_line [OF plain(3)]
    by (simp add: port_line_def ss_word_def ascii_def blank_def PortInfo_def Let_def) (rule exI, rule refl)
qed

section \<open>The ports of a process\<close>

fun joined :: "bytes list \<Rightarrow> bytes" where
  "joined [] = []"
| "joined [p] = p"
| "joined (p # ps) = p @ 44 # joined ps"

lemma joined_commas: "ps \<noteq> [] \<Longrightarrow> concat (map (\<lambda>p. p @ [44]) ps) = joined ps @ [44]"
  by (induction ps rule: joined.induct) simp_all

lemma scan_local_entry:
  assumes "entry_ok e"
  shows "snd (scan_local (szLocal (tcp_info e)) p) = entry_port e"
proof -
  obtain ip port foreign state pid where e: "e = (ip, port, foreign, state, pid)" by (cases e)
  have ok: "word_ok 16 ip" "58 \<notin> set ip" "word_ok 16 port" using assms by (auto simp: e entry_ok_def)
  have "takeWhile (\<lambda>c. c \<noteq> 58) (ip @ 58 # port) = ip" using ok(2) by (subst takeWhile_append2) auto
  moreover have "dropWhile blank port = port" using ok(3) by (cases port) (auto simp: word_ok_def)
  moreover have "takeWhile (\<lambda>c. \<not> blank c) port = port" using ok(3) by (simp add: word_ok_def list_all_iff takeWhile_eq_all_conv)
  ultimately show ?thesis using ok by (simp add: scan_local_def tcp_info_def e entry_port_def Let_def word_ok_def del: takeWhile_eq_all_conv split: prod.split)
qed

lemma ports_loop_entries:
  "list_all entry_ok es \<Longrightarrow> ports_loop (map tcp_info es) p acc = acc @ concat (map (\<lambda>q. q @ [44]) (map entry_port es))"
  by (induction es arbitrary: p acc) (simp_all add: scan_local_entry Let_def ascii_def)



text \<open>A line without a word keeps what the line before it has left, so an entry is in the table twice.\<close>

lemma blank_line_repeats:
  assumes "entry_ok e"
  shows "port_line [10] (tcp_info e, m) = Some (tcp_info e, multi_insert (entry_pid e, tcp_info e) m)"
proof -
  obtain ip port foreign state pid where e: "e = (ip, port, foreign, state, pid)" by (cases e)
  show ?thesis by (simp add: port_line_def ss_word_def ss_int_def blanks tcp_info_def e entry_pid_def Let_def)
qed

end
