(* ===== verification/Spec2Isabelle.thy ===== *)
theory Spec2Isabelle
  imports AmqpMessageProps AmqpTableImpl AmqpClientProps AmqpSession AsioClientsProps ServerConfig
    MySort BitreeProps Backtracking Containers StrFunProps ThreadPoolProps Md5Props IcmpProps LoggingProps SelectServerProps
    RabbitClientProps TunRing TunDhcp TunDeviceProps UrlLogProps HostMonitorProps BatchLoggerProps
    ProcessMonitorProps
begin

text \<open>
  A verification library for the programs of this repository that carry logic of their own.  The
  repository is a collection of C++ projects; these groups of them are modelled.

  The AMQP client, \<open>test_rabbitmq/test_SimpleAmqpClient/SimpleAmqpClient_src\<close>, publishes and
  consumes messages over one connection to a broker.  A user calls \<open>Channel\<close>; each operation takes a
  channel from the pool of \<open>ChannelImpl\<close>, does remote procedure calls on it, reads frames that may
  belong to other channels and queues those, assembles messages, and gives the channel back.
    \<^item> \<open>AmqpTable\<close>: \<open>Table.cpp\<close>, \<open>Table.h\<close>.  A \<open>TableValue\<close> is the datatype \<open>tvalue\<close>; constructors, setters,
      getters with their conversions, comparison.
    \<^item> \<open>AmqpTableImpl\<close>: \<open>TableImpl.cpp\<close>.  Conversion to and from the tables of rabbitmq-c, and copying.
      The pool is the list of allocated sizes; which allocations succeed is a parameter.
    \<^item> \<open>AmqpMessage\<close>, \<open>AmqpMessageProps\<close>: \<open>BasicMessage.cpp\<close>.  A message is a record of its properties,
      body and pool over a heap of owned blocks.  The lemmas treat a message as a map from its
      slots to contents, and give the ownership discipline: every block is freed once.
    \<^item> \<open>AmqpFrames\<close>: frames, method numbers, \<open>Envelope.cpp\<close> and the exceptions.
    \<^item> \<open>AmqpChannelImpl\<close>, \<open>AmqpChannel\<close>: \<open>ChannelImpl.cpp\<close>, \<open>ChannelImpl.h\<close>, \<open>Channel.cpp\<close>.  The record \<open>chan\<close> has
      the members of \<open>ChannelImpl\<close>; an operation maps it to a result or an exception and a new one.
      The rabbitmq-c connection is a parameter: a script of what it delivers and what its send
      functions return.
    \<^item> \<open>AmqpFuel\<close>: the frame loops call each other and carry fuel.  A public operation starts them with
      \<open>work s + 10\<close>, where \<open>work s\<close> counts eight for a frame still to arrive and one for a queued
      frame.  Every cycle of calls uses up work, so the fuel is never used up.
    \<^item> \<open>AmqpChannelProps\<close>, \<open>AmqpClient\<close>, \<open>AmqpClientProps\<close>: the pool's invariant through the locale of the
      predicates that the frame loops keep, the step relation \<open>client\<close> of a connected client whose
      broker may deliver at any time, and what holds of every reachable client and every operation.
    \<^item> \<open>AmqpContent\<close>, \<open>AmqpSession\<close>: reassembly of messages from interleaved frames, and whole operations
      against a broker that answers.

  The message server, \<open>ConsoleTest/example_boost\<close>, serves seven kinds of clients over TCP.
  \<open>AsyncServer\<close> accepts connections on the event loop of Boost.Asio; an \<open>AsyncConnection\<close> reads chunks
  into its buffer, a subclass of \<open>BaseProcess\<close> cuts the buffer into messages and answers each.
    \<^item> \<open>MsgBuffers\<close>: \<open>MsgDefine.h\<close>.  Octets of packed structures, byte order, members by offset; an access
      outside a buffer is an error value.
    \<^item> \<open>MsgResponses\<close>, \<open>DataProcess\<close>: \<open>DataProcess.cpp\<close>.  The texts of the answers, the two framings and the
      seven handlers.
    \<^item> \<open>Framing\<close>: the locale \<open>framing\<close> of a stream splitter for which the cuts between chunks do not matter.
    \<^item> \<open>DataProcessProps\<close>: its interpretation for the conference framing, the exact condition in
      which the device framing throws, and memory safety of the handlers.
    \<^item> \<open>AsioServer\<close>, \<open>AsioServerProps\<close>: \<open>testAsio.cpp\<close>, the server.  The state \<open>world\<close> has the servers, the
      connections and the sockets' buffers; \<open>asio_step\<close> is one completion taken by the event loop,
      with whatever the socket reports.  Invariant of the loop, the accept loop, and a refinement:
      a connection handles exactly the complete messages of its stream.
    \<^item> \<open>AsioClients\<close>, \<open>AsioClientsProps\<close>: the seven clients and what the server makes of their requests.
    \<^item> \<open>ServerConfig\<close>: \<open>AsyncServer::loadConfig\<close>.

  Small programs of \<open>ConsoleTest/ConsoleTest/src\<close>.
    \<^item> \<open>MySort\<close>: \<open>MySort.h\<close>.  Seven sorts on lists, swaps and counters as in the code; the locale \<open>sorter\<close> is
      the contract of a sort.  The quick sorts may run forever, so they are \<open>option\<close>-valued, with
      \<open>None\<close> for a run that does not end, and the theorem says exactly when they return.
    \<^item> \<open>Bitree\<close>, \<open>BitreeProps\<close>: \<open>MyBitree.h\<close>.  A tree of nodes in a heap of pointers; \<open>bitree_at\<close> abstracts it to
      the library's trees, for which the operations are characterised.
    \<^item> \<open>Backtracking\<close>: \<open>backtracking.cpp\<close>.  Subsets by backtracking and by bit masks, binary digits with
      32-bit overflow.
    \<^item> \<open>Containers\<close>: \<open>container/testStack.cpp\<close>, \<open>container/testVector.cpp\<close>.  The queue of two stacks refines
      the locale \<open>fifo\<close>; the binary searches, whose loops return by a measure.

    \<^item> \<open>StrFun\<close>, \<open>StrFunProps\<close>: \<open>stringHandle/str_fun.cpp\<close>.  C strings as buffers with their terminator and what is
      behind it; an access outside the buffer or a loop that does not end is \<open>None\<close>.  Escaping in place
      and removing blanks are compared with functions on the text; the search for a longest part
      without repetition keeps the invariant of its window.
    \<^item> \<open>ThreadPool\<close>, \<open>ThreadPoolProps\<close>: \<open>ThreadPool.h\<close>.  A step of \<open>pool_step\<close> is one critical section of a worker or
      of a client in a public operation, in any interleaving; waking up may be spurious.  The invariant
      \<open>pool_ok\<close> says why each sleeping thread sleeps, so no wake-up is lost; \<open>weight\<close> bounds what the
      workers still do.
    \<^item> \<open>ProcessMonitor\<close>, \<open>ProcessMonitorProps\<close>: \<open>processMonitor.cpp\<close>.  Processes with their handles, and the table of
      ports, read by C++ streams that keep old values when an extraction fails.

  The TUN/TAP device of \<open>ConsoleTest/ConsoleTest/src\<close>, \<open>myTunTap.cpp\<close> and \<open>tuntap.h\<close>, which come from OpenVPN: packets
  pass between the program and a driver through buffers, rings and pending requests.
    \<^item> \<open>TunBuffer\<close>, \<open>TunDhcp\<close>: \<open>tuntap.h\<close>, the option writers.  Memory is partial, so a stray access has no
      result; a buffer is a queue of octets (\<open>buf_write_appends\<close>, \<open>buf_read_takes\<close>), and each option writer
      refines an operation on the octets and the room that is left.
    \<^item> \<open>TunRing\<close>: \<open>read_wintun\<close>, \<open>write_wintun\<close>.  \<open>ring_holds\<close> abstracts a ring to the list of its packets; the locale
      \<open>packet_queue\<close> is the contract of a bounded queue, and the ring is an interpretation of it.
    \<^item> \<open>TunDevice\<close>, \<open>TunDeviceProps\<close>: the arena of blocks, \<open>dev_read\<close>, \<open>dev_write\<close>, \<open>myread\<close> with its answers to ARP,
      and the text of a hardware address, which is read back.

  Small programs of \<open>ConsoleTest/ConsoleTest/src-linux\<close>.
    \<^item> \<open>Md5\<close>, \<open>Md5Props\<close>: \<open>md5.cpp\<close>.  The class \<open>MD5\<close> with its buffer and 32-bit counters; \<open>absorbed\<close> relates an
      object to the message it has taken in, and the digest of RFC 1321 is the specification.  \<open>None\<close>
      is a run that leaves its buffers or does not end.

    \<^item> \<open>Icmp\<close>, \<open>IcmpProps\<close>: \<open>ping.cpp\<close>, \<open>icmp_header.hpp\<close>, \<open>ipv4_header.hpp\<close>, \<open>RawSocket.cpp\<close>.  The one's complement sum of
      RFC 1071 on words is the specification; \<open>rep16\<close> gives it on natural numbers, for which carries
      and byte order are arithmetic modulo 65535.  The pinger is a step relation over an arbitrary
      clock and arbitrary datagrams.
    \<^item> \<open>Logging\<close>, \<open>LoggingProps\<close>: \<open>Mylog.cpp\<close> here and in \<open>src\<close>.  The thread of the log, the destructor and the
      callers as interleaved steps; the order of the messages, and the notification that the destructor
      can lose.
    \<^item> \<open>BatchLogger\<close>, \<open>BatchLoggerProps\<close>: \<open>Logger.cpp\<close>, a log whose thread empties its queue into a file that it opens
      anew each time; steps interleave, and the turns that the thread still needs are counted.
    \<^item> \<open>SelectServer\<close>, \<open>SelectServerProps\<close>: \<open>test_select.cpp\<close>.  The system calls are a list of answers; the loop over
      the descriptors ends by the answers left and the descriptors left.
    \<^item> \<open>UrlLog\<close>, \<open>UrlLogProps\<close>: \<open>MyURL.cpp\<close>.  Lines of traces are taken off the chunks of a download (another
      interpretation of \<open>framing\<close>), cut into fields and judged by their status; arrays have their sizes and
      keep what earlier lines left in them.  The chunks and the errors of curl are parameters.

  Another client, \<open>test_rabbitmq/test_rabbitmq\<close>, calls rabbitmq-c itself.
    \<^item> \<open>RabbitClient\<close>, \<open>RabbitClientProps\<close>: \<open>myrabbit.cpp\<close> over a list of what \<open>amqp_simple_wait_frame\<close> returns; the frames
      are those of \<open>AmqpFrames\<close>.

  The monitor of a Windows host, \<open>Monitor_win/Monitor_win\<close>, reports on processors, memory, drives and adapters.
    \<^item> \<open>HostMonitor\<close>, \<open>HostMonitorProps\<close>: the classes derived from \<open>CDevInfo\<close>.  What Windows reports is a parameter; the
      use of processors is a difference of 64-bit counters, and the speeds of adapters are compared
      with the first rows of their addresses, \<open>firsts\<close>.

  \<open>Prelude\<close> has what the theories share: results of fallible operations, loops over intervals with their
  invariant rule, and the collections \<open>arr\<close> and \<open>wire\<close> that carry the automation.

  Not modelled: vendored libraries (Boost, OpenSSL, mongoose, sqlite, rapidjson, rttr), code generated by
  gSOAP, printing, timing and logging inside the modelled functions,
  \<open>cuda_math.cpp\<close> (IEEE arithmetic), \<open>TestPcap.cpp\<close> (the example of libpcap), and
  programs that only call the system, such as the set-up of the TUN/TAP device and the listings of
  \<open>processMonitor.cpp\<close> from line 497 on; the example tools in \<open>test_rabbitmq/test_rabbitmq\<close>, which are
  adapted from rabbitmq-c; the unit tests of the standard library in \<open>test_container\<close>, \<open>test_class\<close>,
  \<open>template\<close> and \<open>test_general_utility\<close>.
\<close>

end
